(* ===== verification/PG_Prelude.thy ===== *)
theory PG_Prelude
  imports Main "HOL-Library.Word"
begin

unbundle bit_operations_syntax

text \<open>
  The shared vocabulary of the development: bytes and C strings, Ruby values (\<open>VALUE\<close>),
  Ruby exceptions as values of a result type, the parameters that stand for the Ruby
  C API, a byte-addressed memory for the routines that work in place, and the generic
  lemmas on lists, memories and words that the component theories use.
\<close>

section \<open>Bytes, C strings and characters\<close>

type_synonym byte = "8 word"
type_synonym bytes = "byte list"
type_synonym enc_idx = nat
type_synonym oid = "32 word"

text \<open>
  The bytes of a string literal of the C source (\<open>''NULL''\<close>, \<open>''Infinity''\<close>).
\<close>

definition lit :: "string \<Rightarrow> bytes" where
  "lit s = map of_char s"

lemma lit_simps [simp]:
  "lit [] = []"
  "lit (c # cs) = of_char c # lit cs"
  by (simp_all add: lit_def)

lemma length_lit [simp]: "length (lit s) = length s"
  by (simp add: lit_def)

text \<open>The character constants the C source writes as \<open>'x'\<close>.\<close>

abbreviation c_nul :: byte where "c_nul \<equiv> 0"
abbreviation c_bs :: byte where "c_bs \<equiv> 0x08"
abbreviation c_tab :: byte where "c_tab \<equiv> 0x09"
abbreviation c_nl :: byte where "c_nl \<equiv> 0x0A"
abbreviation c_vt :: byte where "c_vt \<equiv> 0x0B"
abbreviation c_ff :: byte where "c_ff \<equiv> 0x0C"
abbreviation c_cr :: byte where "c_cr \<equiv> 0x0D"
abbreviation c_space :: byte where "c_space \<equiv> 0x20"
abbreviation c_dquote :: byte where "c_dquote \<equiv> 0x22"
abbreviation c_squote :: byte where "c_squote \<equiv> 0x27"
abbreviation c_lparen :: byte where "c_lparen \<equiv> 0x28"
abbreviation c_rparen :: byte where "c_rparen \<equiv> 0x29"
abbreviation c_plus :: byte where "c_plus \<equiv> 0x2B"
abbreviation c_comma :: byte where "c_comma \<equiv> 0x2C"
abbreviation c_minus :: byte where "c_minus \<equiv> 0x2D"
abbreviation c_dot :: byte where "c_dot \<equiv> 0x2E"
abbreviation c_slash :: byte where "c_slash \<equiv> 0x2F"
abbreviation c_0 :: byte where "c_0 \<equiv> 0x30"
abbreviation c_9 :: byte where "c_9 \<equiv> 0x39"
abbreviation c_colon :: byte where "c_colon \<equiv> 0x3A"
abbreviation c_eq :: byte where "c_eq \<equiv> 0x3D"
abbreviation c_lbracket :: byte where "c_lbracket \<equiv> 0x5B"
abbreviation c_backslash :: byte where "c_backslash \<equiv> 0x5C"
abbreviation c_rbracket :: byte where "c_rbracket \<equiv> 0x5D"
abbreviation c_lbrace :: byte where "c_lbrace \<equiv> 0x7B"
abbreviation c_rbrace :: byte where "c_rbrace \<equiv> 0x7D"

text \<open>The C library's \<open>isdigit\<close> in the C locale.\<close>

definition isdigit :: "byte \<Rightarrow> bool" where
  "isdigit c \<longleftrightarrow> c_0 \<le> c \<and> c \<le> c_9"

lemma isdigit_nul [simp]: "\<not> isdigit c_nul"
  by (simp add: isdigit_def)

text \<open>Integer division of C, which truncates towards zero, for positive divisors.\<close>

definition cdiv :: "int \<Rightarrow> int \<Rightarrow> int" where
  "cdiv a b = (if a < 0 then - ((- a) div b) else a div b)"

definition cmod :: "int \<Rightarrow> int \<Rightarrow> int" where
  "cmod a b = a - cdiv a b * b"

text \<open>The value of a 32 bit unsigned expression.\<close>

definition u32 :: "int \<Rightarrow> int" where
  "u32 x = x mod 2 ^ 32"

lemma u32_id [simp]: "0 \<le> x \<Longrightarrow> x < 4294967296 \<Longrightarrow> u32 x = x"
  by (simp add: u32_def)

section \<open>Ruby exceptions and results\<close>

text \<open>
  A raise of the C source is a value: the exception class, the format string and the
  integer arguments of the \<open>rb_raise\<close> call; \<open>PGClass\<close> is a class below PG::Error by its name.
  \<open>Rb_bug\<close> is the interpreter abort of
  \<open>rb_bug()\<close> and \<open>MemFault\<close> a read or write outside the bytes the C code owns, which
  C leaves undefined: a routine is memory safe when it never gives \<open>MemFault\<close>.
\<close>

datatype rb_class = ArgError | TypeError | RuntimeError | IndexError | KeyError
  | NoMemError | NotImpError | RangeError | FrozenError | EncCompatError | PGError | PGClass string

datatype rb_exc =
    Raise rb_class string "int list"
  | Rb_bug
  | MemFault

type_synonym 'a res = "rb_exc + 'a"

primrec rbind :: "'a res \<Rightarrow> ('a \<Rightarrow> 'b res) \<Rightarrow> 'b res" where
  "rbind (Inl e) f = Inl e"
| "rbind (Inr x) f = f x"

lemma rbind_cong [fundef_cong]:
  "m = m' \<Longrightarrow> (\<And>x. m' = Inr x \<Longrightarrow> f x = f' x) \<Longrightarrow> rbind m f = rbind m' f'"
  by (cases m') auto

lemma rbind_Inr_iff: "rbind m f = Inr y \<longleftrightarrow> (\<exists>x. m = Inr x \<and> f x = Inr y)"
  by (cases m) auto

lemma rbind_Inl_iff: "rbind m f = Inl e \<longleftrightarrow> m = Inl e \<or> (\<exists>x. m = Inr x \<and> f x = Inl e)"
  by (cases m) auto

lemma rbind_InrE:
  assumes "rbind m f = Inr y"
  obtains x where "m = Inr x" and "f x = Inr y"
  using assms by (auto simp: rbind_Inr_iff)

lemma rbind_assoc: "rbind (rbind m f) g = rbind m (\<lambda>x. rbind (f x) g)"
  by (cases m) auto

lemma rbind_Inr_right [simp]: "rbind m Inr = m"
  by (cases m) auto

definition ok :: "'a res \<Rightarrow> bool" where
  "ok r \<longleftrightarrow> (\<exists>x. r = Inr x)"

lemma ok_Inr [simp]: "ok (Inr x)"
  by (simp add: ok_def)

lemma ok_Inl [simp]: "\<not> ok (Inl e)"
  by (simp add: ok_def)

text \<open>A result is safe when it is no abort and no memory fault; it may be a Ruby exception.\<close>

fun safe :: "'a res \<Rightarrow> bool" where
  "safe (Inl Rb_bug) = False"
| "safe (Inl MemFault) = False"
| "safe _ = True"

lemma safe_iff: "safe r \<longleftrightarrow> r \<noteq> Inl Rb_bug \<and> r \<noteq> Inl MemFault"
  by (cases r rule: safe.cases) simp_all

lemma safe_rbind:
  "safe m \<Longrightarrow> (\<And>x. m = Inr x \<Longrightarrow> safe (f x)) \<Longrightarrow> safe (rbind m f)"
  by (cases m rule: safe.cases) simp_all

section \<open>Ruby values\<close>

text \<open>
  The Ruby objects the type casts look into. A Ruby Integer is one constructor; whether it
  is a Fixnum or a Bignum depends on its size, as in MRI on a 64 bit system. A Float is its
  IEEE double bit pattern. A String has its bytes and its encoding index. Any other object
  (Time, Date, BigDecimal, user classes) is opaque: an identity \<open>RObject\<close>. \<open>Qundef\<close>
  is MRI's marker of a slot that holds no value.
\<close>

datatype rvalue =
    Qnil
  | Qtrue
  | Qfalse
  | Qundef
  | RInteger int
  | RFloat "64 word"
  | RString bytes enc_idx
  | RSymbol bytes
  | RArray "rvalue list"
  | RObject nat

definition FIXNUM_MAX :: int where "FIXNUM_MAX = 2 ^ 62 - 1"
definition FIXNUM_MIN :: int where "FIXNUM_MIN = - (2 ^ 62)"

definition is_fixnum :: "int \<Rightarrow> bool" where
  "is_fixnum i \<longleftrightarrow> FIXNUM_MIN \<le> i \<and> i \<le> FIXNUM_MAX"

datatype rb_type = T_NIL | T_TRUE | T_FALSE | T_UNDEF | T_FIXNUM | T_BIGNUM | T_FLOAT
  | T_STRING | T_SYMBOL | T_ARRAY | T_DATA

fun TYPE_of :: "rvalue \<Rightarrow> rb_type" where
  "TYPE_of Qnil = T_NIL"
| "TYPE_of Qtrue = T_TRUE"
| "TYPE_of Qfalse = T_FALSE"
| "TYPE_of Qundef = T_UNDEF"
| "TYPE_of (RInteger i) = (if is_fixnum i then T_FIXNUM else T_BIGNUM)"
| "TYPE_of (RFloat d) = T_FLOAT"
| "TYPE_of (RString s e) = T_STRING"
| "TYPE_of (RSymbol s) = T_SYMBOL"
| "TYPE_of (RArray vs) = T_ARRAY"
| "TYPE_of (RObject n) = T_DATA"

lemma TYPE_of_RInteger [simp]:
  "TYPE_of (RInteger i) \<noteq> T_NIL" "TYPE_of (RInteger i) \<noteq> T_STRING"
  "TYPE_of (RInteger i) \<noteq> T_ARRAY" "TYPE_of (RInteger i) \<noteq> T_FLOAT"
  by (simp_all split: if_splits)

fun str_bytes :: "rvalue \<Rightarrow> bytes" where
  "str_bytes (RString s e) = s"
| "str_bytes _ = []"

fun is_str :: "rvalue \<Rightarrow> bool" where
  "is_str (RString s e) = True"
| "is_str _ = False"

lemma is_str_conv: "is_str v \<longleftrightarrow> (\<exists>s e. v = RString s e)"
  by (cases v) auto

text \<open>The C macros \<open>NUM2INT\<close>, \<open>NUM2LONG\<close> and \<open>NUM2LL\<close> on a Ruby Integer: a
  value outside the C type raises RangeError; a value that is no Integer raises TypeError
  (Float arguments are truncated by MRI; that conversion is the parameter \<open>f2i\<close>).\<close>

definition int_in :: "nat \<Rightarrow> int \<Rightarrow> bool" where
  "int_in w i \<longleftrightarrow> - (2 ^ (w - 1)) \<le> i \<and> i < 2 ^ (w - 1)"

fun num2 :: "nat \<Rightarrow> (64 word \<Rightarrow> int) \<Rightarrow> rvalue \<Rightarrow> int res" where
  "num2 w f2i (RInteger i) =
     (if int_in w i then Inr i else Inl (Raise RangeError ''integer too big to convert'' [i]))"
| "num2 w f2i (RFloat d) =
     (if int_in w (f2i d) then Inr (f2i d)
      else Inl (Raise RangeError ''float out of range of integer'' [f2i d]))"
| "num2 w f2i _ = Inl (Raise TypeError ''no implicit conversion into Integer'' [])"

lemma safe_num2: "safe (num2 w f v)"
  by (cases "(w, f, v)" rule: num2.cases) auto

section \<open>The Ruby C API as a parameter\<close>

text \<open>
  What the extension calls of the Ruby interpreter and that is not under \<open>ext/\<close>: the
  conversions by method calls on the value (\<open>to_s\<close>, \<open>to_i\<close>, \<open>to_str\<close>, BigDecimal's
  \<open>to_s('F')\<close>), the \<open>encode\<close> and \<open>decode\<close> methods of coders written in Ruby with the
  arity of the former, the transcoding of strings, the capacity of a new string of a given
  length and the capacity after \<open>rb_str_modify_expand(str, expand)\<close> for a string of the given
  length. Of the platform's arithmetic it has \<open>NUM2DBL\<close>, the two results of double arithmetic that
  \<open>TextEncoder::Float\<close> works with (the decimal exponent estimate from \<open>frexp\<close> and the value
  scaled to 16 digits) and what \<open>__builtin_clzll\<close> gives for zero, which GCC leaves undefined.
  The decoders call the number parsers, the constructors of Time, Rational and IPAddr objects
  (an IPAddr by its family, address and mask) and, outside of Ruby, \<open>PQunescapeBytea\<close> of libpq,
  \<open>mktime\<close> and \<open>inet_pton\<close> of the C library, the conversions between float and double, and the
  accessors and constructors of Time and Date objects that the binary coders use.
  \<open>rb_api_ok\<close> is the documented behaviour the C code relies on: string conversions return
  Strings and keep a String argument, the calls may raise but neither abort nor corrupt memory,
  a string's buffer has at least the requested room, decimal exponents are those of doubles and
  the number of leading zero bits is at most the width; \<open>inet_pton\<close> fills 4 or 16 bytes;
  \<open>getlocal\<close> does not turn an object into a String; no method returns the internal \<open>Qundef\<close>.
\<close>

record rb_api =
  rb_obj_as_string :: "rvalue \<Rightarrow> rvalue res"
  rb_StringValue :: "rvalue \<Rightarrow> rvalue res"
  rb_str_export_to_enc :: "rvalue \<Rightarrow> enc_idx \<Rightarrow> rvalue res"
  rb_to_i :: "rvalue \<Rightarrow> rvalue res"
  rb_dbl2int :: "64 word \<Rightarrow> int"
  rb_to_encoding_index :: "rvalue \<Rightarrow> enc_idx res"
  rb_enc_from_encoding :: "enc_idx \<Rightarrow> rvalue"
  rb_is_bigdecimal :: "rvalue \<Rightarrow> bool"
  rb_to_s_F :: "rvalue \<Rightarrow> rvalue res"
  rb_encode_arity :: "rvalue \<Rightarrow> int"
  rb_call_encode :: "rvalue \<Rightarrow> rvalue list \<Rightarrow> rvalue res"
  rb_call_decode :: "rvalue \<Rightarrow> rvalue list \<Rightarrow> rvalue res"
  rb_str_capa :: "nat \<Rightarrow> nat"
  rb_str_modify_expand :: "nat \<Rightarrow> nat \<Rightarrow> nat"
  rb_num2dbl :: "rvalue \<Rightarrow> 64 word res"
  fp_exp10 :: "64 word \<Rightarrow> int"
  fp_scale :: "64 word \<Rightarrow> int \<Rightarrow> 64 word"
  clz_of_zero :: nat
  rb_cstr2inum :: "bytes \<Rightarrow> rvalue res"
  rb_BigDecimal :: "bytes \<Rightarrow> rvalue res"
  rb_cstr_to_dbl :: "bytes \<Rightarrow> 64 word"
  PQunescapeBytea :: "bytes \<Rightarrow> bytes option"
  c_mktime :: "int \<Rightarrow> int \<Rightarrow> int \<Rightarrow> int \<Rightarrow> int \<Rightarrow> int \<Rightarrow> int"
  rb_time_timespec_new :: "int \<Rightarrow> int \<Rightarrow> int \<Rightarrow> rvalue res"
  rb_Rational :: "int \<Rightarrow> int \<Rightarrow> rvalue res"
  rb_Time_new :: "rvalue list \<Rightarrow> rvalue res"
  rb_getlocal :: "rvalue \<Rightarrow> rvalue res"
  rb_utc :: "rvalue \<Rightarrow> rvalue res"
  c_inet_pton :: "bool \<Rightarrow> bytes \<Rightarrow> bytes option"
  rb_ipaddr_alloc :: "int \<Rightarrow> int \<Rightarrow> int \<Rightarrow> rvalue"
  rb_ipaddr_new :: "int \<Rightarrow> int \<Rightarrow> int \<Rightarrow> rvalue res"
  use_ipaddr_alloc :: bool
  rb_time_timespec :: "rvalue \<Rightarrow> (int \<times> int) res"
  rb_utc_offset :: "rvalue \<Rightarrow> rvalue res"
  rb_time_minus :: "rvalue \<Rightarrow> rvalue \<Rightarrow> rvalue res"
  c_dbl2float :: "64 word \<Rightarrow> 32 word"
  c_float2dbl :: "32 word \<Rightarrow> 64 word"
  rb_gregorianP :: "rvalue \<Rightarrow> rvalue res"
  rb_gregorian :: "rvalue \<Rightarrow> rvalue res"
  rb_year :: "rvalue \<Rightarrow> rvalue res"
  rb_month :: "rvalue \<Rightarrow> rvalue res"
  rb_day :: "rvalue \<Rightarrow> rvalue res"
  rb_Date_new :: "int \<Rightarrow> int \<Rightarrow> int \<Rightarrow> rvalue res"

definition rb_api_ok :: "rb_api \<Rightarrow> bool" where
  "rb_api_ok rb \<longleftrightarrow>
     (\<forall>v. safe (rb_obj_as_string rb v) \<and> (\<forall>s. rb_obj_as_string rb v = Inr s \<longrightarrow> is_str s)) \<and>
     (\<forall>b e. rb_obj_as_string rb (RString b e) = Inr (RString b e)) \<and>
     (\<forall>v. safe (rb_StringValue rb v) \<and> (\<forall>s. rb_StringValue rb v = Inr s \<longrightarrow> is_str s)) \<and>
     (\<forall>b e. rb_StringValue rb (RString b e) = Inr (RString b e)) \<and>
     (\<forall>v e. safe (rb_str_export_to_enc rb v e) \<and> (\<forall>s. rb_str_export_to_enc rb v e = Inr s \<longrightarrow> is_str s)) \<and>
     (\<forall>v. safe (rb_to_i rb v)) \<and>
     (\<forall>v. safe (rb_to_encoding_index rb v)) \<and>
     (\<forall>v. safe (rb_to_s_F rb v) \<and> (\<forall>s. rb_to_s_F rb v = Inr s \<longrightarrow> is_str s)) \<and>
     (\<forall>c as. safe (rb_call_encode rb c as)) \<and>
     (\<forall>c as. safe (rb_call_decode rb c as) \<and> rb_call_decode rb c as \<noteq> Inr Qundef) \<and>
     (\<forall>l. l \<le> rb_str_capa rb l) \<and>
     (\<forall>l x. l + x \<le> rb_str_modify_expand rb l x) \<and>
     (\<forall>v. safe (rb_num2dbl rb v)) \<and>
     (\<forall>d. - 324 \<le> fp_exp10 rb d \<and> fp_exp10 rb d \<le> 309) \<and>
     clz_of_zero rb \<le> 64 \<and>
     (\<forall>b. safe (rb_cstr2inum rb b) \<and> safe (rb_BigDecimal rb b)) \<and>
     (\<forall>s n f. safe (rb_time_timespec_new rb s n f)) \<and>
     (\<forall>a b. safe (rb_Rational rb a b)) \<and>
     (\<forall>v. safe (rb_getlocal rb v) \<and> safe (rb_utc rb v)) \<and>
     (\<forall>vs. safe (rb_Time_new rb vs)) \<and>
     (\<forall>f a m. safe (rb_ipaddr_new rb f a m)) \<and>
     (\<forall>v. safe (rb_time_timespec rb v) \<and> safe (rb_utc_offset rb v) \<and> safe (rb_gregorianP rb v) \<and>
        safe (rb_gregorian rb v) \<and> safe (rb_year rb v) \<and> safe (rb_month rb v) \<and> safe (rb_day rb v)) \<and>
     (\<forall>v w. safe (rb_time_minus rb v w)) \<and>
     (\<forall>y m d. safe (rb_Date_new rb y m d)) \<and>
     (\<forall>v4 b d. c_inet_pton rb v4 b = Some d \<longrightarrow> length d = (if v4 then 4 else 16)) \<and>
     (\<forall>v t. \<not> is_str v \<longrightarrow> rb_getlocal rb v = Inr t \<longrightarrow> \<not> is_str t)"

lemma rb_api_okD:
  assumes "rb_api_ok rb"
  shows "safe (rb_obj_as_string rb v)" "rb_obj_as_string rb v = Inr s \<Longrightarrow> is_str s"
    "rb_obj_as_string rb (RString b e) = Inr (RString b e)"
    "safe (rb_StringValue rb v)" "rb_StringValue rb v = Inr s \<Longrightarrow> is_str s"
    "rb_StringValue rb (RString b e) = Inr (RString b e)"
    "safe (rb_str_export_to_enc rb v e)" "rb_str_export_to_enc rb v e = Inr s \<Longrightarrow> is_str s"
    "safe (rb_to_i rb v)" "safe (rb_to_encoding_index rb v)"
    "safe (rb_to_s_F rb v)" "rb_to_s_F rb v = Inr s \<Longrightarrow> is_str s"
    "safe (rb_call_encode rb v as)" "safe (rb_call_decode rb v as)"
    "l \<le> rb_str_capa rb l" "l + x \<le> rb_str_modify_expand rb l x"
    "safe (rb_num2dbl rb v)" "- 324 \<le> fp_exp10 rb d" "fp_exp10 rb d \<le> 309" "clz_of_zero rb \<le> 64"
    "safe (rb_cstr2inum rb b)" "safe (rb_BigDecimal rb b)" "safe (rb_time_timespec_new rb i j k)"
    "safe (rb_Rational rb i j)" "safe (rb_getlocal rb v)" "safe (rb_utc rb v)"
    "safe (rb_Time_new rb as)" "safe (rb_ipaddr_new rb i j k)"
    "safe (rb_time_timespec rb v)" "safe (rb_utc_offset rb v)" "safe (rb_gregorianP rb v)"
    "safe (rb_gregorian rb v)" "safe (rb_year rb v)" "safe (rb_month rb v)" "safe (rb_day rb v)"
    "safe (rb_time_minus rb v v')" "safe (rb_Date_new rb i j k)"
    "c_inet_pton rb v4 b = Some dst \<Longrightarrow> length dst = (if v4 then 4 else 16)"
    "\<not> is_str v \<Longrightarrow> rb_getlocal rb v = Inr s \<Longrightarrow> \<not> is_str s"
    "rb_call_decode rb v as \<noteq> Inr Qundef"
  using assms unfolding rb_api_ok_def by simp_all

text \<open>A small interpreter that satisfies the hypothesis, for evaluating the model.\<close>

definition rb_sample :: rb_api where
  "rb_sample = \<lparr>
     rb_obj_as_string = (\<lambda>v. if is_str v then Inr v else Inr (RString (lit ''obj'') 0)),
     rb_StringValue = (\<lambda>v. if is_str v then Inr v
        else Inl (Raise TypeError ''no implicit conversion into String'' [])),
     rb_str_export_to_enc = (\<lambda>v e. Inr (RString (str_bytes v) e)),
     rb_to_i = (\<lambda>v. Inr (RInteger 0)),
     rb_dbl2int = uint,
     rb_to_encoding_index = (\<lambda>v. Inr 1),
     rb_enc_from_encoding = RObject,
     rb_is_bigdecimal = (\<lambda>v. False),
     rb_to_s_F = (\<lambda>v. Inr (RString [] 0)),
     rb_encode_arity = (\<lambda>v. 1),
     rb_call_encode = (\<lambda>c as. Inr (hd (as @ [Qnil]))),
     rb_call_decode = (\<lambda>c as. Inr (case as of RString b e # _ \<Rightarrow> RString b e | _ \<Rightarrow> Qnil)),
     rb_str_capa = (\<lambda>l. max l 23),
     rb_str_modify_expand = (+),
     rb_num2dbl = (\<lambda>v. case v of RFloat d \<Rightarrow> Inr d | _ \<Rightarrow> Inl (Raise TypeError ''no float'' [])),
     fp_exp10 = (\<lambda>d. 0),
     fp_scale = (\<lambda>d e. 1500000000000000),
     clz_of_zero = 64,
     rb_cstr2inum = (\<lambda>b. Inr (RInteger 0)),
     rb_BigDecimal = (\<lambda>b. Inr (RObject 0)),
     rb_cstr_to_dbl = (\<lambda>b. 0),
     PQunescapeBytea = Some,
     c_mktime = (\<lambda>y mo d h mi s. 0),
     rb_time_timespec_new = (\<lambda>s n f. Inr (RArray [RInteger s, RInteger n, RInteger f])),
     rb_Rational = (\<lambda>a b. Inr (RArray [RInteger a, RInteger b])),
     rb_Time_new = (\<lambda>vs. Inr (RArray vs)),
     rb_getlocal = Inr,
     rb_utc = Inr,
     c_inet_pton = (\<lambda>v4 b. Some (replicate (if v4 then 4 else 16) 255)),
     rb_ipaddr_alloc = (\<lambda>f a m. RArray [RInteger f, RInteger a, RInteger m]),
     rb_ipaddr_new = (\<lambda>f a m. Inr (RArray [RInteger f, RInteger a, RInteger m])),
     use_ipaddr_alloc = True,
     rb_time_timespec = (\<lambda>v. case v of RArray (RInteger s # RInteger n # r) \<Rightarrow> Inr (s, n) | _ \<Rightarrow> Inr (0, 0)),
     rb_utc_offset = (\<lambda>v. Inr (RInteger 0)),
     rb_time_minus = (\<lambda>v w. Inr v),
     c_dbl2float = ucast,
     c_float2dbl = ucast,
     rb_gregorianP = (\<lambda>v. Inr Qtrue),
     rb_gregorian = Inr,
     rb_year = (\<lambda>v. case v of RArray [y, m, d] \<Rightarrow> Inr y | _ \<Rightarrow> Inr (RInteger 2000)),
     rb_month = (\<lambda>v. case v of RArray [y, m, d] \<Rightarrow> Inr m | _ \<Rightarrow> Inr (RInteger 1)),
     rb_day = (\<lambda>v. case v of RArray [y, m, d] \<Rightarrow> Inr d | _ \<Rightarrow> Inr (RInteger 1)),
     rb_Date_new = (\<lambda>y m d. Inr (RArray [RInteger y, RInteger m, RInteger d])) \<rparr>"

lemma rb_api_ok_sample [simp]: "rb_api_ok rb_sample"
  by (simp add: rb_api_ok_def rb_sample_def split: rvalue.split list.split)

text \<open>ENCODING_GET and the ASCII-8BIT (binary) encoding index, which is 0 in MRI.\<close>

fun ENCODING_GET :: "rvalue \<Rightarrow> enc_idx" where
  "ENCODING_GET (RString s e) = e"
| "ENCODING_GET _ = 0"

definition rb_ascii8bit_encindex :: enc_idx where
  "rb_ascii8bit_encindex = 0"

section \<open>Memory\<close>

text \<open>
  Routines that run in place (source and destination may be the same buffer) are modelled
  on a byte-addressed memory; a pointer is an address.
\<close>

type_synonym mem = "nat \<Rightarrow> byte"

definition peek :: "mem \<Rightarrow> nat \<Rightarrow> nat \<Rightarrow> bytes" where
  "peek m p n = map m [p..<p + n]"

primrec poke :: "mem \<Rightarrow> nat \<Rightarrow> bytes \<Rightarrow> mem" where
  "poke m p [] = m"
| "poke m p (b # bs) = poke (m(p := b)) (Suc p) bs"

lemma length_peek [simp]: "length (peek m p n) = n"
  by (simp add: peek_def)

lemma peek_0 [simp]: "peek m p 0 = []"
  by (simp add: peek_def)

lemma peek_Suc: "peek m p (Suc n) = m p # peek m (Suc p) n"
  by (simp add: peek_def upt_conv_Cons del: upt_Suc)

lemma peek_Suc_right: "peek m p (Suc n) = peek m p n @ [m (p + n)]"
  by (simp add: peek_def)

lemma nth_peek [simp]: "i < n \<Longrightarrow> peek m p n ! i = m (p + i)"
  by (simp add: peek_def)

lemma peek_add: "peek m p (a + b) = peek m p a @ peek m (p + a) b"
  by (rule nth_equalityI) (auto simp: nth_append)

lemma peek_cong: "(\<And>i. p \<le> i \<Longrightarrow> i < p + n \<Longrightarrow> m i = m' i) \<Longrightarrow> peek m p n = peek m' p n"
  by (simp add: peek_def)

lemma peek_upd_outside [simp]: "i < p \<or> p + n \<le> i \<Longrightarrow> peek (m(i := b)) p n = peek m p n"
  by (rule peek_cong) auto

lemma poke_apply:
  "poke m p bs i = (if p \<le> i \<and> i < p + length bs then bs ! (i - p) else m i)"
proof (induction bs arbitrary: m p)
  case Nil
  show ?case by auto
next
  case (Cons b bs)
  show ?case by (auto simp: Cons.IH nth_Cons')
qed

lemma peek_poke [simp]: "peek (poke m p bs) p (length bs) = bs"
  by (rule nth_equalityI) (simp_all add: poke_apply)

lemma peek_poke_outside:
  "p' + length bs \<le> p \<or> p + n \<le> p' \<Longrightarrow> peek (poke m p' bs) p n = peek m p n"
  by (rule peek_cong) (auto simp: poke_apply)

section \<open>Generic list and word lemmas\<close>

named_theorems byte_arith \<open>rewriting byte expressions to arithmetic on natural numbers\<close>

lemma unat_byte_lt [simp]: "unat (b :: byte) < 256"
  using unsigned_less [of b] by simp

lemma byte_eq_iff_unat: "(a :: byte) = b \<longleftrightarrow> unat a = unat b"
  by (rule word_unat_eq_iff)

lemma of_nat_unat_byte [simp]: "(of_nat (unat (b :: byte)) :: byte) = b"
  by simp

lemma unat_of_nat_byte [byte_arith]: "unat (of_nat n :: byte) = n mod 256"
  by (simp add: unat_of_nat)

lemma nat_and_mask [byte_arith]:
  "(n::nat) AND 0x3F = n mod 64" "(n::nat) AND 0xFF = n mod 256" "(n::nat) AND 0xF = n mod 16"
  using take_bit_eq_mask [of 6 n] take_bit_eq_mask [of 8 n] take_bit_eq_mask [of 4 n]
  by (simp_all add: take_bit_eq_mod mask_eq_exp_minus_1)

lemma take_append_len [simp]: "length xs = n \<Longrightarrow> take n (xs @ ys) = xs"
  by simp

lemma drop_append_len [simp]: "length xs = n \<Longrightarrow> drop n (xs @ ys) = ys"
  by simp

end
