(* ===== verification/PG_Buffer.thy ===== *)
theory PG_Buffer
  imports PG_Prelude
begin

text \<open>
  The growing of a Ruby String while an encoder fills it: \<open>pg_rb_str_ensure_capa\<close> of
  \<open>ext/pg.c\<close> and the macros \<open>PG_RB_STR_NEW\<close> and \<open>PG_RB_STR_ENSURE_CAPA\<close> of \<open>ext/pg.h\<close>.
  A buffer is what lies between the start of the string and \<open>current_out\<close>, the capacity
  of the string and, for the macros, the caller's \<open>end_capa\<close> pointer. A write past the
  capacity is a \<open>MemFault\<close>.
\<close>

record sbuf =
  sb_data :: bytes
  sb_capa :: nat
  sb_end :: nat

abbreviation sb_len :: "sbuf \<Rightarrow> nat" where
  "sb_len s \<equiv> length (sb_data s)"

definition sbuf_wf :: "sbuf \<Rightarrow> bool" where
  "sbuf_wf s \<longleftrightarrow> sb_len s \<le> sb_capa s \<and> sb_end s \<le> sb_capa s"

text \<open>\<open>rb_str_new(NULL, len)\<close> with \<open>current_out\<close> at its start.\<close>

definition sb_new :: "rb_api \<Rightarrow> nat \<Rightarrow> sbuf" where
  "sb_new rb len = \<lparr> sb_data = [], sb_capa = rb_str_capa rb len, sb_end = 0 \<rparr>"

text \<open>\<open>PG_RB_STR_NEW\<close>: an empty string, \<open>current_out\<close> and \<open>end_capa\<close> at its start.\<close>

definition PG_RB_STR_NEW :: "rb_api \<Rightarrow> sbuf" where
  "PG_RB_STR_NEW rb = \<lparr> sb_data = [], sb_capa = rb_str_capa rb 0, sb_end = 0 \<rparr>"

text \<open>\<open>pg_rb_str_ensure_capa(str, expand_len, curr_ptr, NULL)\<close> and with \<open>&end_ptr\<close>.\<close>

definition pg_rb_str_ensure_capa :: "rb_api \<Rightarrow> nat \<Rightarrow> sbuf \<Rightarrow> sbuf" where
  "pg_rb_str_ensure_capa rb expand_len s =
     (let curr_len = sb_len s; curr_capa = sb_capa s
      in if curr_capa < curr_len + expand_len
         then s\<lparr> sb_capa := rb_str_modify_expand rb curr_len ((curr_len + expand_len) * 2 - curr_capa) \<rparr>
         else s)"

definition pg_rb_str_ensure_capa_end :: "rb_api \<Rightarrow> nat \<Rightarrow> sbuf \<Rightarrow> sbuf" where
  "pg_rb_str_ensure_capa_end rb expand_len s =
     (let s' = pg_rb_str_ensure_capa rb expand_len s in s'\<lparr> sb_end := sb_capa s' \<rparr>)"

definition PG_RB_STR_ENSURE_CAPA :: "rb_api \<Rightarrow> nat \<Rightarrow> sbuf \<Rightarrow> sbuf" where
  "PG_RB_STR_ENSURE_CAPA rb expand_len s =
     (if sb_len s + expand_len \<ge> sb_end s then pg_rb_str_ensure_capa_end rb expand_len s else s)"

text \<open>
  \<open>*current_out++ = ...\<close> for a sequence of bytes, and a store at \<open>current_out\<close> that leaves
  the pointer where it is.
\<close>

definition sb_put :: "bytes \<Rightarrow> sbuf \<Rightarrow> sbuf res" where
  "sb_put bs s = (if sb_len s + length bs \<le> sb_capa s
     then Inr (s\<lparr> sb_data := sb_data s @ bs \<rparr>) else Inl MemFault)"

definition sb_fits :: "bytes \<Rightarrow> sbuf \<Rightarrow> unit res" where
  "sb_fits bs s = (if sb_len s + length bs \<le> sb_capa s then Inr () else Inl MemFault)"

text \<open>\<open>rb_str_set_len\<close> to \<open>current_out\<close> with the encoding set.\<close>

definition sb_str :: "sbuf \<Rightarrow> enc_idx \<Rightarrow> rvalue" where
  "sb_str s e = RString (sb_data s) e"

section \<open>Lemmas\<close>

text \<open>\<open>room s n\<close>: \<open>n\<close> bytes can be stored at \<open>current_out\<close>.\<close>

definition room :: "sbuf \<Rightarrow> nat \<Rightarrow> bool" where
  "room s n \<longleftrightarrow> sb_len s + n \<le> sb_capa s"

lemma room_mono: "room s n \<Longrightarrow> k \<le> n \<Longrightarrow> room s k"
  by (simp add: room_def)

lemma sb_data_ensure [simp]:
  "sb_data (pg_rb_str_ensure_capa rb n s) = sb_data s"
  "sb_data (pg_rb_str_ensure_capa_end rb n s) = sb_data s"
  "sb_data (PG_RB_STR_ENSURE_CAPA rb n s) = sb_data s"
  by (simp_all add: pg_rb_str_ensure_capa_def pg_rb_str_ensure_capa_end_def
      PG_RB_STR_ENSURE_CAPA_def Let_def)

lemma sb_new_simps [simp]:
  "sb_data (sb_new rb n) = []" "sb_data (PG_RB_STR_NEW rb) = []"
  by (simp_all add: sb_new_def PG_RB_STR_NEW_def)

lemma room_ensure: "rb_api_ok rb \<Longrightarrow> room (pg_rb_str_ensure_capa rb n s) n"
  using rb_api_okD(16) [of rb "sb_len s" "(sb_len s + n) * 2 - sb_capa s"]
  by (auto simp: room_def pg_rb_str_ensure_capa_def Let_def)

lemma room_ensure_end: "rb_api_ok rb \<Longrightarrow> room (pg_rb_str_ensure_capa_end rb n s) n"
  using room_ensure [of rb n s] by (simp add: room_def pg_rb_str_ensure_capa_end_def Let_def)

lemma room_ENSURE: "rb_api_ok rb \<Longrightarrow> sbuf_wf s \<Longrightarrow> room (PG_RB_STR_ENSURE_CAPA rb n s) n"
  using room_ensure_end [of rb n s] by (auto simp: PG_RB_STR_ENSURE_CAPA_def sbuf_wf_def room_def)

lemma sbuf_wf_new: "rb_api_ok rb \<Longrightarrow> sbuf_wf (sb_new rb n)" "rb_api_ok rb \<Longrightarrow> sbuf_wf (PG_RB_STR_NEW rb)"
  by (simp_all add: sbuf_wf_def sb_new_def PG_RB_STR_NEW_def)

lemma room_new: "rb_api_ok rb \<Longrightarrow> room (sb_new rb n) n"
  by (simp add: room_def sb_new_def rb_api_okD)

lemma sb_capa_ensure_ge: "rb_api_ok rb \<Longrightarrow> sb_capa s \<le> sb_capa (pg_rb_str_ensure_capa rb n s)"
  using rb_api_okD(16) [of rb "sb_len s" "(sb_len s + n) * 2 - sb_capa s"]
  by (auto simp: pg_rb_str_ensure_capa_def Let_def)

lemma sbuf_wf_ensure:
  assumes "rb_api_ok rb" "sbuf_wf s"
  shows "sbuf_wf (pg_rb_str_ensure_capa rb n s)" "sbuf_wf (PG_RB_STR_ENSURE_CAPA rb n s)"
proof -
  have "sb_end (pg_rb_str_ensure_capa rb n s) = sb_end s"
    by (simp add: pg_rb_str_ensure_capa_def Let_def)
  then show "sbuf_wf (pg_rb_str_ensure_capa rb n s)"
    using assms sb_capa_ensure_ge [OF assms(1), of s n] by (simp add: sbuf_wf_def)
  have "sb_len s \<le> sb_capa (pg_rb_str_ensure_capa rb n s)"
    using assms sb_capa_ensure_ge [OF assms(1), of s n] by (simp add: sbuf_wf_def)
  then have "sbuf_wf (pg_rb_str_ensure_capa_end rb n s)"
    by (simp add: sbuf_wf_def pg_rb_str_ensure_capa_end_def Let_def)
  then show "sbuf_wf (PG_RB_STR_ENSURE_CAPA rb n s)"
    using assms by (simp add: PG_RB_STR_ENSURE_CAPA_def)
qed

lemma sb_put_room:
  "room s n \<Longrightarrow> length bs \<le> n \<Longrightarrow> sb_put bs s = Inr (s\<lparr> sb_data := sb_data s @ bs \<rparr>)"
  by (simp add: sb_put_def room_def)

lemma sb_fits_room: "room s n \<Longrightarrow> length bs \<le> n \<Longrightarrow> sb_fits bs s = Inr ()"
  by (simp add: sb_fits_def room_def)

lemma sb_put_wf: "sb_put bs s = Inr s' \<Longrightarrow> sbuf_wf s \<Longrightarrow> sbuf_wf s'"
  by (auto simp: sb_put_def sbuf_wf_def split: if_splits)

lemma sb_put_data: "sb_put bs s = Inr s' \<Longrightarrow> sb_data s' = sb_data s @ bs"
  by (auto simp: sb_put_def split: if_splits)

text \<open>
  The pattern of all encoders, \<open>ensure\<close> then \<open>put\<close>: it never faults and appends the bytes.
\<close>

lemma ensure_put:
  assumes "rb_api_ok rb" "sbuf_wf s" "length bs \<le> n"
  obtains s' where "sb_put bs (pg_rb_str_ensure_capa rb n s) = Inr s'"
    and "sb_data s' = sb_data s @ bs" and "sbuf_wf s'"
  using sb_put_room [OF room_ensure [OF assms(1)] assms(3)]
    sb_put_wf [OF _ sbuf_wf_ensure(1) [OF assms(1,2)]] by fastforce

lemma ENSURE_put:
  assumes "rb_api_ok rb" "sbuf_wf s" "length bs \<le> n"
  obtains s' where "sb_put bs (PG_RB_STR_ENSURE_CAPA rb n s) = Inr s'"
    and "sb_data s' = sb_data s @ bs" and "sbuf_wf s'"
  using sb_put_room [OF room_ENSURE [OF assms(1,2)] assms(3)]
    sb_put_wf [OF _ sbuf_wf_ensure(2) [OF assms(1,2)]] by fastforce

text \<open>
  \<open>appends s r f\<close>: the buffer operation with result \<open>f\<close> on \<open>s\<close> raises what the specification
  \<open>r\<close> raises, and else appends exactly the bytes of \<open>r\<close> and keeps the buffer well formed.
\<close>

definition appends :: "sbuf \<Rightarrow> bytes res \<Rightarrow> sbuf res \<Rightarrow> bool" where
  "appends s r f \<longleftrightarrow> (case r of
      Inl x \<Rightarrow> f = Inl x
    | Inr t \<Rightarrow> \<exists>s'. f = Inr s' \<and> sb_data s' = sb_data s @ t \<and> sbuf_wf s')"

lemma appends_Inl [simp]: "appends s (Inl x) (Inl x)"
  by (simp add: appends_def)

lemma appends_Nil [simp]: "sbuf_wf s \<Longrightarrow> appends s (Inr []) (Inr s)"
  by (simp add: appends_def)

lemma appends_ensure_put:
  assumes "rb_api_ok rb" "sbuf_wf s" "length bs \<le> n"
  shows "appends s (Inr bs) (sb_put bs (pg_rb_str_ensure_capa rb n s))"
  using ensure_put [OF assms] by (auto simp: appends_def)

lemma appends_ENSURE_put:
  assumes "rb_api_ok rb" "sbuf_wf s" "length bs \<le> n"
  shows "appends s (Inr bs) (sb_put bs (PG_RB_STR_ENSURE_CAPA rb n s))"
  using ENSURE_put [OF assms] by (auto simp: appends_def)

lemma appends_rbind:
  assumes "appends s r f"
    and "\<And>t s'. r = Inr t \<Longrightarrow> f = Inr s' \<Longrightarrow> sbuf_wf s' \<Longrightarrow> appends s' (r2 t) (g s')"
  shows "appends s (rbind r (\<lambda>t. rbind (r2 t) (\<lambda>u. Inr (t @ u)))) (rbind f g)"
proof (cases r)
  case (Inl x)
  with assms(1) show ?thesis by (simp add: appends_def)
next
  case (Inr t)
  with assms(1) obtain s' where s': "f = Inr s'" "sb_data s' = sb_data s @ t" "sbuf_wf s'"
    by (auto simp: appends_def)
  from assms(2) [OF Inr s'(1,3)] show ?thesis
    using Inr s' by (cases "r2 t") (auto simp: appends_def)
qed

lemma appends_result:
  "appends s r f \<Longrightarrow> sb_data s = [] \<Longrightarrow> rbind f (\<lambda>s'. Inr (h (sb_data s'))) = rbind r (\<lambda>t. Inr (h t))"
  by (cases r) (auto simp: appends_def)

lemma appends_cong_data: "appends s r f \<Longrightarrow> sb_data s0 = sb_data s \<Longrightarrow> appends s0 r f"
  by (cases r) (simp_all add: appends_def)

lemma appends_wf: "appends s r f \<Longrightarrow> f = Inr s' \<Longrightarrow> sbuf_wf s'"
  by (auto simp: appends_def split: sum.splits)

end
