(* ===== verification/PG_Coder.thy ===== *)
theory PG_Coder
  imports PG_Buffer
begin

text \<open>
  \<open>ext/pg_coder.c\<close>: the coder structs of \<open>ext/pg.h\<close>, their allocation and accessors, the dispatch
  to C or Ruby en- and decoders and the methods \<open>PG::Coder#encode\<close> and \<open>#decode\<close>, together
  with the string fall-backs the dispatch names (\<open>pg_coder_enc_to_s\<close>, \<open>pg_text_dec_string\<close>,
  \<open>pg_bin_dec_bytea\<close>). The locale \<open>two_pass\<close> states the contract between an encoder function
  and its callers that the head of \<open>ext/pg_text_encoder.c\<close> documents.
\<close>

section \<open>Coder structs\<close>

text \<open>
  An encoder function of the C source maps the value, whether \<open>out\<close> is non-NULL, the value of
  \<open>*intermediate\<close> and the output encoding to its return value, the bytes it stored at \<open>out\<close>
  and the new \<open>*intermediate\<close>. A decoder function maps the bytes of \<open>val\<close> (in text format a
  NUL byte follows them), the tuple and field numbers and the encoding to the Ruby value.
\<close>

type_synonym enc_fn = "rvalue \<Rightarrow> bool \<Rightarrow> rvalue \<Rightarrow> enc_idx \<Rightarrow> (int \<times> bytes \<times> rvalue) res"
type_synonym dec_fn = "bytes \<Rightarrow> int \<Rightarrow> int \<Rightarrow> enc_idx \<Rightarrow> rvalue res"

text \<open>
  \<open>t_pg_coder\<close>: the plain fields first, since the C functions get the struct as \<open>this\<close>; the
  frozen flag is the one of the Ruby object that owns the struct.
\<close>

record coder_fields =
  coder_obj :: rvalue
  coder_oid :: oid
  coder_format :: int
  coder_flags :: int
  coder_frozen :: bool

record t_pg_coder = coder_fields +
  enc_func :: "(coder_fields \<Rightarrow> enc_fn) option"
  dec_func :: "(coder_fields \<Rightarrow> dec_fn) option"

record t_pg_composite_coder = t_pg_coder +
  elem :: "t_pg_coder option"
  needs_quotation :: bool
  dimensions :: int
  delimiter :: byte

text \<open>
  The C cast of a \<open>t_pg_composite_coder *\<close> to \<open>t_pg_coder *\<close>: the function pointer, called with
  that same pointer as \<open>this\<close>, sees the composite fields.
\<close>

definition as_encoder :: "(t_pg_composite_coder \<Rightarrow> enc_fn) \<Rightarrow> t_pg_composite_coder \<Rightarrow> t_pg_coder" where
  "as_encoder f c = (t_pg_coder.truncate c)\<lparr> enc_func := Some (\<lambda>_. f c) \<rparr>"

definition as_decoder :: "(t_pg_composite_coder \<Rightarrow> dec_fn) \<Rightarrow> t_pg_composite_coder \<Rightarrow> t_pg_coder" where
  "as_decoder f c = (t_pg_coder.truncate c)\<lparr> dec_func := Some (\<lambda>_. f c) \<rparr>"

section \<open>Allocation\<close>

text \<open>The argument \<open>cfunc\<close> is the constant CFUNC of the class, when the class defines one.\<close>

definition pg_coder_init_encoder :: "rvalue \<Rightarrow> (coder_fields \<Rightarrow> enc_fn) option \<Rightarrow> t_pg_coder" where
  "pg_coder_init_encoder self cfunc =
     \<lparr> coder_obj = self, coder_oid = 0, coder_format = 0, coder_flags = 0, coder_frozen = False,
       enc_func = cfunc, dec_func = None \<rparr>"

definition pg_coder_init_decoder :: "rvalue \<Rightarrow> (coder_fields \<Rightarrow> dec_fn) option \<Rightarrow> t_pg_coder" where
  "pg_coder_init_decoder self cfunc =
     \<lparr> coder_obj = self, coder_oid = 0, coder_format = 0, coder_flags = 0, coder_frozen = False,
       enc_func = None, dec_func = cfunc \<rparr>"

definition pg_simple_encoder_allocate :: "rvalue \<Rightarrow> (coder_fields \<Rightarrow> enc_fn) option \<Rightarrow> t_pg_coder" where
  "pg_simple_encoder_allocate self cfunc = pg_coder_init_encoder self cfunc"

definition pg_simple_decoder_allocate :: "rvalue \<Rightarrow> (coder_fields \<Rightarrow> dec_fn) option \<Rightarrow> t_pg_coder" where
  "pg_simple_decoder_allocate self cfunc = pg_coder_init_decoder self cfunc"

definition pg_composite_encoder_allocate ::
    "rvalue \<Rightarrow> (coder_fields \<Rightarrow> enc_fn) option \<Rightarrow> t_pg_composite_coder" where
  "pg_composite_encoder_allocate self cfunc =
     t_pg_coder.extend (pg_coder_init_encoder self cfunc)
       (t_pg_composite_coder.fields None True (- 1) c_comma)"

definition pg_composite_decoder_allocate ::
    "rvalue \<Rightarrow> (coder_fields \<Rightarrow> dec_fn) option \<Rightarrow> t_pg_composite_coder" where
  "pg_composite_decoder_allocate self cfunc =
     t_pg_coder.extend (pg_coder_init_decoder self cfunc)
       (t_pg_composite_coder.fields None True (- 1) c_comma)"

section \<open>Accessors\<close>

abbreviation frozen_error :: rb_exc where
  "frozen_error \<equiv> Raise FrozenError ''can't modify frozen object'' []"

text \<open>\<open>NUM2UINT\<close> accepts what fits an \<open>int\<close> or an \<open>unsigned int\<close>.\<close>

definition num2uint :: "(64 word \<Rightarrow> int) \<Rightarrow> rvalue \<Rightarrow> oid res" where
  "num2uint f2i v = (case v of
      RInteger i \<Rightarrow> if - (2 ^ 31) \<le> i \<and> i < 2 ^ 32 then Inr (word_of_int i)
                    else Inl (Raise RangeError ''integer too big to convert to unsigned int'' [i])
    | RFloat d \<Rightarrow> if - (2 ^ 31) \<le> f2i d \<and> f2i d < 2 ^ 32 then Inr (word_of_int (f2i d))
                  else Inl (Raise RangeError ''float out of range of integer'' [f2i d])
    | _ \<Rightarrow> Inl (Raise TypeError ''no implicit conversion into Integer'' []))"

definition pg_coder_oid_set :: "rb_api \<Rightarrow> rvalue \<Rightarrow> 'a t_pg_coder_scheme \<Rightarrow> 'a t_pg_coder_scheme res" where
  "pg_coder_oid_set rb oid this =
     (if coder_frozen this then Inl frozen_error
      else rbind (num2uint (rb_dbl2int rb) oid) (\<lambda>n. Inr (this\<lparr> coder_oid := n \<rparr>)))"

definition pg_coder_oid_get :: "'a t_pg_coder_scheme \<Rightarrow> rvalue" where
  "pg_coder_oid_get this = RInteger (uint (coder_oid this))"

definition pg_coder_format_set ::
    "rb_api \<Rightarrow> rvalue \<Rightarrow> 'a t_pg_coder_scheme \<Rightarrow> 'a t_pg_coder_scheme res" where
  "pg_coder_format_set rb fmt this =
     (if coder_frozen this then Inl frozen_error
      else rbind (num2 32 (rb_dbl2int rb) fmt) (\<lambda>n. Inr (this\<lparr> coder_format := n \<rparr>)))"

definition pg_coder_format_get :: "'a t_pg_coder_scheme \<Rightarrow> rvalue" where
  "pg_coder_format_get this = RInteger (coder_format this)"

definition pg_coder_flags_set ::
    "rb_api \<Rightarrow> rvalue \<Rightarrow> 'a t_pg_coder_scheme \<Rightarrow> 'a t_pg_coder_scheme res" where
  "pg_coder_flags_set rb fl this =
     (if coder_frozen this then Inl frozen_error
      else rbind (num2 32 (rb_dbl2int rb) fl) (\<lambda>n. Inr (this\<lparr> coder_flags := n \<rparr>)))"

definition pg_coder_flags_get :: "'a t_pg_coder_scheme \<Rightarrow> rvalue" where
  "pg_coder_flags_get this = RInteger (coder_flags this)"

fun RTEST :: "rvalue \<Rightarrow> bool" where
  "RTEST Qnil = False"
| "RTEST Qfalse = False"
| "RTEST _ = True"

definition pg_coder_needs_quotation_set ::
    "rvalue \<Rightarrow> t_pg_composite_coder \<Rightarrow> t_pg_composite_coder res" where
  "pg_coder_needs_quotation_set v this =
     (if coder_frozen this then Inl frozen_error else Inr (this\<lparr> needs_quotation := RTEST v \<rparr>))"

definition pg_coder_needs_quotation_get :: "t_pg_composite_coder \<Rightarrow> rvalue" where
  "pg_coder_needs_quotation_get this = (if needs_quotation this then Qtrue else Qfalse)"

definition pg_coder_delimiter_set ::
    "rb_api \<Rightarrow> rvalue \<Rightarrow> t_pg_composite_coder \<Rightarrow> t_pg_composite_coder res" where
  "pg_coder_delimiter_set rb v this =
     (if coder_frozen this then Inl frozen_error
      else rbind (rb_StringValue rb v) (\<lambda>s.
        case str_bytes s of
          [c] \<Rightarrow> Inr (this\<lparr> delimiter := c \<rparr>)
        | _ \<Rightarrow> Inl (Raise ArgError ''delimiter size must be one byte'' [])))"

definition pg_coder_delimiter_get :: "t_pg_composite_coder \<Rightarrow> rvalue" where
  "pg_coder_delimiter_get this = RString [delimiter this] rb_ascii8bit_encindex"

definition pg_coder_dimensions_set ::
    "rb_api \<Rightarrow> rvalue \<Rightarrow> t_pg_composite_coder \<Rightarrow> t_pg_composite_coder res" where
  "pg_coder_dimensions_set rb v this =
     (if coder_frozen this then Inl frozen_error
      else if v = Qnil then Inr (this\<lparr> dimensions := - 1 \<rparr>)
      else rbind (num2 32 (rb_dbl2int rb) v) (\<lambda>n.
        if n < 0 then Inl (Raise ArgError ''dimensions must be nil or >= 0'' [])
        else Inr (this\<lparr> dimensions := n \<rparr>)))"

definition pg_coder_dimensions_get :: "t_pg_composite_coder \<Rightarrow> rvalue" where
  "pg_coder_dimensions_get this = (if dimensions this < 0 then Qnil else RInteger (dimensions this))"

text \<open>The argument of \<open>elements_type=\<close>: nil, a PG::Coder, or any other object.\<close>

datatype elem_arg = Elem_nil | Elem_coder t_pg_coder | Elem_other

definition pg_coder_elements_type_set ::
    "elem_arg \<Rightarrow> t_pg_composite_coder \<Rightarrow> t_pg_composite_coder res" where
  "pg_coder_elements_type_set elem_type this =
     (if coder_frozen this then Inl frozen_error
      else case elem_type of
        Elem_nil \<Rightarrow> Inr (this\<lparr> elem := None \<rparr>)
      | Elem_coder c \<Rightarrow> Inr (this\<lparr> elem := Some c \<rparr>)
      | Elem_other \<Rightarrow> Inl (Raise TypeError ''wrong elements type'' []))"

section \<open>Fall-back coders and dispatch\<close>

text \<open>\<open>pg_coder_enc_to_s\<close> of \<open>ext/pg_text_encoder.c\<close>; its \<open>this\<close> may be NULL and is not used.\<close>

definition pg_coder_enc_to_s :: "rb_api \<Rightarrow> enc_fn" where
  "pg_coder_enc_to_s rb value out intermediate enc_idx =
     rbind (rb_obj_as_string rb value) (\<lambda>str.
       if ENCODING_GET str = enc_idx then Inr (- 1, [], str)
       else rbind (rb_str_export_to_enc rb str enc_idx) (\<lambda>s. Inr (- 1, [], s)))"

text \<open>\<open>pg_text_dec_string\<close> of \<open>ext/pg_text_decoder.c\<close>, \<open>pg_bin_dec_bytea\<close> of \<open>ext/pg_binary_decoder.c\<close>.\<close>

definition pg_text_dec_string :: dec_fn where
  "pg_text_dec_string val tuple field enc_idx = Inr (RString val enc_idx)"

definition pg_bin_dec_bytea :: dec_fn where
  "pg_bin_dec_bytea val tuple field enc_idx = Inr (RString val rb_ascii8bit_encindex)"

definition pg_text_enc_in_ruby :: "rb_api \<Rightarrow> coder_fields \<Rightarrow> enc_fn" where
  "pg_text_enc_in_ruby rb conv value out intermediate enc_idx =
     (if rb_encode_arity rb (coder_obj conv) = 1 then
        rbind (rb_call_encode rb (coder_obj conv) [value]) (\<lambda>r.
        rbind (rb_StringValue rb r) (\<lambda>out_str.
        rbind (rb_str_export_to_enc rb out_str enc_idx) (\<lambda>s. Inr (- 1, [], s))))
      else
        rbind (rb_call_encode rb (coder_obj conv) [value, rb_enc_from_encoding rb enc_idx]) (\<lambda>r.
        rbind (rb_StringValue rb r) (\<lambda>out_str. Inr (- 1, [], out_str))))"

definition pg_coder_enc_func :: "rb_api \<Rightarrow> t_pg_coder option \<Rightarrow> enc_fn" where
  "pg_coder_enc_func rb this = (case this of
      Some c \<Rightarrow> (case enc_func c of
          Some f \<Rightarrow> f (coder_fields.truncate c)
        | None \<Rightarrow> pg_text_enc_in_ruby rb (coder_fields.truncate c))
    | None \<Rightarrow> pg_coder_enc_to_s rb)"

definition pg_text_dec_in_ruby :: "rb_api \<Rightarrow> coder_fields \<Rightarrow> dec_fn" where
  "pg_text_dec_in_ruby rb this val tuple field enc_idx =
     rbind (pg_text_dec_string val tuple field enc_idx) (\<lambda>string.
       rb_call_decode rb (coder_obj this) [string, RInteger tuple, RInteger field])"

definition pg_bin_dec_in_ruby :: "rb_api \<Rightarrow> coder_fields \<Rightarrow> dec_fn" where
  "pg_bin_dec_in_ruby rb this val tuple field enc_idx =
     rbind (pg_bin_dec_bytea val tuple field enc_idx) (\<lambda>string.
       rb_call_decode rb (coder_obj this) [string, RInteger tuple, RInteger field])"

definition pg_coder_dec_func :: "rb_api \<Rightarrow> t_pg_coder option \<Rightarrow> bool \<Rightarrow> dec_fn" where
  "pg_coder_dec_func rb this binary = (case this of
      Some c \<Rightarrow> (case dec_func c of
          Some f \<Rightarrow> f (coder_fields.truncate c)
        | None \<Rightarrow> if binary then pg_bin_dec_in_ruby rb (coder_fields.truncate c)
                  else pg_text_dec_in_ruby rb (coder_fields.truncate c))
    | None \<Rightarrow> if binary then pg_bin_dec_bytea else pg_text_dec_string)"

section \<open>\<open>PG::Coder#encode\<close> and \<open>#decode\<close>\<close>

text \<open>
  \<open>rb_str_new(NULL, len)\<close> has room for \<open>len\<close> bytes: an encoder that stores more than it announced
  writes outside of it before the check with \<open>rb_bug\<close> is reached.
\<close>

definition pg_coder_encode :: "rb_api \<Rightarrow> t_pg_coder \<Rightarrow> rvalue list \<Rightarrow> rvalue res" where
  "pg_coder_encode rb this argv =
     (let argc = length argv in
      if argc < 1 \<or> argc > 2
      then Inl (Raise ArgError ''wrong number of arguments (%i for 1..2)'' [int argc])
      else rbind (if argc = 1 then Inr rb_ascii8bit_encindex else rb_to_encoding_index rb (argv ! 1)) (\<lambda>enc_idx.
        let value = argv ! 0 in
        if value = Qnil then Inr Qnil
        else case enc_func this of
          None \<Rightarrow> Inl (Raise RuntimeError ''no encoder function defined'' [])
        | Some f \<Rightarrow>
            rbind (f (coder_fields.truncate this) value False Qnil enc_idx) (\<lambda>(len, _, intermediate).
              if len = - 1 then Inr intermediate
              else rbind (f (coder_fields.truncate this) value True intermediate enc_idx) (\<lambda>(len2, bs, _).
                if int (length bs) > len then Inl MemFault
                else if len < len2 then Inl Rb_bug
                else Inr (RString (take (nat len2) bs) enc_idx)))))"

definition pg_coder_decode :: "rb_api \<Rightarrow> t_pg_coder \<Rightarrow> rvalue list \<Rightarrow> rvalue res" where
  "pg_coder_decode rb this argv =
     (let argc = length argv in
      if argc < 1 \<or> argc > 3
      then Inl (Raise ArgError ''wrong number of arguments (%i for 1..3)'' [int argc])
      else rbind (if argc \<ge> 3 then num2 32 (rb_dbl2int rb) (argv ! 1) else Inr (- 1)) (\<lambda>tuple.
        rbind (if argc \<ge> 3 then num2 32 (rb_dbl2int rb) (argv ! 2) else Inr (- 1)) (\<lambda>field.
        if argv ! 0 = Qnil then Inr Qnil
        else rbind (rb_StringValue rb (argv ! 0)) (\<lambda>s.
          if coder_format this = 0 \<and> 0 \<in> set (str_bytes s)
          then Inl (Raise ArgError ''string contains null byte'' [])
          else case dec_func this of
            None \<Rightarrow> Inl (Raise RuntimeError ''no decoder function defined'' [])
          | Some f \<Rightarrow> f (coder_fields.truncate this) (str_bytes s) tuple field (ENCODING_GET s)))))"

section \<open>The encoder contract\<close>

text \<open>
  The contract of an encoder function, for the Ruby values it may meet: the first call announces
  a size or \<open>-1\<close> with a String in \<open>*intermediate\<close>; a second call made with that
  \<open>*intermediate\<close> stores as many bytes as it returns and no more than announced; neither
  call aborts the interpreter or leaves its buffer.
\<close>

locale two_pass =
  fixes enc :: enc_fn
  assumes first_safe: "safe (enc v False im e)"
    and first_out: "enc v False im e = Inr (n, bs, im') \<Longrightarrow> bs = [] \<and> (n = - 1 \<and> is_str im' \<or> 0 \<le> n)"
    and second_safe: "enc v False im e = Inr (n, bs, im') \<Longrightarrow> 0 \<le> n \<Longrightarrow> safe (enc v True im' e)"
    and second_out: "enc v False im e = Inr (n, bs, im') \<Longrightarrow> 0 \<le> n \<Longrightarrow>
      enc v True im' e = Inr (k, bs', im'') \<Longrightarrow> k = int (length bs') \<and> k \<le> n"
begin

lemma first_cases:
  assumes "enc v False im e = Inr (n, bs, im')"
  obtains s se where "n = - 1" "bs = []" "im' = RString s se" | "0 \<le> n" "bs = []"
  using first_out [OF assms] by (auto simp: is_str_conv)

lemma announced: "enc v False im e = Inr (n, bs, im') \<Longrightarrow> n \<noteq> - 1 \<Longrightarrow> 0 \<le> n"
  using first_out by blast

lemma second_call:
  assumes "enc v False im e = Inr (n, bs, im')" "n \<noteq> - 1"
  shows "safe (enc v True im' e)"
    and "enc v True im' e = Inr (k, bs', im'') \<Longrightarrow> k = int (length bs') \<and> k \<le> n"
  using second_safe [OF assms(1)] second_out [OF assms(1)] announced [OF assms] by blast+

lemma two_calls_safe:
  "safe (rbind (enc v False im e) (\<lambda>(len, _, im').
     if len = - 1 then Inr im'
     else rbind (enc v True im' e) (\<lambda>(len2, bs, _).
       if int (length bs) > len then Inl MemFault else if len < len2 then Inl Rb_bug
       else Inr (RString (take (nat len2) bs) e))))"
proof (rule safe_rbind [OF first_safe])
  fix r assume r: "enc v False im e = Inr r"
  obtain n bs im' where r': "r = (n, bs, im')" by (cases r)
  have "safe (rbind (enc v True im' e) (\<lambda>(len2, bs, _).
       if int (length bs) > n then Inl MemFault else if n < len2 then Inl Rb_bug
       else Inr (RString (take (nat len2) bs) e)))" if "n \<noteq> - 1"
    using second_call [OF r [unfolded r'] that]
    by (intro safe_rbind) (auto split: prod.splits)
  then show "safe (case r of (len, _, im') \<Rightarrow>
     if len = - 1 then Inr im'
     else rbind (enc v True im' e) (\<lambda>(len2, bs, _).
       if int (length bs) > len then Inl MemFault else if len < len2 then Inl Rb_bug
       else Inr (RString (take (nat len2) bs) e)))" unfolding r' by simp
qed

lemma encode_safe:
  assumes rb: "rb_api_ok rb" and f: "enc_func this = Some f" "f (coder_fields.truncate this) = enc"
  shows "safe (pg_coder_encode rb this argv)"
  unfolding pg_coder_encode_def Let_def f option.case
  by (split if_split, intro conjI impI, simp, rule safe_rbind)
    (simp_all add: two_calls_safe rb_api_okD(10) [OF rb])

end

text \<open>The interpreter as an interface: the clients below assume \<open>rb_api_ok\<close> of it.\<close>

locale ruby =
  fixes rb :: rb_api
  assumes rb_ok: "rb_api_ok rb"

interpretation rb_sample: ruby rb_sample
  by unfold_locales simp

lemma enc_to_s_cases:
  assumes "rb_api_ok rb" "pg_coder_enc_to_s rb v out im e = Inr r"
  obtains s se where "r = (- 1, [], RString s se)"
  using assms by (fastforce simp: pg_coder_enc_to_s_def rbind_Inr_iff is_str_conv
      dest: rb_api_okD(2,8) [OF assms(1)] split: if_splits)

lemma enc_to_s_safe: "rb_api_ok rb \<Longrightarrow> safe (pg_coder_enc_to_s rb v out im e)"
  by (auto simp: pg_coder_enc_to_s_def intro!: safe_rbind rb_api_okD)

lemma enc_in_ruby_cases:
  assumes "rb_api_ok rb" "pg_text_enc_in_ruby rb conv v out im e = Inr r"
  obtains s se where "r = (- 1, [], RString s se)"
  using assms by (fastforce simp: pg_text_enc_in_ruby_def rbind_Inr_iff is_str_conv
      dest: rb_api_okD(5,8) [OF assms(1)] split: if_splits)

lemma enc_in_ruby_safe: "rb_api_ok rb \<Longrightarrow> safe (pg_text_enc_in_ruby rb conv v out im e)"
  by (auto simp: pg_text_enc_in_ruby_def intro!: safe_rbind rb_api_okD)

text \<open>An encoder that only ever answers with a String satisfies the contract.\<close>

lemma two_pass_stringI:
  assumes "\<And>v im e. safe (enc v False im e)"
    and "\<And>v im e r. enc v False im e = Inr r \<Longrightarrow> \<exists>s se. r = (- 1, [], RString s se)"
  shows "two_pass enc"
  using assms by unfold_locales fastforce+

text \<open>The contract at one value: the result of the first call and the second call as a function
  of \<open>*intermediate\<close>.\<close>

definition contract :: "(int \<times> bytes \<times> rvalue) res \<Rightarrow> (rvalue \<Rightarrow> (int \<times> bytes \<times> rvalue) res) \<Rightarrow> bool" where
  "contract r1 r2 \<longleftrightarrow> safe r1 \<and> (\<forall>n bs im'. r1 = Inr (n, bs, im') \<longrightarrow> bs = [] \<and>
     (n = - 1 \<and> is_str im' \<or> 0 \<le> n \<and> safe (r2 im') \<and>
      (\<forall>k bs' im''. r2 im' = Inr (k, bs', im'') \<longrightarrow> k = int (length bs') \<and> k \<le> n)))"

lemma two_pass_iff: "two_pass enc \<longleftrightarrow> (\<forall>v im e. contract (enc v False im e) (\<lambda>im'. enc v True im' e))"
proof
  assume "two_pass enc"
  then have tp: "safe (enc v False im e)"
    "enc v False im e = Inr (n, bs, im') \<Longrightarrow> bs = [] \<and> (n = - 1 \<and> is_str im' \<or> 0 \<le> n)"
    "enc v False im e = Inr (n, bs, im') \<Longrightarrow> 0 \<le> n \<Longrightarrow> safe (enc v True im' e)"
    "enc v False im e = Inr (n, bs, im') \<Longrightarrow> 0 \<le> n \<Longrightarrow> enc v True im' e = Inr (k, bs', im'') \<Longrightarrow>
      k = int (length bs') \<and> k \<le> n" for v im e n bs im' k bs' im''
    by (simp_all add: two_pass_def)
  show "\<forall>v im e. contract (enc v False im e) (\<lambda>im'. enc v True im' e)"
    unfolding contract_def using tp by (intro allI conjI impI) metis+
next
  assume c: "\<forall>v im e. contract (enc v False im e) (\<lambda>im'. enc v True im' e)"
  then have c': "contract (enc v False im e) (\<lambda>im'. enc v True im' e)" for v im e by blast
  show "two_pass enc"
  proof
    fix v im e n bs im'
    show "safe (enc v False im e)" using c' [of v im e] by (simp add: contract_def)
    assume r: "enc v False im e = Inr (n, bs, im')"
    with c' [of v im e] have *: "bs = [] \<and> (n = - 1 \<and> is_str im' \<or> 0 \<le> n \<and> safe (enc v True im' e) \<and>
      (\<forall>k bs' im''. enc v True im' e = Inr (k, bs', im'') \<longrightarrow> k = int (length bs') \<and> k \<le> n))"
      by (simp add: contract_def)
    then show "bs = [] \<and> (n = - 1 \<and> is_str im' \<or> 0 \<le> n)" by blast
    assume "0 \<le> n"
    with * show "safe (enc v True im' e)" by auto
    fix k bs' im'' assume "enc v True im' e = Inr (k, bs', im'')"
    with * \<open>0 \<le> n\<close> show "k = int (length bs') \<and> k \<le> n" by auto
  qed
qed

lemma contract_Inl [simp]: "contract (Inl e) r2 \<longleftrightarrow> safe (Inl e :: unit res)"
  by (simp add: contract_def safe_iff)

lemma contract_str [simp]: "contract (Inr (- 1, [], im)) r2 \<longleftrightarrow> is_str im"
  by (auto simp: contract_def)

lemma contract_size [simp]:
  "0 \<le> n \<Longrightarrow> contract (Inr (n, [], im)) r2 \<longleftrightarrow> safe (r2 im) \<and>
     (\<forall>k bs' im''. r2 im = Inr (k, bs', im'') \<longrightarrow> k = int (length bs') \<and> k \<le> n)"
  by (auto simp: contract_def)

lemma contract_rbind:
  assumes "safe m" "\<And>x. m = Inr x \<Longrightarrow> contract (f x) r2"
  shows "contract (rbind m f) r2"
  using assms by (cases m rule: safe.cases) auto

lemma two_pass_contract: "two_pass enc \<Longrightarrow> contract (enc v False im e) (\<lambda>im'. enc v True im' e)"
  by (simp add: two_pass_iff)

sublocale ruby \<subseteq> to_s: two_pass "pg_coder_enc_to_s rb"
  by (rule two_pass_stringI) (auto simp: enc_to_s_safe rb_ok elim: enc_to_s_cases [OF rb_ok])

sublocale ruby \<subseteq> in_ruby: two_pass "pg_text_enc_in_ruby rb conv" for conv
  by (rule two_pass_stringI) (auto simp: enc_in_ruby_safe rb_ok elim: enc_in_ruby_cases [OF rb_ok])

text \<open>A coder object whose C function, if it has one, keeps the contract.\<close>

definition good_coder :: "t_pg_coder option \<Rightarrow> bool" where
  "good_coder c \<longleftrightarrow> (\<forall>this f. c = Some this \<longrightarrow> enc_func this = Some f \<longrightarrow>
     two_pass (f (coder_fields.truncate this)))"

lemma good_coder_None [simp]: "good_coder None"
  by (simp add: good_coder_def)

context ruby
begin

lemma enc_func_two_pass: "good_coder c \<Longrightarrow> two_pass (pg_coder_enc_func rb c)"
  using to_s.two_pass_axioms in_ruby.two_pass_axioms
  by (auto simp: pg_coder_enc_func_def good_coder_def split: option.splits)

end

lemmas two_pass_enc_func = ruby.enc_func_two_pass [OF ruby.intro]

text \<open>
  The text of a value under an encoder: the two calls as one function. It is what the composite
  encoders put into their output, and what \<open>PG::Coder#encode\<close> returns.
\<close>

definition encoded :: "enc_fn \<Rightarrow> rvalue \<Rightarrow> enc_idx \<Rightarrow> bytes res" where
  "encoded enc v e =
     rbind (enc v False Qundef e) (\<lambda>(n, _, im).
       if n = - 1 then Inr (str_bytes im) else rbind (enc v True im e) (\<lambda>(k, bs, _). Inr bs))"

lemma contract_to_s:
  assumes "rb_api_ok rb"
  shows "contract (pg_coder_enc_to_s rb v out im e) r2"
proof (cases "pg_coder_enc_to_s rb v out im e")
  case (Inl x)
  with enc_to_s_safe [OF assms, of v out im e] show ?thesis by (simp add: safe_iff)
next
  case (Inr r)
  with enc_to_s_cases [OF assms] obtain s se where "r = (- 1, [], RString s se)" by blast
  with Inr show ?thesis by simp
qed

lemma contract_strI:
  assumes "safe r"
  shows "contract (rbind r (\<lambda>t. Inr (- 1, [], RString (f t) e))) r2"
  using assms by (intro contract_rbind) auto

lemma encoded_safe:
  assumes "two_pass enc"
  shows "safe (encoded enc v e)"
  unfolding encoded_def
proof (rule safe_rbind [OF two_pass.first_safe [OF assms]])
  fix r assume r: "enc v False Qundef e = Inr r"
  obtain n bs im where "r = (n, bs, im)" by (cases r)
  with r two_pass.second_call(1) [OF assms, of v Qundef e n bs im]
  show "safe (case r of (n, _, im) \<Rightarrow> if n = - 1 then Inr (str_bytes im)
      else rbind (enc v True im e) (\<lambda>(k, bs, _). Inr bs))"
    by (auto intro!: safe_rbind split: prod.splits)
qed

lemma enc_func_allocate [simp]:
  "enc_func (pg_simple_encoder_allocate self cf) = cf"
  "coder_fields.truncate (pg_simple_encoder_allocate self cf) =
     \<lparr> coder_obj = self, coder_oid = 0, coder_format = 0, coder_flags = 0, coder_frozen = False \<rparr>"
  by (simp_all add: pg_simple_encoder_allocate_def pg_coder_init_encoder_def coder_fields.defs)

lemma composite_allocate [simp]:
  "elem (pg_composite_encoder_allocate self ef) = None" "elem (pg_composite_decoder_allocate self df) = None"
  "needs_quotation (pg_composite_encoder_allocate self ef)"
  "delimiter (pg_composite_encoder_allocate self ef) = c_comma"
  "delimiter (pg_composite_decoder_allocate self df) = c_comma"
  "dimensions (pg_composite_encoder_allocate self ef) = - 1"
  "coder_flags (pg_composite_decoder_allocate self df) = 0"
  "coder_format (pg_composite_decoder_allocate self df) = 0"
  by (simp_all add: pg_composite_encoder_allocate_def pg_composite_decoder_allocate_def
      pg_coder_init_encoder_def pg_coder_init_decoder_def t_pg_coder.defs t_pg_composite_coder.defs)

end
