(* ===== verification/PG_Util.thy ===== *)
theory PG_Util
  imports PG_Prelude
begin

text \<open>
  \<open>ext/pg_util.c\<close> and \<open>ext/pg_util.h\<close>: network byte order access, base64 and the
  case-insensitive comparison. The base64 routines are modelled on memory with the C
  pointers, since their contract includes \<open>out == in\<close>; the lemmas relate them to
  list functions and give the round trip.
\<close>

section \<open>Network byte order (\<open>pg_util.h\<close>)\<close>

text \<open>
  The macros \<open>write_nbo16/32/64(l, c)\<close> as the bytes they store, most significant first; the
  argument is a C integer, of which the macro uses the low bits.
\<close>

definition write_nbo16 :: "int \<Rightarrow> bytes" where
  "write_nbo16 l = map (\<lambda>k. word_of_int (drop_bit k l AND 0xff)) [8, 0]"

definition write_nbo32 :: "int \<Rightarrow> bytes" where
  "write_nbo32 l = map (\<lambda>k. word_of_int (drop_bit k l AND 0xff)) [24, 16, 8, 0]"

definition write_nbo64 :: "int \<Rightarrow> bytes" where
  "write_nbo64 l = map (\<lambda>k. word_of_int (drop_bit k l AND 0xff)) [56, 48, 40, 32, 24, 16, 8, 0]"

text \<open>The macros \<open>read_nbo16/32/64(c)\<close>: the bytes at \<open>c\<close> as a signed integer.\<close>

definition read_nbo16 :: "bytes \<Rightarrow> int" where
  "read_nbo16 c = sint (push_bit 8 (ucast (c ! 0)) OR ucast (c ! 1) :: 16 word)"

definition read_nbo32 :: "bytes \<Rightarrow> int" where
  "read_nbo32 c = sint (push_bit 24 (ucast (c ! 0)) OR push_bit 16 (ucast (c ! 1)) OR
     push_bit 8 (ucast (c ! 2)) OR ucast (c ! 3) :: 32 word)"

definition read_nbo64 :: "bytes \<Rightarrow> int" where
  "read_nbo64 c = sint (push_bit 56 (ucast (c ! 0)) OR push_bit 48 (ucast (c ! 1)) OR
     push_bit 40 (ucast (c ! 2)) OR push_bit 32 (ucast (c ! 3)) OR
     push_bit 24 (ucast (c ! 4)) OR push_bit 16 (ucast (c ! 5)) OR
     push_bit 8 (ucast (c ! 6)) OR ucast (c ! 7) :: 64 word)"

lemma length_write_nbo [simp]:
  "length (write_nbo16 l) = 2" "length (write_nbo32 l) = 4" "length (write_nbo64 l) = 8"
  by (simp_all add: write_nbo16_def write_nbo32_def write_nbo64_def)

lemma byte_of_drop_bit: "(word_of_int (drop_bit k l AND 0xff) :: byte) = word_of_int (drop_bit k l)"
proof -
  have "drop_bit k l AND 0xff = take_bit 8 (drop_bit k l)"
    using take_bit_eq_mask [of 8 "drop_bit k l"] by (simp add: mask_eq_exp_minus_1)
  then show ?thesis by (auto simp: bit_eq_iff bit_simps)
qed

lemma bit_nbo_byte:
  assumes "k + 8 \<le> LENGTH('a)"
  shows "bit (push_bit k (ucast (word_of_int (drop_bit k l) :: byte)) :: 'a::len word) n \<longleftrightarrow>
     k \<le> n \<and> n < k + 8 \<and> bit l n"
  using assms by (cases "k \<le> n") (auto simp: bit_simps)

lemma bit_nbo_byte0:
  assumes "8 \<le> LENGTH('a)"
  shows "bit (ucast (word_of_int (drop_bit 0 l) :: byte) :: 'a::len word) n \<longleftrightarrow> n < 8 \<and> bit l n"
  using assms by (auto simp: bit_simps)

lemma nbo16_word:
  "(push_bit 8 (ucast (write_nbo16 l ! 0)) OR ucast (write_nbo16 l ! 1) :: 16 word) = word_of_int l"
  (is "?w = _")
proof (rule bit_word_eqI)
  fix n assume n: "n < LENGTH(16)"
  have "bit ?w n \<longleftrightarrow> bit l n \<and> (8 \<le> n \<and> n < 16 \<or> n < 8)"
    by (simp add: write_nbo16_def byte_of_drop_bit bit_or_iff bit_nbo_byte
        bit_nbo_byte0 [simplified]) blast
  with n show "bit ?w n = bit (word_of_int l :: 16 word) n"
    by (auto simp: bit_word_of_int_iff)
qed

lemma nbo32_word:
  "(push_bit 24 (ucast (write_nbo32 l ! 0)) OR push_bit 16 (ucast (write_nbo32 l ! 1)) OR
     push_bit 8 (ucast (write_nbo32 l ! 2)) OR ucast (write_nbo32 l ! 3) :: 32 word) = word_of_int l"
  (is "?w = _")
proof (rule bit_word_eqI)
  fix n assume n: "n < LENGTH(32)"
  have "bit ?w n \<longleftrightarrow> bit l n \<and> (24 \<le> n \<and> n < 32 \<or> 16 \<le> n \<and> n < 24 \<or> 8 \<le> n \<and> n < 16 \<or> n < 8)"
    by (simp add: write_nbo32_def byte_of_drop_bit bit_or_iff bit_nbo_byte
        bit_nbo_byte0 [simplified]) blast
  with n show "bit ?w n = bit (word_of_int l :: 32 word) n"
    by (auto simp: bit_word_of_int_iff)
qed

lemma nbo64_word:
  "(push_bit 56 (ucast (write_nbo64 l ! 0)) OR push_bit 48 (ucast (write_nbo64 l ! 1)) OR
     push_bit 40 (ucast (write_nbo64 l ! 2)) OR push_bit 32 (ucast (write_nbo64 l ! 3)) OR
     push_bit 24 (ucast (write_nbo64 l ! 4)) OR push_bit 16 (ucast (write_nbo64 l ! 5)) OR
     push_bit 8 (ucast (write_nbo64 l ! 6)) OR ucast (write_nbo64 l ! 7) :: 64 word) = word_of_int l"
  (is "?w = _")
proof (rule bit_word_eqI)
  fix n assume n: "n < LENGTH(64)"
  have "bit ?w n \<longleftrightarrow> bit l n \<and> (56 \<le> n \<and> n < 64 \<or> 48 \<le> n \<and> n < 56 \<or> 40 \<le> n \<and> n < 48 \<or>
      32 \<le> n \<and> n < 40 \<or> 24 \<le> n \<and> n < 32 \<or> 16 \<le> n \<and> n < 24 \<or> 8 \<le> n \<and> n < 16 \<or> n < 8)"
    by (simp add: write_nbo64_def byte_of_drop_bit bit_or_iff bit_nbo_byte
        bit_nbo_byte0 [simplified]) blast
  moreover have "56 \<le> n \<and> n < 64 \<or> 48 \<le> n \<and> n < 56 \<or> 40 \<le> n \<and> n < 48 \<or>
      32 \<le> n \<and> n < 40 \<or> 24 \<le> n \<and> n < 32 \<or> 16 \<le> n \<and> n < 24 \<or> 8 \<le> n \<and> n < 16 \<or> n < 8"
    using n by simp linarith
  ultimately show "bit ?w n = bit (word_of_int l :: 64 word) n"
    using n by (simp add: bit_word_of_int_iff)
qed

lemma sint_signed_take:
  "sint (word_of_int l :: 'a::len word) = signed_take_bit (LENGTH('a) - 1) l"
  by (simp add: signed_of_int)

lemma read_write_nbo16:
  "read_nbo16 (write_nbo16 l @ r) = signed_take_bit 15 l"
  by (simp add: read_nbo16_def nth_append nbo16_word [simplified] sint_signed_take)

lemma read_write_nbo32:
  "read_nbo32 (write_nbo32 l @ r) = signed_take_bit 31 l"
  by (simp add: read_nbo32_def nth_append nbo32_word [simplified] sint_signed_take)

lemma read_write_nbo64:
  "read_nbo64 (write_nbo64 l @ r) = signed_take_bit 63 l"
  by (simp add: read_nbo64_def nth_append nbo64_word [simplified] sint_signed_take)

section \<open>Base64\<close>

text \<open>\<open>base64_encode_table\<close> and \<open>base64_decode_table\<close>; 0xff marks a byte outside the alphabet.\<close>

definition base64_encode_table :: bytes where
  "base64_encode_table = lit ''ABCDEFGHIJKLMNOPQRSTUVWXYZabcdefghijklmnopqrstuvwxyz0123456789+/''"

definition base64_decode_table :: bytes where
  "base64_decode_table =
    [0xff, 0xff, 0xff, 0xff, 0xff, 0xff, 0xff, 0xff, 0xff, 0xff, 0xff, 0xff, 0xff, 0xff, 0xff, 0xff,
     0xff, 0xff, 0xff, 0xff, 0xff, 0xff, 0xff, 0xff, 0xff, 0xff, 0xff, 0xff, 0xff, 0xff, 0xff, 0xff,
     0xff, 0xff, 0xff, 0xff, 0xff, 0xff, 0xff, 0xff, 0xff, 0xff, 0xff, 0x3e, 0xff, 0xff, 0xff, 0x3f,
     0x34, 0x35, 0x36, 0x37, 0x38, 0x39, 0x3a, 0x3b, 0x3c, 0x3d, 0xff, 0xff, 0xff, 0xff, 0xff, 0xff,
     0xff, 0x00, 0x01, 0x02, 0x03, 0x04, 0x05, 0x06, 0x07, 0x08, 0x09, 0x0a, 0x0b, 0x0c, 0x0d, 0x0e,
     0x0f, 0x10, 0x11, 0x12, 0x13, 0x14, 0x15, 0x16, 0x17, 0x18, 0x19, 0xff, 0xff, 0xff, 0xff, 0xff,
     0xff, 0x1a, 0x1b, 0x1c, 0x1d, 0x1e, 0x1f, 0x20, 0x21, 0x22, 0x23, 0x24, 0x25, 0x26, 0x27, 0x28,
     0x29, 0x2a, 0x2b, 0x2c, 0x2d, 0x2e, 0x2f, 0x30, 0x31, 0x32, 0x33, 0xff, 0xff, 0xff, 0xff, 0xff,
     0xff, 0xff, 0xff, 0xff, 0xff, 0xff, 0xff, 0xff, 0xff, 0xff, 0xff, 0xff, 0xff, 0xff, 0xff, 0xff,
     0xff, 0xff, 0xff, 0xff, 0xff, 0xff, 0xff, 0xff, 0xff, 0xff, 0xff, 0xff, 0xff, 0xff, 0xff, 0xff,
     0xff, 0xff, 0xff, 0xff, 0xff, 0xff, 0xff, 0xff, 0xff, 0xff, 0xff, 0xff, 0xff, 0xff, 0xff, 0xff,
     0xff, 0xff, 0xff, 0xff, 0xff, 0xff, 0xff, 0xff, 0xff, 0xff, 0xff, 0xff, 0xff, 0xff, 0xff, 0xff,
     0xff, 0xff, 0xff, 0xff, 0xff, 0xff, 0xff, 0xff, 0xff, 0xff, 0xff, 0xff, 0xff, 0xff, 0xff, 0xff,
     0xff, 0xff, 0xff, 0xff, 0xff, 0xff, 0xff, 0xff, 0xff, 0xff, 0xff, 0xff, 0xff, 0xff, 0xff, 0xff,
     0xff, 0xff, 0xff, 0xff, 0xff, 0xff, 0xff, 0xff, 0xff, 0xff, 0xff, 0xff, 0xff, 0xff, 0xff, 0xff,
     0xff, 0xff, 0xff, 0xff, 0xff, 0xff, 0xff, 0xff, 0xff, 0xff, 0xff, 0xff, 0xff, 0xff, 0xff, 0xff]"

text \<open>The C expression \<open>base64_decode_table[c]\<close>.\<close>

definition b64_dec :: "byte \<Rightarrow> byte" where
  "b64_dec c = base64_decode_table ! unat c"

definition BASE64_ENCODED_SIZE :: "nat \<Rightarrow> nat" where
  "BASE64_ENCODED_SIZE strlen = (strlen + 2) div 3 * 4"

definition BASE64_DECODED_SIZE :: "nat \<Rightarrow> nat" where
  "BASE64_DECODED_SIZE base64len = (base64len + 3) div 4 * 3"

text \<open>\<open>base64_encode_table[(triple >> k * 6) & 0x3F]\<close>\<close>

definition b64_char :: "nat \<Rightarrow> nat \<Rightarrow> byte" where
  "b64_char triple k = base64_encode_table ! (drop_bit (k * 6) triple AND 0x3F)"

definition b64_triple :: "byte \<Rightarrow> byte \<Rightarrow> byte \<Rightarrow> nat" where
  "b64_triple byte0 byte1 byte2 = push_bit 16 (unat byte0) + push_bit 8 (unat byte1) + unat byte2"

text \<open>
  The loop \<open>while( out_ptr > out )\<close> of \<open>rbpg_base64_encode\<close>: it reads three bytes before
  \<open>in_ptr\<close>, then stores four before \<open>out_ptr\<close>, walking towards lower addresses.
\<close>

function rbpg_base64_encode_loop :: "nat \<Rightarrow> mem \<Rightarrow> nat \<Rightarrow> nat \<Rightarrow> mem" where
  "rbpg_base64_encode_loop out m in_ptr out_ptr =
     (if out_ptr > out then
        (let byte2 = m (in_ptr - 1); byte1 = m (in_ptr - 2); byte0 = m (in_ptr - 3);
             triple = b64_triple byte0 byte1 byte2;
             m1 = m(out_ptr - 1 := b64_char triple 0);
             m2 = m1(out_ptr - 2 := b64_char triple 1);
             m3 = m2(out_ptr - 3 := b64_char triple 2);
             m4 = m3(out_ptr - 4 := b64_char triple 3)
         in rbpg_base64_encode_loop out m4 (in_ptr - 3) (out_ptr - 4))
      else m)"
  by pat_completeness auto
termination
  by (relation "measure (\<lambda>(out, m, in_ptr, out_ptr). out_ptr - out)") auto

definition rbpg_base64_encode :: "mem \<Rightarrow> nat \<Rightarrow> nat \<Rightarrow> nat \<Rightarrow> mem" where
  "rbpg_base64_encode m out in' len =
     (let in_ptr = in' + len; out_ptr = out + BASE64_ENCODED_SIZE len; part_len = len mod 3
      in if part_len > 0 then
           (let byte2 = 0;
                (byte1, in_ptr) = (if part_len > 1 then (m (in_ptr - 1), in_ptr - 1) else (0, in_ptr));
                byte0 = m (in_ptr - 1); in_ptr = in_ptr - 1;
                triple = b64_triple byte0 byte1 byte2;
                m1 = m(out_ptr - 1 := c_eq);
                m2 = m1(out_ptr - 2 := (if part_len > 1 then b64_char triple 1 else c_eq));
                m3 = m2(out_ptr - 3 := b64_char triple 2);
                m4 = m3(out_ptr - 4 := b64_char triple 3)
            in rbpg_base64_encode_loop out m4 in_ptr (out_ptr - 4))
         else rbpg_base64_encode_loop out m in_ptr out_ptr)"

text \<open>
  \<open>rbpg_base64_decode\<close>. One inner scan \<open>while ((x = table[*in_ptr++]) == 0xff && in_ptr < iend_ptr) {}\<close>
  gives the last table entry it saw and the advanced pointer.
\<close>

function b64_scan :: "mem \<Rightarrow> nat \<Rightarrow> nat \<Rightarrow> byte \<times> nat" where
  "b64_scan m in_ptr iend_ptr =
     (let x = b64_dec (m in_ptr); in_ptr' = in_ptr + 1
      in if x = 0xff \<and> in_ptr' < iend_ptr then b64_scan m in_ptr' iend_ptr else (x, in_ptr'))"
  by pat_completeness auto
termination
  by (relation "measure (\<lambda>(m, i, e). e - i)") auto

declare b64_scan.simps [simp del]

definition b64_scan_if :: "mem \<Rightarrow> nat \<Rightarrow> nat \<Rightarrow> byte \<times> nat" where
  "b64_scan_if m in_ptr iend_ptr =
     (if in_ptr < iend_ptr then b64_scan m in_ptr iend_ptr else (0xff, in_ptr))"

lemma b64_scan_advances: "snd (b64_scan m i e) > i"
proof (induction m i e rule: b64_scan.induct)
  case (1 m i e)
  then show ?case by (subst b64_scan.simps) (fastforce simp: Let_def)
qed

lemma b64_scan_if_advances: "snd (b64_scan_if m i e) \<ge> i"
  using b64_scan_advances [of i m e] by (simp add: b64_scan_if_def)

text \<open>The slow path of one round: four scans, each only while input is left.\<close>

definition b64_slow :: "mem \<Rightarrow> nat \<Rightarrow> nat \<Rightarrow> byte \<times> byte \<times> byte \<times> byte \<times> nat" where
  "b64_slow m in_ptr iend_ptr =
     (let (a, i1) = b64_scan m in_ptr iend_ptr;
          (b, i2) = b64_scan_if m i1 iend_ptr;
          (c, i3) = b64_scan_if m i2 iend_ptr;
          (d, i4) = b64_scan_if m i3 iend_ptr
      in (a, b, c, d, i4))"

lemma b64_slow_advances: "b64_slow m i e = (a, b, c, d, i') \<Longrightarrow> i < i'"
  using b64_scan_advances [of i m e]
    b64_scan_if_advances [of "snd (b64_scan m i e)" m e]
    b64_scan_if_advances [of "snd (b64_scan_if m (snd (b64_scan m i e)) e)" m e]
    b64_scan_if_advances [of "snd (b64_scan_if m (snd (b64_scan_if m (snd (b64_scan m i e)) e)) e)" m e]
  by (auto simp: b64_slow_def Let_def split: prod.splits)

definition b64_byte0 :: "byte \<Rightarrow> byte \<Rightarrow> byte" where
  "b64_byte0 a b = push_bit 2 a OR drop_bit 4 b"

definition b64_byte1 :: "byte \<Rightarrow> byte \<Rightarrow> byte" where
  "b64_byte1 b c = push_bit 4 b OR drop_bit 2 c"

definition b64_byte2 :: "byte \<Rightarrow> byte \<Rightarrow> byte" where
  "b64_byte2 c d = push_bit 6 c OR d"

function rbpg_base64_decode_loop :: "mem \<Rightarrow> nat \<Rightarrow> nat \<Rightarrow> nat \<Rightarrow> mem \<times> nat" where
  "rbpg_base64_decode_loop m in_ptr iend_ptr out_ptr =
     (if in_ptr + 3 < iend_ptr \<and>
         b64_dec (m in_ptr) \<noteq> 0xff \<and>
         b64_dec (m (in_ptr + 1)) \<noteq> 0xff \<and>
         b64_dec (m (in_ptr + 2)) \<noteq> 0xff \<and>
         b64_dec (m (in_ptr + 3)) \<noteq> 0xff
      then
        (let a = b64_dec (m in_ptr); b = b64_dec (m (in_ptr + 1));
             c = b64_dec (m (in_ptr + 2)); d = b64_dec (m (in_ptr + 3))
         in rbpg_base64_decode_loop
              (m(out_ptr := b64_byte0 a b, out_ptr + 1 := b64_byte1 b c, out_ptr + 2 := b64_byte2 c d))
              (in_ptr + 4) iend_ptr (out_ptr + 3))
      else if in_ptr < iend_ptr then
        (case b64_slow m in_ptr iend_ptr of (a, b, c, d, in_ptr') \<Rightarrow>
           let (m', out_ptr') =
             (if a \<noteq> 0xff \<and> b \<noteq> 0xff then
                if c \<noteq> 0xff then
                  if d \<noteq> 0xff then
                    (m(out_ptr := b64_byte0 a b, out_ptr + 1 := b64_byte1 b c, out_ptr + 2 := b64_byte2 c d),
                     out_ptr + 3)
                  else (m(out_ptr := b64_byte0 a b, out_ptr + 1 := b64_byte1 b c), out_ptr + 2)
                else (m(out_ptr := b64_byte0 a b), out_ptr + 1)
              else (m, out_ptr))
           in rbpg_base64_decode_loop m' in_ptr' iend_ptr out_ptr')
      else (m, out_ptr))"
  by pat_completeness auto
termination
  by (relation "measure (\<lambda>(m, i, e, out). e - i)") (auto dest: sym [THEN b64_slow_advances])

definition rbpg_base64_decode :: "mem \<Rightarrow> nat \<Rightarrow> nat \<Rightarrow> nat \<Rightarrow> mem \<times> nat" where
  "rbpg_base64_decode m out in' len =
     (let (m', out_ptr) = rbpg_base64_decode_loop m in' (in' + len) out in (m', out_ptr - out))"

declare rbpg_base64_encode_loop.simps [simp del] rbpg_base64_decode_loop.simps [simp del]

section \<open>Case-insensitive comparison\<close>

text \<open>
  \<open>rbpg_strncasecmp(s1, s2, n)\<close> on memory: at most \<open>n\<close> bytes are examined, a NUL ends both.
\<close>

definition ascii_lower :: "byte \<Rightarrow> byte" where
  "ascii_lower ch = (if 0x41 \<le> ch \<and> ch \<le> 0x5a then ch + (0x61 - 0x41) else ch)"

primrec rbpg_strncasecmp :: "mem \<Rightarrow> nat \<Rightarrow> nat \<Rightarrow> nat \<Rightarrow> int" where
  "rbpg_strncasecmp m s1 s2 0 = 0"
| "rbpg_strncasecmp m s1 s2 (Suc n) =
     (let ch1 = m s1; ch2 = m s2
      in if ch1 \<noteq> ch2 \<and> ascii_lower ch1 \<noteq> ascii_lower ch2
         then uint (ascii_lower ch1) - uint (ascii_lower ch2)
         else if (if ch1 \<noteq> ch2 then ascii_lower ch1 else ch1) = 0 then 0
         else rbpg_strncasecmp m (Suc s1) (Suc s2) n)"

section \<open>Base64 correctness\<close>

fun b64_encode :: "bytes \<Rightarrow> bytes" where
  "b64_encode [] = []"
| "b64_encode [a] = (let t = b64_triple a 0 0 in [b64_char t 3, b64_char t 2, c_eq, c_eq])"
| "b64_encode [a, b] = (let t = b64_triple a b 0 in [b64_char t 3, b64_char t 2, b64_char t 1, c_eq])"
| "b64_encode (a # b # c # r) =
     (let t = b64_triple a b c in [b64_char t 3, b64_char t 2, b64_char t 1, b64_char t 0]) @ b64_encode r"

lemma length_b64_encode: "length (b64_encode xs) = BASE64_ENCODED_SIZE (length xs)"
proof (induction xs rule: b64_encode.induct)
  case (4 a b c r)
  have "(length (a # b # c # r) + 2) div 3 = Suc ((length r + 2) div 3)" by simp
  with 4 show ?case by (simp add: BASE64_ENCODED_SIZE_def Let_def del: length_Cons)
qed (simp_all add: BASE64_ENCODED_SIZE_def Let_def)

lemma b64_encode_append:
  "length xs mod 3 = 0 \<Longrightarrow> b64_encode (xs @ ys) = b64_encode xs @ b64_encode ys"
  by (induction xs rule: b64_encode.induct) (auto simp: Let_def)

definition same_outside :: "mem \<Rightarrow> mem \<Rightarrow> nat \<Rightarrow> nat \<Rightarrow> bool" where
  "same_outside m m' p n \<longleftrightarrow> (\<forall>i. i < p \<or> p + n \<le> i \<longrightarrow> m' i = m i)"

text \<open>
  One block: four bytes \<open>q\<close> stored at the end of the output, then the loop for the
  \<open>k\<close> blocks before it. The stores never touch input that is still to be read, if the output
  does not start below the input or ends before it.
\<close>

lemma same_outside_mono: "same_outside m m' p n \<Longrightarrow> q \<le> p \<Longrightarrow> p + n \<le> q + k \<Longrightarrow> same_outside m m' q k"
  by (auto simp: same_outside_def)

lemma same_outside_trans: "same_outside m m' p n \<Longrightarrow> same_outside m' m'' p n \<Longrightarrow> same_outside m m'' p n"
  by (auto simp: same_outside_def)

lemma same_outside_refl [simp]: "same_outside m m p n"
  by (simp add: same_outside_def)

lemma same_outside_upd: "p \<le> i \<Longrightarrow> i < p + n \<Longrightarrow> same_outside m (m(i := b)) p n"
  by (auto simp: same_outside_def)

lemma same_outside_poke': "p \<le> i \<Longrightarrow> i + length bs \<le> p + n \<Longrightarrow> same_outside m (poke m i bs) p n"
  by (auto simp: same_outside_def poke_apply)

lemma encode_block:
  defines "L \<equiv> \<lambda>m in' out k. rbpg_base64_encode_loop out m (in' + 3 * k) (out + 4 * k)"
  assumes IH: "\<And>m. peek (L m in' out k) out (4 * k) = b64_encode (peek m in' (3 * k)) \<and>
      same_outside m (L m in' out k) out (4 * k)"
    and disj: "in' \<le> out \<or> out + 4 * k + 4 \<le> in'" and q: "length q = 4"
  shows "peek (L (poke m (out + 4 * k) q) in' out k) out (4 * k + 4) = b64_encode (peek m in' (3 * k)) @ q \<and>
      same_outside m (L (poke m (out + 4 * k) q) in' out k) out (4 * k + 4)"
proof
  let ?m4 = "poke m (out + 4 * k) q"
  let ?r = "L ?m4 in' out k"
  have fr: "?r i = ?m4 i" if "i < out \<or> out + 4 * k \<le> i" for i
    using IH [of ?m4] that by (auto simp: same_outside_def)
  have "peek ?m4 in' (3 * k) = peek m in' (3 * k)"
    using disj q by (intro peek_poke_outside) auto
  moreover have "peek ?r (out + 4 * k) 4 = peek ?m4 (out + 4 * k) 4"
    by (rule peek_cong) (simp add: fr)
  ultimately show "peek ?r out (4 * k + 4) = b64_encode (peek m in' (3 * k)) @ q"
    using IH [of ?m4] q peek_poke [of m "out + 4 * k" q] by (simp add: peek_add)
  show "same_outside m ?r out (4 * k + 4)"
    using fr q by (auto simp: same_outside_def poke_apply)
qed

lemma poke4: "poke m p [a, b, c, d] = m(p + 3 := d, p + 2 := c, p + 1 := b, p := a)"
  by (rule ext) (auto simp: numeral_eq_Suc)

lemma b64_encode3: "b64_encode [a, b, c] =
    [b64_char (b64_triple a b c) 3, b64_char (b64_triple a b c) 2, b64_char (b64_triple a b c) 1,
     b64_char (b64_triple a b c) 0]"
  by (simp add: Let_def)

lemma encode_loop_step:
  "out \<le> p \<Longrightarrow> rbpg_base64_encode_loop out m (i + 3) (p + 4)
     = rbpg_base64_encode_loop out (poke m p (b64_encode [m i, m (i + 1), m (i + 2)])) i p"
proof -
  assume "out \<le> p"
  then have "out < p + 4" by simp
  moreover have "p + 4 - 1 = p + 3" "p + 4 - 2 = p + 2" "p + 4 - 3 = p + 1" "p + 4 - 4 = p"
    "i + 3 - 1 = i + 2" "i + 3 - 2 = i + 1" "i + 3 - 3 = i" by simp_all
  ultimately show ?thesis
    unfolding b64_encode3 poke4 by (subst rbpg_base64_encode_loop.simps) (simp only: Let_def if_True)
qed

lemma encode_loop_correct:
  assumes "in' \<le> out \<or> out + 4 * k \<le> in'"
  shows "peek (rbpg_base64_encode_loop out m (in' + 3 * k) (out + 4 * k)) out (4 * k)
           = b64_encode (peek m in' (3 * k)) \<and>
         same_outside m (rbpg_base64_encode_loop out m (in' + 3 * k) (out + 4 * k)) out (4 * k)"
  using assms
proof (induction k arbitrary: m)
  case 0
  show ?case by (subst rbpg_base64_encode_loop.simps) (simp add: same_outside_def)
next
  case (Suc k)
  let ?i = "in' + 3 * k"
  define q where "q = b64_encode [m ?i, m (?i + 1), m (?i + 2)]"
  have loop: "rbpg_base64_encode_loop out m (in' + 3 * Suc k) (out + 4 * Suc k)
      = rbpg_base64_encode_loop out (poke m (out + 4 * k) q) ?i (out + 4 * k)"
    using encode_loop_step [of out "out + 4 * k" m ?i] by (simp add: q_def ac_simps)
  have "peek m in' (3 * Suc k) = peek m in' (3 * k) @ [m ?i, m (?i + 1), m (?i + 2)]"
    by (simp add: numeral_eq_Suc peek_Suc_right)
  then have enc: "b64_encode (peek m in' (3 * Suc k)) = b64_encode (peek m in' (3 * k)) @ q"
    by (simp add: b64_encode_append q_def)
  have q: "length q = 4" by (simp add: q_def Let_def)
  have disj: "in' \<le> out \<or> out + 4 * k + 4 \<le> in'" and le: "in' \<le> out \<or> out + 4 * k \<le> in'"
    using Suc.prems by auto
  have "4 * Suc k = 4 * k + 4" by simp
  then show ?case
    unfolding loop enc using encode_block [OF Suc.IH [OF le] disj q] by (simp add: add.commute)
qed

lemma base64_encode_correct:
  assumes "in' \<le> out \<or> out + BASE64_ENCODED_SIZE len \<le> in'"
  shows "peek (rbpg_base64_encode m out in' len) out (BASE64_ENCODED_SIZE len) = b64_encode (peek m in' len)
    \<and> same_outside m (rbpg_base64_encode m out in' len) out (BASE64_ENCODED_SIZE len)"
proof -
  define k where "k = len div 3"
  have len: "len = 3 * k + len mod 3" by (simp add: k_def)
  let ?r = "peek m (in' + 3 * k) (len mod 3)"
  have in': "peek m in' len = peek m in' (3 * k) @ ?r"
    by (subst len) (simp add: peek_add)
  show ?thesis
  proof (cases "len mod 3 = 0")
    case True
    then have "BASE64_ENCODED_SIZE len = 4 * k" using len by (simp add: BASE64_ENCODED_SIZE_def)
    with True len show ?thesis
      using encode_loop_correct [of in' out k m] assms by (simp add: rbpg_base64_encode_def)
  next
    case False
    then have part: "len mod 3 = 1 \<or> len mod 3 = 2" by presburger
    have sz: "BASE64_ENCODED_SIZE len = 4 * k + 4"
      using len part by (auto simp: BASE64_ENCODED_SIZE_def)
    have q: "length (b64_encode ?r) = 4"
      using part by (auto simp: length_b64_encode BASE64_ENCODED_SIZE_def)
    have "rbpg_base64_encode m out in' len
        = rbpg_base64_encode_loop out (poke m (out + 4 * k) (b64_encode ?r)) (in' + 3 * k) (out + 4 * k)"
      using part
    proof
      assume p: "len mod 3 = 1"
      then have "b64_encode ?r = (let t = b64_triple (m (in' + 3 * k)) 0 0
          in [b64_char t 3, b64_char t 2, c_eq, c_eq])" by (simp add: peek_Suc)
      moreover have "in' + len = in' + 3 * k + 1" using len p by simp
      ultimately show ?thesis
        using p unfolding rbpg_base64_encode_def sz
        by (simp add: Let_def poke4 add.commute del: poke.simps)
    next
      assume p: "len mod 3 = 2"
      then have "b64_encode ?r = (let t = b64_triple (m (in' + 3 * k)) (m (in' + 3 * k + 1)) 0
          in [b64_char t 3, b64_char t 2, b64_char t 1, c_eq])" by (simp add: peek_Suc numeral_2_eq_2)
      moreover have "in' + len = in' + 3 * k + 2" using len p by simp
      ultimately show ?thesis
        using p unfolding rbpg_base64_encode_def sz
        by (simp add: Let_def poke4 add.commute del: poke.simps)
    qed
    moreover have "b64_encode (peek m in' len) = b64_encode (peek m in' (3 * k)) @ b64_encode ?r"
      by (simp add: in' b64_encode_append)
    moreover have le: "in' \<le> out \<or> out + 4 * k \<le> in'" and disj: "in' \<le> out \<or> out + 4 * k + 4 \<le> in'"
      using assms by (auto simp: sz)
    ultimately show ?thesis
      unfolding sz using encode_block [OF encode_loop_correct [OF le] disj q] by simp
  qed
qed

text \<open>
  The specification of the decoder: the sextets of the bytes that belong to the alphabet, in
  groups of four; everything else is skipped.
\<close>

definition sextets :: "bytes \<Rightarrow> bytes" where
  "sextets cs = filter (\<lambda>x. x \<noteq> 0xff) (map b64_dec cs)"

fun b64_groups :: "bytes \<Rightarrow> bytes" where
  "b64_groups (a # b # c # d # r) = b64_byte0 a b # b64_byte1 b c # b64_byte2 c d # b64_groups r"
| "b64_groups [a, b, c] = [b64_byte0 a b, b64_byte1 b c]"
| "b64_groups [a, b] = [b64_byte0 a b]"
| "b64_groups _ = []"

definition b64_decode :: "bytes \<Rightarrow> bytes" where
  "b64_decode cs = b64_groups (sextets cs)"

lemma sextets_simps [simp]:
  "sextets [] = []"
  "sextets (c # cs) = (if b64_dec c = 0xff then sextets cs else b64_dec c # sextets cs)"
  by (simp_all add: sextets_def)

abbreviation tail_of :: "mem \<Rightarrow> nat \<Rightarrow> nat \<Rightarrow> bytes" where
  "tail_of m i e \<equiv> sextets (peek m i (e - i))"

lemma rest_step: "i < e \<Longrightarrow> tail_of m i e = (if b64_dec (m i) = 0xff then tail_of m (i + 1) e else b64_dec (m i) # tail_of m (i + 1) e)"
  using peek_Suc [of m i "e - Suc i"] by (simp add: Suc_diff_Suc)

lemma b64_scan_spec:
  "i < e \<Longrightarrow> b64_scan m i e = (x, i') \<Longrightarrow>
     i < i' \<and> i' \<le> e \<and> (if x = 0xff then tail_of m i e = [] \<and> i' = e else tail_of m i e = x # tail_of m i' e)"
proof (induction m i e arbitrary: x i' rule: b64_scan.induct)
  case (1 m i e)
  show ?case
  proof (cases "b64_dec (m i) = 0xff \<and> i + 1 < e")
    case True
    with "1.prems" have "b64_scan m (i + 1) e = (x, i')" by (subst (asm) b64_scan.simps) (simp add: Let_def)
    with "1.IH" True have "i + 1 < i' \<and> i' \<le> e \<and>
       (if x = 0xff then tail_of m (i + 1) e = [] \<and> i' = e else tail_of m (i + 1) e = x # tail_of m i' e)" by simp
    with True "1.prems"(1) show ?thesis by (simp add: rest_step [of i e m] split: if_splits)
  next
    case False
    with "1.prems" have x: "x = b64_dec (m i)" "i' = i + 1"
      by (subst (asm) b64_scan.simps, auto simp: Let_def split: if_splits)+
    from False "1.prems"(1) have "b64_dec (m i) = 0xff \<Longrightarrow> i + 1 = e" by linarith
    with x "1.prems"(1) show ?thesis by (auto simp: rest_step [of i e m])
  qed
qed

lemma b64_scan_if_spec:
  "i \<le> e \<Longrightarrow> b64_scan_if m i e = (x, i') \<Longrightarrow>
     i \<le> i' \<and> i' \<le> e \<and>
     (if x = 0xff then tail_of m i e = [] \<and> i' = e else tail_of m i e = x # tail_of m i' e \<and> i < i')"
  using b64_scan_spec [of i e m x i'] by (auto simp: b64_scan_if_def split: if_splits)

text \<open>What one round of the loop stores, and how far it moves.\<close>

definition b64_emit :: "byte \<Rightarrow> byte \<Rightarrow> byte \<Rightarrow> byte \<Rightarrow> bytes" where
  "b64_emit a b c d =
     (if a \<noteq> 0xff \<and> b \<noteq> 0xff then
        if c \<noteq> 0xff then
          if d \<noteq> 0xff then [b64_byte0 a b, b64_byte1 b c, b64_byte2 c d]
          else [b64_byte0 a b, b64_byte1 b c]
        else [b64_byte0 a b]
      else [])"

lemma b64_slow_spec:
  assumes "i < e" and "b64_slow m i e = (a, b, c, d, i')"
  shows "i < i' \<and> i' \<le> e \<and> b64_groups (tail_of m i e) = b64_emit a b c d @ b64_groups (tail_of m i' e)
    \<and> i + length (b64_emit a b c d) \<le> i'"
proof -
  from assms(2) obtain i1 i2 i3 where
    s: "b64_scan m i e = (a, i1)" "b64_scan_if m i1 e = (b, i2)" "b64_scan_if m i2 e = (c, i3)"
      "b64_scan_if m i3 e = (d, i')"
    by (auto simp: b64_slow_def Let_def split: prod.splits)
  note a = b64_scan_spec [OF assms(1) s(1)]
  then have "i1 \<le> e" by simp
  note b = b64_scan_if_spec [OF this s(2)]
  then have "i2 \<le> e" by simp
  note c = b64_scan_if_spec [OF this s(3)]
  then have "i3 \<le> e" by simp
  note d = b64_scan_if_spec [OF this s(4)]
  define r0 r1 r2 r3 r4 where r: "r0 = tail_of m i e" "r1 = tail_of m i1 e" "r2 = tail_of m i2 e"
    "r3 = tail_of m i3 e" "r4 = tail_of m i' e"
  note abcd = a [folded r] b [folded r] c [folded r] d [folded r]
  have "r4 = []" if "i' = e" using that r(5) by simp
  with abcd have "b64_groups r0 = b64_emit a b c d @ b64_groups r4"
    by (cases "a = 0xff"; cases "b = 0xff"; cases "c = 0xff"; cases "d = 0xff")
      (simp_all add: b64_emit_def)
  moreover have "i + length (b64_emit a b c d) \<le> i'"
    using abcd by (cases "a = 0xff"; cases "b = 0xff"; cases "c = 0xff"; cases "d = 0xff")
      (simp_all add: b64_emit_def)
  ultimately show ?thesis using a b c d unfolding r by linarith
qed

lemma b64_decode_loop_round:
  "rbpg_base64_decode_loop m i e p =
     (if i < e then
        (let (a, b, c, d, i') =
            (if i + 3 < e \<and> b64_dec (m i) \<noteq> 0xff \<and> b64_dec (m (i + 1)) \<noteq> 0xff \<and>
                b64_dec (m (i + 2)) \<noteq> 0xff \<and> b64_dec (m (i + 3)) \<noteq> 0xff
             then (b64_dec (m i), b64_dec (m (i + 1)), b64_dec (m (i + 2)), b64_dec (m (i + 3)), i + 4)
             else b64_slow m i e);
           out = b64_emit a b c d
         in rbpg_base64_decode_loop (poke m p out) i' e (p + length out))
      else (m, p))"
proof -
  have *: "poke m p [x, y, z] = m(p := x, p + 1 := y, p + 2 := z)" "poke m p [x, y] = m(p := x, p + 1 := y)"
    "poke m p [x] = m(p := x)" for x y z by (simp_all add: numeral_eq_Suc)
  obtain a b c d i' where s: "b64_slow m i e = (a, b, c, d, i')" by (metis prod_cases5)
  show ?thesis
  proof (cases "i + 3 < e \<and> b64_dec (m i) \<noteq> 0xff \<and> b64_dec (m (i + 1)) \<noteq> 0xff \<and>
                b64_dec (m (i + 2)) \<noteq> 0xff \<and> b64_dec (m (i + 3)) \<noteq> 0xff")
    case True
    then have "i < e" by simp
    with True show ?thesis
      by (subst rbpg_base64_decode_loop.simps)
        (simp add: Let_def b64_emit_def * numeral_3_eq_3 del: poke.simps)
  next
    case False
    show ?thesis
      unfolding rbpg_base64_decode_loop.simps [of m i] if_not_P [OF False] s
      by (cases "a = 0xff"; cases "b = 0xff"; cases "c = 0xff"; cases "d = 0xff")
        (simp_all add: Let_def b64_emit_def * numeral_2_eq_2 numeral_3_eq_3 del: poke.simps(2))
  qed
qed


lemma same_outside_poke:
  assumes "same_outside (poke m p xs) m' (p + length xs) n"
  shows "same_outside m m' p (length xs + n)"
    and "peek m' p (length xs + n) = xs @ peek m' (p + length xs) n"
proof -
  show "same_outside m m' p (length xs + n)"
    using assms by (auto simp: same_outside_def poke_apply)
  have "peek m' p (length xs) = peek (poke m p xs) p (length xs)"
    using assms by (intro peek_cong) (auto simp: same_outside_def)
  then show "peek m' p (length xs + n) = xs @ peek m' (p + length xs) n"
    by (simp add: peek_add)
qed

lemma decode_loop_correct:
  assumes "rbpg_base64_decode_loop m i e p = (m', p')" and "i \<le> e" and "p \<le> i \<or> e \<le> p"
  shows "p' = p + length (b64_groups (tail_of m i e)) \<and> peek m' p (p' - p) = b64_groups (tail_of m i e) \<and>
    same_outside m m' p (p' - p)"
  using assms
proof (induction "e - i" arbitrary: m i p rule: less_induct)
  case less
  show ?case
  proof (cases "i < e")
    case False
    with less.prems show ?thesis by (simp add: b64_decode_loop_round same_outside_def)
  next
    case True
    obtain a b c d i' where r: "(if i + 3 < e \<and> b64_dec (m i) \<noteq> 0xff \<and> b64_dec (m (i + 1)) \<noteq> 0xff \<and>
          b64_dec (m (i + 2)) \<noteq> 0xff \<and> b64_dec (m (i + 3)) \<noteq> 0xff
        then (b64_dec (m i), b64_dec (m (i + 1)), b64_dec (m (i + 2)), b64_dec (m (i + 3)), i + 4)
        else b64_slow m i e) = (a, b, c, d, i')" by (metis prod_cases5)
    let ?x = "b64_emit a b c d"
    have step: "i < i' \<and> i' \<le> e \<and> b64_groups (tail_of m i e) = ?x @ b64_groups (tail_of m i' e)
        \<and> i + length ?x \<le> i'"
    proof (cases "i + 3 < e \<and> b64_dec (m i) \<noteq> 0xff \<and> b64_dec (m (i + 1)) \<noteq> 0xff \<and>
          b64_dec (m (i + 2)) \<noteq> 0xff \<and> b64_dec (m (i + 3)) \<noteq> 0xff")
      case fast: True
      with r have abcd: "a = b64_dec (m i)" "b = b64_dec (m (i + 1))" "c = b64_dec (m (i + 2))"
        "d = b64_dec (m (i + 3))" "i' = i + 4" by (auto split: if_splits)
      have "tail_of m i e = [a, b, c, d] @ tail_of m i' e"
        using fast unfolding abcd by (simp add: rest_step numeral_eq_Suc)
      with fast show ?thesis unfolding abcd(5) by (simp add: b64_emit_def abcd(1-4))
    next
      case False
      have "b64_slow m i e = (a, b, c, d, i')" using r unfolding if_not_P [OF False] .
      with True show ?thesis by (rule b64_slow_spec)
    qed
    have rec: "rbpg_base64_decode_loop (poke m p ?x) i' e (p + length ?x) = (m', p')"
      using less.prems(1) True unfolding b64_decode_loop_round [of m i] r by (simp add: Let_def)
    have rest': "tail_of (poke m p ?x) i' e = tail_of m i' e"
      using less.prems(3) step by (subst peek_poke_outside) auto
    have "p + length ?x \<le> i' \<or> e \<le> p + length ?x" using less.prems(3) step by auto
    moreover have "e - i' < e - i" "i' \<le> e" using step True by auto
    ultimately have conj: "p' = p + length ?x + length (b64_groups (tail_of m i' e)) \<and>
      peek m' (p + length ?x) (p' - (p + length ?x)) = b64_groups (tail_of m i' e) \<and>
      same_outside (poke m p ?x) m' (p + length ?x) (p' - (p + length ?x))"
      using less.hyps [OF _ rec] unfolding rest' by blast
    note IH = conj [THEN conjunct1] conj [THEN conjunct2, THEN conjunct1] conj [THEN conjunct2, THEN conjunct2]
    have len: "p' - p = length ?x + (p' - (p + length ?x))" using IH(1) by simp
    show ?thesis
      using IH step same_outside_poke [OF IH(3)] unfolding len by simp
  qed
qed

lemma base64_decode_correct:
  assumes "rbpg_base64_decode m out in' len = (m', n)" and "out \<le> in' \<or> in' + len \<le> out"
  shows "peek m' out n = b64_decode (peek m in' len) \<and> n = length (b64_decode (peek m in' len)) \<and>
    same_outside m m' out n"
  using assms decode_loop_correct [of m in' "in' + len" out]
  by (fastforce simp: rbpg_base64_decode_def b64_decode_def split: prod.splits)

lemma b64_dec_table: "i < 64 \<Longrightarrow> b64_dec (base64_encode_table ! i) = of_nat i"
proof -
  have "list_all (\<lambda>i. b64_dec (base64_encode_table ! i) = of_nat i) [0..<64]" by code_simp
  then show "i < 64 \<Longrightarrow> ?thesis" by (simp add: list_all_iff)
qed

lemma b64_dec_eq [simp]: "b64_dec c_eq = 0xff"
  by code_simp

lemma of_nat_sextet_ne: "i < 64 \<Longrightarrow> (of_nat i :: byte) \<noteq> 0xff"
proof
  assume "i < 64" "(of_nat i :: byte) = 0xff"
  then have "unat (of_nat i :: byte) = 255" by simp
  with \<open>i < 64\<close> show False by (simp add: byte_arith)
qed

definition b64_sx :: "nat \<Rightarrow> nat \<Rightarrow> byte" where
  "b64_sx t k = of_nat (drop_bit (k * 6) t AND 0x3F)"

lemma b64_dec_char: "b64_dec (b64_char t k) = b64_sx t k" "b64_sx t k \<noteq> 0xff"
  using b64_dec_table [of "drop_bit (k * 6) t AND 0x3F"] of_nat_sextet_ne [of "drop_bit (k * 6) t AND 0x3F"]
  by (simp_all add: b64_char_def b64_sx_def byte_arith)

lemma bit_b64_sx: "bit (b64_sx t k) n \<longleftrightarrow> n < 6 \<and> bit t (k * 6 + n)"
proof -
  have "drop_bit (k * 6) t AND 0x3F = take_bit 6 (drop_bit (k * 6) t)"
    using take_bit_eq_mask [of 6 "drop_bit (k * 6) t"] by (simp add: mask_eq_exp_minus_1)
  then show ?thesis by (auto simp: b64_sx_def bit_simps)
qed

lemma b64_triple_or:
  "b64_triple a b c = push_bit 16 (unat a) OR push_bit 8 (unat b) OR unat c"
proof -
  have bnd: "bit (unat (x :: byte)) n \<Longrightarrow> n < 8" for x n
    by (auto simp: bit_unsigned_iff dest: bit_imp_le_length)
  have "push_bit 16 (unat a) + push_bit 8 (unat b) = push_bit 16 (unat a) OR push_bit 8 (unat b)"
    by (rule disjunctive_add) (auto simp: bit_push_bit_iff dest!: bnd)
  moreover have "(push_bit 16 (unat a) OR push_bit 8 (unat b)) + unat c
      = (push_bit 16 (unat a) OR push_bit 8 (unat b)) OR unat c"
    by (rule disjunctive_add) (auto simp: bit_push_bit_iff bit_or_iff dest!: bnd)
  ultimately show ?thesis by (simp add: b64_triple_def or.assoc)
qed

lemma bit_b64_triple:
  assumes "n < 8"
  shows "bit (b64_triple a b c) (16 + n) = bit a n" "bit (b64_triple a b c) (8 + n) = bit b n"
    "bit (b64_triple a b c) n = bit c n"
  using assms by (auto simp: b64_triple_or bit_or_iff bit_push_bit_iff bit_unsigned_iff
      dest: bit_imp_le_length)

lemma b64_bytes_of_sx:
  "b64_byte0 (b64_sx t 3) (b64_sx t 2) = of_nat (drop_bit 16 t)"
  "b64_byte1 (b64_sx t 2) (b64_sx t 1) = of_nat (drop_bit 8 t)"
  "b64_byte2 (b64_sx t 1) (b64_sx t 0) = of_nat t"
proof -
  have le: "2 \<le> n \<Longrightarrow> 18 + (n - 2) = 16 + n" "4 \<le> n \<Longrightarrow> 12 + (n - 4) = 8 + n"
    "6 \<le> n \<Longrightarrow> 6 + (n - 6) = n" for n :: nat by simp_all
  show "b64_byte0 (b64_sx t 3) (b64_sx t 2) = of_nat (drop_bit 16 t)"
  proof (rule bit_word_eqI)
    fix n assume n: "n < LENGTH(8)"
    show "bit (b64_byte0 (b64_sx t 3) (b64_sx t 2)) n = bit (of_nat (drop_bit 16 t) :: byte) n"
      using n by (cases "2 \<le> n") (auto simp: b64_byte0_def bit_or_iff bit_push_bit_iff
        bit_drop_bit_eq bit_b64_sx le bit_simps add.commute)
  qed
  show "b64_byte1 (b64_sx t 2) (b64_sx t 1) = of_nat (drop_bit 8 t)"
  proof (rule bit_word_eqI)
    fix n assume n: "n < LENGTH(8)"
    show "bit (b64_byte1 (b64_sx t 2) (b64_sx t 1)) n = bit (of_nat (drop_bit 8 t) :: byte) n"
      using n by (cases "4 \<le> n") (auto simp: b64_byte1_def bit_or_iff bit_push_bit_iff
        bit_drop_bit_eq bit_b64_sx le bit_simps add.commute)
  qed
  show "b64_byte2 (b64_sx t 1) (b64_sx t 0) = of_nat t"
  proof (rule bit_word_eqI)
    fix n assume n: "n < LENGTH(8)"
    show "bit (b64_byte2 (b64_sx t 1) (b64_sx t 0)) n = bit (of_nat t :: byte) n"
      using n by (cases "6 \<le> n") (auto simp: b64_byte2_def bit_or_iff bit_push_bit_iff
        bit_drop_bit_eq bit_b64_sx le bit_simps add.commute)
  qed
qed

lemma b64_triple_bytes:
  "(of_nat (drop_bit 16 (b64_triple a b c)) :: byte) = a"
  "(of_nat (drop_bit 8 (b64_triple a b c)) :: byte) = b"
  "(of_nat (b64_triple a b c) :: byte) = c"
  by (rule bit_word_eqI, simp add: bit_simps bit_drop_bit_eq bit_b64_triple)+

lemma b64_decode_encode: "b64_decode (b64_encode xs) = xs"
proof (induction xs rule: b64_encode.induct)
  case 1
  show ?case by (simp add: b64_decode_def)
next
  case (2 a)
  show ?case by (simp add: b64_decode_def Let_def b64_dec_char b64_bytes_of_sx b64_triple_bytes
      del: One_nat_def)
next
  case (3 a b)
  show ?case by (simp add: b64_decode_def Let_def b64_dec_char b64_bytes_of_sx b64_triple_bytes
      del: One_nat_def)
next
  case (4 a b c r)
  then show ?case by (simp add: b64_decode_def Let_def b64_dec_char b64_bytes_of_sx b64_triple_bytes
      del: One_nat_def)
qed

lemma length_b64_groups: "length (b64_groups xs) \<le> BASE64_DECODED_SIZE (length xs)"
proof (induction xs rule: b64_groups.induct)
  case (1 a b c d r)
  have "(length (a # b # c # d # r) + 3) div 4 = Suc ((length r + 3) div 4)" by simp
  with 1 show ?case by (simp add: BASE64_DECODED_SIZE_def del: length_Cons)
qed (simp_all add: BASE64_DECODED_SIZE_def)

lemma BASE64_DECODED_SIZE_mono: "i \<le> j \<Longrightarrow> BASE64_DECODED_SIZE i \<le> BASE64_DECODED_SIZE j"
  by (simp add: BASE64_DECODED_SIZE_def div_le_mono)

lemma length_b64_decode: "length (b64_decode cs) \<le> BASE64_DECODED_SIZE (length cs)"
proof -
  have "length (sextets cs) \<le> length cs" by (simp add: sextets_def)
  then show ?thesis
    using length_b64_groups [of "sextets cs"] BASE64_DECODED_SIZE_mono by (fastforce simp: b64_decode_def)
qed

section \<open>Properties\<close>

text \<open>Claim C16. \<open>rbpg_base64_encode\<close> stores the base64 text of the input, as the textbook
  definition on lists gives it, and nothing outside the output buffer, for every length and for
  every placement of the buffers its comment allows: the output may be the input itself.\<close>

theorem rbpg_base64_encode_correct:
  assumes "in' \<le> out \<or> out + BASE64_ENCODED_SIZE len \<le> in'"
  shows "peek (rbpg_base64_encode m out in' len) out (BASE64_ENCODED_SIZE len) = b64_encode (peek m in' len)
    \<and> same_outside m (rbpg_base64_encode m out in' len) out (BASE64_ENCODED_SIZE len)"
  using base64_encode_correct [OF assms] by auto

theorem rbpg_base64_encode_correct_witness:
  "peek (rbpg_base64_encode (poke (\<lambda>_. 0) 0 (lit ''AB'')) 0 0 (length (lit ''AB''))) 0
     (BASE64_ENCODED_SIZE (length (lit ''AB''))) = lit ''QUI=''"
proof -
  have enc: "b64_encode (lit ''AB'') = lit ''QUI=''"
    by (simp add: b64_char_def b64_triple_def base64_encode_table_def push_bit_eq_mult drop_bit_eq_div
        nat_and_mask Let_def)
  have "(0::nat) \<le> 0 \<or> 0 + BASE64_ENCODED_SIZE (length (lit ''AB'')) \<le> 0" by simp
  from rbpg_base64_encode_correct [OF this, of "poke (\<lambda>_. 0) 0 (lit ''AB'')", THEN conjunct1]
  show ?thesis unfolding peek_poke enc .
qed

text \<open>Claim C28. For every input, \<open>rbpg_base64_decode\<close> (fast path, slow path and partial last group)
  equals the specification that skips all bytes outside the alphabet and regroups the rest by
  four; it returns the number of bytes stored, which is within the buffer size
  \<open>BASE64_DECODED_SIZE\<close> that its callers allocate, and writes nothing else, also in place.\<close>

theorem rbpg_base64_decode_correct:
  assumes "rbpg_base64_decode m out in' len = (m', n)" and "out \<le> in' \<or> in' + len \<le> out"
  shows "peek m' out n = b64_decode (peek m in' len) \<and> n = length (b64_decode (peek m in' len)) \<and>
    n \<le> BASE64_DECODED_SIZE len \<and> same_outside m m' out n"
  using base64_decode_correct [OF assms] length_b64_decode [of "peek m in' len"]
  by (metis length_peek)

theorem rbpg_base64_decode_correct_witness:
  "case rbpg_base64_decode (poke (\<lambda>_. 0) 0 (lit ''QU I='')) 0 0 (length (lit ''QU I='')) of
     (m', n) \<Rightarrow> peek m' 0 n = lit ''AB''"
proof -
  obtain m' n where r: "rbpg_base64_decode (poke (\<lambda>_. 0) 0 (lit ''QU I='')) 0 0 (length (lit ''QU I='')) = (m', n)"
    by (metis surj_pair)
  have dec: "b64_decode (lit ''QU I='') = lit ''AB''" by code_simp
  have "(0::nat) \<le> 0 \<or> 0 + length (lit ''QU I='') \<le> 0" by simp
  from rbpg_base64_decode_correct [OF r this, THEN conjunct1]
  have "peek m' 0 n = lit ''AB''" unfolding peek_poke dec .
  then show ?thesis unfolding r by simp
qed

text \<open>Encoding a buffer in place and then decoding it in place gives the original
  bytes back, for every content and length.\<close>

theorem base64_in_place_roundtrip:
  "case rbpg_base64_decode (rbpg_base64_encode m p p len) p p (BASE64_ENCODED_SIZE len) of
     (m', n) \<Rightarrow> n = len \<and> peek m' p n = peek m p len"
proof -
  obtain m' n where r: "rbpg_base64_decode (rbpg_base64_encode m p p len) p p (BASE64_ENCODED_SIZE len) = (m', n)"
    by (metis surj_pair)
  have enc: "peek (rbpg_base64_encode m p p len) p (BASE64_ENCODED_SIZE len) = b64_encode (peek m p len)"
    using base64_encode_correct [of p p len m] by auto
  have "peek m' p n = peek m p len \<and> n = length (peek m p len)"
    using base64_decode_correct [OF r] unfolding enc b64_decode_encode by auto
  then show ?thesis unfolding r by auto
qed

text \<open>Reading back a network byte order field gives the written integer, truncated to
  the width of the field in two's complement; integers in the range of the field are preserved.\<close>

theorem nbo_roundtrip:
  "read_nbo16 (write_nbo16 l @ r) = signed_take_bit 15 l \<and>
   read_nbo32 (write_nbo32 l @ r) = signed_take_bit 31 l \<and>
   read_nbo64 (write_nbo64 l @ r) = signed_take_bit 63 l"
  by (simp add: read_write_nbo16 read_write_nbo32 read_write_nbo64)

end
