(* ===== verification/PG_Escape.thy ===== *)
theory PG_Escape
  imports PG_Util
begin

text \<open>
  Escaping in place. Four encoders (text arrays, quoted literals, COPY rows and records) let
  the element encoder store its bytes at the output position and then move them to their
  final position from right to left, putting an escape byte in front of every special byte.
  Two forms of the loop occur: one runs over all bytes, the other stops as soon as the
  remaining bytes are in place. Both are shown to compute the list function \<open>escape\<close>.
\<close>

text \<open>The argument \<open>f\<close> gives the escape byte that has to precede a byte, if any.\<close>

definition escape1 :: "(byte \<Rightarrow> byte option) \<Rightarrow> byte \<Rightarrow> bytes" where
  "escape1 f c = (case f c of None \<Rightarrow> [c] | Some p \<Rightarrow> [p, c])"

definition escape :: "(byte \<Rightarrow> byte option) \<Rightarrow> bytes \<Rightarrow> bytes" where
  "escape f bs = concat (map (escape1 f) bs)"

text \<open>The number of escape bytes, counted from left to right as the C loops do.\<close>

primrec count_escapes :: "(byte \<Rightarrow> byte option) \<Rightarrow> mem \<Rightarrow> nat \<Rightarrow> nat \<Rightarrow> nat" where
  "count_escapes f m ptr1 0 = 0"
| "count_escapes f m ptr1 (Suc n) = (if f (m ptr1) = None then 0 else 1) + count_escapes f m (ptr1 + 1) n"

text \<open>\<open>while( ptr1 != p_in )\<close> with \<open>ptr1 = p_in + n\<close>.\<close>

primrec escape_all :: "(byte \<Rightarrow> byte option) \<Rightarrow> mem \<Rightarrow> nat \<Rightarrow> nat \<Rightarrow> nat \<Rightarrow> mem" where
  "escape_all f m p_in 0 ptr2 = m"
| "escape_all f m p_in (Suc n) ptr2 =
     (let m1 = m(ptr2 - 1 := m (p_in + n)) in
      case f (m1 (ptr2 - 1)) of
        None \<Rightarrow> escape_all f m1 p_in n (ptr2 - 1)
      | Some p \<Rightarrow> escape_all f (m1(ptr2 - 2 := p)) p_in n (ptr2 - 2))"

text \<open>
  \<open>while( ptr1 != ptr2 )\<close> with \<open>ptr1 = p_in + n\<close>: a decrement of \<open>ptr1\<close> below the start
  of the data is a memory fault.
\<close>

primrec escape_until :: "(byte \<Rightarrow> byte option) \<Rightarrow> mem \<Rightarrow> nat \<Rightarrow> nat \<Rightarrow> nat \<Rightarrow> mem res" where
  "escape_until f m p_in 0 ptr2 = (if ptr2 = p_in then Inr m else Inl MemFault)"
| "escape_until f m p_in (Suc n) ptr2 =
     (if p_in + Suc n = ptr2 then Inr m
      else
        let m1 = m(ptr2 - 1 := m (p_in + n)) in
        case f (m1 (p_in + n)) of
          None \<Rightarrow> escape_until f m1 p_in n (ptr2 - 1)
        | Some p \<Rightarrow> escape_until f (m1(ptr2 - 2 := p)) p_in n (ptr2 - 2))"

section \<open>Lemmas\<close>

lemma escape_simps [simp]:
  "escape f [] = []" "escape f (c # cs) = escape1 f c @ escape f cs"
  "escape f (xs @ ys) = escape f xs @ escape f ys"
  by (simp_all add: escape_def)

lemma length_escape1: "length (escape1 f c) = (if f c = None then 1 else 2)"
  by (simp add: escape1_def split: option.split)

lemma length_escape: "length bs \<le> length (escape f bs)" "length (escape f bs) \<le> 2 * length bs"
  by (induction bs) (auto simp: length_escape1)

lemma count_escapes: "length (escape f (peek m p n)) = n + count_escapes f m p n"
  by (induction n arbitrary: p) (simp_all add: peek_Suc length_escape1)

lemma count_escapes_snoc:
  "count_escapes f m p (Suc n) = count_escapes f m p n + (if f (m (p + n)) = None then 0 else 1)"
proof -
  have "Suc n + count_escapes f m p (Suc n) = length (escape f (peek m p n)) + length (escape1 f (m (p + n)))"
    using count_escapes [of f m p "Suc n", symmetric] by (simp only: peek_Suc_right) simp
  also have "\<dots> = n + count_escapes f m p n + (if f (m (p + n)) = None then 1 else 2)"
    by (simp add: count_escapes length_escape1)
  finally show ?thesis by (simp split: if_splits)
qed

lemma escape_no_escapes: "count_escapes f m p n = 0 \<Longrightarrow> escape f (peek m p n) = peek m p n"
  by (induction n arbitrary: p) (auto simp: peek_Suc escape1_def split: if_splits option.splits)

text \<open>One step of a right to left move: the last bytes are final, the rest is still to be moved.\<close>

lemma same_outside_snoc:
  assumes "same_outside (poke m (q + k) xs) m' q k" and "peek m' q k = ys"
  shows "peek m' q (k + length xs) = ys @ xs \<and> same_outside m m' q (k + length xs)"
proof
  have "peek m' (q + k) (length xs) = peek (poke m (q + k) xs) (q + k) (length xs)"
    using assms(1) by (intro peek_cong) (auto simp: same_outside_def)
  with assms(2) show "peek m' q (k + length xs) = ys @ xs" by (simp add: peek_add)
  show "same_outside m m' q (k + length xs)"
    using assms(1) by (auto simp: same_outside_def poke_apply)
qed

lemma escape_all_step:
  assumes "ptr2 = q + length (escape1 f (m (p_in + n)))"
  shows "escape_all f m p_in (Suc n) ptr2 =
    escape_all f (poke m q (escape1 f (m (p_in + n)))) p_in n q"
proof (cases "f (m (p_in + n))")
  case (Some p)
  then have "m(Suc q := m (p_in + n), q := p) = m(q := p, Suc q := m (p_in + n))" by auto
  with Some show ?thesis using assms by (simp add: escape1_def Let_def)
qed (use assms in \<open>simp add: escape1_def Let_def\<close>)

lemma escape_all_correct:
  assumes "ptr2 = q + length (escape f (peek m p_in n))" and "p_in \<le> q \<or> ptr2 \<le> p_in"
  shows "peek (escape_all f m p_in n ptr2) q (ptr2 - q) = escape f (peek m p_in n) \<and>
    same_outside m (escape_all f m p_in n ptr2) q (ptr2 - q)"
  using assms
proof (induction n arbitrary: m ptr2)
  case 0
  then show ?case by (simp add: same_outside_def)
next
  case (Suc n)
  let ?x = "escape1 f (m (p_in + n))" and ?k = "length (escape f (peek m p_in n))"
  let ?m = "poke m (q + ?k) ?x"
  have ptr2: "ptr2 = q + ?k + length ?x" using Suc.prems(1) by (simp add: peek_Suc_right)
  have "n \<le> ?k" using length_escape(1) [of "peek m p_in n" f] by simp
  then have same: "peek ?m p_in n = peek m p_in n"
    using Suc.prems(2) ptr2 by (intro peek_poke_outside) auto
  have "peek (escape_all f ?m p_in n (q + ?k)) q ?k = escape f (peek m p_in n) \<and>
      same_outside ?m (escape_all f ?m p_in n (q + ?k)) q ?k"
    using Suc.IH [of "q + ?k" ?m] Suc.prems(2) ptr2 unfolding same by auto
  then show ?case
    using same_outside_snoc [of m q ?k ?x "escape_all f ?m p_in n (q + ?k)" "escape f (peek m p_in n)"]
    unfolding escape_all_step [of ptr2 "q + ?k" f m p_in n, OF ptr2] by (simp add: ptr2 peek_Suc_right)
qed

lemma escape_until_step:
  assumes "ptr2 = p_in + n + c + length (escape1 f (m (p_in + n)))" "p_in + Suc n \<noteq> ptr2"
  shows "escape_until f m p_in (Suc n) ptr2 =
    escape_until f (poke m (p_in + n + c) (escape1 f (m (p_in + n)))) p_in n (p_in + n + c)"
proof (cases "f (m (p_in + n))")
  case None
  with assms have "c \<noteq> 0" by (simp add: escape1_def)
  with None show ?thesis using assms by (simp add: escape1_def Let_def)
next
  case (Some p)
  let ?q = "p_in + n + c"
  have "m(Suc ?q := m (p_in + n), ?q := p) = m(?q := p, Suc ?q := m (p_in + n))" by auto
  with Some show ?thesis using assms by (simp add: escape1_def Let_def)
qed

lemma escape_until_correct:
  assumes "ptr2 = p_in + n + count_escapes f m p_in n"
  shows "\<exists>m'. escape_until f m p_in n ptr2 = Inr m' \<and>
    peek m' p_in (ptr2 - p_in) = escape f (peek m p_in n) \<and> same_outside m m' p_in (ptr2 - p_in)"
  using assms
proof (induction n arbitrary: m ptr2)
  case 0
  then show ?case by (simp add: same_outside_def)
next
  case (Suc n)
  show ?case
  proof (cases "p_in + Suc n = ptr2")
    case True
    then have "count_escapes f m p_in (Suc n) = 0" using Suc.prems by simp
    then have "escape f (peek m p_in (Suc n)) = peek m p_in (Suc n)" by (rule escape_no_escapes)
    with True show ?thesis by (auto simp: same_outside_def)
  next
    case False
    let ?x = "escape1 f (m (p_in + n))" and ?c = "count_escapes f m p_in n"
    let ?m = "poke m (p_in + n + ?c) ?x"
    have ptr2: "ptr2 = p_in + n + ?c + length ?x"
      using Suc.prems unfolding count_escapes_snoc by (auto simp: length_escape1)
    have same: "peek ?m p_in n = peek m p_in n" by (rule peek_poke_outside) simp
    have "n + count_escapes f ?m p_in n = n + ?c"
      unfolding count_escapes [symmetric] same ..
    then have "p_in + n + ?c = p_in + n + count_escapes f ?m p_in n" by simp
    from Suc.IH [OF this] obtain m' where IH: "escape_until f ?m p_in n (p_in + n + ?c) = Inr m'"
      "peek m' p_in (n + ?c) = escape f (peek m p_in n)" "same_outside ?m m' p_in (n + ?c)"
      unfolding same by (auto simp: add.assoc)
    have "ptr2 - p_in = n + ?c + length ?x" using ptr2 by simp
    with IH same_outside_snoc [of m p_in "n + ?c" ?x m'] escape_until_step [of ptr2 p_in n ?c f m, OF ptr2 False]
    show ?thesis by (simp add: peek_Suc_right add.assoc)
  qed
qed

end
