(* ===== verification/PG_Text_Encoder.thy ===== *)
theory PG_Text_Encoder
  imports PG_Coder PG_Escape
begin

text \<open>
  \<open>ext/pg_text_encoder.c\<close>: the encoder functions for PostgreSQL's text format.
\<close>

section \<open>Booleans, integers\<close>

definition pg_obj_to_i :: "rb_api \<Rightarrow> rvalue \<Rightarrow> rvalue res" where
  "pg_obj_to_i rb value =
     (if TYPE_of value \<in> {T_FIXNUM, T_FLOAT, T_BIGNUM} then Inr value else rb_to_i rb value)"

text \<open>\<open>__builtin_clzll\<close>, whose result for 0 is undefined and a parameter here.\<close>

definition count_leading_zero_bits :: "rb_api \<Rightarrow> 64 word \<Rightarrow> nat" where
  "count_leading_zero_bits rb x =
     (if x = 0 then clz_of_zero rb
      else length (takeWhile (\<lambda>i. \<not> bit x i) (rev [0..<64])))"

text \<open>The loop \<open>do { ... } while (ll != 0)\<close>: the digits, least significant first.\<close>

function enc_digits :: "64 word \<Rightarrow> bytes" where
  "enc_digits oldval =
     (let ll = oldval div 10; remainder = oldval - ll * 10
      in (c_0 + ucast remainder) # (if ll \<noteq> 0 then enc_digits ll else []))"
  by pat_completeness auto
termination
proof (relation "measure unat")
  fix oldval ll remainder :: "64 word"
  assume ll: "ll = oldval div 10" "ll \<noteq> 0"
  then have "unat oldval \<noteq> 0" by (metis div_0 unat_eq_zero)
  with ll(1) show "(ll, oldval) \<in> measure unat" by (simp add: unat_div)
qed simp

declare enc_digits.simps [simp del]

text \<open>The loop that reverses the string between \<open>start\<close> and \<open>out\<close> by swapping.\<close>

function reverse_string :: "bytes \<Rightarrow> nat \<Rightarrow> nat \<Rightarrow> bytes" where
  "reverse_string buf start out =
     (if start < out then reverse_string (buf[start := buf ! out, out := buf ! start]) (start + 1) (out - 1)
      else buf)"
  by pat_completeness auto
termination
  by (relation "measure (\<lambda>(buf, start, out). out - start)") auto

declare reverse_string.simps [simp del]

text \<open>The branch \<open>if(out)\<close> of \<open>pg_text_enc_integer\<close> for the number \<open>sll\<close>.\<close>

definition enc_sll :: "int \<Rightarrow> bytes" where
  "enc_sll sll =
     (let neg = sll < 0; ll = word_of_int (if neg then - sll else sll) :: 64 word;
          buf = enc_digits ll @ (if neg then [c_minus] else [])
      in reverse_string buf 0 (length buf - 1))"

definition pg_text_enc_integer :: "rb_api \<Rightarrow> enc_fn" where
  "pg_text_enc_integer rb value out intermediate enc_idx =
     (if out then
        if TYPE_of intermediate = T_STRING then pg_coder_enc_to_s rb value out intermediate enc_idx
        else rbind (num2 64 (rb_dbl2int rb) intermediate) (\<lambda>sll.
          let s = enc_sll sll in Inr (int (length s), s, intermediate))
      else
        rbind (pg_obj_to_i rb value) (\<lambda>intermediate'.
          if TYPE_of intermediate' = T_FIXNUM then
            rbind (num2 64 (rb_dbl2int rb) intermediate') (\<lambda>sll.
              let ll = word_of_int (if sll < 0 then - sll else sll) :: 64 word;
                  len = (64 - int (count_leading_zero_bits rb ll)) div 3
              in Inr (if sll < 0 then len + 2 else len + 1, [], intermediate'))
          else pg_coder_enc_to_s rb intermediate' False intermediate' enc_idx))"

definition pg_text_enc_boolean :: "rb_api \<Rightarrow> enc_fn" where
  "pg_text_enc_boolean rb value out intermediate enc_idx =
     (case TYPE_of value of
        T_FALSE \<Rightarrow> Inr (1, if out then lit ''f'' else [], intermediate)
      | T_TRUE \<Rightarrow> Inr (1, if out then lit ''t'' else [], intermediate)
      | T_FIXNUM \<Rightarrow> rbind (num2 64 (rb_dbl2int rb) value) (\<lambda>n.
          if n = 0 then Inr (1, if out then lit ''0'' else [], intermediate)
          else if n = 1 then Inr (1, if out then lit ''1'' else [], intermediate)
          else pg_text_enc_integer rb value out intermediate enc_idx)
      | T_BIGNUM \<Rightarrow> rbind (num2 64 (rb_dbl2int rb) value) (\<lambda>n.
          if n = 0 then Inr (1, if out then lit ''0'' else [], intermediate)
          else if n = 1 then Inr (1, if out then lit ''1'' else [], intermediate)
          else pg_text_enc_integer rb value out intermediate enc_idx)
      | _ \<Rightarrow> pg_coder_enc_to_s rb value out intermediate enc_idx)"

section \<open>Floats and numerics\<close>

text \<open>Classification of an IEEE double by its bits, as \<open>isinf\<close>, \<open>isnan\<close> and \<open>dvalue < 0\<close> do.\<close>

definition dbl_exp :: "64 word \<Rightarrow> 64 word" where
  "dbl_exp d = take_bit 11 (drop_bit 52 d)"

definition dbl_isinf :: "64 word \<Rightarrow> bool" where
  "dbl_isinf d \<longleftrightarrow> dbl_exp d = 0x7FF \<and> take_bit 52 d = 0"

definition dbl_isnan :: "64 word \<Rightarrow> bool" where
  "dbl_isnan d \<longleftrightarrow> dbl_exp d = 0x7FF \<and> take_bit 52 d \<noteq> 0"

definition dbl_neg :: "64 word \<Rightarrow> bool" where
  "dbl_neg d \<longleftrightarrow> bit d 63 \<and> take_bit 63 d \<noteq> 0 \<and> \<not> dbl_isnan d"

definition MAX_DOUBLE_DIGITS :: int where
  "MAX_DOUBLE_DIGITS = 16"

text \<open>
  The loop \<open>for( i = MAX_DOUBLE_DIGITS; i > 1; i--)\<close> that stores the fraction digits of the
  exponent format; \<open>p\<close> is the address of \<open>out[0]\<close>.
\<close>

function enc_float_fraction :: "nat \<Rightarrow> int \<Rightarrow> mem \<Rightarrow> 64 word \<Rightarrow> nat \<Rightarrow> mem \<times> 64 word \<times> nat" where
  "enc_float_fraction p i m oldval len =
     (if i > 1 then
        let ll = oldval div 10; remainder = oldval - ll * 10;
            (m', len') = (if remainder \<noteq> 0 \<or> len \<noteq> 0
                          then (m(p + nat i := c_0 + ucast remainder), len + 1) else (m, len))
        in enc_float_fraction p (i - 1) m' ll len'
      else (m, oldval, len))"
  by pat_completeness auto
termination
  by (relation "measure (\<lambda>(p, i, m, ll, len). nat i)") auto

text \<open>The loop of the format without exponent, \<open>i\<close> counting down to 0.\<close>

function enc_float_plain :: "nat \<Rightarrow> int \<Rightarrow> int \<Rightarrow> mem \<Rightarrow> 64 word \<Rightarrow> nat \<Rightarrow> mem \<times> nat" where
  "enc_float_plain p lz i m oldval len =
     (if i \<ge> 0 then
        let ll = oldval div 10; remainder = oldval - ll * 10;
            (m1, i1, len1) = (if i - 1 = lz then (m(p + nat i := c_dot), i - 1, len + 1) else (m, i, len));
            (m2, len2) = (if remainder \<noteq> 0 \<or> len1 \<noteq> 0 \<or> i1 - 2 = lz
                          then (m1(p + nat i1 := c_0 + ucast remainder), len1 + 1) else (m1, len1))
        in enc_float_plain p lz (i1 - 1) m2 ll len2
      else (m, len))"
  by pat_completeness auto
termination
  by (relation "measure (\<lambda>(p, lz, i, m, ll, len). nat (i + 1))") (auto split: if_splits)

declare enc_float_fraction.simps [simp del] enc_float_plain.simps [simp del]

text \<open>
  The two formats, with the address \<open>neg\<close> of \<open>out\<close> after the sign: the memory after the stores
  and the returned length.
\<close>

definition enc_float_digits :: "nat \<Rightarrow> int \<Rightarrow> 64 word \<Rightarrow> mem \<Rightarrow> mem \<times> nat" where
  "enc_float_digits neg exp10i ll m0 =
     (if exp10i \<le> - 5 \<or> exp10i \<ge> 15 then
        let (m1, ll, len) = enc_float_fraction neg MAX_DOUBLE_DIGITS m0 ll 0;
            (m2, len) = (if len \<noteq> 0 then (m1(neg + 1 := c_dot), len + 1) else (m1, len));
            remainder = ll - (ll div 10) * 10;
            m3 = m2(neg := c_0 + ucast remainder); len = len + 1;
            m4 = m3(neg + len := 0x65); len = len + 1;
            s = enc_sll exp10i
        in (poke m4 (neg + len) s, neg + len + length s)
      else
        let lz = (if exp10i < 0 then 0 else exp10i);
            (m1, len) = enc_float_plain neg lz (MAX_DOUBLE_DIGITS - (if exp10i < 0 then exp10i else 0)) m0 ll 0
        in (m1, neg + len))"

text \<open>The branch \<open>if(out)\<close> of \<open>pg_text_enc_float\<close>, with \<open>out\<close> at address 0.\<close>

definition enc_dvalue :: "rb_api \<Rightarrow> 64 word \<Rightarrow> mem \<Rightarrow> mem \<times> nat" where
  "enc_dvalue rb dvalue m =
     (if dbl_isinf dvalue then
        if dbl_neg dvalue then (poke m 0 (lit ''-Infinity''), 9) else (poke m 0 (lit ''Infinity''), 8)
      else if dbl_isnan dvalue then (poke m 0 (lit ''NaN''), 3)
      else
        let (dv, m0, neg) = (if dbl_neg dvalue then (take_bit 63 dvalue, m(0 := c_minus), 1)
                             else (dvalue, m, 0));
            exp10i = fp_exp10 rb dv;
            ll = fp_scale rb dv exp10i
        in if ll < 1000000000000000 then enc_float_digits neg (exp10i - 1) (ll * 10) m0
           else enc_float_digits neg exp10i ll m0)"

definition pg_text_enc_float :: "rb_api \<Rightarrow> enc_fn" where
  "pg_text_enc_float rb value out intermediate enc_idx =
     (if out then
        rbind (rb_num2dbl rb value) (\<lambda>dvalue.
          let (m, len) = enc_dvalue rb dvalue (\<lambda>_. 0)
          in Inr (int len, peek m 0 len, intermediate))
      else Inr (1 + MAX_DOUBLE_DIGITS + 1 + 1 + 1 + 3, [], intermediate))"

definition pg_text_enc_numeric :: "rb_api \<Rightarrow> enc_fn" where
  "pg_text_enc_numeric rb value out intermediate enc_idx =
     (if TYPE_of value \<in> {T_FIXNUM, T_BIGNUM} then pg_text_enc_integer rb value out intermediate enc_idx
      else if TYPE_of value = T_FLOAT then pg_text_enc_float rb value out intermediate enc_idx
      else if out then Inl Rb_bug
      else if rb_is_bigdecimal rb value then rbind (rb_to_s_F rb value) (\<lambda>s. Inr (- 1, [], s))
      else pg_coder_enc_to_s rb value False intermediate enc_idx)"

section \<open>Bytea\<close>

definition hextab :: bytes where
  "hextab = lit ''0123456789abcdef''"

definition INT_MAX :: int where
  "INT_MAX = 2147483647"

primrec enc_hex :: "bytes \<Rightarrow> bytes" where
  "enc_hex [] = []"
| "enc_hex (c # cs) = [hextab ! unat (drop_bit 4 c), hextab ! unat (c AND 0xf)] @ enc_hex cs"

definition pg_text_enc_bytea :: "rb_api \<Rightarrow> enc_fn" where
  "pg_text_enc_bytea rb value out intermediate enc_idx =
     (if out then
        let s = lit [CHR 0x5C, CHR ''x''] @ enc_hex (str_bytes intermediate)
        in Inr (int (length s), s, intermediate)
      else rbind (rb_obj_as_string rb value) (\<lambda>str.
        let size = int (length (str_bytes str))
        in if size > INT_MAX div 2 - 2
           then Inl (Raise ArgError ''too large input string for PG::TextEncoder::Bytea: %ld'' [size])
           else Inr (2 + size * 2, [], str)))"

section \<open>Quoting of array elements and literals\<close>

text \<open>The bytes that \<open>quote_array_buffer\<close> escapes and the ones that only force quotation.\<close>

definition array_esc :: "byte \<Rightarrow> byte option" where
  "array_esc ch = (if ch = c_dquote \<or> ch = c_backslash then Some c_backslash else None)"

definition array_special :: "byte \<Rightarrow> byte \<Rightarrow> bool" where
  "array_special delim ch \<longleftrightarrow> ch = c_dquote \<or> ch = c_backslash \<or>
     ch = c_lbrace \<or> ch = c_rbrace \<or> ch = delim \<or>
     ch = c_space \<or> ch = c_tab \<or> ch = c_nl \<or> ch = c_cr \<or> ch = c_vt \<or> ch = c_ff"

text \<open>The loop that counts backslashes and detects special bytes.\<close>

primrec array_needquote :: "byte \<Rightarrow> mem \<Rightarrow> nat \<Rightarrow> nat \<Rightarrow> bool \<Rightarrow> bool" where
  "array_needquote delim m ptr1 0 needquote = needquote"
| "array_needquote delim m ptr1 (Suc n) needquote =
     array_needquote delim m (ptr1 + 1) n (if array_special delim (m ptr1) then True else needquote)"

text \<open>A quote function gets the memory, \<open>p_in\<close>, \<open>strlen\<close> and \<open>p_out\<close>.\<close>

type_synonym quote_func = "mem \<Rightarrow> nat \<Rightarrow> nat \<Rightarrow> nat \<Rightarrow> mem \<times> nat"

text \<open>\<open>rbpg_strncasecmp(p_in, ''NULL'', 4) == 0\<close> with the literal placed outside of the buffers.\<close>

definition is_NULL :: "mem \<Rightarrow> nat \<Rightarrow> bool" where
  "is_NULL m p_in \<longleftrightarrow> rbpg_strncasecmp (poke m (p_in + 4) (lit ''NULL'')) p_in (p_in + 4) 4 = 0"

definition quote_array_buffer :: "byte \<Rightarrow> quote_func" where
  "quote_array_buffer delim m p_in strlen p_out =
     (let needquote = (if strlen = 0 then True
                       else if strlen = 4 \<and> is_NULL m p_in then True else False);
          backslashes = count_escapes array_esc m p_in strlen;
          needquote = array_needquote delim m p_in strlen needquote
      in if needquote then
           let ptr2 = p_out + strlen + backslashes + 2;
               m1 = m(ptr2 - 1 := c_dquote);
               m2 = escape_all array_esc m1 p_in strlen (ptr2 - 1);
               m3 = m2(p_out := c_dquote)
           in (m3, strlen + backslashes + 2)
         else ((if p_in \<noteq> p_out then poke m p_out (peek m p_in strlen) else m), strlen))"

definition literal_esc :: "byte \<Rightarrow> byte option" where
  "literal_esc ch = (if ch = c_squote then Some c_squote else None)"

definition quote_literal_buffer :: quote_func where
  "quote_literal_buffer m p_in strlen p_out =
     (let backslashes = count_escapes literal_esc m p_in strlen;
          ptr2 = p_out + strlen + backslashes + 2;
          m1 = m(ptr2 - 1 := c_squote);
          m2 = escape_all literal_esc m1 p_in strlen (ptr2 - 1);
          m3 = m2(p_out := c_squote)
      in (m3, strlen + backslashes + 2))"

text \<open>
  \<open>quote_string\<close>. The output position is address 0. A String in \<open>subint\<close> is another object, so
  its bytes lie outside of the ensured room; an element stored by the second encoder call lies
  at the output position itself. \<open>subint\<close> is not initialised before the first call.
\<close>

definition quote_string ::
    "rb_api \<Rightarrow> t_pg_coder option \<Rightarrow> rvalue \<Rightarrow> sbuf \<Rightarrow> bool \<Rightarrow> quote_func \<Rightarrow> enc_idx \<Rightarrow> sbuf res" where
  "quote_string rb this value string with_quote quote_buffer enc_idx =
     (let enc_func = pg_coder_enc_func rb this in
      rbind (enc_func value False Qundef enc_idx) (\<lambda>(strlen, _, subint).
        if strlen = - 1 then
          let s = str_bytes subint; strlen = length s in
          if with_quote then
            let string = pg_rb_str_ensure_capa rb (strlen * 2 + 2) string;
                (m, n) = quote_buffer (poke (\<lambda>_. 0) (strlen * 2 + 2) s) (strlen * 2 + 2) strlen 0
            in sb_put (peek m 0 n) string
          else sb_put s (pg_rb_str_ensure_capa rb strlen string)
        else if with_quote then
          let string = pg_rb_str_ensure_capa rb (nat (2 * strlen + 2)) string in
          rbind (enc_func value True subint enc_idx) (\<lambda>(strlen, s, _).
            rbind (sb_fits s string) (\<lambda>_.
              let (m, n) = quote_buffer (poke (\<lambda>_. 0) 0 s) 0 (nat strlen) 0
              in sb_put (peek m 0 n) string))
        else
          let string = pg_rb_str_ensure_capa rb (nat strlen) string in
          rbind (enc_func value True subint enc_idx) (\<lambda>(n, s, _).
            rbind (sb_fits s string) (\<lambda>_. sb_put (take (nat n) s) string))))"

section \<open>Arrays\<close>

abbreviation less_dims :: "int \<Rightarrow> int \<Rightarrow> rb_exc" where
  "less_dims d ds \<equiv> Raise ArgError ''less array dimensions to encode (%d) than expected (%d)'' [d, ds]"

text \<open>
  \<open>write_array\<close> and its loop over the entries; \<open>i\<close> is the loop index.
\<close>

function (sequential)
  write_array :: "rb_api \<Rightarrow> t_pg_composite_coder \<Rightarrow> rvalue list \<Rightarrow> sbuf \<Rightarrow> bool \<Rightarrow> enc_idx \<Rightarrow> int \<Rightarrow> sbuf res"
and write_array_entries :: "rb_api \<Rightarrow> t_pg_composite_coder \<Rightarrow> nat \<Rightarrow> rvalue list \<Rightarrow> sbuf \<Rightarrow> bool \<Rightarrow> enc_idx \<Rightarrow> int \<Rightarrow> sbuf res"
where
  "write_array rb this value string quote enc_idx dimension =
     rbind (sb_put [c_lbrace] (pg_rb_str_ensure_capa rb 2 string)) (\<lambda>string.
       if length value = 0 \<and> dimensions this \<ge> 0 \<and> dimension \<noteq> dimensions this
       then Inl (less_dims dimension (dimensions this))
       else rbind (write_array_entries rb this 0 value string quote enc_idx dimension) (\<lambda>string.
         sb_put [c_rbrace] (pg_rb_str_ensure_capa rb 1 string)))"
| "write_array_entries rb this i [] string quote enc_idx dimension = Inr string"
| "write_array_entries rb this i (entry # rest) string quote enc_idx dimension =
     rbind (if i > 0 then sb_put [delimiter this] (pg_rb_str_ensure_capa rb 1 string) else Inr string) (\<lambda>string.
     rbind
       (case entry of
          Qnil \<Rightarrow>
            if dimensions this \<ge> 0 \<and> dimension \<noteq> dimensions this
            then Inl (less_dims dimension (dimensions this))
            else sb_put (lit ''NULL'') (pg_rb_str_ensure_capa rb 4 string)
        | RArray sub \<Rightarrow>
            if dimensions this < 0 \<or> dimension < dimensions this
            then write_array rb this sub string quote enc_idx (dimension + 1)
            else if dimensions this \<ge> 0 \<and> dimension \<noteq> dimensions this
            then Inl (less_dims dimension (dimensions this))
            else quote_string rb (elem this) entry string quote (quote_array_buffer (delimiter this)) enc_idx
        | _ \<Rightarrow>
            if dimensions this \<ge> 0 \<and> dimension \<noteq> dimensions this
            then Inl (less_dims dimension (dimensions this))
            else quote_string rb (elem this) entry string quote (quote_array_buffer (delimiter this)) enc_idx)
       (\<lambda>string. write_array_entries rb this (i + 1) rest string quote enc_idx dimension))"
  by pat_completeness auto
termination
  by (relation "measure (\<lambda>x. case x of
        Inl (_, _, value, _) \<Rightarrow> 2 * size_list size value + 1
      | Inr (_, _, _, value, _) \<Rightarrow> 2 * size_list size value)") auto

definition pg_text_enc_array :: "rb_api \<Rightarrow> t_pg_composite_coder \<Rightarrow> enc_fn" where
  "pg_text_enc_array rb this value out intermediate enc_idx =
     (case value of
        RArray vs \<Rightarrow>
          rbind (write_array rb this vs (sb_new rb 0) (needs_quotation this) enc_idx 1) (\<lambda>out_str.
            Inr (- 1, [], sb_str out_str enc_idx))
      | _ \<Rightarrow> pg_coder_enc_to_s rb value out intermediate enc_idx)"

section \<open>Identifiers\<close>

text \<open>The loop of \<open>quote_identifier\<close> over the remaining input bytes.\<close>

primrec quote_identifier_loop :: "rb_api \<Rightarrow> bytes \<Rightarrow> sbuf \<Rightarrow> sbuf res" where
  "quote_identifier_loop rb [] s = Inr s"
| "quote_identifier_loop rb (c # p_in) s =
     rbind (if c = c_dquote
            then sb_put [c_dquote] (PG_RB_STR_ENSURE_CAPA rb (length (c # p_in) + 2) s)
            else if c = 0 then Inl (Raise ArgError ''string contains null byte'' [])
            else Inr s) (\<lambda>s.
     rbind (sb_put [c] s) (quote_identifier_loop rb p_in))"

text \<open>\<open>end_capa\<close> starts at \<open>current_out\<close>, so that the first check always looks at the string.\<close>

definition quote_identifier :: "rb_api \<Rightarrow> bytes \<Rightarrow> sbuf \<Rightarrow> sbuf res" where
  "quote_identifier rb value s =
     (let s = PG_RB_STR_ENSURE_CAPA rb (length value + 2) (s\<lparr> sb_end := sb_len s \<rparr>) in
      rbind (sb_put [c_dquote] s) (\<lambda>s.
      rbind (quote_identifier_loop rb value s) (\<lambda>s.
        sb_put [c_dquote] (PG_RB_STR_ENSURE_CAPA rb 1 s))))"

definition ident_string :: "rb_api \<Rightarrow> rvalue \<Rightarrow> enc_idx \<Rightarrow> rvalue res" where
  "ident_string rb entry enc_idx =
     rbind (rb_StringValue rb entry) (\<lambda>entry.
       if ENCODING_GET entry \<noteq> enc_idx then rb_str_export_to_enc rb entry enc_idx else Inr entry)"

primrec pg_text_enc_array_identifier :: "rb_api \<Rightarrow> rvalue list \<Rightarrow> sbuf \<Rightarrow> enc_idx \<Rightarrow> sbuf res" where
  "pg_text_enc_array_identifier rb [] s enc_idx = Inr s"
| "pg_text_enc_array_identifier rb (entry # rest) s enc_idx =
     rbind (ident_string rb entry enc_idx) (\<lambda>entry.
     rbind (quote_identifier rb (str_bytes entry) s) (\<lambda>s.
     rbind (if rest \<noteq> [] then sb_put [c_dot] (pg_rb_str_ensure_capa rb 1 s) else Inr s) (\<lambda>s.
       pg_text_enc_array_identifier rb rest s enc_idx)))"

definition pg_text_enc_identifier :: "rb_api \<Rightarrow> enc_fn" where
  "pg_text_enc_identifier rb value out intermediate enc_idx =
     rbind
       (case value of
          RArray vs \<Rightarrow> pg_text_enc_array_identifier rb vs (sb_new rb 0) enc_idx
        | _ \<Rightarrow> rbind (ident_string rb value enc_idx) (\<lambda>value.
            quote_identifier rb (str_bytes value) (sb_new rb (length (str_bytes value) + 2))))
       (\<lambda>out_str. Inr (- 1, [], sb_str out_str enc_idx))"

section \<open>Quoted literals and base64\<close>

definition pg_text_enc_quoted_literal :: "rb_api \<Rightarrow> t_pg_composite_coder \<Rightarrow> enc_fn" where
  "pg_text_enc_quoted_literal rb this value out intermediate enc_idx =
     rbind (quote_string rb (elem this) value (sb_new rb 0) (needs_quotation this) quote_literal_buffer enc_idx)
       (\<lambda>out_str. Inr (- 1, [], sb_str out_str enc_idx))"

definition pg_text_enc_to_base64 :: "rb_api \<Rightarrow> t_pg_composite_coder \<Rightarrow> enc_fn" where
  "pg_text_enc_to_base64 rb this value out intermediate enc_idx =
     (let enc_func = pg_coder_enc_func rb (elem this) in
      if out then
        rbind (enc_func value True intermediate enc_idx) (\<lambda>(strlen, s, intermediate).
          let n = BASE64_ENCODED_SIZE (nat strlen);
              m = rbpg_base64_encode (poke (\<lambda>_. 0) 0 s) 0 0 (nat strlen)
          in Inr (int n, peek m 0 n, intermediate))
      else
        rbind (enc_func value False Qundef enc_idx) (\<lambda>(strlen, _, subint).
          if strlen = - 1 then
            let s = str_bytes subint; n = BASE64_ENCODED_SIZE (length s);
                m = rbpg_base64_encode (poke (\<lambda>_. 0) n s) 0 n (length s)
            in Inr (- 1, [], RString (peek m 0 n) enc_idx)
          else Inr (int (BASE64_ENCODED_SIZE (nat strlen)), [], subint)))"

section \<open>Decimal numbers\<close>

fun dec_of_nat :: "nat \<Rightarrow> bytes" where
  "dec_of_nat n = (if n < 10 then [c_0 + of_nat n] else dec_of_nat (n div 10) @ [c_0 + of_nat (n mod 10)])"

declare dec_of_nat.simps [simp del]

definition dec_of_int :: "int \<Rightarrow> bytes" where
  "dec_of_int i = (if i < 0 then c_minus # dec_of_nat (nat (- i)) else dec_of_nat (nat i))"

lemma ucast_byte_nat: "(ucast (x :: 64 word) :: byte) = of_nat (unat x)"
  by (rule bit_word_eqI) (simp add: bit_simps)

lemma enc_digits_rev: "rev (enc_digits ll) = dec_of_nat (unat ll)"
proof (induction ll rule: enc_digits.induct)
  case (1 ll)
  have q: "unat (ll div 10) = unat ll div 10" by (simp add: unat_div)
  have "ll - ll div 10 * 10 = ll mod 10" by (metis add_diff_cancel_left' div_mult_mod_eq)
  then have r: "(ucast (ll - ll div 10 * 10) :: byte) = of_nat (unat ll mod 10)"
    by (simp add: ucast_byte_nat unat_mod)
  have "ll div 10 = 0 \<longleftrightarrow> unat ll < 10" by (simp add: q word_unat_eq_iff div_eq_0_iff)
  then show ?case
    using 1 by (subst enc_digits.simps, subst dec_of_nat.simps) (auto simp: Let_def q r)
qed

lemma reverse_string_aux:
  assumes "length a = n" "length z = n"
  shows "reverse_string (a @ xs @ z) n (n + length xs - 1) = a @ rev xs @ z"
  using assms
proof (induction xs arbitrary: a z n rule: measure_induct_rule [where f = length])
  case (less xs)
  show ?case
  proof (cases "length xs < 2")
    case True
    then have "xs = [] \<or> (\<exists>x. xs = [x])" by (cases xs; cases "tl xs") auto
    with less.prems show ?thesis by (subst reverse_string.simps) auto
  next
    case False
    then obtain x ys y where xs: "xs = x # ys @ [y]"
      by (cases xs; cases "tl xs" rule: rev_cases) auto
    have "(a @ xs @ z)[n := (a @ xs @ z) ! (n + length xs - 1), n + length xs - 1 := (a @ xs @ z) ! n]
        = (a @ [y]) @ ys @ (x # z)"
      using less.prems by (auto simp: xs nth_append list_update_append split: if_splits)
    then have "reverse_string (a @ xs @ z) n (n + length xs - 1) =
        reverse_string ((a @ [y]) @ ys @ (x # z)) (n + 1) (n + 1 + length ys - 1)"
      using less.prems by (subst reverse_string.simps) (simp add: xs)
    also have "\<dots> = (a @ [y]) @ rev ys @ (x # z)"
      by (rule less.IH) (use less.prems xs in auto)
    finally show ?thesis by (simp add: xs)
  qed
qed

lemma reverse_string_rev: "reverse_string buf 0 (length buf - 1) = rev buf"
  using reverse_string_aux [of "[]" 0 "[]" buf] by simp

lemma enc_sll_correct:
  assumes "int_in 64 sll"
  shows "enc_sll sll = dec_of_int sll"
proof -
  have "unat (word_of_int (if sll < 0 then - sll else sll) :: 64 word) = nat (if sll < 0 then - sll else sll)"
    using assms by (auto simp: int_in_def unat_eq_nat_uint uint_word_of_int)
  then have "rev (enc_digits (word_of_int (if sll < 0 then - sll else sll))) =
      dec_of_nat (nat (if sll < 0 then - sll else sll))" by (simp only: enc_digits_rev)
  then show ?thesis
    unfolding enc_sll_def Let_def reverse_string_rev by (auto simp: dec_of_int_def)
qed

lemma dec_of_nat_nonempty: "dec_of_nat n \<noteq> []"
  by (subst dec_of_nat.simps) simp

lemma dec_of_nat_length: "n < 10 ^ k \<Longrightarrow> 0 < k \<Longrightarrow> length (dec_of_nat n) \<le> k"
proof (induction k arbitrary: n)
  case (Suc k)
  show ?case
  proof (cases "n < 10")
    case False
    with Suc.prems have "n div 10 < 10 ^ k" "0 < k" by (auto intro: gr0I)
    with Suc.IH False show ?thesis by (subst dec_of_nat.simps) simp
  qed (subst dec_of_nat.simps, simp)
qed simp

lemma dec_of_nat_lower: "n \<noteq> 0 \<Longrightarrow> 10 ^ (length (dec_of_nat n) - 1) \<le> n"
proof (induction n rule: dec_of_nat.induct)
  case (1 n)
  show ?case
  proof (cases "n < 10")
    case False
    have "10 ^ length (dec_of_nat (n div 10)) = 10 * 10 ^ (length (dec_of_nat (n div 10)) - 1)"
      using dec_of_nat_nonempty [of "n div 10"] by (cases "dec_of_nat (n div 10)") auto
    also have "\<dots> \<le> 10 * (n div 10)" using 1 False by simp
    also have "\<dots> \<le> n" by simp
    finally show ?thesis using False by (subst dec_of_nat.simps) simp
  qed (use 1 in \<open>subst dec_of_nat.simps, simp\<close>)
qed

section \<open>The length estimate\<close>

lemma clz_bit:
  assumes "bit (x :: 64 word) i" "x \<noteq> 0"
  shows "count_leading_zero_bits rb x + i \<le> 63"
proof (rule ccontr)
  let ?t = "takeWhile (\<lambda>i. \<not> bit x i) (rev [0..<64])"
  assume "\<not> count_leading_zero_bits rb x + i \<le> 63"
  moreover have i: "i < 64" using bit_imp_le_length [OF assms(1)] by simp
  ultimately have "63 - i < length ?t" using assms(2) by (simp add: count_leading_zero_bits_def)
  then have "?t ! (63 - i) \<in> set ?t" "?t ! (63 - i) = rev [0..<64] ! (63 - i)"
    by (rule nth_mem, rule takeWhile_nth)
  moreover have "rev [0..<64] ! (63 - i) = i" using i by (simp add: rev_nth del: upt_Suc)
  ultimately show False using assms(1) set_takeWhileD by fastforce
qed

lemma clz_le: "rb_api_ok rb \<Longrightarrow> count_leading_zero_bits rb x \<le> 64"
  using length_takeWhile_le [of "\<lambda>i. \<not> bit x i" "rev [0..<64]"] rb_api_okD(20) [of rb]
  by (simp add: count_leading_zero_bits_def)

lemma bit_length_clz:
  assumes "2 ^ k \<le> unat (x :: 64 word)"
  shows "k + count_leading_zero_bits rb x \<le> 63"
proof -
  have "\<exists>i\<ge>k. bit x i"
  proof (rule ccontr)
    assume none: "\<not> (\<exists>i\<ge>k. bit x i)"
    have "take_bit k x = x" by (rule bit_word_eqI) (use none in \<open>auto simp: bit_simps not_le\<close>)
    then have "unat x = take_bit k (unat x)" by (metis unsigned_take_bit_eq)
    then have "unat x < 2 ^ k" by (metis take_bit_nat_less_exp)
    with assms show False by simp
  qed
  then obtain i where "k \<le> i" "bit x i" by blast
  with clz_bit [of x i rb] show ?thesis by fastforce
qed

lemma digits_estimate:
  assumes "rb_api_ok rb"
  shows "int (length (dec_of_nat (unat (x :: 64 word)))) \<le> (64 - int (count_leading_zero_bits rb x)) div 3 + 1"
proof (cases "x = 0")
  case True
  have "length (dec_of_nat 0) = 1" by (simp add: dec_of_nat.simps)
  with True clz_le [OF assms, of 0] show ?thesis by (simp del: One_nat_def)
next
  case False
  let ?d = "length (dec_of_nat (unat x)) - 1"
  have d: "length (dec_of_nat (unat x)) = ?d + 1" using dec_of_nat_nonempty by simp
  have "(2::nat) ^ (3 * ?d) = 8 ^ ?d" by (simp add: power_mult)
  also have "\<dots> \<le> 10 ^ ?d" by (rule power_mono) auto
  also have "\<dots> \<le> unat x" using False dec_of_nat_lower [of "unat x"] by (simp add: unat_eq_zero)
  finally have "3 * ?d + count_leading_zero_bits rb x \<le> 63" by (rule bit_length_clz)
  then have "int ?d \<le> (64 - int (count_leading_zero_bits rb x)) div 3" by linarith
  then show ?thesis using d by linarith
qed

definition int_estimate :: "rb_api \<Rightarrow> int \<Rightarrow> int" where
  "int_estimate rb i = (64 - int (count_leading_zero_bits rb (word_of_int (if i < 0 then - i else i)))) div 3
     + (if i < 0 then 2 else 1)"

lemma fixnum_int_in: "is_fixnum i \<Longrightarrow> int_in 64 i"
  by (simp add: is_fixnum_def int_in_def FIXNUM_MAX_def FIXNUM_MIN_def)

lemma int_estimate_bound:
  assumes "rb_api_ok rb" "int_in 64 i"
  shows "int (length (dec_of_int i)) \<le> int_estimate rb i"
proof -
  have "unat (word_of_int (if i < 0 then - i else i) :: 64 word) = nat (if i < 0 then - i else i)"
    using assms(2) by (auto simp: int_in_def unat_eq_nat_uint uint_word_of_int)
  then have "int (length (dec_of_nat (nat (if i < 0 then - i else i)))) \<le>
      (64 - int (count_leading_zero_bits rb (word_of_int (if i < 0 then - i else i)))) div 3 + 1"
    using digits_estimate [OF assms(1), of "word_of_int (if i < 0 then - i else i)"] by (simp only:)
  then show ?thesis unfolding int_estimate_def dec_of_int_def by (simp split: if_splits)
qed

lemma enc_integer_first_unfold:
  "pg_text_enc_integer rb v False im e = rbind (pg_obj_to_i rb v) (\<lambda>v'.
     case v' of
       RInteger i \<Rightarrow> if is_fixnum i then Inr (int_estimate rb i, [], v')
                     else pg_coder_enc_to_s rb v' False v' e
     | _ \<Rightarrow> pg_coder_enc_to_s rb v' False v' e)"
proof -
  have "(if TYPE_of v' = T_FIXNUM then
            rbind (num2 64 (rb_dbl2int rb) v') (\<lambda>sll.
              let ll = word_of_int (if sll < 0 then - sll else sll) :: 64 word;
                  len = (64 - int (count_leading_zero_bits rb ll)) div 3
              in Inr (if sll < 0 then len + 2 else len + 1, [], v'))
          else pg_coder_enc_to_s rb v' False v' e) =
      (case v' of
       RInteger i \<Rightarrow> if is_fixnum i then Inr (int_estimate rb i, [], v')
                     else pg_coder_enc_to_s rb v' False v' e
     | _ \<Rightarrow> pg_coder_enc_to_s rb v' False v' e)" for v'
    by (cases v') (simp_all add: Let_def int_estimate_def fixnum_int_in)
  then show ?thesis by (simp only: pg_text_enc_integer_def if_False)
qed

lemma enc_integer_first:
  "is_fixnum i \<Longrightarrow> pg_text_enc_integer rb (RInteger i) False im e = Inr (int_estimate rb i, [], RInteger i)"
  by (simp add: enc_integer_first_unfold pg_obj_to_i_def)

lemma enc_integer_second:
  "int_in 64 i \<Longrightarrow> pg_text_enc_integer rb v True (RInteger i) e =
     Inr (int (length (dec_of_int i)), dec_of_int i, RInteger i)"
  by (simp add: pg_text_enc_integer_def Let_def enc_sll_correct)

lemma enc_integer_first_cases:
  assumes "rb_api_ok rb" "pg_text_enc_integer rb v False im e = Inr (n, bs, im')"
  obtains s se where "n = - 1" "bs = []" "im' = RString s se"
  | i where "is_fixnum i" "n = int_estimate rb i" "bs = []" "im' = RInteger i"
proof -
  from assms(2) obtain v' where r: "(case v' of
       RInteger i \<Rightarrow> if is_fixnum i then Inr (int_estimate rb i, [], v')
                     else pg_coder_enc_to_s rb v' False v' e
     | _ \<Rightarrow> pg_coder_enc_to_s rb v' False v' e) = Inr (n, bs, im')"
    unfolding enc_integer_first_unfold by (rule rbind_InrE)
  then consider "pg_coder_enc_to_s rb v' False v' e = Inr (n, bs, im')"
    | i where "is_fixnum i" "n = int_estimate rb i" "bs = []" "im' = RInteger i"
    by (auto split: rvalue.splits if_splits)
  then show thesis
    using that enc_to_s_cases [OF assms(1)] by cases blast+
qed

lemma enc_integer_safe:
  assumes "rb_api_ok rb"
  shows "safe (pg_text_enc_integer rb v False im e)"
  unfolding enc_integer_first_unfold pg_obj_to_i_def
  by (auto intro!: safe_rbind rb_api_okD [OF assms] simp: enc_to_s_safe [OF assms] split: rvalue.splits)

context ruby
begin

lemma two_pass_integer: "two_pass (pg_text_enc_integer rb)"
proof
  show "safe (pg_text_enc_integer rb v False im e)" for v im e by (rule enc_integer_safe [OF rb_ok])
next
  fix v im e n bs im' assume r: "pg_text_enc_integer rb v False im e = Inr (n, bs, im')"
  show "bs = [] \<and> (n = - 1 \<and> is_str im' \<or> 0 \<le> n)"
  proof (cases rule: enc_integer_first_cases [OF rb_ok r])
    case (2 i)
    with int_estimate_bound [OF rb_ok fixnum_int_in, of i] show ?thesis by simp
  qed simp
  assume n: "0 \<le> n"
  then obtain i where i: "is_fixnum i" "n = int_estimate rb i" "im' = RInteger i"
    by (cases rule: enc_integer_first_cases [OF rb_ok r]) auto
  show "safe (pg_text_enc_integer rb v True im' e)"
    using i by (simp add: enc_integer_second fixnum_int_in)
  fix k bs' im'' assume "pg_text_enc_integer rb v True im' e = Inr (k, bs', im'')"
  then show "k = int (length bs') \<and> k \<le> n"
    using i int_estimate_bound [OF rb_ok fixnum_int_in, of i] by (auto simp: enc_integer_second fixnum_int_in)
qed

end

sublocale ruby \<subseteq> text_integer: two_pass "pg_text_enc_integer rb"
  by (rule two_pass_integer)

context ruby
begin

lemma two_pass_boolean: "two_pass (pg_text_enc_boolean rb)"
proof -
  have "contract (pg_text_enc_boolean rb v False im e) (\<lambda>im'. pg_text_enc_boolean rb v True im' e)" for v im e
  proof (cases v)
    case (RInteger i)
    have "contract (pg_text_enc_integer rb v False im e) (\<lambda>im'. pg_text_enc_integer rb v True im' e)"
      using two_pass_contract [OF two_pass_integer] .
    then show ?thesis using RInteger by (auto simp: pg_text_enc_boolean_def)
  qed (auto simp: pg_text_enc_boolean_def contract_to_s [OF rb_ok])
  then show ?thesis by (simp add: two_pass_iff)
qed

lemma two_pass_bytea: "two_pass (pg_text_enc_bytea rb)"
proof -
  have len: "length (enc_hex s) = 2 * length s" for s by (induction s) auto
  have "contract (pg_text_enc_bytea rb v False im e) (\<lambda>im'. pg_text_enc_bytea rb v True im' e)" for v im e
    unfolding pg_text_enc_bytea_def
    by (auto simp: Let_def len intro!: contract_rbind rb_api_okD [OF rb_ok])
  then show ?thesis by (simp add: two_pass_iff)
qed

end

section \<open>Float\<close>

lemma enc_float_fraction_bounds:
  assumes "enc_float_fraction p i m ll len = (m', ll', len')" "1 \<le> i"
  shows "int len' \<le> int len + (i - 1) \<and> same_outside m m' p (nat (i + 1))"
  using assms
proof (induction p i m ll len arbitrary: m' ll' len' rule: enc_float_fraction.induct)
  case (1 p i m ll len)
  show ?case
  proof (cases "i > 1")
    case True
    let ?r = "ll - ll div 10 * 10"
    let ?b = "?r \<noteq> 0 \<or> len \<noteq> 0"
    let ?m = "if ?b then m(p + nat i := c_0 + ucast ?r) else m" and ?l = "if ?b then len + 1 else len"
    have "enc_float_fraction p (i - 1) ?m (ll div 10) ?l = (m', ll', len')"
      using 1(2) True by (subst (asm) enc_float_fraction.simps) (auto simp: Let_def split: if_splits)
    then have "int len' \<le> int ?l + (i - 2) \<and> same_outside ?m m' p (nat i)"
      using 1(1) [OF True refl refl, of "(?m, ?l)" ?m ?l] True by auto
    with True show ?thesis by (auto simp: same_outside_def split: if_splits)
  next
    case False
    with 1(2,3) show ?thesis by (subst (asm) enc_float_fraction.simps) (auto simp: same_outside_def)
  qed
qed

lemma enc_float_plain_bounds:
  assumes "enc_float_plain p lz i m ll len = (m', len')" "- 1 \<le> i" and lz: "0 \<le> lz"
  shows "int len' \<le> int len + (i + 1) \<and> same_outside m m' p (nat (i + 1))"
  using assms(1,2)
proof (induction "nat (i + 1)" arbitrary: i m ll len rule: less_induct)
  case less
  show ?case
  proof (cases "i \<ge> 0")
    case True
    let ?r = "ll - ll div 10 * 10" and ?dot = "i - 1 = lz"
    let ?i = "if ?dot then i - 1 else i" and ?m1 = "if ?dot then m(p + nat i := c_dot) else m"
      and ?l1 = "if ?dot then len + 1 else len"
    let ?dig = "?r \<noteq> 0 \<or> ?l1 \<noteq> 0 \<or> ?i - 2 = lz"
    let ?m2 = "if ?dig then ?m1(p + nat ?i := c_0 + ucast ?r) else ?m1"
      and ?l2 = "if ?dig then ?l1 + 1 else ?l1"
    have i: "?i \<le> i" "- 1 \<le> ?i - 1" using True lz by auto
    have "enc_float_plain p lz (?i - 1) ?m2 (ll div 10) ?l2 = (m', len')"
      using less.prems(1) True by (subst (asm) enc_float_plain.simps) (auto simp: Let_def split: if_splits)
    from less.hyps [OF _ this] i True
    have "int len' \<le> int ?l2 + ?i \<and> same_outside ?m2 m' p (nat ?i)" by simp
    moreover have "same_outside m ?m2 p (nat (i + 1))" using True by (auto simp: same_outside_def)
    ultimately show ?thesis using i True by (auto simp: same_outside_def split: if_splits)
  next
    case False
    with less.prems show ?thesis by (subst (asm) enc_float_plain.simps) (auto simp: same_outside_def)
  qed
qed


lemma dec_of_int_exp:
  assumes "- 325 \<le> i" "i \<le> 309"
  shows "length (dec_of_int i) \<le> 4"
proof -
  have "nat \<bar>i\<bar> < 10 ^ 3" using assms by auto
  then have "length (dec_of_nat (nat \<bar>i\<bar>)) \<le> 3" by (rule dec_of_nat_length) simp
  then show ?thesis by (cases "i < 0") (simp_all add: dec_of_int_def)
qed

text \<open>The exponent format and the plain format, each bounded by the announced 23 bytes.\<close>

lemma enc_float_exponent_bounds:
  assumes f: "enc_float_fraction neg MAX_DOUBLE_DIGITS m0 ll 0 = (m1, ll1, len)"
    and m2: "(m2, len2) = (if len \<noteq> 0 then (m1(neg + 1 := c_dot), len + 1) else (m1, len))"
    and s: "length s \<le> 4" and neg: "neg \<le> 1"
  shows "neg + (len2 + 1 + 1) + length s \<le> 23 \<and>
    same_outside m0 (poke ((m2(neg := d))(neg + (len2 + 1) := 0x65)) (neg + (len2 + 1 + 1)) s) 0 23"
proof -
  have b: "len \<le> 15" "same_outside m0 m1 neg 17"
    using enc_float_fraction_bounds [OF f] by (auto simp: MAX_DOUBLE_DIGITS_def)
  have len2: "len2 \<le> 16" using m2 b(1) by (auto split: if_splits)
  have "same_outside m0 m1 0 23" using b(2) neg by (auto intro: same_outside_mono)
  moreover have "same_outside m1 m2 0 23" using m2 neg by (auto intro!: same_outside_upd split: if_splits)
  moreover have "same_outside m2 (poke ((m2(neg := d))(neg + (len2 + 1) := 0x65)) (neg + (len2 + 1 + 1)) s) 0 23"
    using len2 neg s by (auto simp: same_outside_def poke_apply)
  ultimately have "same_outside m0 (poke ((m2(neg := d))(neg + (len2 + 1) := 0x65)) (neg + (len2 + 1 + 1)) s) 0 23"
    by (meson same_outside_trans)
  with len2 s neg show ?thesis by simp
qed

lemma enc_float_digits_bounds:
  assumes r: "enc_float_digits neg ex ll m0 = (m', len)" and neg: "neg \<le> 1"
    and ex: "- 325 \<le> ex" "ex \<le> 309"
  shows "len \<le> 23 \<and> same_outside m0 m' 0 23"
proof (cases "ex \<le> - 5 \<or> ex \<ge> 15")
  case exp: True
  obtain m1 ll1 l where f: "enc_float_fraction neg MAX_DOUBLE_DIGITS m0 ll 0 = (m1, ll1, l)" by (metis prod_cases3)
  obtain m2 l2 where m2: "(m2, l2) = (if l \<noteq> 0 then (m1(neg + 1 := c_dot), l + 1) else (m1, l))"
    by (metis surj_pair)
  have "int_in 64 ex" using ex by (simp add: int_in_def)
  then have "length (enc_sll ex) \<le> 4" using ex by (simp add: enc_sll_correct dec_of_int_exp)
  from enc_float_exponent_bounds [OF f m2 this neg] r exp f
  show ?thesis unfolding enc_float_digits_def Let_def f prod.case m2 [symmetric] by auto
next
  case plain: False
  obtain m1 l where f: "enc_float_plain neg (if ex < 0 then 0 else ex)
      (MAX_DOUBLE_DIGITS - (if ex < 0 then ex else 0)) m0 ll 0 = (m1, l)" by (metis surj_pair)
  let ?k = "17 - (if ex < 0 then ex else 0)"
  have k: "0 \<le> ?k" "?k \<le> 21" using plain by auto
  then have "int l \<le> ?k \<and> same_outside m0 m1 neg (nat ?k)"
    using enc_float_plain_bounds [OF f] by (simp add: MAX_DOUBLE_DIGITS_def)
  then have "int l \<le> 21 \<and> same_outside m0 m1 neg 21" using k by (auto elim: same_outside_mono)
  then have "l \<le> 21" "same_outside m0 m1 0 23" using neg by (auto intro: same_outside_mono)
  with r plain neg f show ?thesis by (auto simp: Let_def enc_float_digits_def)
qed

lemma enc_dvalue_bounds:
  assumes rb: "rb_api_ok rb" and r: "enc_dvalue rb d m = (m', len)"
  shows "len \<le> 23 \<and> same_outside m m' 0 23"
proof (cases "dbl_isinf d \<or> dbl_isnan d")
  case True
  with r show ?thesis
    by (auto simp: enc_dvalue_def intro!: same_outside_poke' simp del: poke.simps split: if_splits)
next
  case False
  define dv m0 neg where "dv = (if dbl_neg d then take_bit 63 d else d)"
    and "m0 = (if dbl_neg d then m(0 := c_minus) else m)" and "neg = (if dbl_neg d then 1 else 0 :: nat)"
  have neg: "neg \<le> 1" and m0: "same_outside m m0 0 23"
    by (auto simp: neg_def m0_def intro: same_outside_upd)
  obtain ex ll where "- 325 \<le> ex" "ex \<le> 309" "enc_float_digits neg ex ll m0 = (m', len)"
  proof -
    have ex: "- 324 \<le> fp_exp10 rb dv" "fp_exp10 rb dv \<le> 309"
      using rb_api_okD(18,19) [OF rb, of dv] by auto
    let ?ex = "fp_exp10 rb dv" and ?ll = "fp_scale rb dv (fp_exp10 rb dv)"
    have "(if ?ll < 1000000000000000 then enc_float_digits neg (?ex - 1) (?ll * 10) m0
           else enc_float_digits neg ?ex ?ll m0) = (m', len)"
      using r False unfolding enc_dvalue_def dv_def m0_def neg_def by (cases "dbl_neg d") (auto simp: Let_def)
    then show thesis using that [of "?ex - 1" "?ll * 10"] that [of ?ex ?ll] ex by (auto split: if_splits)
  qed
  from enc_float_digits_bounds [OF this(3) neg this(1,2)] m0 show ?thesis
    by (blast intro: same_outside_trans)
qed

context ruby
begin

lemma two_pass_float: "two_pass (pg_text_enc_float rb)"
proof -
  have "contract (pg_text_enc_float rb v False im e) (\<lambda>im'. pg_text_enc_float rb v True im' e)" for v im e
    using enc_dvalue_bounds [OF rb_ok surjective_pairing]
    by (auto simp: pg_text_enc_float_def MAX_DOUBLE_DIGITS_def rbind_Inr_iff case_prod_unfold Let_def
        intro!: safe_rbind rb_api_okD [OF rb_ok])
  then show ?thesis by (simp add: two_pass_iff)
qed

lemma two_pass_numeric: "two_pass (pg_text_enc_numeric rb)"
proof -
  have "contract (pg_text_enc_numeric rb v False im e) (\<lambda>im'. pg_text_enc_numeric rb v True im' e)" for v im e
    using two_pass_contract [OF two_pass_integer, of v im e] two_pass_contract [OF two_pass_float, of v im e]
    by (auto simp: pg_text_enc_numeric_def contract_to_s [OF rb_ok] intro!: contract_rbind rb_api_okD [OF rb_ok])
  then show ?thesis by (simp add: two_pass_iff)
qed

end

section \<open>Quoting\<close>

definition is_null_text :: "bytes \<Rightarrow> bool" where
  "is_null_text bs \<longleftrightarrow> map ascii_lower bs = lit ''null''"

definition array_quoted :: "byte \<Rightarrow> bytes \<Rightarrow> bool" where
  "array_quoted delim bs \<longleftrightarrow> bs = [] \<or> is_null_text bs \<or> (\<exists>c \<in> set bs. array_special delim c)"

definition array_quote :: "byte \<Rightarrow> bytes \<Rightarrow> bytes" where
  "array_quote delim bs = (if array_quoted delim bs
     then c_dquote # escape array_esc bs @ [c_dquote] else bs)"

definition literal_quote :: "bytes \<Rightarrow> bytes" where
  "literal_quote bs = c_squote # escape literal_esc bs @ [c_squote]"

lemma array_needquote_iff:
  "array_needquote delim m p n b \<longleftrightarrow> b \<or> (\<exists>c \<in> set (peek m p n). array_special delim c)"
  by (induction n arbitrary: p b) (auto simp: peek_Suc)

lemma strncasecmp_zero:
  assumes "0 \<notin> set (peek m q n)"
  shows "rbpg_strncasecmp m p q n = 0 \<longleftrightarrow> map ascii_lower (peek m p n) = map ascii_lower (peek m q n)"
  using assms
proof (induction n arbitrary: p q)
  case (Suc n)
  have "ascii_lower (m q) \<noteq> 0"
    using Suc.prems by (auto simp: peek_Suc ascii_lower_def word_le_nat_alt unat_plus_if_size word_unat_eq_iff word_size)
  moreover have "uint (ascii_lower (m p)) = uint (ascii_lower (m q)) \<longleftrightarrow> ascii_lower (m p) = ascii_lower (m q)"
    by (simp add: word_uint_eq_iff)
  ultimately show ?case
    using Suc.IH [of "Suc q" "Suc p"] Suc.prems by (auto simp: peek_Suc Let_def)
qed simp

lemma is_NULL_iff: "is_NULL m p \<longleftrightarrow> is_null_text (peek m p 4)"
proof -
  let ?m = "poke m (p + 4) (lit ''NULL'')"
  have q: "peek ?m (p + 4) 4 = lit ''NULL''"
  proof -
    have "length (lit ''NULL'') = 4" by simp
    then show ?thesis by (metis peek_poke)
  qed
  moreover have "peek ?m p 4 = peek m p 4" by (rule peek_poke_outside) simp
  moreover have "map ascii_lower (lit ''NULL'') = lit ''null''" by code_simp
  ultimately show ?thesis
    using strncasecmp_zero [of ?m "p + 4" 4 p] unfolding is_NULL_def is_null_text_def
    by (simp del: poke.simps)
qed

text \<open>Both quote functions store an opening quote, the escaped bytes and a closing quote.\<close>

lemma quoted_store:
  fixes q :: byte
  assumes place: "p_in = p_out \<or> p_out + (2 * n + 2) \<le> p_in"
    and c: "c = count_escapes f m p_in n"
    and m3: "m3 = (escape_all f (m(p_out + n + c + 2 - 1 := q)) p_in n (p_out + n + c + 2 - 1))(p_out := q)"
  shows "peek m3 p_out (n + c + 2) = q # escape f (peek m p_in n) @ [q] \<and> same_outside m m3 p_out (n + c + 2)"
proof -
  let ?m1 = "m(p_out + n + c + 1 := q)" and ?t = "escape f (peek m p_in n)"
  let ?m2 = "escape_all f ?m1 p_in n (p_out + n + c + 1)"
  have len: "length ?t = n + c" by (simp add: count_escapes c)
  have c_le: "c \<le> n" using length_escape(2) [of f "peek m p_in n"] len by simp
  have same: "peek ?m1 p_in n = peek m p_in n" using place c_le by (intro peek_upd_outside) auto
  have esc: "peek ?m2 (p_out + 1) (n + c) = ?t \<and> same_outside ?m1 ?m2 (p_out + 1) (n + c)"
    using escape_all_correct [of "p_out + n + c + 1" "p_out + 1" f ?m1 p_in n] place c_le len
    unfolding same by auto
  have m3': "m3 = ?m2(p_out := q)" using m3 by simp
  have "peek m3 p_out (n + c + 2) = m3 p_out # peek m3 (p_out + 1) (n + c) @ [m3 (p_out + 1 + (n + c))]"
    using peek_Suc [of m3 p_out "Suc (n + c)"] peek_Suc_right [of m3 "Suc p_out" "n + c"] by simp
  also have "peek m3 (p_out + 1) (n + c) = ?t" using esc by (simp add: m3')
  also have "m3 (p_out + 1 + (n + c)) = q" using esc by (simp add: m3' same_outside_def)
  also have "m3 p_out = q" by (simp add: m3')
  finally have "peek m3 p_out (n + c + 2) = q # ?t @ [q]" .
  moreover have "same_outside m m3 p_out (n + c + 2)"
    using esc by (auto simp: m3' same_outside_def)
  ultimately show ?thesis ..
qed

text \<open>
  The interface between \<open>quote_string\<close> and the quote functions: the input lies at the output
  position or behind the room for the worst case; the output is the quoted text.
\<close>

locale quote_buffer =
  fixes quote :: quote_func and quoted :: "bytes \<Rightarrow> bytes"
  assumes quote_correct: "p_in = p_out \<or> p_out + (2 * n + 2) \<le> p_in \<Longrightarrow> quote m p_in n p_out = (m', k) \<Longrightarrow>
      peek m' p_out k = quoted (peek m p_in n) \<and> same_outside m m' p_out k"
    and quoted_length: "length (quoted bs) \<le> 2 * length bs + 2"
begin

lemma quote_result:
  assumes "p_in = 0 \<or> 2 * n + 2 \<le> p_in" "peek m p_in n = bs"
  obtains m' where "quote m p_in n 0 = (m', length (quoted bs))" "peek m' 0 (length (quoted bs)) = quoted bs"
proof -
  obtain m' k where r: "quote m p_in n 0 = (m', k)" by (metis surj_pair)
  have "p_in = 0 \<or> 0 + (2 * n + 2) \<le> p_in" using assms(1) by simp
  from quote_correct [OF this r] assms(2) have "peek m' 0 k = quoted bs" by simp
  moreover from this have "k = length (quoted bs)" by (metis length_peek)
  ultimately show thesis using that r by simp
qed

lemma quote_string_appends:
  assumes rb: "rb_api_ok rb" and good: "good_coder this" and wf: "sbuf_wf s"
  shows "appends s (rbind (encoded (pg_coder_enc_func rb this) v e) (\<lambda>t. Inr (if wq then quoted t else t)))
    (quote_string rb this v s wq quote e)"
proof -
  let ?enc = "pg_coder_enc_func rb this"
  note tp = two_pass_enc_func [OF rb good]
  show ?thesis
  proof (cases "?enc v False Qundef e")
    case (Inl x)
    then show ?thesis by (simp add: quote_string_def encoded_def)
  next
    case (Inr r)
    obtain n bs im where r: "r = (n, bs, im)" by (cases r)
    show ?thesis
    proof (cases "n = - 1")
      case True
      let ?t = "str_bytes im" and ?p = "length (str_bytes im) * 2 + 2"
      obtain m' where q: "quote (poke (\<lambda>_. 0) ?p ?t) ?p (length ?t) 0 = (m', length (quoted ?t))"
        "peek m' 0 (length (quoted ?t)) = quoted ?t"
        by (rule quote_result [of ?p "length ?t" "poke (\<lambda>_. 0) ?p ?t" ?t]) auto
      show ?thesis
        using Inr r True q quoted_length [of ?t]
          appends_ensure_put [OF rb wf, of "quoted ?t" ?p] appends_ensure_put [OF rb wf, of ?t "length ?t"]
        by (simp add: quote_string_def encoded_def Let_def)
    next
      case False
      note first = Inr [unfolded r]
      show ?thesis
      proof (cases "?enc v True im e")
        case (Inl x)
        with first False show ?thesis by (simp add: quote_string_def encoded_def Let_def)
      next
        case second: (Inr r2)
        obtain k t im2 where r2: "r2 = (k, t, im2)" by (cases r2)
        have k: "k = int (length t)" "k \<le> n"
          using two_pass.second_call(2) [OF tp first False] second r2 by auto
        obtain m' where q: "quote (poke (\<lambda>_. 0) 0 t) 0 (length t) 0 = (m', length (quoted t))"
          "peek m' 0 (length (quoted t)) = quoted t"
          by (rule quote_result [of 0 "length t" "poke (\<lambda>_. 0) 0 t" t]) auto
        have fit: "sb_fits t (pg_rb_str_ensure_capa rb (nat (2 * n + 2)) s) = Inr ()"
          "sb_fits t (pg_rb_str_ensure_capa rb (nat n) s) = Inr ()"
          using k by (auto intro!: sb_fits_room [OF room_ensure [OF rb]])
        show ?thesis
          using first False second r2 k q fit quoted_length [of t]
            appends_ensure_put [OF rb wf, of "quoted t" "nat (2 * n + 2)"]
            appends_ensure_put [OF rb wf, of t "nat n"]
          by (simp add: quote_string_def encoded_def Let_def)
      qed
    qed
  qed
qed

end

interpretation array_quote: quote_buffer "quote_array_buffer delim" "array_quote delim"
proof
  fix m m' :: mem and p_in p_out n k :: nat
  assume place: "p_in = p_out \<or> p_out + (2 * n + 2) \<le> p_in"
    and r: "quote_array_buffer delim m p_in n p_out = (m', k)"
  let ?c = "count_escapes array_esc m p_in n"
  have len4: "is_null_text (peek m p_in n) \<Longrightarrow> n = 4"
    by (auto simp: is_null_text_def dest: arg_cong [where f = length])
  have nq: "array_needquote delim m p_in n
      (if n = 0 then True else if n = 4 \<and> is_NULL m p_in then True else False)
      = array_quoted delim (peek m p_in n)" (is "?nq = _")
  proof -
    have "peek m p_in n = [] \<longleftrightarrow> n = 0" by (metis length_peek length_0_conv)
    then show ?thesis using len4 unfolding array_needquote_iff array_quoted_def is_NULL_iff by metis
  qed
  show "peek m' p_out k = array_quote delim (peek m p_in n) \<and> same_outside m m' p_out k"
  proof (cases ?nq)
    case True
    then have "k = n + ?c + 2"
      "m' = (escape_all array_esc (m(p_out + n + ?c + 2 - 1 := c_dquote)) p_in n (p_out + n + ?c + 2 - 1))(p_out := c_dquote)"
      using r by (auto simp: quote_array_buffer_def Let_def)
    with quoted_store [OF place refl this(2)] True nq show ?thesis by (simp add: array_quote_def)
  next
    case False
    then have "k = n" "m' = (if p_in \<noteq> p_out then poke m p_out (peek m p_in n) else m)"
      using r by (auto simp: quote_array_buffer_def Let_def)
    moreover have "peek (poke m p_out (peek m p_in n)) p_out n = peek m p_in n"
      using peek_poke [of m p_out "peek m p_in n"] by simp
    ultimately show ?thesis
      using False nq by (auto simp: array_quote_def intro: same_outside_poke')
  qed
next
  show "length (array_quote delim bs) \<le> 2 * length bs + 2" for bs
    using length_escape(2) [of array_esc bs] by (simp add: array_quote_def)
qed

interpretation literal_quote: quote_buffer quote_literal_buffer literal_quote
proof
  fix m m' :: mem and p_in p_out n k :: nat
  assume place: "p_in = p_out \<or> p_out + (2 * n + 2) \<le> p_in"
    and r: "quote_literal_buffer m p_in n p_out = (m', k)"
  let ?c = "count_escapes literal_esc m p_in n"
  have "k = n + ?c + 2"
    "m' = (escape_all literal_esc (m(p_out + n + ?c + 2 - 1 := c_squote)) p_in n (p_out + n + ?c + 2 - 1))(p_out := c_squote)"
    using r by (auto simp: quote_literal_buffer_def Let_def)
  with quoted_store [OF place refl this(2)]
  show "peek m' p_out k = literal_quote (peek m p_in n) \<and> same_outside m m' p_out k"
    by (simp add: literal_quote_def)
next
  show "length (literal_quote bs) \<le> 2 * length bs + 2" for bs
    using length_escape(2) [of literal_esc bs] by (simp add: literal_quote_def)
qed

section \<open>Arrays: the text of nested arrays\<close>

text \<open>
  The array literal as a function on values; \<open>el\<close> gives the possibly quoted text of an element,
  \<open>dims\<close> the required number of dimensions (negative when none is set).
\<close>

function (sequential)
  array_text :: "(rvalue \<Rightarrow> bytes res) \<Rightarrow> byte \<Rightarrow> int \<Rightarrow> int \<Rightarrow> rvalue list \<Rightarrow> bytes res"
and array_item :: "(rvalue \<Rightarrow> bytes res) \<Rightarrow> byte \<Rightarrow> int \<Rightarrow> int \<Rightarrow> rvalue \<Rightarrow> bytes res"
and array_items :: "(rvalue \<Rightarrow> bytes res) \<Rightarrow> byte \<Rightarrow> int \<Rightarrow> int \<Rightarrow> nat \<Rightarrow> rvalue list \<Rightarrow> bytes res"
where
  "array_text el d dims dim vs =
     (if vs = [] \<and> dims \<ge> 0 \<and> dim \<noteq> dims then Inl (less_dims dim dims)
      else rbind (array_items el d dims dim 0 vs) (\<lambda>t. Inr (c_lbrace # t @ [c_rbrace])))"
| "array_item el d dims dim (RArray sub) =
     (if dims < 0 \<or> dim < dims then array_text el d dims (dim + 1) sub
      else if dim \<noteq> dims then Inl (less_dims dim dims) else el (RArray sub))"
| "array_item el d dims dim v =
     (if dims \<ge> 0 \<and> dim \<noteq> dims then Inl (less_dims dim dims)
      else if v = Qnil then Inr (lit ''NULL'') else el v)"
| "array_items el d dims dim i [] = Inr []"
| "array_items el d dims dim i (v # vs) =
     rbind (array_item el d dims dim v) (\<lambda>t. rbind (array_items el d dims dim (i + 1) vs) (\<lambda>u.
       Inr ((if i > 0 then [d] else []) @ t @ u)))"
  by pat_completeness auto
termination
  by (relation "measure (\<lambda>x. case x of
        Inl (_, _, _, _, vs) \<Rightarrow> 3 * size_list size vs + 2
      | Inr (Inl (_, _, _, _, v)) \<Rightarrow> 3 * size v
      | Inr (Inr (_, _, _, _, _, vs)) \<Rightarrow> 3 * size_list size vs)") auto

declare array_text.simps [simp del]

text \<open>The text of an element under the array coder \<open>this\<close>.\<close>

definition array_elem :: "rb_api \<Rightarrow> t_pg_composite_coder \<Rightarrow> bool \<Rightarrow> enc_idx \<Rightarrow> rvalue \<Rightarrow> bytes res" where
  "array_elem rb this quote e v =
     rbind (encoded (pg_coder_enc_func rb (elem this)) v e) (\<lambda>t.
       Inr (if quote then array_quote (delimiter this) t else t))"

lemma array_item_default:
  "(\<And>sub. v \<noteq> RArray sub) \<Longrightarrow> v \<noteq> Qnil \<Longrightarrow> array_item el d dims dim v =
     (if dims \<ge> 0 \<and> dim \<noteq> dims then Inl (less_dims dim dims) else el v)"
  by (cases v) auto

lemma write_array_appends:
  "rb_api_ok rb \<Longrightarrow> good_coder (elem this) \<Longrightarrow> sbuf_wf s \<Longrightarrow> appends s
      (array_text (array_elem rb this quote e) (delimiter this) (dimensions this) dim vs)
      (write_array rb this vs s quote e dim)"
  "rb_api_ok rb \<Longrightarrow> good_coder (elem this) \<Longrightarrow> sbuf_wf s \<Longrightarrow> appends s
      (array_items (array_elem rb this quote e) (delimiter this) (dimensions this) dim i vs)
      (write_array_entries rb this i vs s quote e dim)"
proof (induction rb this vs s quote e dim and rb this i vs s quote e dim
    rule: write_array_write_array_entries.induct)
  case (1 rb this vs s quote e dim)
  let ?el = "array_elem rb this quote e"
  have put: "appends s (Inr [c_lbrace]) (sb_put [c_lbrace] (pg_rb_str_ensure_capa rb 2 s))"
    by (rule appends_ensure_put) (use 1 in auto)
  have "appends s (rbind (Inr [c_lbrace]) (\<lambda>t. rbind
      (if length vs = 0 \<and> dimensions this \<ge> 0 \<and> dim \<noteq> dimensions this then Inl (less_dims dim (dimensions this))
       else rbind (array_items ?el (delimiter this) (dimensions this) dim 0 vs) (\<lambda>t.
         rbind (Inr [c_rbrace]) (\<lambda>u. Inr (t @ u)))) (\<lambda>u. Inr (t @ u))))
    (write_array rb this vs s quote e dim)"
    unfolding write_array.simps
  proof (rule appends_rbind [OF put])
    fix t s' assume s': "sb_put [c_lbrace] (pg_rb_str_ensure_capa rb 2 s) = Inr s'" "sbuf_wf s'"
    have "appends s' (rbind (array_items ?el (delimiter this) (dimensions this) dim 0 vs) (\<lambda>t.
         rbind (Inr [c_rbrace]) (\<lambda>u. Inr (t @ u))))
       (rbind (write_array_entries rb this 0 vs s' quote e dim) (\<lambda>string.
         sb_put [c_rbrace] (pg_rb_str_ensure_capa rb 1 string)))"
      if "\<not> (length vs = 0 \<and> dimensions this \<ge> 0 \<and> dim \<noteq> dimensions this)"
      by (rule appends_rbind) (use 1 s' that in \<open>auto intro!: appends_ensure_put\<close>)
    then show "appends s' (if length vs = 0 \<and> dimensions this \<ge> 0 \<and> dim \<noteq> dimensions this
         then Inl (less_dims dim (dimensions this))
         else rbind (array_items ?el (delimiter this) (dimensions this) dim 0 vs) (\<lambda>t.
           rbind (Inr [c_rbrace]) (\<lambda>u. Inr (t @ u))))
       (if length vs = 0 \<and> dimensions this \<ge> 0 \<and> dim \<noteq> dimensions this
         then Inl (less_dims dim (dimensions this))
         else rbind (write_array_entries rb this 0 vs s' quote e dim) (\<lambda>string.
           sb_put [c_rbrace] (pg_rb_str_ensure_capa rb 1 string)))" by simp
  qed
  then show ?case by (auto simp: array_text.simps rbind_assoc)
next
  case (2 rb this i s quote e dim)
  then show ?case by simp
next
  case (3 rb this i v vs s quote e dim)
  let ?el = "array_elem rb this quote e" and ?d = "delimiter this" and ?ds = "dimensions this"
  let ?sep = "if i > 0 then [?d] else []"
  have put: "appends s (Inr ?sep) (if i > 0 then sb_put [delimiter this] (pg_rb_str_ensure_capa rb 1 s) else Inr s)"
    using 3 by (auto intro!: appends_ensure_put)
  have "appends s (rbind (Inr ?sep) (\<lambda>t. rbind
      (rbind (array_item ?el ?d ?ds dim v) (\<lambda>t. rbind (array_items ?el ?d ?ds dim (i + 1) vs) (\<lambda>u. Inr (t @ u))))
      (\<lambda>u. Inr (t @ u))))
    (write_array_entries rb this i (v # vs) s quote e dim)"
    unfolding write_array_entries.simps
  proof (rule appends_rbind [OF put])
    fix t s' assume s': "(if i > 0 then sb_put [?d] (pg_rb_str_ensure_capa rb 1 s) else Inr s) = Inr s'"
      "sbuf_wf s'"
    show "appends s' (rbind (array_item ?el ?d ?ds dim v) (\<lambda>t. rbind (array_items ?el ?d ?ds dim (i + 1) vs) (\<lambda>u. Inr (t @ u))))
      (rbind (case v of
          Qnil \<Rightarrow>
            if dimensions this \<ge> 0 \<and> dim \<noteq> dimensions this
            then Inl (less_dims dim (dimensions this))
            else sb_put (lit ''NULL'') (pg_rb_str_ensure_capa rb 4 s')
        | RArray sub \<Rightarrow>
            if dimensions this < 0 \<or> dim < dimensions this
            then write_array rb this sub s' quote e (dim + 1)
            else if dimensions this \<ge> 0 \<and> dim \<noteq> dimensions this
            then Inl (less_dims dim (dimensions this))
            else quote_string rb (elem this) v s' quote (quote_array_buffer (delimiter this)) e
        | _ \<Rightarrow>
            if dimensions this \<ge> 0 \<and> dim \<noteq> dimensions this
            then Inl (less_dims dim (dimensions this))
            else quote_string rb (elem this) v s' quote (quote_array_buffer (delimiter this)) e)
       (\<lambda>string. write_array_entries rb this (i + 1) vs string quote e dim))"
      (is "appends _ _ (rbind ?w _)")
    proof (rule appends_rbind)
      have q: "appends s' (?el v) (quote_string rb (elem this) v s' quote (quote_array_buffer ?d) e)"
        unfolding array_elem_def by (rule array_quote.quote_string_appends [OF 3(3,4) s'(2)])
      show "appends s' (array_item ?el ?d ?ds dim v) ?w"
        using 3(1) [OF s'(1)] 3(3,4) s'(2) q
        by (cases v) (auto intro!: appends_ensure_put)
    next
      fix t s'' assume "?w = Inr s''" "sbuf_wf s''"
      then show "appends s'' (array_items ?el ?d ?ds dim (i + 1) vs)
          (write_array_entries rb this (i + 1) vs s'' quote e dim)"
        using 3(2) [OF s'(1)] 3(3,4) by blast
    qed
  qed
  then show ?case by (simp add: rbind_assoc)
qed

lemma enc_array_text:
  assumes "rb_api_ok rb" "good_coder (elem this)"
  shows "pg_text_enc_array rb this (RArray vs) out im e =
    rbind (array_text (array_elem rb this (needs_quotation this) e) (delimiter this) (dimensions this) 1 vs)
      (\<lambda>t. Inr (- 1, [], RString t e))"
proof -
  have "appends (sb_new rb 0)
      (array_text (array_elem rb this (needs_quotation this) e) (delimiter this) (dimensions this) 1 vs)
      (write_array rb this vs (sb_new rb 0) (needs_quotation this) e 1)"
    by (rule write_array_appends(1) [OF assms sbuf_wf_new(1) [OF assms(1)]])
  from appends_result [OF this, of "\<lambda>t. (- 1, [], RString t e)"] show ?thesis
    by (simp add: pg_text_enc_array_def sb_str_def)
qed

section \<open>Identifiers\<close>

definition ident_esc :: "byte \<Rightarrow> byte option" where
  "ident_esc c = (if c = c_dquote then Some c_dquote else None)"

abbreviation null_byte_error :: rb_exc where
  "null_byte_error \<equiv> Raise ArgError ''string contains null byte'' []"

definition ident_body :: "bytes \<Rightarrow> bytes res" where
  "ident_body bs = (if 0 \<in> set bs then Inl null_byte_error else Inr (escape ident_esc bs))"

definition ident_text :: "bytes \<Rightarrow> bytes res" where
  "ident_text bs = rbind (ident_body bs) (\<lambda>t. Inr (c_dquote # t @ [c_dquote]))"

lemma quote_identifier_loop_appends:
  assumes rb: "rb_api_ok rb"
  shows "sbuf_wf s \<Longrightarrow> room s (length p_in + 1) \<Longrightarrow>
    appends s (ident_body p_in) (quote_identifier_loop rb p_in s)"
proof (induction p_in arbitrary: s)
  case Nil
  then show ?case by (simp add: ident_body_def)
next
  case (Cons c p_in)
  obtain s1 where s1: "(if c = c_dquote then sb_put [c_dquote] (PG_RB_STR_ENSURE_CAPA rb (length (c # p_in) + 2) s)
      else if c = 0 then Inl null_byte_error else Inr s) = Inr s1"
    "sb_data s1 = sb_data s @ (if c = c_dquote then [c_dquote] else [])" "sbuf_wf s1" "room s1 (length p_in + 2)"
    if "c \<noteq> 0"
  proof (cases "c = c_dquote")
    case True
    let ?s = "PG_RB_STR_ENSURE_CAPA rb (length (c # p_in) + 2) s"
    have "room ?s (length p_in + 3)" using room_ENSURE [OF rb Cons.prems(1), of "length (c # p_in) + 2"] by (simp add: numeral_3_eq_3)
    moreover from this have "sb_put [c_dquote] ?s = Inr (?s\<lparr> sb_data := sb_data ?s @ [c_dquote] \<rparr>)"
      by (rule sb_put_room) simp
    moreover from this have "sbuf_wf (?s\<lparr> sb_data := sb_data ?s @ [c_dquote] \<rparr>)"
      by (rule sb_put_wf) (rule sbuf_wf_ensure(2) [OF rb Cons.prems(1)])
    ultimately show thesis using that True by (auto simp: room_def)
  qed (use that Cons.prems in auto)
  show ?case
  proof (cases "c = 0")
    case True
    then show ?thesis by (simp add: ident_body_def)
  next
    case False
    let ?s2 = "s1\<lparr> sb_data := sb_data s1 @ [c] \<rparr>"
    have put: "sb_put [c] s1 = Inr ?s2" by (rule sb_put_room [OF s1(4)]) (use False in auto)
    have "appends ?s2 (ident_body p_in) (quote_identifier_loop rb p_in ?s2)"
      by (rule Cons.IH) (use s1 [OF False] sb_put_wf [OF put] in \<open>auto simp: room_def\<close>)
    with s1 [OF False] put False show ?thesis
      by (auto simp: appends_def ident_body_def escape1_def ident_esc_def split: if_splits)
  qed
qed

lemma quote_identifier_appends:
  assumes rb: "rb_api_ok rb" and wf: "sbuf_wf s"
  shows "appends s (ident_text v) (quote_identifier rb v s)"
proof -
  let ?start = "s\<lparr> sb_end := sb_len s \<rparr>"
  let ?s = "PG_RB_STR_ENSURE_CAPA rb (length v + 2) ?start"
  have wf0: "sbuf_wf ?start" using wf by (simp add: sbuf_wf_def)
  let ?open = "?s\<lparr> sb_data := sb_data ?s @ [c_dquote] \<rparr>"
  have room: "room ?s (length v + 2)" by (rule room_ENSURE [OF rb wf0])
  then have put: "sb_put [c_dquote] ?s = Inr ?open" by (rule sb_put_room) simp
  have wf1: "sbuf_wf ?open" by (rule sb_put_wf [OF put sbuf_wf_ensure(2) [OF rb wf0]])
  have "appends ?open (rbind (ident_body v) (\<lambda>t. rbind (Inr [c_dquote]) (\<lambda>u. Inr (t @ u))))
     (rbind (quote_identifier_loop rb v ?open) (\<lambda>s. sb_put [c_dquote] (PG_RB_STR_ENSURE_CAPA rb 1 s)))"
    by (rule appends_rbind [OF quote_identifier_loop_appends [OF rb wf1]])
      (use room in \<open>auto simp: room_def intro!: appends_ENSURE_put [OF rb]\<close>)
  then show ?thesis
    using put by (cases "ident_body v") (auto simp: quote_identifier_def ident_text_def appends_def Let_def)
qed

primrec ident_list_text :: "rb_api \<Rightarrow> enc_idx \<Rightarrow> rvalue list \<Rightarrow> bytes res" where
  "ident_list_text rb e [] = Inr []"
| "ident_list_text rb e (v # vs) =
     rbind (rbind (ident_string rb v e) (\<lambda>s. ident_text (str_bytes s))) (\<lambda>t.
     rbind (rbind (Inr (if vs \<noteq> [] then [c_dot] else [])) (\<lambda>t. rbind (ident_list_text rb e vs) (\<lambda>u. Inr (t @ u)))) (\<lambda>u.
       Inr (t @ u)))"

lemma array_identifier_appends:
  assumes rb: "rb_api_ok rb"
  shows "sbuf_wf s \<Longrightarrow> appends s (ident_list_text rb e vs) (pg_text_enc_array_identifier rb vs s e)"
proof (induction vs arbitrary: s)
  case (Cons v vs)
  have "appends s (rbind (ident_string rb v e) (\<lambda>s. ident_text (str_bytes s)))
      (rbind (ident_string rb v e) (\<lambda>x. quote_identifier rb (str_bytes x) s))"
    by (cases "ident_string rb v e") (auto intro: quote_identifier_appends [OF rb Cons.prems])
  then have "appends s (ident_list_text rb e (v # vs))
      (rbind (rbind (ident_string rb v e) (\<lambda>x. quote_identifier rb (str_bytes x) s)) (\<lambda>s.
        rbind (if vs \<noteq> [] then sb_put [c_dot] (pg_rb_str_ensure_capa rb 1 s) else Inr s) (\<lambda>s.
         pg_text_enc_array_identifier rb vs s e)))"
    unfolding ident_list_text.simps
    by (rule appends_rbind, intro appends_rbind) (auto intro: Cons.IH appends_ensure_put [OF rb])
  then show ?case by (simp add: rbind_assoc)
qed simp

lemma array_text_safe:
  assumes "\<And>v. safe (el v)"
  shows "safe (array_text el d dims dim vs)" "safe (array_item el d dims dim v)"
    "safe (array_items el d dims dim i vs)"
  using assms
  by (induction el d dims dim vs and el d dims dim v and el d dims dim i vs
      rule: array_text_array_item_array_items.induct)
    (auto simp: array_text.simps intro!: safe_rbind)

lemma safe_ident_string: "rb_api_ok rb \<Longrightarrow> safe (ident_string rb v e)"
  by (auto simp: ident_string_def intro!: safe_rbind rb_api_okD)

lemma safe_ident_text: "safe (ident_text bs)"
  by (auto simp: ident_text_def ident_body_def)

lemma safe_ident_list: "rb_api_ok rb \<Longrightarrow> safe (ident_list_text rb e vs)"
  by (induction vs) (auto intro!: safe_rbind safe_ident_string safe_ident_text)

lemma enc_identifier_text:
  assumes rb: "rb_api_ok rb"
  shows "pg_text_enc_identifier rb v out im e =
    rbind (case v of RArray vs \<Rightarrow> ident_list_text rb e vs
           | _ \<Rightarrow> rbind (ident_string rb v e) (\<lambda>s. ident_text (str_bytes s)))
      (\<lambda>t. Inr (- 1, [], RString t e))"
proof -
  have arr: "rbind (pg_text_enc_array_identifier rb vs (sb_new rb 0) e) (\<lambda>s. Inr (- 1 :: int, [] :: bytes, RString (sb_data s) e)) =
      rbind (ident_list_text rb e vs) (\<lambda>t. Inr (- 1, [], RString t e))" for vs
    by (rule appends_result [OF array_identifier_appends [OF rb sbuf_wf_new(1) [OF rb]]]) simp
  have one: "rbind (quote_identifier rb bs (sb_new rb (length bs + 2))) (\<lambda>s. Inr (- 1 :: int, [] :: bytes, RString (sb_data s) e)) =
      rbind (ident_text bs) (\<lambda>t. Inr (- 1, [], RString t e))" for bs
    by (rule appends_result [OF quote_identifier_appends [OF rb sbuf_wf_new(1) [OF rb]]]) simp
  show ?thesis
    using arr one by (cases v) (simp_all add: pg_text_enc_identifier_def sb_str_def rbind_assoc)
qed

lemma enc_quoted_literal_text:
  assumes "rb_api_ok rb" "good_coder (elem this)"
  shows "pg_text_enc_quoted_literal rb this v out im e =
    rbind (encoded (pg_coder_enc_func rb (elem this)) v e) (\<lambda>t.
      Inr (- 1, [], RString (if needs_quotation this then literal_quote t else t) e))"
proof -
  have "appends (sb_new rb 0) (rbind (encoded (pg_coder_enc_func rb (elem this)) v e) (\<lambda>t.
      Inr (if needs_quotation this then literal_quote t else t)))
    (quote_string rb (elem this) v (sb_new rb 0) (needs_quotation this) quote_literal_buffer e)"
    by (rule literal_quote.quote_string_appends [OF assms sbuf_wf_new(1) [OF assms(1)]])
  from appends_result [OF this, of "\<lambda>t. (- 1, [], RString t e)"] show ?thesis
    by (simp add: pg_text_enc_quoted_literal_def sb_str_def rbind_assoc)
qed

context ruby
begin

lemma two_pass_array:
  assumes "good_coder (elem this)"
  shows "two_pass (pg_text_enc_array rb this)"
proof -
  have "safe (array_elem rb this q e v)" for q e v
    unfolding array_elem_def
    by (rule safe_rbind [OF encoded_safe [OF enc_func_two_pass [OF assms]]]) simp
  then have arr: "contract (pg_text_enc_array rb this (RArray vs) False im e) r2" for vs im e r2
    unfolding enc_array_text [OF rb_ok assms] by (intro contract_strI [where f = "\<lambda>t. t"] array_text_safe)
  have "contract (pg_text_enc_array rb this v False im e) r2" for v im e r2
  proof (cases "\<exists>vs. v = RArray vs")
    case False
    then have "pg_text_enc_array rb this v False im e = pg_coder_enc_to_s rb v False im e"
      by (cases v) (simp_all add: pg_text_enc_array_def)
    then show ?thesis by (simp add: contract_to_s [OF rb_ok])
  qed (use arr in blast)
  then show ?thesis by (simp add: two_pass_iff)
qed

lemma two_pass_identifier: "two_pass (pg_text_enc_identifier rb)"
proof -
  have "contract (pg_text_enc_identifier rb v out im e) r2" for v out im e r2
    unfolding enc_identifier_text [OF rb_ok]
    by (rule contract_strI) (auto split: rvalue.split intro!: safe_rbind safe_ident_list safe_ident_text
        safe_ident_string rb_ok)
  then show ?thesis by (simp add: two_pass_iff)
qed

lemma two_pass_quoted_literal:
  assumes "good_coder (elem this)"
  shows "two_pass (pg_text_enc_quoted_literal rb this)"
proof -
  have "contract (pg_text_enc_quoted_literal rb this v out im e) r2" for v out im e r2
    unfolding enc_quoted_literal_text [OF rb_ok assms]
    by (rule contract_strI) (rule encoded_safe [OF enc_func_two_pass [OF assms]])
  then show ?thesis by (simp add: two_pass_iff)
qed

lemma two_pass_to_base64:
  assumes "good_coder (elem this)"
  shows "two_pass (pg_text_enc_to_base64 rb this)"
proof -
  let ?enc = "pg_coder_enc_func rb (elem this)"
  note tp = enc_func_two_pass [OF assms]
  have "contract (pg_text_enc_to_base64 rb this v False im e) (\<lambda>im'. pg_text_enc_to_base64 rb this v True im' e)"
    for v im e
  proof (cases "?enc v False Qundef e")
    case (Inl x)
    then show ?thesis using two_pass.first_safe [OF tp, of v Qundef e] by (simp add: pg_text_enc_to_base64_def safe_iff)
  next
    case (Inr r)
    obtain n bs im1 where r: "r = (n, bs, im1)" by (cases r)
    note first = Inr [unfolded r]
    show ?thesis
    proof (cases "n = - 1")
      case True
      with first show ?thesis by (simp add: pg_text_enc_to_base64_def Let_def)
    next
      case False
      have "BASE64_ENCODED_SIZE i \<le> BASE64_ENCODED_SIZE j" if "i \<le> j" for i j
        using that by (simp add: BASE64_ENCODED_SIZE_def div_le_mono)
      with first False two_pass.second_call [OF tp first False] show ?thesis
        by (fastforce simp: pg_text_enc_to_base64_def rbind_Inr_iff Let_def intro!: safe_rbind split: prod.splits)
    qed
  qed
  then show ?thesis by (simp add: two_pass_iff)
qed

end

sublocale ruby \<subseteq> text_boolean: two_pass "pg_text_enc_boolean rb" by (rule two_pass_boolean)
sublocale ruby \<subseteq> text_float: two_pass "pg_text_enc_float rb" by (rule two_pass_float)
sublocale ruby \<subseteq> text_numeric: two_pass "pg_text_enc_numeric rb" by (rule two_pass_numeric)
sublocale ruby \<subseteq> text_bytea: two_pass "pg_text_enc_bytea rb" by (rule two_pass_bytea)
sublocale ruby \<subseteq> text_identifier: two_pass "pg_text_enc_identifier rb" by (rule two_pass_identifier)

section \<open>Properties\<close>

lemma encode_integer_dec:
  assumes "rb_api_ok rb" "is_fixnum i"
  shows "pg_coder_encode rb (pg_simple_encoder_allocate self (Some (\<lambda>_. pg_text_enc_integer rb))) [RInteger i]
    = Inr (RString (dec_of_int i) rb_ascii8bit_encindex)"
proof -
  have "int (length (dec_of_int i)) \<le> int_estimate rb i"
    by (rule int_estimate_bound [OF assms(1) fixnum_int_in [OF assms(2)]])
  then show ?thesis
    using assms(2) by (simp add: pg_coder_encode_def enc_integer_first enc_integer_second fixnum_int_in)
qed



text \<open>Claim C25. \<open>PG::TextEncoder::Array\<close> refines the definition of an array literal: for every nested
  value, the in-place quoting in a growing buffer gives the literal, or the first error, of the
  specification \<open>array_text\<close>, with the elements encoded, quoted and escaped as it says.\<close>

theorem text_array_encode_refines:
  assumes "rb_api_ok rb" and "good_coder (elem this)"
  shows "pg_text_enc_array rb this (RArray vs) out im e =
    rbind (array_text (array_elem rb this (needs_quotation this) e) (delimiter this) (dimensions this) 1 vs)
      (\<lambda>t. Inr (- 1, [], RString t e))"
  by (rule enc_array_text [OF assms])

theorem text_array_encode_refines_witness:
  "pg_text_enc_array rb_sample (pg_composite_encoder_allocate Qnil None) (RArray [Qnil]) False Qnil 0 =
   Inr (- 1, [], RString (lit ''{NULL}'') 0)"
  using text_array_encode_refines [of rb_sample "pg_composite_encoder_allocate Qnil None" "[Qnil]" False Qnil 0]
  by (simp add: array_text.simps)

text \<open>A reader of SQL literals, behind the opening quote: the value and what follows.\<close>

fun read_literal_body :: "bytes \<Rightarrow> (bytes \<times> bytes) option" where
  "read_literal_body [] = None"
| "read_literal_body (c # s) =
     (if c = c_squote then
        (case s of
           c' # s' \<Rightarrow> if c' = c_squote
             then map_option (\<lambda>(t, r). (c_squote # t, r)) (read_literal_body s') else Some ([], s)
         | [] \<Rightarrow> Some ([], []))
      else map_option (\<lambda>(t, r). (c # t, r)) (read_literal_body s))"

lemma read_literal_body_escape:
  "rest = [] \<or> hd rest \<noteq> c_squote \<Longrightarrow>
     read_literal_body (escape literal_esc t @ c_squote # rest) = Some (t, rest)"
proof (induction t)
  case Nil
  then show ?case by (cases rest) auto
next
  case (Cons c t)
  then show ?case by (cases "c = c_squote") (auto simp: escape1_def literal_esc_def)
qed

text \<open>Claim C36. A quoted literal ends exactly at its closing quote: a reader of SQL literals that
  takes two quotes for one gets the encoded value back, and what follows the literal is not
  swallowed and not injected.\<close>

theorem quoted_literal_is_one_literal:
  assumes "rb_api_ok rb" and "good_coder (elem this)" and "needs_quotation this"
    and "encoded (pg_coder_enc_func rb (elem this)) v e = Inr t" and "rest = [] \<or> hd rest \<noteq> c_squote"
  shows "\<exists>lit_text. pg_text_enc_quoted_literal rb this v out im e = Inr (- 1, [], RString (c_squote # lit_text) e) \<and>
    read_literal_body (lit_text @ rest) = Some (t, rest)"
  using enc_quoted_literal_text [OF assms(1,2), of v out im e] assms(3,4) read_literal_body_escape [OF assms(5), of t]
  by (simp add: literal_quote_def)

theorem quoted_literal_is_one_literal_witness:
  "\<exists>lit_text. pg_text_enc_quoted_literal rb_sample (pg_composite_encoder_allocate Qnil None) (RString [c_squote] 0) False Qnil 0
       = Inr (- 1, [], RString (c_squote # lit_text) 0) \<and>
     read_literal_body (lit_text @ lit '';'') = Some ([c_squote], lit '';'')"
  by (rule quoted_literal_is_one_literal)
    (simp_all add: encoded_def pg_coder_enc_func_def pg_coder_enc_to_s_def rb_api_okD [OF rb_api_ok_sample])

end
