(* ===== verification/PG_Text_Decoder.thy ===== *)
theory PG_Text_Decoder
  imports PG_Text_Encoder
begin

text \<open>
  \<open>ext/pg_text_decoder.c\<close>: the decoder functions for PostgreSQL's text format. The input is the
  list of the \<open>len\<close> bytes at \<open>val\<close>, which a NUL byte follows; a read behind that NUL is a
  \<open>MemFault\<close>.
\<close>

section \<open>Scalars\<close>

abbreviation wrong_data :: "string \<Rightarrow> int \<Rightarrow> int \<Rightarrow> rb_exc" where
  "wrong_data s tuple field \<equiv> Raise TypeError s [tuple, field]"

definition pg_text_dec_boolean :: dec_fn where
  "pg_text_dec_boolean val tuple field enc_idx =
     (if length val < 1
      then Inl (wrong_data ''wrong data for text boolean converter in tuple %d field %d'' tuple field)
      else Inr (if val ! 0 = 0x74 then Qtrue else Qfalse))"

text \<open>
  The loop \<open>while (!error && (digit=*++val_pos))\<close> of \<open>pg_text_dec_integer\<close> on the bytes behind
  \<open>val_pos\<close>: None is \<open>error = 1\<close>. A NUL byte ends the loop, as the terminator does.
\<close>

primrec dec_digits :: "bytes \<Rightarrow> int \<Rightarrow> int option" where
  "dec_digits [] i = Some i"
| "dec_digits (digit # val) i =
     (if digit = 0 then Some i
      else if digit \<ge> c_0 \<and> digit \<le> c_9 then dec_digits val (i * 10 + uint (digit - c_0))
      else None)"

text \<open>The part under \<open>len <= max_len\<close>; \<open>max_len\<close> is 18 on the 64 bit system of the model.\<close>

definition dec_fixnum :: "bytes \<Rightarrow> int option" where
  "dec_fixnum val =
     (case val of
        [] \<Rightarrow> None
      | digit # rest \<Rightarrow>
          if digit = c_minus then map_option uminus (dec_digits rest 0)
          else if digit \<ge> c_0 \<and> digit \<le> c_9 then dec_digits rest (uint (digit - c_0))
          else None)"

definition pg_text_dec_integer :: "rb_api \<Rightarrow> dec_fn" where
  "pg_text_dec_integer rb val tuple field enc_idx =
     (if length val \<le> 18 then
        (case dec_fixnum val of Some i \<Rightarrow> Inr (RInteger i) | None \<Rightarrow> rb_cstr2inum rb val)
      else rb_cstr2inum rb val)"

definition pg_text_dec_numeric :: "rb_api \<Rightarrow> dec_fn" where
  "pg_text_dec_numeric rb val tuple field enc_idx = rb_BigDecimal rb val"

text \<open>The byte \<open>val[i]\<close> up to the terminating NUL.\<close>

definition cstr :: "bytes \<Rightarrow> nat \<Rightarrow> byte" where
  "cstr val i = (if i < length val then val ! i else 0)"

definition s_nan :: "64 word" where "s_nan = 0x7FF8000000000000"
definition s_pos_inf :: "64 word" where "s_pos_inf = 0x7FF0000000000000"
definition s_neg_inf :: "64 word" where "s_neg_inf = 0xFFF0000000000000"

definition pg_text_dec_float :: "rb_api \<Rightarrow> dec_fn" where
  "pg_text_dec_float rb val tuple field enc_idx =
     (if cstr val 0 = 0x4E then Inr (RFloat s_nan)
      else if cstr val 0 = 0x49 then Inr (RFloat s_pos_inf)
      else if cstr val 0 = c_minus \<and> cstr val 1 = 0x49 then Inr (RFloat s_neg_inf)
      else Inr (RFloat (rb_cstr_to_dbl rb val)))"

definition pg_text_dec_bytea :: "rb_api \<Rightarrow> dec_fn" where
  "pg_text_dec_bytea rb val tuple field enc_idx =
     (case PQunescapeBytea rb val of
        None \<Rightarrow> Inl (Raise NoMemError ''PQunescapeBytea failure: probably not enough memory'' [])
      | Some b \<Rightarrow> Inr (RString b rb_ascii8bit_encindex))"

section \<open>Arrays\<close>

definition array_isspace :: "byte \<Rightarrow> bool" where
  "array_isspace ch \<longleftrightarrow> ch = c_space \<or> ch = c_tab \<or> ch = c_nl \<or> ch = c_cr \<or> ch = c_vt \<or> ch = c_ff"

definition array_isdim :: "byte \<Rightarrow> bool" where
  "array_isdim ch \<longleftrightarrow> ch \<ge> c_0 \<and> ch \<le> c_9 \<or> ch = c_minus \<or> ch = c_plus \<or> ch = c_colon"

definition PG_CODER_FORMAT_ERROR_MASK :: int where "PG_CODER_FORMAT_ERROR_MASK = 0xc"
definition PG_CODER_FORMAT_ERROR_TO_RAISE :: int where "PG_CODER_FORMAT_ERROR_TO_RAISE = 0x4"

definition raise_mode :: "t_pg_composite_coder \<Rightarrow> bool" where
  "raise_mode this \<longleftrightarrow> coder_flags this AND PG_CODER_FORMAT_ERROR_MASK = PG_CODER_FORMAT_ERROR_TO_RAISE"

definition array_parser_error :: "t_pg_composite_coder \<Rightarrow> string \<Rightarrow> unit res" where
  "array_parser_error this msg = (if raise_mode this then Inl (Raise TypeError msg []) else Inr ())"

text \<open>
  The loop of \<open>read_array_without_dim\<close>. Its state: \<open>*index\<close>, the buffer \<open>word\<close> that all levels of
  the recursion share, and the local \<open>word_index\<close>, \<open>openQuote\<close>, \<open>escapeNext\<close> and \<open>array\<close>. The
  result is the array with the final index and buffer. A store behind the end of the buffer is a
  memory fault. The index after a sub-array is never smaller than before it (lemma
  \<open>read_array_index\<close>), so that \<open>max\<close> has no effect on the result; it makes the recursion decrease.
\<close>

function read_array_loop ::
    "t_pg_composite_coder \<Rightarrow> bytes \<Rightarrow> (bytes \<Rightarrow> rvalue res) \<Rightarrow> nat \<Rightarrow> bytes \<Rightarrow> nat \<Rightarrow> int \<Rightarrow> bool \<Rightarrow> rvalue list
      \<Rightarrow> (rvalue list \<times> nat \<times> bytes) res" where
  "read_array_loop this str dec index word word_index openQuote escapeNext array =
     (if index < length str then
        let c = str ! index in
        if openQuote < 1 then
          if c = delimiter this \<or> c = c_rbrace then
            rbind
              (if \<not> escapeNext then
                 if openQuote = 0 \<and> word_index = 4 \<and> take word_index word = lit ''NULL''
                 then Inr (array @ [Qnil], word)
                 else if word_index < length word then
                   let word = word[word_index := 0] in
                   rbind (dec (take word_index word)) (\<lambda>val. Inr (array @ [val], word))
                 else Inl MemFault
               else Inr (array, word))
              (\<lambda>(array, word).
                if c = c_rbrace then Inr (array, index, word)
                else read_array_loop this str dec (index + 1) word 0 0 False array)
          else if c = c_dquote then
            read_array_loop this str dec (index + 1) word word_index 1 escapeNext array
          else if c = c_lbrace then
            rbind
              (if index + 1 < length str \<and> str ! (index + 1) = c_rbrace then Inr ([], index + 1, word)
               else read_array_loop this str dec (index + 1) word 0 0 False [])
              (\<lambda>(subarray, index', word).
                read_array_loop this str dec (max index index' + 1) word word_index openQuote True
                  (array @ [RArray subarray]))
          else if c = 0 then
            rbind (array_parser_error this ''premature end of the array string'') (\<lambda>_. Inr (array, index, word))
          else if word_index < length word then
            read_array_loop this str dec (index + 1) (word[word_index := c]) (word_index + 1)
              openQuote escapeNext array
          else Inl MemFault
        else if escapeNext then
          if word_index < length word then
            read_array_loop this str dec (index + 1) (word[word_index := c]) (word_index + 1)
              openQuote False array
          else Inl MemFault
        else if c = c_backslash then
          read_array_loop this str dec (index + 1) word word_index openQuote True array
        else if c = c_dquote then
          read_array_loop this str dec (index + 1) word word_index (- 1) escapeNext array
        else if word_index < length word then
          read_array_loop this str dec (index + 1) (word[word_index := c]) (word_index + 1)
            openQuote escapeNext array
        else Inl MemFault
      else rbind (array_parser_error this ''premature end of the array string'') (\<lambda>_. Inr (array, index, word)))"
  by pat_completeness auto
termination
  by (relation "measure (\<lambda>(this, str, dec, index, rest). length str - index)") auto

declare read_array_loop.simps [simp del]

definition read_array_without_dim ::
    "t_pg_composite_coder \<Rightarrow> bytes \<Rightarrow> (bytes \<Rightarrow> rvalue res) \<Rightarrow> nat \<Rightarrow> bytes \<Rightarrow> (rvalue list \<times> nat \<times> bytes) res" where
  "read_array_without_dim this str dec index word =
     (if index < length str \<and> str ! index = c_rbrace then Inr ([], index, word)
      else read_array_loop this str dec index word 0 0 False [])"

text \<open>\<open>while (p(str[index])) index++\<close>, for predicates that are false for the NUL at the end.\<close>

function skip_while :: "(byte \<Rightarrow> bool) \<Rightarrow> bytes \<Rightarrow> nat \<Rightarrow> nat" where
  "skip_while p str index = (if index < length str \<and> p (str ! index) then skip_while p str (index + 1) else index)"
  by pat_completeness auto
termination
  by (relation "measure (\<lambda>(p, str, index). length str - index)") auto

declare skip_while.simps [simp del]

lemma skip_while_ge: "index \<le> skip_while p str index"
proof (induction p str index rule: skip_while.induct)
  case (1 p str index)
  then show ?case by (subst skip_while.simps) (simp add: Suc_leD)
qed

text \<open>The loop over dimension items; it gives the index and the number \<open>ndim\<close> of items.\<close>

function array_dims :: "t_pg_composite_coder \<Rightarrow> bytes \<Rightarrow> nat \<Rightarrow> nat \<Rightarrow> (nat \<times> nat) res" where
  "array_dims this str index ndim =
     (let index1 = skip_while array_isspace str index in
      if cstr str index1 \<noteq> c_lbracket then Inr (index1, ndim)
      else
        let index2 = skip_while array_isdim str (index1 + 1) in
        if cstr str index2 \<noteq> c_rbracket then
          rbind (array_parser_error this ''missing \"]\" in array dimensions'') (\<lambda>_. Inr (index2, ndim))
        else array_dims this str (index2 + 1) (ndim + 1))"
  by pat_completeness auto
termination
proof (relation "measure (\<lambda>(this, str, index, ndim). length str - index)")
  fix this :: t_pg_composite_coder and str :: bytes and index ndim index1 index2 :: nat
  assume "index1 = skip_while array_isspace str index" "\<not> cstr str index1 \<noteq> c_lbracket"
    "index2 = skip_while array_isdim str (index1 + 1)"
  then show "((this, str, index2 + 1, ndim + 1), this, str, index, ndim) \<in>
      measure (\<lambda>(this, str, index, ndim). length str - index)"
    using skip_while_ge [of index array_isspace str] skip_while_ge [of "index1 + 1" array_isdim str]
    by (auto simp: cstr_def split: if_splits)
qed simp

declare array_dims.simps [simp del]

text \<open>The last loop: whether every byte from \<open>index\<close> on is white space.\<close>

definition only_space_after :: "bytes \<Rightarrow> nat \<Rightarrow> bool" where
  "only_space_after str index \<longleftrightarrow> list_all array_isspace (drop index str)"

text \<open>The part before the elements: the index behind the opening brace.\<close>

definition array_start :: "t_pg_composite_coder \<Rightarrow> bytes \<Rightarrow> nat res" where
  "array_start this str =
     rbind (array_dims this str 0 0) (\<lambda>(index, ndim).
     rbind
       (if ndim = 0 then Inr index
        else rbind
          (if cstr str index \<noteq> c_eq
           then rbind (array_parser_error this ''missing assignment operator'') (\<lambda>_. Inr (index - 2))
           else Inr index)
          (\<lambda>index. Inr (skip_while array_isspace str (index + 1)))) (\<lambda>index.
     rbind
       (if cstr str index \<noteq> c_lbrace
        then array_parser_error this ''array value must start with \"{\" or dimension information''
        else Inr ()) (\<lambda>_. Inr (index + 1))))"

text \<open>The part behind the elements, with the read of \<open>str[index]\<close>.\<close>

definition array_finish :: "t_pg_composite_coder \<Rightarrow> bytes \<Rightarrow> rvalue list \<times> nat \<times> bytes \<Rightarrow> rvalue res" where
  "array_finish this str = (\<lambda>(ret, index, word).
     if index > length str then Inl MemFault
     else
       rbind (if cstr str index \<noteq> c_rbrace then array_parser_error this ''array value must end with \"}\"''
              else Inr ()) (\<lambda>_.
       rbind (if \<not> only_space_after str (index + 1)
              then array_parser_error this ''malformed array literal: Junk after closing right brace.''
              else Inr ()) (\<lambda>_. Inr (RArray ret))))"

definition pg_text_dec_array :: "rb_api \<Rightarrow> t_pg_composite_coder \<Rightarrow> dec_fn" where
  "pg_text_dec_array rb this str tuple field enc_idx =
     rbind (array_start this str) (\<lambda>index.
     rbind
       (if index < length str \<and> str ! index = c_rbrace then Inr ([], index, [])
        else read_array_without_dim this str
          (\<lambda>w. pg_coder_dec_func rb (elem this) False w tuple field enc_idx)
          index (replicate (length str + 1) 0)) (array_finish this str))"

section \<open>Identifiers and base64\<close>

text \<open>
  The loop of \<open>pg_text_dec_identifier\<close>: the bytes left, \<open>word\<close> as the bytes stored so far,
  \<open>openQuote\<close> and the array.
\<close>

primrec dec_identifier_loop :: "bytes \<Rightarrow> bytes \<Rightarrow> nat \<Rightarrow> bytes list \<Rightarrow> bytes list" where
  "dec_identifier_loop [] word openQuote array = array @ [word]"
| "dec_identifier_loop (c # val) word openQuote array =
     (if c = c_dot \<and> openQuote < 2 then dec_identifier_loop val [] 0 (array @ [word])
      else if c = c_dquote then
        if openQuote = 1 then dec_identifier_loop val (word @ [c]) 2 array
        else if openQuote = 2 then dec_identifier_loop val word 1 array
        else dec_identifier_loop val word 2 array
      else dec_identifier_loop val (word @ [c]) openQuote array)"

definition pg_text_dec_identifier :: dec_fn where
  "pg_text_dec_identifier val tuple field enc_idx =
     Inr (RArray (map (\<lambda>w. RString w enc_idx) (dec_identifier_loop val [] 0 [])))"

text \<open>
  \<open>pg_text_dec_from_base64\<close>: \<open>val\<close> lies behind the output buffer. The two shortcuts of the source
  for a String result give what the call of the string decoder gives.
\<close>

definition pg_text_dec_from_base64 :: "rb_api \<Rightarrow> t_pg_composite_coder \<Rightarrow> dec_fn" where
  "pg_text_dec_from_base64 rb this val tuple field enc_idx =
     (let dec_func = pg_coder_dec_func rb (elem this) (coder_format this \<noteq> 0);
          n = BASE64_DECODED_SIZE (length val);
          (m, decoded_len) = rbpg_base64_decode (poke (\<lambda>_. 0) n val) 0 n (length val)
      in if decoded_len > n then Inl MemFault
         else dec_func (peek m 0 decoded_len) tuple field enc_idx)"

section \<open>Timestamps\<close>

definition char_to_digit :: "byte \<Rightarrow> int" where
  "char_to_digit c = uint c - 48"

definition str2_to_int :: "bytes \<Rightarrow> int" where
  "str2_to_int str = char_to_digit (cstr str 0) * 10 + char_to_digit (cstr str 1)"

text \<open>The loop of \<open>parse_year\<close> with at most \<open>n\<close> more digits: the year and the rest of the string.\<close>

fun parse_year :: "nat \<Rightarrow> int \<Rightarrow> bytes \<Rightarrow> int \<times> bytes" where
  "parse_year (Suc n) year (c # p) =
     (if isdigit c then parse_year n (10 * year + char_to_digit c) p else (year, c # p))"
| "parse_year n year p = (year, p)"

definition nsec_coef :: "int list" where
  "nsec_coef = [100000000, 10000000, 1000000, 100000, 10000, 1000, 100, 10, 1]"

fun parse_nsec :: "int list \<Rightarrow> int \<Rightarrow> bytes \<Rightarrow> int \<times> bytes" where
  "parse_nsec (k # coef) nsec (c # str) =
     (if isdigit c then parse_nsec coef (nsec + k * char_to_digit c) str else (nsec, c # str))"
| "parse_nsec coef nsec str = (nsec, str)"

definition TZ_NEG :: nat where "TZ_NEG = 1"
definition TZ_POS :: nat where "TZ_POS = 2"

record timestamp =
  ts_year :: int
  ts_mon :: int
  ts_day :: int
  ts_hour :: int
  ts_min :: int
  ts_sec :: int
  ts_nsec :: int
  tz_given :: nat
  tz_hour :: int
  tz_min :: int
  tz_sec :: int

text \<open>\<open>isdigit(str[k]) && isdigit(str[k+1])\<close> after the separator \<open>c\<close> at \<open>k - 1\<close>.\<close>

definition sep_dd :: "bytes \<Rightarrow> nat \<Rightarrow> byte \<Rightarrow> bool" where
  "sep_dd str k c \<longleftrightarrow> cstr str k = c \<and> isdigit (cstr str (k + 1)) \<and> isdigit (cstr str (k + 2))"

text \<open>An optional \<open>:dd\<close> of the time zone.\<close>

definition parse_tz_part :: "bytes \<Rightarrow> int \<times> bytes" where
  "parse_tz_part str = (if sep_dd str 0 c_colon then (str2_to_int (drop 1 str), drop 3 str) else (0, str))"

text \<open>The optional fraction, time zone and era of a timestamp.\<close>

definition parse_frac :: "bytes \<Rightarrow> int \<times> bytes" where
  "parse_frac str =
     (if cstr str 0 = c_dot \<and> isdigit (cstr str 1)
      then (let (nsec, str) = parse_nsec nsec_coef 0 (drop 1 str) in (nsec, dropWhile isdigit str))
      else (0, str))"

definition parse_tz :: "bytes \<Rightarrow> nat \<times> int \<times> int \<times> int \<times> bytes" where
  "parse_tz str =
     (if sep_dd str 0 c_plus \<or> sep_dd str 0 c_minus
      then (let tz = (if cstr str 0 = c_minus then TZ_NEG else TZ_POS);
                tzh = str2_to_int (drop 1 str);
                (tzm, str) = parse_tz_part (drop 3 str);
                (tzs, str) = parse_tz_part str
            in (tz, tzh, tzm, tzs, str))
      else (0, 0, 0, 0, str))"

definition parse_era :: "int \<Rightarrow> bytes \<Rightarrow> int \<times> bytes" where
  "parse_era year str =
     (if cstr str 0 = c_space \<and> cstr str 1 = 0x42 \<and> cstr str 2 = 0x43 then (- year + 1, drop 3 str)
      else (year, str))"

text \<open>The parsing part of \<open>pg_text_dec_timestamp\<close>; None when the text does not match.\<close>

definition parse_timestamp :: "bytes \<Rightarrow> timestamp option" where
  "parse_timestamp val =
     (let (year, str) = parse_year 7 0 val in
      if year > 0 \<and> sep_dd str 0 c_minus \<and> sep_dd str 3 c_minus \<and> sep_dd str 6 c_space \<and>
         sep_dd str 9 c_colon \<and> sep_dd str 12 c_colon
      then
        let mon = str2_to_int (drop 1 str); day = str2_to_int (drop 4 str); hour = str2_to_int (drop 7 str);
            min = str2_to_int (drop 10 str); sec = str2_to_int (drop 13 str);
            (nsec, str) = parse_frac (drop 15 str);
            (tz, tzh, tzm, tzs, str) = parse_tz str;
            (year, str) = parse_era year str
        in if cstr str 0 = 0
           then Some \<lparr> ts_year = year, ts_mon = mon, ts_day = day, ts_hour = hour, ts_min = min, ts_sec = sec,
                      ts_nsec = nsec, tz_given = tz, tz_hour = tzh, tz_min = tzm, tz_sec = tzs \<rparr>
           else None
      else None)"

text \<open>
  \<open>timegm\<close> of the C library: the seconds since 1970 of a date in the proleptic Gregorian calendar,
  with fields outside their ranges carried over.
\<close>

definition leap_days :: "int \<Rightarrow> int" where
  "leap_days y = y div 4 - y div 100 + y div 400"

definition month_days :: "int list" where
  "month_days = [0, 31, 59, 90, 120, 151, 181, 212, 243, 273, 304, 334]"

definition is_leap :: "int \<Rightarrow> bool" where
  "is_leap y \<longleftrightarrow> y mod 4 = 0 \<and> (y mod 100 \<noteq> 0 \<or> y mod 400 = 0)"

definition civil_days :: "int \<Rightarrow> int \<Rightarrow> int \<Rightarrow> int" where
  "civil_days y mon d =
     (let y' = y + (mon - 1) div 12; m = (mon - 1) mod 12
      in 365 * (y' - 1) + leap_days (y' - 1) + month_days ! nat m + (if m > 1 \<and> is_leap y' then 1 else 0)
         + (d - 1) - 719162)"

definition timegm :: "int \<Rightarrow> int \<Rightarrow> int \<Rightarrow> int \<Rightarrow> int \<Rightarrow> int \<Rightarrow> int" where
  "timegm y mon d h mi s = ((civil_days y mon d * 24 + h) * 60 + mi) * 60 + s"

definition PG_CODER_TIMESTAMP_DB_LOCAL :: int where "PG_CODER_TIMESTAMP_DB_LOCAL = 0x1"
definition PG_CODER_TIMESTAMP_APP_LOCAL :: int where "PG_CODER_TIMESTAMP_APP_LOCAL = 0x2"

definition gmt_offset :: "timestamp \<Rightarrow> int" where
  "gmt_offset t = (let off = tz_hour t * 3600 + tz_min t * 60 + tz_sec t
     in if tz_given t = TZ_NEG then - off else off)"

text \<open>The path by \<open>Time.new\<close>, taken when the C library gives -1.\<close>

definition timestamp_slow :: "rb_api \<Rightarrow> coder_fields \<Rightarrow> timestamp \<Rightarrow> rvalue res" where
  "timestamp_slow rb conv t =
     (let db_local = coder_flags conv AND PG_CODER_TIMESTAMP_DB_LOCAL \<noteq> 0;
          app_local = coder_flags conv AND PG_CODER_TIMESTAMP_APP_LOCAL \<noteq> 0 in
      rbind (if ts_nsec t \<noteq> 0 then rb_Rational rb (ts_sec t * 1000000 + ts_nsec t div 1000) 1000000
             else Inr (RInteger (ts_sec t))) (\<lambda>sec_value.
      rbind (rb_Time_new rb [RInteger (ts_year t), RInteger (ts_mon t), RInteger (ts_day t), RInteger (ts_hour t),
               RInteger (ts_min t), sec_value,
               if tz_given t \<noteq> 0 then RInteger (gmt_offset t) else if db_local then Qnil else RInteger 0]) (\<lambda>res.
        if tz_given t \<noteq> 0 then Inr res
        else if db_local \<and> app_local then Inr res
        else if app_local then rb_getlocal rb res
        else rb_utc rb res)))"

definition pg_text_dec_timestamp :: "rb_api \<Rightarrow> coder_fields \<Rightarrow> dec_fn" where
  "pg_text_dec_timestamp rb conv val tuple field enc_idx =
     (case parse_timestamp val of
        None \<Rightarrow> pg_text_dec_string val tuple field enc_idx
      | Some t \<Rightarrow>
          if tz_given t \<noteq> 0 then
            let time = timegm (ts_year t) (ts_mon t) (ts_day t) (ts_hour t) (ts_min t) (ts_sec t) in
            if time \<noteq> - 1 then rb_time_timespec_new rb (time - gmt_offset t) (ts_nsec t) (gmt_offset t)
            else timestamp_slow rb conv t
          else
            let time = (if coder_flags conv AND PG_CODER_TIMESTAMP_DB_LOCAL \<noteq> 0 then c_mktime rb else timegm)
                  (ts_year t) (ts_mon t) (ts_day t) (ts_hour t) (ts_min t) (ts_sec t) in
            if time \<noteq> - 1
            then rb_time_timespec_new rb time (ts_nsec t)
              (if coder_flags conv AND PG_CODER_TIMESTAMP_APP_LOCAL \<noteq> 0 then INT_MAX else INT_MAX - 1)
            else timestamp_slow rb conv t)"

section \<open>Inet\<close>

definition AF_INET :: int where "AF_INET = 2"
definition AF_INET6 :: int where "AF_INET6 = 10"

definition inet_digit :: "bytes \<Rightarrow> nat \<Rightarrow> int" where
  "inet_digit val k = sint (val ! (length val - k)) - 48"

text \<open>The mask and the address part of the text, -1 for no mask.\<close>

definition inet_split :: "bytes \<Rightarrow> int \<times> bytes" where
  "inet_split val =
     (let len = length val in
      if len \<ge> 4 then
        if val ! (len - 2) = c_slash then (inet_digit val 1, take (len - 2) val)
        else if val ! (len - 3) = c_slash then (inet_digit val 2 * 10 + inet_digit val 1, take (len - 3) val)
        else if val ! (len - 4) = c_slash
        then (inet_digit val 3 * 100 + inet_digit val 2 * 10 + inet_digit val 1, take (len - 4) val)
        else (- 1, val)
      else (- 1, val))"

text \<open>The elements of \<open>s_vmasks4\<close> and \<open>s_vmasks6\<close>: the recursion of the Ruby initialiser.\<close>

primrec vmask :: "nat \<Rightarrow> nat \<Rightarrow> int" where
  "vmask w 0 = 2 ^ w - 1"
| "vmask w (Suc k) = vmask w k - 2 ^ k"

definition s_vmasks :: "nat \<Rightarrow> nat \<Rightarrow> int" where
  "s_vmasks w i = (if i = 0 then 0 else vmask w (w - i))"

definition ipv4_mask :: "32 word \<Rightarrow> nat \<Rightarrow> 32 word" where
  "ipv4_mask ip bits =
     (if bits = 0 then 0 else if bits = 32 then ip else ip AND NOT (push_bit (32 - bits) 1 - 1))"

definition ipv6_mask :: "64 word \<times> 64 word \<Rightarrow> nat \<Rightarrow> 64 word \<times> 64 word" where
  "ipv6_mask = (\<lambda>(ip1, ip2) mask.
     if mask = 128 then (ip1, ip2)
     else if mask = 64 then (ip1, 0)
     else if mask = 0 then (0, 0)
     else if mask < 64 then (ip1 AND NOT (push_bit (64 - mask) 1 - 1), 0)
     else (ip1, ip2 AND NOT (push_bit (128 - mask) 1 - 1)))"

definition make_ipaddr :: "rb_api \<Rightarrow> int \<Rightarrow> int \<Rightarrow> int \<Rightarrow> nat \<Rightarrow> rvalue res" where
  "make_ipaddr rb af ip_int mask_addr bits =
     (if use_ipaddr_alloc rb then Inr (rb_ipaddr_alloc rb af ip_int mask_addr)
      else rb_ipaddr_new rb af ip_int (int bits))"

definition pg_text_dec_inet :: "rb_api \<Rightarrow> dec_fn" where
  "pg_text_dec_inet rb val tuple field enc_idx =
     (let v4 = c_dot \<in> set (takeWhile (\<lambda>c. c \<noteq> 0) val) in
      if length val \<ge> 64
      then Inl (wrong_data ''too long data for text inet converter in tuple %d field %d'' tuple field)
      else
        let (mask, addr) = inet_split val in
        case c_inet_pton rb v4 addr of
          None \<Rightarrow> Inl (wrong_data ''wrong data for text inet converter in tuple %d field %d val'' tuple field)
        | Some dst \<Rightarrow>
            if v4 then
              let mask = (if mask = - 1 then 32 else mask) in
              if mask < 0 \<or> mask > 32 then Inl (Raise TypeError ''invalid mask for IPv4: %d'' [mask])
              else make_ipaddr rb AF_INET (uint (ipv4_mask (word_of_int (read_nbo32 dst)) (nat mask)))
                     (s_vmasks 32 (nat mask)) (nat mask)
            else
              let mask = (if mask = - 1 then 128 else mask) in
              if mask < 0 \<or> mask > 128 then Inl (Raise TypeError ''invalid mask for IPv6: %d'' [mask])
              else
                let (ip1, ip2) = ipv6_mask (word_of_int (read_nbo64 dst), word_of_int (read_nbo64 (drop 8 dst))) (nat mask)
                in make_ipaddr rb AF_INET6 (uint ip1 * 2 ^ 64 + uint ip2) (s_vmasks 128 (nat mask)) (nat mask))"

section \<open>Integers\<close>

definition digit_val :: "int \<Rightarrow> byte \<Rightarrow> int" where
  "digit_val i d = i * 10 + uint (d - c_0)"

lemma dec_digits_append:
  "list_all isdigit xs \<Longrightarrow> dec_digits (xs @ ys) i = dec_digits ys (foldl digit_val i xs)"
  by (induction xs arbitrary: i) (auto simp: isdigit_def digit_val_def)

lemma digit_byte:
  assumes "n < 10"
  shows "isdigit (c_0 + of_nat n)" "uint ((c_0 + of_nat n :: byte) - c_0) = int n"
    "c_0 + of_nat n \<noteq> (0 :: byte)" "c_0 + of_nat n \<noteq> c_minus"
proof -
  have "n \<in> {0, 1, 2, 3, 4, 5, 6, 7, 8, 9}" using assms by auto
  then show "isdigit (c_0 + of_nat n)" "uint ((c_0 + of_nat n :: byte) - c_0) = int n"
    "c_0 + of_nat n \<noteq> (0 :: byte)" "c_0 + of_nat n \<noteq> c_minus"
    by (auto simp: isdigit_def)
qed

lemma dec_of_nat_digits: "list_all isdigit (dec_of_nat n)"
proof (induction n rule: dec_of_nat.induct)
  case (1 n)
  then show ?case by (subst dec_of_nat.simps) (auto simp: digit_byte)
qed

lemma foldl_digit_val: "foldl digit_val 0 (dec_of_nat n) = int n"
proof (induction n rule: dec_of_nat.induct)
  case (1 n)
  have "int (n div 10) * 10 + int (n mod 10) = int n" by presburger
  moreover have "digit_val i (c_0 + of_nat k) = i * 10 + int k" if "k < 10" for i k
    using digit_byte(2) [OF that] by (simp add: digit_val_def)
  ultimately show ?case using 1 by (subst dec_of_nat.simps) auto
qed

lemma dec_digits_dec_of_nat: "dec_digits (dec_of_nat n) 0 = Some (int n)"
  using dec_digits_append [OF dec_of_nat_digits, of n "[]" 0] by (simp add: foldl_digit_val)

lemma dec_fixnum_dec_of_int: "dec_fixnum (dec_of_int i) = Some i"
proof (cases "i < 0")
  case True
  then show ?thesis by (simp add: dec_of_int_def dec_fixnum_def dec_digits_dec_of_nat)
next
  case False
  obtain d ds where ds: "dec_of_nat (nat i) = d # ds"
    using dec_of_nat_nonempty by (metis list.exhaust)
  have d: "isdigit d" using dec_of_nat_digits [of "nat i"] ds by simp
  then have "d \<noteq> c_minus" "d \<noteq> 0" by (auto simp: isdigit_def)
  then have "dec_fixnum (dec_of_int i) = dec_digits (dec_of_nat (nat i)) 0"
    using False d by (simp add: dec_of_int_def dec_fixnum_def ds isdigit_def)
  then show ?thesis using False by (simp add: dec_digits_dec_of_nat)
qed

lemma dec_integer_dec_of_int:
  "length (dec_of_int i) \<le> 18 \<Longrightarrow> pg_text_dec_integer rb (dec_of_int i) t f e = Inr (RInteger i)"
  by (simp add: pg_text_dec_integer_def dec_fixnum_dec_of_int)

lemma dec_of_int_length18: "- (10 ^ 17) < i \<Longrightarrow> i < 10 ^ 18 \<Longrightarrow> length (dec_of_int i) \<le> 18"
  using dec_of_nat_length [of "nat i" 18] dec_of_nat_length [of "nat (- i)" 17]
  by (cases "i < 0") (auto simp: dec_of_int_def nat_less_iff)

section \<open>Array parser\<close>

text \<open>One iteration of the loop, by the state and the byte at \<open>index\<close>.\<close>

definition array_push ::
    "(bytes \<Rightarrow> rvalue res) \<Rightarrow> bytes \<Rightarrow> nat \<Rightarrow> int \<Rightarrow> bool \<Rightarrow> rvalue list \<Rightarrow> (rvalue list \<times> bytes) res" where
  "array_push dec word word_index openQuote escapeNext array =
     (if \<not> escapeNext then
        if openQuote = 0 \<and> word_index = 4 \<and> take word_index word = lit ''NULL''
        then Inr (array @ [Qnil], word)
        else if word_index < length word then
          let word = word[word_index := 0] in
          rbind (dec (take word_index word)) (\<lambda>val. Inr (array @ [val], word))
        else Inl MemFault
      else Inr (array, word))"

lemma read_array_end:
  "\<not> i < length str \<Longrightarrow> read_array_loop this str dec i word k oq esc arr =
     rbind (array_parser_error this ''premature end of the array string'') (\<lambda>_. Inr (arr, i, word))"
  by (subst read_array_loop.simps) simp

lemma read_array_sep:
  assumes "i < length str" "oq < 1" "str ! i = delimiter this \<or> str ! i = c_rbrace"
  shows "read_array_loop this str dec i word k oq esc arr =
     rbind (array_push dec word k oq esc arr) (\<lambda>(arr, word).
       if str ! i = c_rbrace then Inr (arr, i, word)
       else read_array_loop this str dec (i + 1) word 0 0 False arr)"
  using assms by (subst read_array_loop.simps) (simp only: Let_def array_push_def if_True)

lemma read_array_outside:
  assumes "i < length str" "oq < 1" "str ! i \<noteq> delimiter this" "str ! i \<noteq> c_rbrace"
  shows "read_array_loop this str dec i word k oq esc arr =
    (if str ! i = c_dquote then read_array_loop this str dec (i + 1) word k 1 esc arr
     else if str ! i = c_lbrace then
       rbind (read_array_without_dim this str dec (i + 1) word) (\<lambda>(sub, i', word).
         read_array_loop this str dec (max i i' + 1) word k oq True (arr @ [RArray sub]))
     else if str ! i = 0 then
       rbind (array_parser_error this ''premature end of the array string'') (\<lambda>_. Inr (arr, i, word))
     else if k < length word then
       read_array_loop this str dec (i + 1) (word[k := str ! i]) (k + 1) oq esc arr
     else Inl MemFault)"
  using assms by (subst read_array_loop.simps) (simp add: Let_def read_array_without_dim_def)

lemma read_array_quoted:
  assumes "i < length str" "\<not> oq < 1"
  shows "read_array_loop this str dec i word k oq esc arr =
    (if esc then
       if k < length word then read_array_loop this str dec (i + 1) (word[k := str ! i]) (k + 1) oq False arr
       else Inl MemFault
     else if str ! i = c_backslash then read_array_loop this str dec (i + 1) word k oq True arr
     else if str ! i = c_dquote then read_array_loop this str dec (i + 1) word k (- 1) esc arr
     else if k < length word then read_array_loop this str dec (i + 1) (word[k := str ! i]) (k + 1) oq esc arr
     else Inl MemFault)"
  using assms by (subst read_array_loop.simps) (simp add: Let_def)

text \<open>What holds of every run: safety, the index and the buffer.\<close>

definition run_ok :: "t_pg_composite_coder \<Rightarrow> bytes \<Rightarrow> nat \<Rightarrow> (rvalue list \<times> nat \<times> bytes) res \<Rightarrow> bool" where
  "run_ok this str i r \<longleftrightarrow> safe r \<and> (\<forall>arr' i' word'. r = Inr (arr', i', word') \<longrightarrow>
     i \<le> i' \<and> length word' = length str + 1 \<and> (raise_mode this \<longrightarrow> i' < length str \<and> str ! i' = c_rbrace))"

lemma run_ok_mono: "run_ok this str j r \<Longrightarrow> i \<le> j \<Longrightarrow> run_ok this str i r"
  by (fastforce simp: run_ok_def)

lemma run_ok_error:
  "length word = length str + 1 \<Longrightarrow>
     run_ok this str i (rbind (array_parser_error this msg) (\<lambda>_. Inr (arr, i, word)))"
  by (simp add: run_ok_def array_parser_error_def)

lemma array_push_ok:
  assumes "\<And>w. safe (dec w)" "k < length word"
  shows "safe (array_push dec word k oq esc arr)"
    "array_push dec word k oq esc arr = Inr (arr', word') \<Longrightarrow> length word' = length word"
  using assms by (auto simp: array_push_def Let_def rbind_Inr_iff intro!: safe_rbind split: if_splits)

lemma read_array_loop_ok:
  assumes dec: "\<And>w. safe (dec w)"
  shows "k \<le> i \<Longrightarrow> length word = length str + 1 \<Longrightarrow>
    run_ok this str i (read_array_loop this str dec i word k oq esc arr)"
proof (induction "length str - i" arbitrary: i word k oq esc arr rule: less_induct)
  case less
  note k = less.prems(1) and wl = less.prems(2)
  show ?case
  proof (cases "i < length str")
    case False
    show ?thesis unfolding read_array_end [OF False] by (rule run_ok_error [OF wl])
  next
    case True
    then have kw: "k < length word" using k wl by simp
    have rec: "run_ok this str i (read_array_loop this str dec (i + 1) word' k' oq' esc' arr')"
      if "k' \<le> i + 1" "length word' = length str + 1" for word' k' oq' esc' arr'
      by (rule run_ok_mono [of _ _ "i + 1"], rule less.hyps) (use True that in auto)
    show ?thesis
    proof (cases "oq < 1")
      case False
      show ?thesis
        unfolding read_array_quoted [OF True False] using kw k wl by (auto intro!: rec [simplified])
    next
      case out: True
      show ?thesis
      proof (cases "str ! i = delimiter this \<or> str ! i = c_rbrace")
        case sep: True
        show ?thesis
        proof (cases "array_push dec word k oq esc arr")
          case (Inl x)
          then show ?thesis
            using read_array_sep [OF True out sep] array_push_ok(1) [of dec k word oq esc arr] dec kw
            by (simp add: run_ok_def safe_iff)
        next
          case (Inr r)
          obtain arr' word' where r: "r = (arr', word')" by (cases r)
          with Inr array_push_ok(2) [of dec k word oq esc arr] dec kw wl have "length word' = length str + 1" by simp
          with rec [of 0 word' 0 False arr'] True Inr r show ?thesis
            unfolding read_array_sep [OF True out sep] by (simp add: run_ok_def)
        qed
      next
        case False
        have sub: "run_ok this str (i + 1) (read_array_without_dim this str dec (i + 1) word)"
        proof (cases "i + 1 < length str \<and> str ! (i + 1) = c_rbrace")
          case True
          with wl show ?thesis by (simp add: read_array_without_dim_def run_ok_def)
        next
          case stop: False
          have "run_ok this str (i + 1) (read_array_loop this str dec (i + 1) word 0 0 False [])"
            by (rule less.hyps) (use True wl in auto)
          then show ?thesis unfolding read_array_without_dim_def if_not_P [OF stop] .
        qed
        have "run_ok this str i (rbind (read_array_without_dim this str dec (i + 1) word) (\<lambda>(sub, i', word).
           read_array_loop this str dec (max i i' + 1) word k oq True (arr @ [RArray sub])))"
        proof (cases "read_array_without_dim this str dec (i + 1) word")
          case (Inl x)
          with sub show ?thesis by (simp add: run_ok_def safe_iff)
        next
          case (Inr r)
          obtain sa i' word' where r: "r = (sa, i', word')" by (cases r)
          have i': "i + 1 \<le> i' \<and> length word' = length str + 1"
            using sub unfolding run_ok_def Inr r by simp
          have "run_ok this str i (read_array_loop this str dec (i' + 1) word' k oq True (arr @ [RArray sa]))"
            by (rule run_ok_mono [of _ _ "i' + 1"], rule less.hyps) (use True k i' in auto)
          moreover have "max i i' = i'" using i' by simp
          ultimately show ?thesis unfolding Inr r by simp
        qed
        with False True out kw k wl show ?thesis
          by (subst read_array_outside) (auto intro!: rec [simplified] run_ok_error)
      qed
    qed
  qed
qed

lemma read_array_without_dim_ok:
  assumes "\<And>w. safe (dec w)" "length word = length str + 1"
  shows "run_ok this str i (read_array_without_dim this str dec i word)"
  using read_array_loop_ok [OF assms(1) _ assms(2), of 0 i] assms(2)
  by (auto simp: read_array_without_dim_def run_ok_def)

text \<open>The prefix with the dimensions ends inside the string.\<close>

lemma skip_while_le: "index \<le> length str \<Longrightarrow> skip_while p str index \<le> length str"
proof (induction p str index rule: skip_while.induct)
  case (1 p str index)
  then show ?case by (subst skip_while.simps) simp
qed

lemma cstr_nonzero: "cstr str i = c \<Longrightarrow> c \<noteq> 0 \<Longrightarrow> i < length str"
  by (auto simp: cstr_def split: if_splits)

lemma array_dims_ok:
  "index \<le> length str \<Longrightarrow> safe (array_dims this str index ndim) \<and>
     (\<forall>i n. array_dims this str index ndim = Inr (i, n) \<longrightarrow> i \<le> length str)"
proof (induction this str index ndim rule: array_dims.induct)
  case (1 this str index ndim)
  let ?i1 = "skip_while array_isspace str index"
  let ?i2 = "skip_while array_isdim str (?i1 + 1)"
  have i1: "?i1 \<le> length str" by (rule skip_while_le) (rule 1(2))
  show ?case
  proof (cases "cstr str ?i1 = c_lbracket")
    case False
    then show ?thesis using i1 by (subst (1 2) array_dims.simps) (simp add: Let_def)
  next
    case True
    then have "?i1 < length str" by (rule cstr_nonzero) simp
    then have i2: "?i2 \<le> length str" by (intro skip_while_le) simp
    show ?thesis
    proof (cases "cstr str ?i2 = c_rbracket")
      case False
      with True i2 show ?thesis
        by (subst (1 2) array_dims.simps) (simp add: Let_def array_parser_error_def)
    next
      case close: True
      then have "?i2 < length str" by (rule cstr_nonzero) simp
      with 1(1) [OF refl _ refl] True close show ?thesis
        by (subst (1 2) array_dims.simps) (simp add: Let_def)
    qed
  qed
qed

lemma array_parser_error_safe [simp]: "safe (array_parser_error this msg)"
  by (simp add: array_parser_error_def)

lemma array_start_safe: "safe (array_start this str)"
  unfolding array_start_def using array_dims_ok [of 0 str this 0]
  by (auto intro!: safe_rbind split: prod.splits)

lemma dec_array_safe:
  assumes raise: "raise_mode this"
    and dec: "\<And>w. safe (pg_coder_dec_func rb (elem this) False w t f e)"
  shows "safe (pg_text_dec_array rb this str t f e)"
  unfolding pg_text_dec_array_def
proof (rule safe_rbind [OF array_start_safe])
  fix i
  let ?d = "\<lambda>w. pg_coder_dec_func rb (elem this) False w t f e"
  have run: "run_ok this str i (read_array_without_dim this str ?d i (replicate (length str + 1) 0))"
    by (rule read_array_without_dim_ok) (use dec in auto)
  have fin: "safe (array_finish this str r)" if "fst (snd r) \<le> length str" for r
    using that by (auto simp: array_finish_def intro!: safe_rbind split: prod.splits)
  show "safe (rbind (if i < length str \<and> str ! i = c_rbrace then Inr ([], i, [])
        else read_array_without_dim this str ?d i (replicate (length str + 1) 0)) (array_finish this str))"
    by (rule safe_rbind) (use run raise in \<open>auto simp: run_ok_def intro!: fin split: if_splits\<close>)
qed

section \<open>Parsing what the array encoder writes\<close>

text \<open>The buffer after the bytes \<open>t\<close> were stored from \<open>k\<close> on.\<close>

definition wput :: "bytes \<Rightarrow> nat \<Rightarrow> bytes \<Rightarrow> bytes" where
  "wput word k t = take k word @ t @ drop (k + length t) word"

lemma wput_Nil [simp]: "wput word k [] = word"
  by (simp add: wput_def)

lemma wput_Cons: "k < length word \<Longrightarrow> wput (word[k := c]) (Suc k) t = wput word k (c # t)"
  by (simp add: wput_def take_Suc_conv_app_nth take_update_cancel drop_update_cancel)

lemma length_wput [simp]: "k + length t \<le> length word \<Longrightarrow> length (wput word k t) = length word"
  by (simp add: wput_def)

lemma take_wput: "k + length t \<le> length word \<Longrightarrow> take (k + length t) (wput word k t) = take k word @ t"
  by (simp add: wput_def)

lemma drop_nth: "drop i str = c # rest \<Longrightarrow> i < length str \<and> str ! i = c \<and> drop (Suc i) str = rest"
  by (metis Cons_nth_drop_Suc drop_all leI list.distinct(1) list.inject)

definition plain :: "byte \<Rightarrow> byte \<Rightarrow> bool" where
  "plain d c \<longleftrightarrow> c \<noteq> d \<and> c \<noteq> c_rbrace \<and> c \<noteq> c_dquote \<and> c \<noteq> c_lbrace \<and> c \<noteq> 0"

lemma read_plain:
  assumes "drop i str = t @ rest" "list_all (plain (delimiter this)) t" "oq < 1"
    "k + length t \<le> length word"
  shows "read_array_loop this str dec i word k oq esc arr =
    read_array_loop this str dec (i + length t) (wput word k t) (k + length t) oq esc arr"
  using assms
proof (induction t arbitrary: i k word)
  case (Cons c t)
  then have c: "i < length str" "str ! i = c" "drop (Suc i) str = t @ rest" "plain (delimiter this) c"
    using drop_nth [of i str c "t @ rest"] by auto
  then have "read_array_loop this str dec i word k oq esc arr =
      read_array_loop this str dec (Suc i) (word[k := c]) (Suc k) oq esc arr"
    using Cons.prems by (subst read_array_outside) (auto simp: plain_def)
  also have "\<dots> = read_array_loop this str dec (Suc i + length t) (wput (word[k := c]) (Suc k) t)
      (Suc k + length t) oq esc arr"
    by (rule Cons.IH) (use Cons.prems c in auto)
  finally show ?case using Cons.prems by (simp add: wput_Cons)
qed simp

lemma read_backslash:
  "i < length str \<Longrightarrow> str ! i = c_backslash \<Longrightarrow> read_array_loop this str dec i word k 1 False arr =
     read_array_loop this str dec (i + 1) word k 1 True arr"
  by (subst read_array_quoted) simp_all

lemma read_literal:
  "i < length str \<Longrightarrow> k < length word \<Longrightarrow> read_array_loop this str dec i word k 1 True arr =
     read_array_loop this str dec (i + 1) (word[k := str ! i]) (k + 1) 1 False arr"
  by (subst read_array_quoted) simp_all

lemma drop_add: "drop i str = xs @ ys \<Longrightarrow> drop (i + length xs) str = ys"
  by (metis add.commute append_eq_conv_conj drop_drop)

lemma read_escaped:
  assumes "drop i str = escape array_esc t @ rest" "k + length t \<le> length word"
  shows "read_array_loop this str dec i word k 1 False arr =
    read_array_loop this str dec (i + length (escape array_esc t)) (wput word k t) (k + length t) 1 False arr"
  using assms
proof (induction t arbitrary: i k word)
  case (Cons c t)
  have "read_array_loop this str dec i word k 1 False arr =
      read_array_loop this str dec (i + length (escape1 array_esc c)) (word[k := c]) (Suc k) 1 False arr"
  proof (cases "c = c_dquote \<or> c = c_backslash")
    case True
    then have e: "escape1 array_esc c = [c_backslash, c]" by (simp add: escape1_def array_esc_def)
    then have "i < length str" "str ! i = c_backslash" "drop (Suc i) str = c # escape array_esc t @ rest"
      using Cons.prems(1) drop_nth [of i str c_backslash] by auto
    moreover from this have "Suc i < length str" "str ! Suc i = c"
      using drop_nth [of "Suc i" str c "escape array_esc t @ rest"] by simp_all
    moreover have "k < length word" using Cons.prems(2) by simp
    ultimately have "read_array_loop this str dec i word k 1 False arr =
        read_array_loop this str dec (Suc i + 1) (word[k := c]) (k + 1) 1 False arr"
      using read_backslash [of i str this dec word k arr] read_literal [of "Suc i" str k word this dec arr]
      by (simp only: Suc_eq_plus1)
    then show ?thesis using e by simp
  next
    case False
    then have e: "escape1 array_esc c = [c]" by (simp add: escape1_def array_esc_def)
    then have "i < length str" "str ! i = c" using Cons.prems(1) drop_nth [of i str c] by auto
    then show ?thesis
      using False Cons.prems(2) e read_array_quoted [of i str 1 this dec word k False arr] by simp
  qed
  also have "\<dots> = read_array_loop this str dec (i + length (escape1 array_esc c) + length (escape array_esc t))
      (wput (word[k := c]) (Suc k) t) (Suc k + length t) 1 False arr"
  proof (rule Cons.IH)
    show "drop (i + length (escape1 array_esc c)) str = escape array_esc t @ rest"
      by (rule drop_add) (use Cons.prems(1) in simp)
  qed (use Cons.prems in auto)
  finally show ?case using Cons.prems by (simp add: wput_Cons add.assoc)
qed simp

text \<open>
  The state after an item, before the separator that completes it: pushing it gives \<open>arr'\<close>.
\<close>

definition pending :: "(bytes \<Rightarrow> rvalue res) \<Rightarrow> bytes \<Rightarrow> nat \<Rightarrow> int \<Rightarrow> bool \<Rightarrow> rvalue list \<Rightarrow> rvalue list \<Rightarrow> bool" where
  "pending dec word k oq esc arr arr' \<longleftrightarrow> oq < 1 \<and>
     (\<exists>word'. array_push dec word k oq esc arr = Inr (arr', word') \<and> length word' = length word)"

lemma pending_rbrace:
  assumes "pending dec word k oq esc arr arr'" "drop i str = c_rbrace # rest"
  shows "\<exists>word'. read_array_loop this str dec i word k oq esc arr = Inr (arr', i, word') \<and> length word' = length word"
  using assms drop_nth [OF assms(2)] by (auto simp: pending_def read_array_sep)

lemma pending_delim:
  assumes "pending dec word k oq esc arr arr'" "drop i str = delimiter this # rest" "delimiter this \<noteq> c_rbrace"
  shows "\<exists>word'. read_array_loop this str dec i word k oq esc arr =
    read_array_loop this str dec (Suc i) word' 0 0 False arr' \<and> length word' = length word"
  using assms drop_nth [OF assms(2)] by (auto simp: pending_def read_array_sep)

text \<open>A run over the text \<open>t\<close> of an item of value \<open>v\<close>.\<close>

definition reads_item :: "t_pg_composite_coder \<Rightarrow> (bytes \<Rightarrow> rvalue res) \<Rightarrow> bytes \<Rightarrow> rvalue \<Rightarrow> bool" where
  "reads_item this dec t v \<longleftrightarrow>
     (\<forall>str i rest word arr. drop i str = t @ rest \<longrightarrow> length str < length word \<longrightarrow>
       (\<exists>word' k oq esc arr2. read_array_loop this str dec i word 0 0 False arr =
            read_array_loop this str dec (i + length t) word' k oq esc arr2 \<and>
          pending dec word' k oq esc arr2 (arr @ [v]) \<and> length word' = length word))"

lemma drop_length_le: "drop i str = t @ rest \<Longrightarrow> t \<noteq> [] \<Longrightarrow> i + length t \<le> length str"
  by (metis append_is_Nil_conv drop_all length_append length_drop le_add1 le_add_diff_inverse nat_le_linear add_le_mono1 le_diff_conv add.commute)


lemma reads_null: "delimiter this \<notin> set (lit ''NULL'') \<Longrightarrow> reads_item this dec (lit ''NULL'') Qnil"
  unfolding reads_item_def
proof (intro allI impI)
  fix str rest word :: bytes and i :: nat and arr
  assume d: "delimiter this \<notin> set (lit ''NULL'')" and str: "drop i str = lit ''NULL'' @ rest"
    and len: "length str < length word"
  have le: "0 + length (lit ''NULL'') \<le> length word"
    using drop_length_le [OF str] len by simp
  have "read_array_loop this str dec i word 0 0 False arr =
      read_array_loop this str dec (i + length (lit ''NULL'')) (wput word 0 (lit ''NULL'')) (0 + length (lit ''NULL'')) 0 False arr"
    by (rule read_plain [OF str _ _ le]) (use d in \<open>auto simp: plain_def\<close>)
  moreover have "pending dec (wput word 0 (lit ''NULL'')) (0 + length (lit ''NULL'')) 0 False arr (arr @ [Qnil])"
    using take_wput [OF le] unfolding pending_def array_push_def by simp
  ultimately show "\<exists>word' k oq esc arr2. read_array_loop this str dec i word 0 0 False arr =
            read_array_loop this str dec (i + length (lit ''NULL'')) word' k oq esc arr2 \<and>
          pending dec word' k oq esc arr2 (arr @ [Qnil]) \<and> length word' = length word"
    using length_wput [OF le] by blast
qed

lemma array_push_word:
  assumes "k < length word" "dec (take k word) = Inr v" "\<not> (oq = 0 \<and> take k word = lit ''NULL'')"
  shows "\<exists>word'. array_push dec word k oq False arr = Inr (arr @ [v], word') \<and> length word' = length word"
proof -
  have "take k (word[k := 0]) = take k word" by (simp add: take_update_cancel)
  then show ?thesis using assms by (auto simp: array_push_def Let_def)
qed

text \<open>An element text, quoted where needed, is read as the decoded element.\<close>

lemma reads_quoted:
  assumes d: "delimiter this \<noteq> c_dquote" and t: "0 \<notin> set t" and v: "dec t = Inr v"
  shows "reads_item this dec (array_quote (delimiter this) t) v"
  unfolding reads_item_def
proof (intro allI impI)
  fix str rest word :: bytes and i :: nat and arr
  assume str: "drop i str = array_quote (delimiter this) t @ rest" and len: "length str < length word"
  show "\<exists>word' k oq esc arr2. read_array_loop this str dec i word 0 0 False arr =
            read_array_loop this str dec (i + length (array_quote (delimiter this) t)) word' k oq esc arr2 \<and>
          pending dec word' k oq esc arr2 (arr @ [v]) \<and> length word' = length word"
  proof (cases "array_quoted (delimiter this) t")
    case False
    then have q: "array_quote (delimiter this) t = t" by (simp add: array_quote_def)
    have pl: "list_all (plain (delimiter this)) t"
      using False t by (auto simp: list_all_iff plain_def array_quoted_def array_special_def)
    have ne: "t \<noteq> []" using False by (simp add: array_quoted_def)
    have "is_null_text (lit ''NULL'')" by code_simp
    with False have nn: "t \<noteq> lit ''NULL''" unfolding array_quoted_def by blast
    have le: "0 + length t < length word" using drop_length_le [OF str [unfolded q] ne] len by simp
    have "read_array_loop this str dec i word 0 0 False arr =
        read_array_loop this str dec (i + length t) (wput word 0 t) (0 + length t) 0 False arr"
      by (rule read_plain [OF str [unfolded q] pl]) (use le in auto)
    moreover have "pending dec (wput word 0 t) (0 + length t) 0 False arr (arr @ [v])"
      unfolding pending_def
      using array_push_word [of "length t" "wput word 0 t" dec v 0 arr] take_wput [of 0 t word] le v nn by simp
    ultimately show ?thesis unfolding q using le by (metis length_wput less_imp_le)
  next
    case True
    let ?e = "escape array_esc t"
    have q: "array_quote (delimiter this) t = c_dquote # ?e @ [c_dquote]" using True by (simp add: array_quote_def)
    have i: "i < length str" "str ! i = c_dquote" "drop (Suc i) str = ?e @ c_dquote # rest"
      using drop_nth [of i str c_dquote "?e @ c_dquote # rest"] str q by auto
    have le: "length t < length word"
      using drop_length_le [OF str] q len length_escape(1) [of t array_esc] by simp
    have j: "drop (Suc i + length ?e) str = c_dquote # rest"
      by (rule drop_add [OF i(3)])
    note j' = drop_nth [OF j]
    have "read_array_loop this str dec i word 0 0 False arr = read_array_loop this str dec (Suc i) word 0 1 False arr"
      using i d read_array_outside [of i str 0 this dec word 0 False arr] by auto
    also have "\<dots> = read_array_loop this str dec (Suc i + length ?e) (wput word 0 t) (0 + length t) 1 False arr"
      by (rule read_escaped [OF i(3)]) (use le in auto)
    also have "\<dots> = read_array_loop this str dec (Suc (Suc i + length ?e)) (wput word 0 t) (0 + length t) (- 1) False arr"
      using j' read_array_quoted [of "Suc i + length ?e" str 1 this dec "wput word 0 t" "0 + length t" False arr] by simp
    finally have "read_array_loop this str dec i word 0 0 False arr =
      read_array_loop this str dec (i + length (array_quote (delimiter this) t)) (wput word 0 t) (0 + length t) (- 1) False arr"
      unfolding q by simp
    moreover have "pending dec (wput word 0 t) (0 + length t) (- 1) False arr (arr @ [v])"
      unfolding pending_def
      using array_push_word [of "length t" "wput word 0 t" dec v "- 1" arr] take_wput [of 0 t word] le v by simp
    ultimately show ?thesis using le by (metis length_wput less_imp_le add_0)
  qed
qed

fun array_tree :: "(rvalue \<Rightarrow> bool) \<Rightarrow> rvalue \<Rightarrow> bool" where
  "array_tree g (RArray vs) = list_all (array_tree g) vs"
| "array_tree g Qnil = True"
| "array_tree g v = g v"

definition reads_array :: "t_pg_composite_coder \<Rightarrow> (bytes \<Rightarrow> rvalue res) \<Rightarrow> bytes \<Rightarrow> rvalue list \<Rightarrow> bool" where
  "reads_array this dec t vs \<longleftrightarrow> (\<exists>u. t = c_lbrace # u @ [c_rbrace] \<and>
     (\<forall>str i rest word. drop i str = u @ c_rbrace # rest \<longrightarrow> length str < length word \<longrightarrow>
       (\<exists>word'. read_array_without_dim this str dec i word = Inr (vs, i + length u, word') \<and> length word' = length word)))"

definition reads_list :: "t_pg_composite_coder \<Rightarrow> (bytes \<Rightarrow> rvalue res) \<Rightarrow> bytes \<Rightarrow> rvalue list \<Rightarrow> bool" where
  "reads_list this dec t vs \<longleftrightarrow>
     (\<forall>str i rest word arr. drop i str = t @ c_rbrace # rest \<longrightarrow> length str < length word \<longrightarrow>
       (\<exists>word'. read_array_loop this str dec i word 0 0 False arr = Inr (arr @ vs, i + length t, word') \<and>
          length word' = length word))"

definition reads_tail :: "t_pg_composite_coder \<Rightarrow> (bytes \<Rightarrow> rvalue res) \<Rightarrow> bytes \<Rightarrow> rvalue list \<Rightarrow> bool" where
  "reads_tail this dec t vs \<longleftrightarrow>
     (\<forall>str i rest word k oq esc arr arr'. pending dec word k oq esc arr arr' \<longrightarrow>
       drop i str = t @ c_rbrace # rest \<longrightarrow> length str < length word \<longrightarrow>
       (\<exists>word'. read_array_loop this str dec i word k oq esc arr = Inr (arr' @ vs, i + length t, word') \<and>
          length word' = length word))"

lemma reads_tail_Nil: "reads_tail this dec [] []"
  using pending_rbrace by (auto simp: reads_tail_def)

lemma reads_item_tail:
  assumes "reads_item this dec t v" "reads_tail this dec u vs"
  shows "reads_list this dec (t @ u) (v # vs)"
  unfolding reads_list_def
proof (intro allI impI)
  fix str rest word :: bytes and i :: nat and arr
  assume str: "drop i str = (t @ u) @ c_rbrace # rest" and len: "length str < length word"
  from str have "drop i str = t @ (u @ c_rbrace # rest)" by simp
  with assms(1) len obtain word' k oq esc arr2 where
    1: "read_array_loop this str dec i word 0 0 False arr = read_array_loop this str dec (i + length t) word' k oq esc arr2"
      "pending dec word' k oq esc arr2 (arr @ [v])" "length word' = length word"
    unfolding reads_item_def by blast
  have "drop (i + length t) str = u @ c_rbrace # rest" by (rule drop_add) (use str in simp)
  with assms(2) 1(2) len 1(3) obtain word'' where
    "read_array_loop this str dec (i + length t) word' k oq esc arr2 = Inr ((arr @ [v]) @ vs, i + length t + length u, word'')"
    "length word'' = length word'"
    unfolding reads_tail_def by (metis (no_types, lifting))
  with 1 show "\<exists>word'. read_array_loop this str dec i word 0 0 False arr = Inr (arr @ v # vs, i + length (t @ u), word') \<and>
      length word' = length word" by (auto simp: add.assoc)
qed

lemma reads_tail_Cons:
  assumes "reads_list this dec t vs" "delimiter this \<noteq> c_rbrace"
  shows "reads_tail this dec (delimiter this # t) vs"
  unfolding reads_tail_def
proof (intro allI impI)
  fix str rest word :: bytes and i k :: nat and oq esc arr arr'
  assume p: "pending dec word k oq esc arr arr'" and str: "drop i str = (delimiter this # t) @ c_rbrace # rest"
    and len: "length str < length word"
  from str have str': "drop i str = delimiter this # (t @ c_rbrace # rest)" by simp
  obtain w where w: "read_array_loop this str dec i word k oq esc arr = read_array_loop this str dec (Suc i) w 0 0 False arr'"
    "length w = length word" using pending_delim [OF p str' assms(2)] by blast
  have "drop (Suc i) str = t @ c_rbrace # rest" using drop_nth [OF str'] by simp
  with assms(1) len w(2) obtain w' where
    "read_array_loop this str dec (Suc i) w 0 0 False arr' = Inr (arr' @ vs, Suc i + length t, w')" "length w' = length w"
    unfolding reads_list_def by metis
  with w show "\<exists>word'. read_array_loop this str dec i word k oq esc arr =
      Inr (arr' @ vs, i + length (delimiter this # t), word') \<and> length word' = length word" by auto
qed

lemma reads_sub:
  assumes "reads_array this dec t vs" "delimiter this \<noteq> c_lbrace"
  shows "reads_item this dec t (RArray vs)"
  unfolding reads_item_def
proof (intro allI impI)
  fix str rest word :: bytes and i :: nat and arr
  assume str: "drop i str = t @ rest" and len: "length str < length word"
  from assms(1) obtain u where t: "t = c_lbrace # u @ [c_rbrace]"
    and u: "\<And>str i rest word. drop i str = u @ c_rbrace # rest \<Longrightarrow> length str < length word \<Longrightarrow>
      \<exists>word'. read_array_without_dim this str dec i word = Inr (vs, i + length u, word') \<and> length word' = length word"
    unfolding reads_array_def by blast
  have i: "i < length str" "str ! i = c_lbrace" "drop (Suc i) str = u @ c_rbrace # rest"
    using str t drop_nth [of i str c_lbrace] by auto
  from u [OF i(3) len] obtain w where w: "read_array_without_dim this str dec (i + 1) word = Inr (vs, Suc i + length u, w)"
    "length w = length word" by auto
  have "read_array_loop this str dec i word 0 0 False arr =
      read_array_loop this str dec (i + length t) w 0 0 True (arr @ [RArray vs])"
    using read_array_outside [of i str 0 this dec word 0 False arr] i(1,2) assms(2) w(1) t by (simp add: max_def)
  moreover have "pending dec w 0 0 True (arr @ [RArray vs]) (arr @ [RArray vs])"
    by (simp add: pending_def array_push_def)
  ultimately show "\<exists>word' k oq esc arr2. read_array_loop this str dec i word 0 0 False arr =
            read_array_loop this str dec (i + length t) word' k oq esc arr2 \<and>
          pending dec word' k oq esc arr2 (arr @ [RArray vs]) \<and> length word' = length word"
    using w(2) by blast
qed

lemma reads_braces:
  assumes "vs = [] \<and> u = [] \<or> u \<noteq> [] \<and> hd u \<noteq> c_rbrace \<and> reads_list this dec u vs"
  shows "reads_array this dec (c_lbrace # u @ [c_rbrace]) vs"
  unfolding reads_array_def
proof (rule exI [of _ u], intro conjI allI impI)
  fix str rest word :: bytes and i :: nat
  assume str: "drop i str = u @ c_rbrace # rest" and len: "length str < length word"
  obtain c r where c: "u @ c_rbrace # rest = c # r" "c = hd (u @ [c_rbrace])" by (cases u) auto
  have i: "i < length str" "str ! i = c" using drop_nth [of i str c r] str c by auto
  show "\<exists>word'. read_array_without_dim this str dec i word = Inr (vs, i + length u, word') \<and> length word' = length word"
  proof (cases "u = []")
    case True
    with assms i c show ?thesis by (simp add: read_array_without_dim_def)
  next
    case False
    then have "c \<noteq> c_rbrace" "reads_list this dec u vs" using assms c by auto
    then have "\<exists>word'. read_array_loop this str dec i word 0 0 False [] = Inr ([] @ vs, i + length u, word') \<and>
        length word' = length word" using str len unfolding reads_list_def by blast
    with i \<open>c \<noteq> c_rbrace\<close> show ?thesis by (simp add: read_array_without_dim_def)
  qed
qed simp

text \<open>The conditions on the delimiter, and on the element coders for the elements in \<open>g\<close>.\<close>

definition delim_ok :: "byte \<Rightarrow> bool" where
  "delim_ok d \<longleftrightarrow> d \<notin> set (lit ''NULL'') \<and> d \<noteq> c_dquote \<and> d \<noteq> c_lbrace \<and> d \<noteq> c_rbrace"

definition elem_ok :: "byte \<Rightarrow> (rvalue \<Rightarrow> bytes res) \<Rightarrow> (bytes \<Rightarrow> rvalue res) \<Rightarrow> (rvalue \<Rightarrow> bool) \<Rightarrow> bool" where
  "elem_ok d el dec g \<longleftrightarrow> (\<forall>v. g v \<longrightarrow> (\<exists>t. el v = Inr (array_quote d t) \<and> 0 \<notin> set t \<and> dec t = Inr v))"

lemma array_quote_hd:
  assumes "d \<noteq> c_rbrace"
  shows "array_quote d t \<noteq> [] \<and> hd (array_quote d t) \<noteq> c_rbrace"
proof (cases "array_quoted d t")
  case False
  then have "t \<noteq> []" "\<forall>c \<in> set t. c \<noteq> c_rbrace" by (auto simp: array_quoted_def array_special_def)
  with False show ?thesis by (cases t) (auto simp: array_quote_def)
qed (simp add: array_quote_def)

lemma elem_reads:
  assumes "elem_ok (delimiter this) el dec g" "delim_ok (delimiter this)" "g v"
  shows "\<exists>t. el v = Inr t \<and> t \<noteq> [] \<and> hd t \<noteq> c_rbrace \<and> reads_item this dec t v"
proof -
  from assms(1,3) obtain t where "el v = Inr (array_quote (delimiter this) t)" "0 \<notin> set t" "dec t = Inr v"
    by (auto simp: elem_ok_def)
  with assms(2) array_quote_hd [of "delimiter this" t] reads_quoted [of this t dec v] show ?thesis
    by (auto simp: delim_ok_def)
qed

lemma null_reads: "delim_ok (delimiter this) \<Longrightarrow> reads_item this dec [78, 85, 76, 76] Qnil"
  using reads_null [of this dec] by (simp add: delim_ok_def)

lemma array_text_reads:
  assumes d: "delim_ok d" "d = delimiter this" and dims: "dims < 0" and el: "elem_ok d el dec g"
  shows "list_all (array_tree g) vs \<Longrightarrow> \<exists>t. array_text el d dims dim vs = Inr t \<and> reads_array this dec t vs"
    and "array_tree g v \<Longrightarrow> \<exists>t. array_item el d dims dim v = Inr t \<and> t \<noteq> [] \<and> hd t \<noteq> c_rbrace \<and> reads_item this dec t v"
    and "list_all (array_tree g) vs \<Longrightarrow> \<exists>t. array_items el d dims dim n vs = Inr t \<and>
      (if n > 0 then reads_tail this dec t vs
       else vs = [] \<and> t = [] \<or> t \<noteq> [] \<and> hd t \<noteq> c_rbrace \<and> reads_list this dec t vs)"
  using assms
proof (induction el d dims dim vs and el d dims dim v and el d dims dim n vs
    rule: array_text_array_item_array_items.induct)
  case (1 el d dims dim vs)
  then obtain t where "array_items el d dims dim 0 vs = Inr t"
    "vs = [] \<and> t = [] \<or> t \<noteq> [] \<and> hd t \<noteq> c_rbrace \<and> reads_list this dec t vs" by auto
  with 1(5) reads_braces show ?case by (auto simp: array_text.simps)
next
  case (2 el d dims dim sub)
  then obtain t where t: "array_text el d dims (dim + 1) sub = Inr t" "reads_array this dec t sub" by auto
  then have "t \<noteq> []" "hd t \<noteq> c_rbrace" by (auto simp: reads_array_def)
  with t 2 reads_sub show ?case by (auto simp: delim_ok_def)
next
  case (4 el d dims dim n)
  then show ?case by (auto simp: reads_tail_Nil)
next
  case (5 el d dims dim n v vs)
  obtain t where t: "array_item el d dims dim v = Inr t" "t \<noteq> []" "hd t \<noteq> c_rbrace" "reads_item this dec t v"
    using 5 by auto
  obtain u where u: "array_items el d dims dim (n + 1) vs = Inr u" "reads_tail this dec u vs"
    using 5(2) [OF t(1)] 5(3-7) by auto
  have "reads_list this dec (t @ u) (v # vs)" by (rule reads_item_tail [OF t(4) u(2)])
  then show ?case using t u reads_tail_Cons [of this dec "t @ u" "v # vs"] 5(4,5)
    by (auto simp: delim_ok_def)
qed (simp_all add: elem_reads null_reads)


text \<open>The decoder on a text that starts with a brace.\<close>

lemma array_start_brace: "array_start this (c_lbrace # u) = Inr 1"
proof -
  have "skip_while array_isspace (c_lbrace # u) 0 = 0" by (subst skip_while.simps) (simp add: array_isspace_def)
  then have "array_dims this (c_lbrace # u) 0 0 = Inr (0, 0)"
    by (subst array_dims.simps) (simp add: Let_def cstr_def)
  then show ?thesis by (simp add: array_start_def cstr_def)
qed

lemma dec_array_reads:
  assumes "reads_array this (\<lambda>w. pg_coder_dec_func rb (elem this) False w tu f e) t vs"
  shows "pg_text_dec_array rb this t tu f e = Inr (RArray vs)"
proof -
  let ?dec = "\<lambda>w. pg_coder_dec_func rb (elem this) False w tu f e"
  from assms obtain u where t: "t = c_lbrace # u @ [c_rbrace]"
    and u: "\<And>str i rest word. drop i str = u @ c_rbrace # rest \<Longrightarrow> length str < length word \<Longrightarrow>
      \<exists>word'. read_array_without_dim this str ?dec i word = Inr (vs, i + length u, word') \<and> length word' = length word"
    unfolding reads_array_def by blast
  obtain w where w: "read_array_without_dim this t ?dec 1 (replicate (length t + 1) 0) = Inr (vs, 1 + length u, w)"
    using u [of 1 t "[]" "replicate (length t + 1) 0"] t by auto
  have "\<exists>w'. (if 1 < length t \<and> t ! 1 = c_rbrace then Inr ([], 1, [])
      else read_array_without_dim this t ?dec 1 (replicate (length t + 1) 0)) = Inr (vs, 1 + length u, w')"
    using w by (auto simp: read_array_without_dim_def)
  moreover have "array_finish this t (vs, 1 + length u, w') = Inr (RArray vs)" for w'
  proof -
    have "t ! (1 + length u) = c_rbrace" "drop (1 + length u + 1) t = []" by (simp_all add: t nth_append)
    then show ?thesis by (simp add: array_finish_def cstr_def only_space_after_def t)
  qed
  moreover have "array_start this t = Inr 1" using array_start_brace [of this "u @ [c_rbrace]"] t by simp
  ultimately show ?thesis unfolding pg_text_dec_array_def by auto
qed

text \<open>The round trip for any element coder.\<close>

lemma text_array_roundtrip_elem:
  assumes "rb_api_ok rb" "good_coder (elem enc)" "delimiter enc = delimiter dec" "delim_ok (delimiter dec)"
    "dimensions enc < 0" "needs_quotation enc" "list_all (array_tree g) vs"
    and "\<And>v. g v \<Longrightarrow> \<exists>t. encoded (pg_coder_enc_func rb (elem enc)) v e = Inr t \<and> 0 \<notin> set t \<and>
      pg_coder_dec_func rb (elem dec) False t tu f e = Inr v"
  shows "\<exists>t. pg_text_enc_array rb enc (RArray vs) False im e = Inr (- 1, [], RString t e) \<and>
    pg_text_dec_array rb dec t tu f e = Inr (RArray vs)"
proof -
  have "elem_ok (delimiter dec) (array_elem rb enc True e) (\<lambda>w. pg_coder_dec_func rb (elem dec) False w tu f e) g"
    using assms(3,8) by (fastforce simp: elem_ok_def array_elem_def)
  from array_text_reads(1) [OF assms(4) refl assms(5) this assms(7), of 1]
  obtain t where "array_text (array_elem rb enc True e) (delimiter dec) (dimensions enc) 1 vs = Inr t"
    "reads_array dec (\<lambda>w. pg_coder_dec_func rb (elem dec) False w tu f e) t vs" by blast
  then show ?thesis
    using enc_array_text [OF assms(1,2), of vs False im e] dec_array_reads [of dec rb tu f e t vs] assms(3,6) by simp
qed

section \<open>Identifiers\<close>

lemma dec_identifier_escaped:
  "dec_identifier_loop (escape ident_esc bs @ rest) w 2 arr = dec_identifier_loop rest (w @ bs) 2 arr"
  by (induction bs arbitrary: w) (auto simp: escape1_def ident_esc_def)

primrec ident_join :: "bytes list \<Rightarrow> bytes" where
  "ident_join [] = []"
| "ident_join (n # ns) = c_dquote # escape ident_esc n @ c_dquote # (if ns = [] then [] else c_dot # ident_join ns)"

lemma dec_identifier_join:
  "ns \<noteq> [] \<Longrightarrow> dec_identifier_loop (ident_join ns) [] 0 arr = arr @ ns"
proof (induction ns arbitrary: arr)
  case (Cons n ns)
  then show ?case by (cases "ns = []") (simp_all add: dec_identifier_escaped)
qed simp

lemma ident_list_join:
  assumes "rb_api_ok rb" "list_all (\<lambda>n. 0 \<notin> set n) ns"
  shows "ident_list_text rb e (map (\<lambda>n. RString n e) ns) = Inr (ident_join ns)"
  using assms(2)
  by (induction ns) (simp_all add: ident_string_def rb_api_okD [OF assms(1)] ident_text_def ident_body_def)

section \<open>Base64\<close>

lemma to_base64_string:
  assumes "rb_api_ok rb" "elem this = None"
  shows "pg_text_enc_to_base64 rb this (RString s e) False im e = Inr (- 1, [], RString (b64_encode s) e)"
proof -
  let ?n = "BASE64_ENCODED_SIZE (length s)"
  have "peek (rbpg_base64_encode (poke (\<lambda>_. 0) ?n s) 0 ?n (length s)) 0 ?n = b64_encode s"
    using base64_encode_correct [of ?n 0 "length s" "poke (\<lambda>_. 0) ?n s"] by auto
  then show ?thesis
    using assms by (simp add: pg_text_enc_to_base64_def pg_coder_enc_func_def pg_coder_enc_to_s_def rb_api_okD Let_def)
qed

lemma from_base64_decodes:
  "pg_text_dec_from_base64 rb this val tu f e =
     pg_coder_dec_func rb (elem this) (coder_format this \<noteq> 0) (b64_decode val) tu f e"
proof -
  let ?n = "BASE64_DECODED_SIZE (length val)"
  obtain m k where r: "rbpg_base64_decode (poke (\<lambda>_. 0) ?n val) 0 ?n (length val) = (m, k)" by (metis surj_pair)
  have "peek m 0 k = b64_decode val \<and> k = length (b64_decode val)"
    using base64_decode_correct [OF r] by auto
  with length_b64_decode [of val] show ?thesis
    unfolding pg_text_dec_from_base64_def Let_def r by auto
qed

section \<open>Inet masks\<close>

lemma bit_not_low: "bit (NOT (2 ^ k - 1 :: 'a::len word)) n \<longleftrightarrow> k \<le> n \<and> n < LENGTH('a)"
  by (auto simp: bit_simps simp flip: mask_eq_exp_minus_1)

lemma ipv4_mask_bits: "m \<le> 32 \<Longrightarrow> bit (ipv4_mask ip m) n \<longleftrightarrow> bit ip n \<and> 32 - m \<le> n"
  using bit_imp_le_length [of ip n] by (auto simp: ipv4_mask_def bit_and_iff bit_not_low)

lemma vmask_closed: "k \<le> w \<Longrightarrow> vmask w k = 2 ^ w - 2 ^ k"
  by (induction k) auto

lemma s_vmasks_closed: "i \<le> w \<Longrightarrow> s_vmasks w i = 2 ^ w - 2 ^ (w - i)"
  by (simp add: s_vmasks_def vmask_closed)

lemma ipv6_mask_bits:
  assumes "m \<le> 128" "ipv6_mask (ip1, ip2) m = (r1, r2)"
  shows "bit r1 n \<longleftrightarrow> bit ip1 n \<and> 128 - m \<le> n + 64" "bit r2 n \<longleftrightarrow> bit ip2 n \<and> 128 - m \<le> n"
proof -
  have n: "bit ip1 n \<Longrightarrow> n < 64" "bit ip2 n \<Longrightarrow> n < 64" by (auto dest: bit_imp_le_length)
  show "bit r1 n \<longleftrightarrow> bit ip1 n \<and> 128 - m \<le> n + 64" "bit r2 n \<longleftrightarrow> bit ip2 n \<and> 128 - m \<le> n"
    using assms n by (auto simp: ipv6_mask_def bit_and_iff bit_not_low split: if_splits)
qed

section \<open>Timestamps\<close>

definition dchars :: "nat list \<Rightarrow> bytes" where
  "dchars = map (\<lambda>d. c_0 + of_nat d)"

definition dd :: "nat \<Rightarrow> bytes" where
  "dd n = dchars [n div 10, n mod 10]"

lemma dchars_simps [simp]: "dchars [] = []" "dchars (d # ds) = (c_0 + of_nat d) # dchars ds"
  by (simp_all add: dchars_def)

lemma char_to_digit_nat: "d < 10 \<Longrightarrow> char_to_digit (c_0 + of_nat d) = int d"
proof -
  assume "d < 10"
  then have "d \<in> {0, 1, 2, 3, 4, 5, 6, 7, 8, 9}" by auto
  then show ?thesis by (auto simp: char_to_digit_def)
qed

lemma cstr_simps [simp]:
  "cstr [] i = 0" "cstr (c # s) 0 = c" "cstr (c # s) (Suc i) = cstr s i" "cstr (c # s) (numeral k) = cstr s (pred_numeral k)"
  by (simp_all add: cstr_def numeral_eq_Suc)

definition digits_value :: "nat list \<Rightarrow> int" where
  "digits_value = foldl (\<lambda>v d. 10 * v + int d) 0"

lemma parse_year_digits:
  assumes "list_all (\<lambda>d. d < 10) ys" "length ys \<le> n" "\<not> isdigit (cstr rest 0)"
  shows "parse_year n y (dchars ys @ rest) = (foldl (\<lambda>v d. 10 * v + int d) y ys, rest)"
  using assms
proof (induction ys arbitrary: n y)
  case Nil
  then show ?case by (cases "(n, y, rest)" rule: parse_year.cases) auto
next
  case (Cons d ys)
  then obtain k where "n = Suc k" by (cases n) auto
  with Cons show ?case by (simp add: digit_byte char_to_digit_nat)
qed

primrec nsec_value :: "int list \<Rightarrow> int \<Rightarrow> nat list \<Rightarrow> int" where
  "nsec_value coef n [] = n"
| "nsec_value coef n (d # ds) = nsec_value (tl coef) (n + hd coef * int d) ds"

lemma parse_nsec_digits:
  assumes "list_all (\<lambda>d. d < 10) fs" "length fs \<le> length coef" "\<not> isdigit (cstr rest 0)"
  shows "parse_nsec coef n (dchars fs @ rest) = (nsec_value coef n fs, rest)"
  using assms
proof (induction fs arbitrary: n coef)
  case Nil
  then show ?case by (cases "(coef, n, rest)" rule: parse_nsec.cases) auto
next
  case (Cons d fs)
  then obtain k ks where "coef = k # ks" by (cases coef) auto
  with Cons show ?case by (simp add: digit_byte char_to_digit_nat)
qed

lemma isdigit_dd: "n < 100 \<Longrightarrow> isdigit (c_0 + of_nat (n div 10)) \<and> isdigit (c_0 + of_nat (n mod 10))"
  by (simp add: digit_byte)

lemma str2_dd: "n < 100 \<Longrightarrow> str2_to_int (dd n @ r) = int n"
  by (simp add: str2_to_int_def dd_def char_to_digit_nat) presburger


definition tz_text :: "bool \<Rightarrow> nat list \<Rightarrow> bytes" where
  "tz_text neg tz = (case tz of [] \<Rightarrow> []
     | h # r \<Rightarrow> (if neg then c_minus else c_plus) # dd h @ concat (map (\<lambda>n. c_colon # dd n) r))"

definition frac_text :: "nat list \<Rightarrow> bytes" where
  "frac_text fs = (if fs = [] then [] else c_dot # dchars fs)"

definition bc_text :: "bool \<Rightarrow> bytes" where
  "bc_text bc = (if bc then lit '' BC'' else [])"

text \<open>
  The text PostgreSQL sends for a timestamp: year digits \<open>ys\<close>, two-digit fields, fraction digits
  \<open>fs\<close>, the hour, minute and second \<open>tz\<close> of the zone as far as given, and the era.
\<close>

definition ts_text ::
    "nat list \<Rightarrow> nat \<Rightarrow> nat \<Rightarrow> nat \<Rightarrow> nat \<Rightarrow> nat \<Rightarrow> nat list \<Rightarrow> bool \<Rightarrow> nat list \<Rightarrow> bool \<Rightarrow> bytes" where
  "ts_text ys mo d h mi s fs neg tz bc =
     dchars ys @ c_minus # dd mo @ c_minus # dd d @ c_space # dd h @ c_colon # dd mi @ c_colon # dd s @
     frac_text fs @ tz_text neg tz @ bc_text bc"

definition ts_value ::
    "nat list \<Rightarrow> nat \<Rightarrow> nat \<Rightarrow> nat \<Rightarrow> nat \<Rightarrow> nat \<Rightarrow> nat list \<Rightarrow> bool \<Rightarrow> nat list \<Rightarrow> bool \<Rightarrow> timestamp" where
  "ts_value ys mo d h mi s fs neg tz bc =
     \<lparr> ts_year = (if bc then 1 - digits_value ys else digits_value ys), ts_mon = int mo, ts_day = int d,
       ts_hour = int h, ts_min = int mi, ts_sec = int s, ts_nsec = nsec_value nsec_coef 0 fs,
       tz_given = (if tz = [] then 0 else if neg then TZ_NEG else TZ_POS),
       tz_hour = (if length tz > 0 then int (tz ! 0) else 0), tz_min = (if length tz > 1 then int (tz ! 1) else 0),
       tz_sec = (if length tz > 2 then int (tz ! 2) else 0) \<rparr>"

lemma parse_tz_part_dd: "n < 100 \<Longrightarrow> parse_tz_part (c_colon # dd n @ r) = (int n, r)"
  using str2_dd [of n r] isdigit_dd [of n] by (simp add: parse_tz_part_def sep_dd_def dd_def)

lemma parse_tz_part_none: "cstr str 0 \<noteq> c_colon \<Longrightarrow> parse_tz_part str = (0, str)"
  by (simp add: parse_tz_part_def sep_dd_def)

lemma bc_text_hd: "cstr (bc_text bc) 0 \<in> {0, c_space}"
  by (simp add: bc_text_def)

lemma parse_tz_text:
  assumes "list_all (\<lambda>n. n < 100) tz" "length tz \<le> 3"
  shows "parse_tz (tz_text neg tz @ bc_text bc) =
    (if tz = [] then 0 else if neg then TZ_NEG else TZ_POS,
     if length tz > 0 then int (tz ! 0) else 0, if length tz > 1 then int (tz ! 1) else 0,
     if length tz > 2 then int (tz ! 2) else 0, bc_text bc)"
proof (cases tz)
  case Nil
  then show ?thesis using bc_text_hd [of bc] by (auto simp: parse_tz_def tz_text_def sep_dd_def)
next
  case (Cons h r)
  have none: "parse_tz_part (bc_text bc) = (0, bc_text bc)"
    using bc_text_hd [of bc] by (intro parse_tz_part_none) auto
  have head: "parse_tz ((if neg then c_minus else c_plus) # dd h @ u) =
      (if neg then TZ_NEG else TZ_POS, int h,
       fst (parse_tz_part u), fst (parse_tz_part (snd (parse_tz_part u))), snd (parse_tz_part (snd (parse_tz_part u))))"
    for u
    using isdigit_dd [of h] str2_dd [of h u] assms(1) Cons
    by (simp add: parse_tz_def sep_dd_def dd_def Let_def case_prod_unfold)
  have "r = [] \<or> (\<exists>m. r = [m]) \<or> (\<exists>m s. r = [m, s])"
    using assms(2) Cons by (cases r; cases "tl r") auto
  then show ?thesis
    using Cons assms(1) head
    by (elim disjE exE) (simp_all add: tz_text_def none parse_tz_part_dd)
qed

lemma parse_timestamp_text:
  assumes "list_all (\<lambda>d. d < 10) ys" "length ys \<le> 7" "digits_value ys > 0"
    "list_all (\<lambda>n. n < 100) [mo, d, h, mi, s]"
    "list_all (\<lambda>d. d < 10) fs" "length fs \<le> 9" "list_all (\<lambda>n. n < 100) tz" "length tz \<le> 3"
  shows "parse_timestamp (ts_text ys mo d h mi s fs neg tz bc) = Some (ts_value ys mo d h mi s fs neg tz bc)"
proof -
  let ?tz = "tz_text neg tz @ bc_text bc"
  let ?r = "c_minus # dd mo @ c_minus # dd d @ c_space # dd h @ c_colon # dd mi @ c_colon # dd s @ frac_text fs @ ?tz"
  have year: "parse_year 7 0 (ts_text ys mo d h mi s fs neg tz bc) = (digits_value ys, ?r)"
    using parse_year_digits [of ys 7 ?r 0] assms(1,2) by (simp add: ts_text_def digits_value_def isdigit_def)
  have tz0: "cstr ?tz 0 \<in> {0, c_space, c_plus, c_minus}"
    using bc_text_hd [of bc] by (auto simp: tz_text_def split: list.split)
  then have nd: "\<not> isdigit (cstr ?tz 0)" "cstr ?tz 0 \<noteq> c_dot" by (auto simp: isdigit_def)
  have frac: "parse_frac (frac_text fs @ ?tz) = (nsec_value nsec_coef 0 fs, ?tz)"
  proof (cases fs)
    case Nil
    then show ?thesis using nd by (simp add: frac_text_def parse_frac_def)
  next
    case (Cons f r)
    have "dropWhile isdigit ?tz = ?tz" using nd(1) by (cases ?tz) auto
    then show ?thesis
      using parse_nsec_digits [of fs nsec_coef ?tz 0] assms(5,6) nd(1) Cons
      by (simp add: frac_text_def nsec_coef_def digit_byte parse_frac_def)
  qed
  have era: "parse_era y (bc_text bc) = (if bc then - y + 1 else y, [])" for y
    by (simp add: parse_era_def bc_text_def)
  note lt = assms(4) [simplified]
  have sep: "sep_dd ?r 0 c_minus \<and> sep_dd ?r 3 c_minus \<and> sep_dd ?r 6 c_space \<and> sep_dd ?r 9 c_colon \<and> sep_dd ?r 12 c_colon"
    using isdigit_dd [of mo] isdigit_dd [of d] isdigit_dd [of h] isdigit_dd [of mi] isdigit_dd [of s] lt
    by (simp add: sep_dd_def dd_def)
  have drops: "drop 1 ?r = dd mo @ drop 3 ?r" "drop 4 ?r = dd d @ drop 6 ?r" "drop 7 ?r = dd h @ drop 9 ?r"
    "drop 10 ?r = dd mi @ drop 12 ?r" "drop 13 ?r = dd s @ drop 15 ?r" "drop 15 ?r = frac_text fs @ ?tz"
    by (simp_all add: dd_def)
  have val: "str2_to_int (drop 1 ?r) = int mo" "str2_to_int (drop 4 ?r) = int d" "str2_to_int (drop 7 ?r) = int h"
    "str2_to_int (drop 10 ?r) = int mi" "str2_to_int (drop 13 ?r) = int s"
    unfolding drops(1-5) using lt by (simp_all only: str2_dd)
  show ?thesis
    unfolding parse_timestamp_def year Let_def prod.case val drops(6) frac parse_tz_text [OF assms(7,8)] era
    using sep assms(3) by (simp add: ts_value_def)
qed

section \<open>Properties\<close>

text \<open>Integers survive the text format: for every Integer that the decoder's fast path
  takes, \<open>PG::TextEncoder::Integer#encode\<close> succeeds and decoding its result gives the Integer.\<close>

theorem text_integer_roundtrip:
  assumes "rb_api_ok rb" and "- (10 ^ 17) < i" and "i < 10 ^ 18"
  shows "\<exists>t. pg_coder_encode rb (pg_simple_encoder_allocate self (Some (\<lambda>_. pg_text_enc_integer rb))) [RInteger i]
       = Inr (RString t rb_ascii8bit_encindex) \<and>
     pg_text_dec_integer rb t tuple field e = Inr (RInteger i)"
proof -
  have "is_fixnum i" using assms(2,3) by (simp add: is_fixnum_def FIXNUM_MAX_def FIXNUM_MIN_def)
  then show ?thesis
    using encode_integer_dec [OF assms(1)] dec_integer_dec_of_int [OF dec_of_int_length18 [OF assms(2,3)]] by blast
qed

theorem text_integer_roundtrip_witness:
  "\<exists>t. pg_coder_encode rb_sample (pg_simple_encoder_allocate Qnil (Some (\<lambda>_. pg_text_enc_integer rb_sample)))
       [RInteger (- 42)] = Inr (RString t rb_ascii8bit_encindex) \<and>
     pg_text_dec_integer rb_sample t 0 0 0 = Inr (RInteger (- 42))"
  by (rule text_integer_roundtrip) simp_all

text \<open>Claim C4. An array of strings and nil, nested to any depth, survives the text format: the
  encoder quotes and escapes so that the parser gives back the same array, for every delimiter
  that is no quote, brace or letter of \<open>NULL\<close>.\<close>

theorem text_array_roundtrip:
  assumes "rb_api_ok rb" and "elem enc = None" and "elem dec = None"
    and "delimiter enc = delimiter dec" and "delim_ok (delimiter dec)"
    and "dimensions enc < 0" and "needs_quotation enc"
    and "list_all (array_tree (\<lambda>v. \<exists>s. v = RString s e \<and> 0 \<notin> set s)) vs"
  shows "\<exists>t. pg_text_enc_array rb enc (RArray vs) False im e = Inr (- 1, [], RString t e) \<and>
    pg_text_dec_array rb dec t tuple field e = Inr (RArray vs)"
proof (rule text_array_roundtrip_elem [OF assms(1) _ assms(4-8)])
  show "good_coder (elem enc)" by (simp add: assms(2))
next
  fix v assume "\<exists>s. v = RString s e \<and> 0 \<notin> set s"
  then show "\<exists>t. encoded (pg_coder_enc_func rb (elem enc)) v e = Inr t \<and> 0 \<notin> set t \<and>
      pg_coder_dec_func rb (elem dec) False t tuple field e = Inr v"
    using assms(1-3) by (auto simp: encoded_def pg_coder_enc_func_def pg_coder_enc_to_s_def
        pg_coder_dec_func_def pg_text_dec_string_def rb_api_okD)
qed

theorem text_array_roundtrip_witness:
  "\<exists>t. pg_text_enc_array rb_sample (pg_composite_encoder_allocate Qnil None)
       (RArray [RString (lit ''a,b'') 1, Qnil, RArray [RString [] 1, RString (lit ''NULL'') 1], RArray []]) False Qnil 1
       = Inr (- 1, [], RString t 1) \<and>
     pg_text_dec_array rb_sample (pg_composite_decoder_allocate Qnil None) t 0 0 1
       = Inr (RArray [RString (lit ''a,b'') 1, Qnil, RArray [RString [] 1, RString (lit ''NULL'') 1], RArray []])"
  by (rule text_array_roundtrip)
    (simp_all add: delim_ok_def)

text \<open>Claim C20. With the flag FORMAT_ERROR_TO_RAISE the array decoder never reads or writes outside
  of its input and its word buffer, whatever bytes it gets: the result is a value or a Ruby
  exception, if this holds of the element decoder.\<close>

theorem text_array_decode_memory_safe:
  assumes "raise_mode this" and "\<forall>w. safe (pg_coder_dec_func rb (elem this) False w tuple field e)"
  shows "safe (pg_text_dec_array rb this val tuple field e)"
  using dec_array_safe [OF assms(1)] assms(2) by blast

theorem text_array_decode_memory_safe_witness:
  "safe (pg_text_dec_array rb_sample ((pg_composite_decoder_allocate Qnil None)\<lparr> coder_flags := 4 \<rparr>) (lit ''{{'') 0 0 0)"
  by (rule text_array_decode_memory_safe)
    (simp_all add: raise_mode_def PG_CODER_FORMAT_ERROR_MASK_def PG_CODER_FORMAT_ERROR_TO_RAISE_def
      pg_coder_dec_func_def pg_text_dec_string_def)


text \<open>An identifier given as a list of names survives quoting: the decoder gives back
  the names, whatever bytes but NUL they contain.\<close>

theorem identifier_roundtrip:
  assumes "rb_api_ok rb" and "ns \<noteq> []" and "list_all (\<lambda>n. 0 \<notin> set n) ns"
  shows "\<exists>t. pg_text_enc_identifier rb (RArray (map (\<lambda>n. RString n e) ns)) out im e = Inr (- 1, [], RString t e) \<and>
    pg_text_dec_identifier t tuple field e = Inr (RArray (map (\<lambda>n. RString n e) ns))"
  by (simp add: enc_identifier_text [OF assms(1)] ident_list_join [OF assms(1,3)] pg_text_dec_identifier_def
      dec_identifier_join [OF assms(2)])

theorem identifier_roundtrip_witness:
  "\<exists>t. pg_text_enc_identifier rb_sample (RArray (map (\<lambda>n. RString n 0) [lit ''a.b'', lit ''c'' @ [c_dquote]]))
       False Qnil 0 = Inr (- 1, [], RString t 0) \<and>
     pg_text_dec_identifier t 0 0 0 = Inr (RArray (map (\<lambda>n. RString n 0) [lit ''a.b'', lit ''c'' @ [c_dquote]]))"
  by (rule identifier_roundtrip) simp_all

text \<open>\<open>FromBase64\<close> undoes \<open>ToBase64\<close> for every string, with the buffers the coders
  allocate.\<close>

theorem base64_coder_roundtrip:
  assumes "rb_api_ok rb" and "elem enc = None" and "elem dec = None" and "coder_format dec = 0"
  shows "\<exists>t. pg_text_enc_to_base64 rb enc (RString s e) False im e = Inr (- 1, [], RString t e) \<and>
    pg_text_dec_from_base64 rb dec t tuple field e = Inr (RString s e)"
  using to_base64_string [OF assms(1,2)] assms(3,4)
  by (simp add: from_base64_decodes b64_decode_encode pg_coder_dec_func_def pg_text_dec_string_def)



text \<open>\<open>TextDecoder::Inet\<close> keeps exactly the network part of an IPv4 or IPv6 address,
  and the mask it stores with it is the matching netmask.\<close>

theorem inet_masks_correct:
  "(m \<le> 32 \<longrightarrow> bit (ipv4_mask ip m) n = (bit ip n \<and> 32 - m \<le> n) \<and> s_vmasks 32 m = 2 ^ 32 - 2 ^ (32 - m)) \<and>
   (m \<le> 128 \<longrightarrow> bit (fst (ipv6_mask (ip1, ip2) m)) n = (bit ip1 n \<and> 128 - m \<le> n + 64) \<and>
     bit (snd (ipv6_mask (ip1, ip2) m)) n = (bit ip2 n \<and> 128 - m \<le> n) \<and>
     s_vmasks 128 m = 2 ^ 128 - 2 ^ (128 - m))"
  using ipv6_mask_bits [OF _ surjective_pairing, of m ip1 ip2 n]
  by (simp add: ipv4_mask_bits s_vmasks_closed)

theorem inet_masks_correct_witness:
  "bit (ipv4_mask 0xC0A80A01 24) 0 = False \<and> s_vmasks 32 24 = 0xFFFFFF00"
  using inet_masks_correct [of 24 "0xC0A80A01" 0 0 0] by simp

end
