(* ===== verification/PG_Binary_Encoder.thy ===== *)
theory PG_Binary_Encoder
  imports PG_Text_Decoder
begin

text \<open>
  \<open>ext/pg_binary_encoder.c\<close>: the encoder functions for PostgreSQL's binary format.
\<close>

section \<open>Scalars\<close>

definition pg_bin_enc_boolean :: enc_fn where
  "pg_bin_enc_boolean value out intermediate enc_idx =
     (case value of
        Qtrue \<Rightarrow> Inr (1, if out then [1] else [], intermediate)
      | Qfalse \<Rightarrow> Inr (1, if out then [0] else [], intermediate)
      | _ \<Rightarrow> Inl (Raise TypeError ''wrong data for binary boolean converter'' []))"

definition pg_bin_enc_int2 :: "rb_api \<Rightarrow> enc_fn" where
  "pg_bin_enc_int2 rb value out intermediate enc_idx =
     (if out then rbind (num2 32 (rb_dbl2int rb) intermediate) (\<lambda>n. Inr (2, write_nbo16 n, intermediate))
      else rbind (pg_obj_to_i rb value) (\<lambda>i. Inr (2, [], i)))"

definition pg_bin_enc_int4 :: "rb_api \<Rightarrow> enc_fn" where
  "pg_bin_enc_int4 rb value out intermediate enc_idx =
     (if out then rbind (num2 64 (rb_dbl2int rb) intermediate) (\<lambda>n. Inr (4, write_nbo32 n, intermediate))
      else rbind (pg_obj_to_i rb value) (\<lambda>i. Inr (4, [], i)))"

definition pg_bin_enc_int8 :: "rb_api \<Rightarrow> enc_fn" where
  "pg_bin_enc_int8 rb value out intermediate enc_idx =
     (if out then rbind (num2 64 (rb_dbl2int rb) intermediate) (\<lambda>n. Inr (8, write_nbo64 n, intermediate))
      else rbind (pg_obj_to_i rb value) (\<lambda>i. Inr (8, [], i)))"

definition pg_bin_enc_float4 :: "rb_api \<Rightarrow> enc_fn" where
  "pg_bin_enc_float4 rb value out intermediate enc_idx =
     (if out then rbind (rb_num2dbl rb intermediate) (\<lambda>d.
        Inr (4, write_nbo32 (sint (c_dbl2float rb d)), intermediate))
      else Inr (4, [], value))"

definition pg_bin_enc_float8 :: "rb_api \<Rightarrow> enc_fn" where
  "pg_bin_enc_float8 rb value out intermediate enc_idx =
     (if out then rbind (rb_num2dbl rb intermediate) (\<lambda>d. Inr (8, write_nbo64 (sint d), intermediate))
      else Inr (8, [], value))"

section \<open>Timestamps and dates\<close>

definition PG_INT32_MIN :: int where "PG_INT32_MIN = - 0x7FFFFFFF - 1"
definition PG_INT32_MAX :: int where "PG_INT32_MAX = 0x7FFFFFFF"
definition PG_INT64_MIN :: int where "PG_INT64_MIN = - 0x7FFFFFFFFFFFFFFF - 1"
definition PG_INT64_MAX :: int where "PG_INT64_MAX = 0x7FFFFFFFFFFFFFFF"

text \<open>The marker for a String value that starts with \<open>infinity\<close> or \<open>-infinity\<close>.\<close>

definition infinity_mark :: "bytes \<Rightarrow> rvalue option" where
  "infinity_mark s =
     (if length s \<ge> 1 \<and> (s ! 0 = 0x49 \<or> s ! 0 = 0x69) then Some Qtrue
      else if length s \<ge> 2 \<and> s ! 0 = c_minus \<and> (s ! 1 = 0x49 \<or> s ! 1 = 0x69) then Some Qfalse
      else None)"

text \<open>Seconds between the epochs of Unix and PostgreSQL.\<close>

definition epoch_diff :: int where
  "epoch_diff = 10957 * 24 * 3600"

definition pg_bin_enc_timestamp :: "rb_api \<Rightarrow> coder_fields \<Rightarrow> enc_fn" where
  "pg_bin_enc_timestamp rb this value out intermediate enc_idx =
     (let db_local = coder_flags this AND PG_CODER_TIMESTAMP_DB_LOCAL \<noteq> 0 in
      if out then
        (case intermediate of
           RString s se \<Rightarrow> pg_coder_enc_to_s rb value out intermediate enc_idx
         | Qtrue \<Rightarrow> Inr (8, write_nbo64 PG_INT64_MAX, intermediate)
         | Qfalse \<Rightarrow> Inr (8, write_nbo64 PG_INT64_MIN, intermediate)
         | _ \<Rightarrow>
             rbind (rb_time_timespec rb intermediate) (\<lambda>(tv_sec, tv_nsec).
             rbind (if db_local
                    then rbind (rb_utc_offset rb intermediate) (\<lambda>o'. num2 64 (rb_dbl2int rb) o')
                    else Inr 0) (\<lambda>off.
               Inr (8, write_nbo64 ((tv_sec - epoch_diff) * 1000000 + cdiv tv_nsec 1000 + off * 1000000), intermediate))))
      else
        (case value of
           RString s se \<Rightarrow>
             (case infinity_mark s of
                Some m \<Rightarrow> Inr (8, [], m)
              | None \<Rightarrow> pg_coder_enc_to_s rb value out intermediate enc_idx)
         | _ \<Rightarrow> rbind (if db_local then rb_getlocal rb value else Inr value) (\<lambda>v. Inr (8, [], v))))"

definition POSTGRES_EPOCH_JDATE :: int where "POSTGRES_EPOCH_JDATE = 2451545"

definition date2j :: "int \<Rightarrow> int \<Rightarrow> int \<Rightarrow> int" where
  "date2j year month day =
     (let (month, year) = (if month > 2 then (month + 1, year + 4800) else (month + 13, year + 4799));
          century = cdiv year 100;
          julian = year * 365 - 32167;
          julian = julian + (cdiv year 4 - century + cdiv century 4)
      in julian + (cdiv (7834 * month) 256 + day))"

definition pg_bin_enc_date :: "rb_api \<Rightarrow> enc_fn" where
  "pg_bin_enc_date rb value out intermediate enc_idx =
     (if out then
        (case intermediate of
           RString s se \<Rightarrow> pg_coder_enc_to_s rb value out intermediate enc_idx
         | Qtrue \<Rightarrow> Inr (4, write_nbo32 PG_INT32_MAX, intermediate)
         | Qfalse \<Rightarrow> Inr (4, write_nbo32 PG_INT32_MIN, intermediate)
         | _ \<Rightarrow>
             rbind (rb_gregorianP rb value) (\<lambda>g.
             rbind (if g \<noteq> Qtrue then rb_gregorian rb value else Inr value) (\<lambda>value.
             rbind (rb_year rb value) (\<lambda>year. rbind (rb_month rb value) (\<lambda>month. rbind (rb_day rb value) (\<lambda>day.
             rbind (num2 32 (rb_dbl2int rb) year) (\<lambda>y. rbind (num2 32 (rb_dbl2int rb) month) (\<lambda>m.
             rbind (num2 32 (rb_dbl2int rb) day) (\<lambda>d.
               Inr (4, write_nbo32 (date2j y m d - POSTGRES_EPOCH_JDATE), intermediate))))))))))
      else
        (case value of
           RString s se \<Rightarrow>
             (case infinity_mark s of
                Some m \<Rightarrow> Inr (4, [], m)
              | None \<Rightarrow> pg_coder_enc_to_s rb value out intermediate enc_idx)
         | _ \<Rightarrow> Inr (4, [], value)))"

section \<open>Arrays\<close>

definition MAXDIM :: nat where "MAXDIM = 6"

text \<open>The loop that determines \<open>ndim\<close> and \<open>dim_sizes\<close>, starting with the \<open>ndim\<close>-th level.\<close>

function bin_dim_sizes :: "int \<Rightarrow> nat \<Rightarrow> rvalue list \<Rightarrow> nat list res" where
  "bin_dim_sizes dims ndim el1 =
     (case el1 of
        RArray el2 # _ \<Rightarrow>
          if dims < 0 \<or> int ndim < dims then
            if ndim + 1 > MAXDIM
            then Inl (Raise ArgError ''unsupported number of array dimensions: >%d'' [int ndim + 1])
            else rbind (bin_dim_sizes dims (ndim + 1) el2) (\<lambda>ds. Inr (length el1 # ds))
          else Inr [length el1]
      | _ \<Rightarrow> Inr [length el1])"
  by pat_completeness auto
termination
  by (relation "measure (\<lambda>(dims, ndim, el1). size_list size el1)") auto

declare bin_dim_sizes.simps [simp del]

text \<open>
  The first pass over the items of one innermost array: the sum of the sizes and what is appended
  to \<open>*intermediate\<close>, a pair of entries for each item that is not nil.
\<close>

primrec bin_items_first :: "enc_fn \<Rightarrow> enc_idx \<Rightarrow> rvalue list \<Rightarrow> (int \<times> rvalue list) res" where
  "bin_items_first enc e [] = Inr (0, [])"
| "bin_items_first enc e (item # items) =
     (if item = Qnil then rbind (bin_items_first enc e items) (\<lambda>(size_sum, im). Inr (4 + size_sum, im))
      else
        rbind (enc item False Qundef e) (\<lambda>(strlen, _, subint).
        rbind (bin_items_first enc e items) (\<lambda>(size_sum, im).
          if strlen = - 1 then Inr (4 + int (length (str_bytes subint)) + size_sum, Qtrue # subint # im)
          else Inr (4 + strlen + size_sum, Qfalse # subint # im))))"

text \<open>
  The first pass over the levels from \<open>dim\<close> on. The source walks the tree with the counters
  \<open>dimpos\<close> and the stack \<open>arrays\<close>: for every element of an array that is not innermost it goes
  down one level, which is this recursion over the remaining dimension sizes; \<open>bin_first\<close>
  handles one array, \<open>bin_first_subs\<close> its sub-arrays from left to right.
\<close>

fun bin_first :: "enc_fn \<Rightarrow> enc_idx \<Rightarrow> nat list \<Rightarrow> nat \<Rightarrow> rvalue list \<Rightarrow> (int \<times> rvalue list) res"
and bin_first_subs :: "enc_fn \<Rightarrow> enc_idx \<Rightarrow> nat list \<Rightarrow> nat \<Rightarrow> rvalue list \<Rightarrow> (int \<times> rvalue list) res" where
  "bin_first enc e [] dim arr = bin_items_first enc e arr"
| "bin_first enc e (n # ns) dim arr = bin_first_subs enc e (n # ns) dim arr"
| "bin_first_subs enc e [] dim subs = Inr (0, [])"
| "bin_first_subs enc e (n # ns) dim [] = Inr (0, [])"
| "bin_first_subs enc e (n # ns) dim (sub # subs) =
     (case sub of
        RArray arr \<Rightarrow>
          if n \<noteq> length arr
          then Inl (Raise ArgError ''varying number of array elements (%d and %d) in dimension %d''
                 [int n, int (length arr), int dim + 1])
          else rbind (bin_first enc e ns (dim + 1) arr) (\<lambda>(s1, im1).
            rbind (bin_first_subs enc e (n # ns) dim subs) (\<lambda>(s2, im2). Inr (s1 + s2, im1 @ im2)))
      | _ \<Rightarrow> Inl (Raise ArgError ''expected Array instead of %+PRIsVALUE in dimension %d'' [int dim + 1]))"

text \<open>
  The second pass: how far \<open>out\<close> moves, the bytes stored and the entries of \<open>*intermediate\<close> that are
  left. An element encoder may store more bytes than it returns; what follows overwrites them.
\<close>

definition store_over :: "bytes \<Rightarrow> int \<Rightarrow> bytes \<Rightarrow> bytes" where
  "store_over bs n later = take (nat n) bs @ later @ drop (length later) (drop (nat n) bs)"

primrec bin_items_second :: "enc_fn \<Rightarrow> enc_idx \<Rightarrow> rvalue list \<Rightarrow> rvalue list \<Rightarrow> (int \<times> bytes \<times> rvalue list) res" where
  "bin_items_second enc e [] im = Inr (0, [], im)"
| "bin_items_second enc e (item # items) im =
     (if item = Qnil then rbind (bin_items_second enc e items im) (\<lambda>(n, bs, im). Inr (4 + n, write_nbo32 (- 1) @ bs, im))
      else
        (let is_one_pass = (if im = [] then Qnil else im ! 0); subint = (if length im < 2 then Qnil else im ! 1) in
         rbind (if is_one_pass = Qtrue then Inr (int (length (str_bytes subint)), str_bytes subint)
                else rbind (enc item True subint e) (\<lambda>(strlen, bs, _). Inr (strlen, bs))) (\<lambda>(strlen, bs).
         rbind (bin_items_second enc e items (drop 2 im)) (\<lambda>(n, bs', im).
           Inr (4 + strlen + n, write_nbo32 strlen @ store_over bs strlen bs', im)))))"

fun bin_second :: "enc_fn \<Rightarrow> enc_idx \<Rightarrow> nat list \<Rightarrow> rvalue list \<Rightarrow> rvalue list \<Rightarrow> (int \<times> bytes \<times> rvalue list) res"
and bin_second_subs :: "enc_fn \<Rightarrow> enc_idx \<Rightarrow> nat list \<Rightarrow> rvalue list \<Rightarrow> rvalue list \<Rightarrow> (int \<times> bytes \<times> rvalue list) res" where
  "bin_second enc e [] arr im = bin_items_second enc e arr im"
| "bin_second enc e (n # ns) arr im = bin_second_subs enc e (n # ns) arr im"
| "bin_second_subs enc e [] subs im = Inr (0, [], im)"
| "bin_second_subs enc e (n # ns) [] im = Inr (0, [], im)"
| "bin_second_subs enc e (n # ns) (sub # subs) im =
     (let arr = (case sub of RArray a \<Rightarrow> a | _ \<Rightarrow> []) in
      rbind (bin_second enc e ns arr im) (\<lambda>(k, bs, im).
      rbind (bin_second_subs enc e (n # ns) subs im) (\<lambda>(k', bs', im). Inr (k + k', store_over bs k bs', im))))"

definition bin_array_dims :: "t_pg_composite_coder \<Rightarrow> rvalue list \<Rightarrow> nat list res" where
  "bin_array_dims this vs =
     rbind (if vs = [] then Inr [] else bin_dim_sizes (dimensions this) 1 vs) (\<lambda>ds.
       let ndim = int (length ds) in
       if dimensions this \<ge> 0 \<and> (if ndim = 0 then 1 else ndim) \<noteq> dimensions this
       then Inl (less_dims ndim (dimensions this)) else Inr ds)"

definition bin_array_header :: "t_pg_composite_coder \<Rightarrow> nat list \<Rightarrow> bytes" where
  "bin_array_header this ds =
     write_nbo32 (int (length ds)) @ write_nbo32 1 @
     write_nbo32 (uint (case elem this of Some c \<Rightarrow> coder_oid c | None \<Rightarrow> 0)) @
     concat (map (\<lambda>n. write_nbo32 (int n) @ write_nbo32 1) ds)"

definition pg_bin_enc_array :: "rb_api \<Rightarrow> t_pg_composite_coder \<Rightarrow> enc_fn" where
  "pg_bin_enc_array rb this value out intermediate enc_idx =
     (case value of
        RArray vs \<Rightarrow>
          let enc = pg_coder_enc_func rb (elem this) in
          rbind (bin_array_dims this vs) (\<lambda>ds.
            if out then
              rbind (bin_second enc enc_idx (tl ds) vs (case intermediate of RArray im \<Rightarrow> im | _ \<Rightarrow> [])) (\<lambda>(n, bs, _).
                Inr (12 + int (length ds) * 8 + n, bin_array_header this ds @ bs, intermediate))
            else
              rbind (bin_first enc enc_idx (tl ds) 0 vs) (\<lambda>(size_sum, im).
                Inr (12 + int (length ds) * 8 + size_sum, [], RArray im)))
      | _ \<Rightarrow> pg_coder_enc_to_s rb value out intermediate enc_idx)"

section \<open>Base64\<close>

text \<open>The element is stored at \<open>out\<close> and decoded there in place, so all of it is written.\<close>

definition pg_bin_enc_from_base64 :: "rb_api \<Rightarrow> t_pg_composite_coder \<Rightarrow> enc_fn" where
  "pg_bin_enc_from_base64 rb this value out intermediate enc_idx =
     (let enc = pg_coder_enc_func rb (elem this) in
      if out then
        rbind (enc value True intermediate enc_idx) (\<lambda>(strlen, s, intermediate).
          let (m, n) = rbpg_base64_decode (poke (\<lambda>_. 0) 0 s) 0 0 (nat strlen)
          in Inr (int n, peek m 0 (max n (length s)), intermediate))
      else
        rbind (enc value False Qundef enc_idx) (\<lambda>(strlen, _, subint).
          if strlen = - 1 then
            let s = str_bytes subint; k = BASE64_DECODED_SIZE (length s);
                (m, n) = rbpg_base64_decode (poke (\<lambda>_. 0) k s) 0 k (length s)
            in Inr (- 1, [], RString (peek m 0 n) rb_ascii8bit_encindex)
          else Inr (int (BASE64_DECODED_SIZE (nat strlen)), [], subint)))"

section \<open>The encoder contract of the binary encoders\<close>

lemma contract_fixed:
  assumes "safe m" "0 \<le> n" "\<And>x. m = Inr x \<Longrightarrow> safe (r2 (h x)) \<and> (\<forall>k bs im. r2 (h x) = Inr (k, bs, im) \<longrightarrow> k = int (length bs) \<and> k \<le> n)"
  shows "contract (rbind m (\<lambda>x. Inr (n, [], h x))) r2"
  using assms by (intro contract_rbind) auto

lemma safe_obj_to_i: "rb_api_ok rb \<Longrightarrow> safe (pg_obj_to_i rb v)"
  by (auto simp: pg_obj_to_i_def rb_api_okD split: rb_type.split)

context ruby
begin

lemma two_pass_bin_boolean: "two_pass pg_bin_enc_boolean"
  by (simp add: two_pass_iff pg_bin_enc_boolean_def split: rvalue.split)

lemma two_pass_bin_int:
  "two_pass (pg_bin_enc_int2 rb)" "two_pass (pg_bin_enc_int4 rb)" "two_pass (pg_bin_enc_int8 rb)"
  by (auto simp: two_pass_iff pg_bin_enc_int2_def pg_bin_enc_int4_def pg_bin_enc_int8_def rbind_Inr_iff
      intro!: contract_fixed [where h = "\<lambda>i. i"] safe_obj_to_i rb_ok safe_rbind safe_num2)

lemma two_pass_bin_float:
  "two_pass (pg_bin_enc_float4 rb)" "two_pass (pg_bin_enc_float8 rb)"
  by (auto simp: two_pass_iff pg_bin_enc_float4_def pg_bin_enc_float8_def rbind_Inr_iff
      intro!: safe_rbind rb_api_okD [OF rb_ok])

lemma two_pass_bin_timestamp: "two_pass (pg_bin_enc_timestamp rb this)"
proof -
  have second: "safe (pg_bin_enc_timestamp rb this v True im e) \<and>
    (\<forall>k bs im'. pg_bin_enc_timestamp rb this v True im e = Inr (k, bs, im') \<longrightarrow> k = int (length bs) \<and> k \<le> 8)"
    if "\<not> is_str im" for v im e
    using that by (cases im) (auto simp: pg_bin_enc_timestamp_def Let_def rbind_Inr_iff safe_num2
        intro!: safe_rbind rb_api_okD [OF rb_ok] split: prod.splits if_splits)
  have "contract (pg_bin_enc_timestamp rb this v False im e) (\<lambda>im'. pg_bin_enc_timestamp rb this v True im' e)" for v im e
  proof (cases "is_str v")
    case True
    then obtain s se where v: "v = RString s se" by (auto simp: is_str_conv)
    have "\<not> is_str m" if "infinity_mark s = Some m" for m
      using that by (auto simp: infinity_mark_def split: if_splits)
    then have "infinity_mark s = Some m \<Longrightarrow> ?thesis" for m
      using second [of m v e] unfolding v by (simp add: pg_bin_enc_timestamp_def [of _ _ _ False] Let_def)
    then show ?thesis
      by (cases "infinity_mark s") (simp_all add: v pg_bin_enc_timestamp_def [of _ _ _ False] Let_def contract_to_s [OF rb_ok])
  next
    case False
    let ?m = "if coder_flags this AND PG_CODER_TIMESTAMP_DB_LOCAL \<noteq> 0 then rb_getlocal rb v else Inr v"
    have eq: "pg_bin_enc_timestamp rb this v False im e = rbind ?m (\<lambda>v. Inr (8, [], v))"
      using False by (cases v) (simp_all add: pg_bin_enc_timestamp_def Let_def)
    have safe: "safe ?m" using rb_api_okD(25) [OF rb_ok] by simp
    have "\<not> is_str x" if "?m = Inr x" for x
      using that False rb_api_okD(39) [OF rb_ok False] by (auto split: if_splits)
    then show ?thesis
      unfolding eq by (intro contract_fixed [where h = "\<lambda>i. i"] second safe) simp_all
  qed
  then show ?thesis by (simp add: two_pass_iff)
qed

lemma two_pass_bin_date: "two_pass (pg_bin_enc_date rb)"
proof -
  have second: "safe (pg_bin_enc_date rb v True im e) \<and>
    (\<forall>k bs im'. pg_bin_enc_date rb v True im e = Inr (k, bs, im') \<longrightarrow> k = int (length bs) \<and> k \<le> 4)"
    if "\<not> is_str im" for v im e
    using that by (cases im) (auto simp: pg_bin_enc_date_def rbind_Inr_iff safe_num2
        intro!: safe_rbind rb_api_okD [OF rb_ok])
  have "contract (pg_bin_enc_date rb v False im e) (\<lambda>im'. pg_bin_enc_date rb v True im' e)" for v im e
  proof (cases "is_str v")
    case True
    then obtain s se where v: "v = RString s se" by (auto simp: is_str_conv)
    have "\<not> is_str m" if "infinity_mark s = Some m" for m
      using that by (auto simp: infinity_mark_def split: if_splits)
    then have "infinity_mark s = Some m \<Longrightarrow> ?thesis" for m
      using second [of m v e] unfolding v by (simp add: pg_bin_enc_date_def [of _ _ False])
    then show ?thesis
      by (cases "infinity_mark s") (simp_all add: v pg_bin_enc_date_def [of _ _ False] contract_to_s [OF rb_ok])
  next
    case False
    then have "pg_bin_enc_date rb v False im e = Inr (4, [], v)"
      by (cases v) (simp_all add: pg_bin_enc_date_def)
    then show ?thesis using second [OF False] by simp
  qed
  then show ?thesis by (simp add: two_pass_iff)
qed

end

section \<open>Array data\<close>

text \<open>
  The specification of the element data: the items from left to right, each with its length, nil
  with length -1.
\<close>

primrec bin_items_text :: "(rvalue \<Rightarrow> bytes res) \<Rightarrow> rvalue list \<Rightarrow> bytes res" where
  "bin_items_text el [] = Inr []"
| "bin_items_text el (v # vs) =
     rbind (if v = Qnil then Inr (write_nbo32 (- 1)) else rbind (el v) (\<lambda>t. Inr (write_nbo32 (int (length t)) @ t)))
       (\<lambda>t. rbind (bin_items_text el vs) (\<lambda>u. Inr (t @ u)))"

text \<open>The items of a nested array, \<open>k\<close> levels above the innermost ones.\<close>

primrec bin_leaves :: "nat \<Rightarrow> rvalue list \<Rightarrow> rvalue list" where
  "bin_leaves 0 vs = vs"
| "bin_leaves (Suc k) vs = concat (map (\<lambda>v. case v of RArray a \<Rightarrow> bin_leaves k a | _ \<Rightarrow> []) vs)"

lemma bin_items_text_append:
  "bin_items_text el (vs @ ws) = rbind (bin_items_text el vs) (\<lambda>t. rbind (bin_items_text el ws) (\<lambda>u. Inr (t @ u)))"
  by (induction vs) (simp_all add: rbind_assoc)

lemma store_over_exact: "n = int (length bs) \<Longrightarrow> store_over bs n bs' = bs @ bs'"
  by (simp add: store_over_def)

lemma items_second:
  assumes tp: "two_pass enc" and "bin_items_first enc e items = Inr (sz, im)"
  shows "bin_items_second enc e items (im @ im0) =
      rbind (bin_items_text (\<lambda>v. encoded enc v e) items) (\<lambda>bs. Inr (int (length bs), bs, im0))"
    and "bin_items_text (\<lambda>v. encoded enc v e) items = Inr bs \<Longrightarrow> int (length bs) \<le> sz"
  using assms(2)
proof (induction items arbitrary: sz im bs)
  case (Cons v items)
  {
    case 1
    then show ?case
    proof (cases "v = Qnil")
      case True
      then show ?thesis using 1 Cons.IH(1) by (auto simp: rbind_Inr_iff rbind_assoc split: prod.splits)
    next
      case False
      with 1 obtain n bs1 sub sz' im' where f: "enc v False Qundef e = Inr (n, bs1, sub)"
        and r: "bin_items_first enc e items = Inr (sz', im')" and im: "im = (if n = - 1 then Qtrue else Qfalse) # sub # im'"
        by (auto simp: rbind_Inr_iff split: if_splits)
      show ?thesis
      proof (cases "n = - 1")
        case True
        then show ?thesis using False f Cons.IH(1) [OF r]
          by (simp add: im encoded_def store_over_exact rbind_assoc algebra_simps)
      next
        case n: False
        have "rbind (enc v True sub e) (\<lambda>(strlen, bs, _). Inr (strlen, bs)) = rbind (encoded enc v e) (\<lambda>t. Inr (int (length t), t))"
          using f n two_pass.second_call(2) [OF tp f n]
          by (cases "enc v True sub e") (auto simp: encoded_def)
        then show ?thesis using False n Cons.IH(1) [OF r]
          by (simp add: im store_over_exact rbind_assoc algebra_simps)
      qed
    qed
  next
    case 2
    then show ?case
    proof (cases "v = Qnil")
      case True
      then show ?thesis using 2 Cons.IH(2) by (fastforce simp: rbind_Inr_iff split: prod.splits)
    next
      case False
      with 2 obtain n bs1 sub sz' im' where f: "enc v False Qundef e = Inr (n, bs1, sub)"
        and r: "bin_items_first enc e items = Inr (sz', im')"
        and sz: "sz = 4 + (if n = - 1 then int (length (str_bytes sub)) else n) + sz'"
        by (auto simp: rbind_Inr_iff split: if_splits)
      from 2 False obtain t u where t: "encoded enc v e = Inr t" and u: "bin_items_text (\<lambda>v. encoded enc v e) items = Inr u"
        and bs: "bs = write_nbo32 (int (length t)) @ t @ u"
        by (auto simp: rbind_Inr_iff)
      have "int (length t) \<le> (if n = - 1 then int (length (str_bytes sub)) else n)"
        using t f two_pass.second_call(2) [OF tp f] by (auto simp: encoded_def rbind_Inr_iff split: if_splits)
      then show ?thesis using Cons.IH(2) [OF u r] by (simp add: sz bs)
    qed
  }
qed auto

text \<open>
  \<open>writes sz r t im\<close>: the second pass with result \<open>r\<close> stores the text of the specification \<open>t\<close>,
  no more than the announced \<open>sz\<close> bytes, and leaves the entries \<open>im\<close>.
\<close>

definition writes :: "int \<Rightarrow> (int \<times> bytes \<times> rvalue list) res \<Rightarrow> bytes res \<Rightarrow> rvalue list \<Rightarrow> bool" where
  "writes sz r t im \<longleftrightarrow> r = rbind t (\<lambda>bs. Inr (int (length bs), bs, im)) \<and> (\<forall>bs. t = Inr bs \<longrightarrow> int (length bs) \<le> sz)"

lemma writes_append:
  assumes "writes s1 r1 t1 im1" "writes s2 (g im1) t2 im2"
  shows "writes (s1 + s2) (rbind r1 (\<lambda>(k, bs, im). rbind (g im) (\<lambda>(k', bs', im). Inr (k + k', store_over bs k bs', im))))
    (rbind t1 (\<lambda>t. rbind t2 (\<lambda>u. Inr (t @ u)))) im2"
  using assms by (cases t1; cases t2) (auto simp: writes_def store_over_exact)

lemma second_writes:
  "two_pass enc \<Longrightarrow> bin_first enc e ns dim arr = Inr (sz, im) \<Longrightarrow>
     writes sz (bin_second enc e ns arr (im @ im0)) (bin_items_text (\<lambda>v. encoded enc v e) (bin_leaves (length ns) arr)) im0"
  "two_pass enc \<Longrightarrow> bin_first_subs enc e ns dim arr = Inr (sz, im) \<Longrightarrow> ns \<noteq> [] \<Longrightarrow>
     writes sz (bin_second_subs enc e ns arr (im @ im0)) (bin_items_text (\<lambda>v. encoded enc v e) (bin_leaves (length ns) arr)) im0"
proof (induction enc e ns dim arr and enc e ns dim arr arbitrary: sz im im0 and sz im im0
    rule: bin_first_bin_first_subs.induct)
  case (1 enc e dim arr)
  then show ?case by (simp add: writes_def items_second)
next
  case (2 enc e n ns dim arr)
  then show ?case by (simp del: bin_leaves.simps)
next
  case (5 enc e n ns dim sub subs)
  then obtain arr where sub: "sub = RArray arr" by (cases sub) simp_all
  with 5 obtain s1 im1 s2 im2 where
    one: "bin_first enc e ns (dim + 1) arr = Inr (s1, im1)" and
    two: "bin_first_subs enc e (n # ns) dim subs = Inr (s2, im2)" and r: "sz = s1 + s2" "im = im1 @ im2"
    and n: "n = length arr"
    by (auto simp: rbind_Inr_iff split: if_splits)
  have "writes s1 (bin_second enc e ns arr (im1 @ im2 @ im0))
      (bin_items_text (\<lambda>v. encoded enc v e) (bin_leaves (length ns) arr)) (im2 @ im0)"
    by (rule "5.IH"(1) [OF sub _ 5(3) one]) (simp add: n)
  moreover have "writes s2 (bin_second_subs enc e (n # ns) subs (im2 @ im0))
      (bin_items_text (\<lambda>v. encoded enc v e) (bin_leaves (length (n # ns)) subs)) im0"
    using "5.IH"(2) [OF sub _ one _ 5(3) two] n by simp
  ultimately have "writes (s1 + s2) (bin_second_subs enc e (n # ns) (sub # subs) (im1 @ im2 @ im0))
      (bin_items_text (\<lambda>v. encoded enc v e) (bin_leaves (length (n # ns)) (sub # subs))) im0"
    unfolding sub bin_second_subs.simps Let_def rvalue.case
    using writes_append [where g = "bin_second_subs enc e (n # ns) subs"] by (simp add: bin_items_text_append)
  then show ?case by (simp add: r)
qed (simp_all add: writes_def)

lemma items_first_safe:
  assumes tp: "two_pass enc"
  shows "safe (bin_items_first enc e items)" "bin_items_first enc e items = Inr (sz, im) \<Longrightarrow> 0 \<le> sz"
proof (induction items arbitrary: sz im)
  case (Cons v items)
  {
    case 1
    show ?case
      using Cons.IH(1) by (auto intro!: safe_rbind two_pass.first_safe [OF tp] split: prod.splits)
  next
    case 2
    then show ?case
      using Cons.IH(2) two_pass.first_out [OF tp, of v Qundef e]
      by (fastforce simp: rbind_Inr_iff split: if_splits)
  }
qed auto

lemma first_safe:
  "two_pass enc \<Longrightarrow> safe (bin_first enc e ns dim arr) \<and> (\<forall>sz im. bin_first enc e ns dim arr = Inr (sz, im) \<longrightarrow> 0 \<le> sz)"
  "two_pass enc \<Longrightarrow> safe (bin_first_subs enc e ns dim arr) \<and> (\<forall>sz im. bin_first_subs enc e ns dim arr = Inr (sz, im) \<longrightarrow> 0 \<le> sz)"
proof (induction enc e ns dim arr and enc e ns dim arr rule: bin_first_bin_first_subs.induct)
  case (5 enc e n ns dim sub subs)
  show ?case
  proof (cases "\<exists>arr. sub = RArray arr \<and> n = length arr")
    case True
    then obtain arr where sub: "sub = RArray arr" "n = length arr" by blast
    then have one: "safe (bin_first enc e ns (dim + 1) arr)"
      "bin_first enc e ns (dim + 1) arr = Inr (s, im) \<Longrightarrow> 0 \<le> s" for s im
      using "5.IH"(1) [OF sub(1) _ 5(3)] by auto
    have two: "safe (bin_first_subs enc e (n # ns) dim subs)"
      "bin_first_subs enc e (n # ns) dim subs = Inr (s, im) \<Longrightarrow> 0 \<le> s"
      if "bin_first enc e ns (dim + 1) arr = Inr x" for s im x
      using "5.IH"(2) [OF sub(1) _ that _ 5(3)] sub(2) by (cases x; auto)+
    show ?thesis
      using one two sub by (auto simp: rbind_Inr_iff intro!: safe_rbind split: prod.splits)
  next
    case False
    then show ?thesis by (cases sub) auto
  qed
qed (simp_all add: items_first_safe)

lemma dim_sizes_safe: "safe (bin_dim_sizes dims ndim el)"
proof (induction dims ndim el rule: bin_dim_sizes.induct)
  case (1 dims ndim el)
  then show ?case
    by (subst bin_dim_sizes.simps) (auto split: list.split rvalue.split intro!: safe_rbind)
qed

lemma array_dims_safe: "safe (bin_array_dims this vs)"
  by (auto simp: bin_array_dims_def Let_def dim_sizes_safe intro!: safe_rbind)

lemma length_bin_header: "int (length (bin_array_header this ds)) = 12 + int (length ds) * 8"
  by (induction ds) (simp_all add: bin_array_header_def)

text \<open>
  The array text: the header and the elements. This is what the second call stores, when the first
  call accepts the array.
\<close>

lemma bin_array_second:
  assumes tp: "two_pass (pg_coder_enc_func rb (elem this))"
    and f: "pg_bin_enc_array rb this (RArray vs) False im e = Inr (n, bs, im')"
  shows "\<exists>ds. bin_array_dims this vs = Inr ds \<and>
    pg_bin_enc_array rb this (RArray vs) True im' e =
      rbind (bin_items_text (\<lambda>v. encoded (pg_coder_enc_func rb (elem this)) v e) (bin_leaves (length (tl ds)) vs))
        (\<lambda>t. let s = bin_array_header this ds @ t in Inr (int (length s), s, im')) \<and>
    (\<forall>t. bin_items_text (\<lambda>v. encoded (pg_coder_enc_func rb (elem this)) v e) (bin_leaves (length (tl ds)) vs) = Inr t \<longrightarrow>
      int (length (bin_array_header this ds @ t)) \<le> n)"
proof -
  let ?enc = "pg_coder_enc_func rb (elem this)"
  from f obtain ds sz im1 where ds: "bin_array_dims this vs = Inr ds"
    and one: "bin_first ?enc e (tl ds) 0 vs = Inr (sz, im1)"
    and n: "n = 12 + int (length ds) * 8 + sz" and im': "im' = RArray im1"
    by (auto simp: pg_bin_enc_array_def Let_def rbind_Inr_iff)
  note w = second_writes(1) [OF tp one, of "[]", unfolded writes_def, simplified]
  then have "pg_bin_enc_array rb this (RArray vs) True im' e =
      rbind (bin_items_text (\<lambda>v. encoded ?enc v e) (bin_leaves (length (tl ds)) vs))
        (\<lambda>t. let s = bin_array_header this ds @ t in Inr (int (length s), s, im'))"
    by (simp add: pg_bin_enc_array_def ds im' rbind_assoc Let_def length_bin_header)
  with ds w show ?thesis by (simp add: n length_bin_header)
qed

lemma items_text_safe: "(\<And>v. safe (el v)) \<Longrightarrow> safe (bin_items_text el vs)"
  by (induction vs) (auto intro!: safe_rbind)

context ruby
begin

lemma two_pass_bin_array:
  assumes "good_coder (elem this)"
  shows "two_pass (pg_bin_enc_array rb this)"
proof -
  note tp = enc_func_two_pass [OF assms]
  have arr: "contract (pg_bin_enc_array rb this (RArray vs) False im e)
      (\<lambda>im'. pg_bin_enc_array rb this (RArray vs) True im' e)" for vs im e
  proof -
    have "safe (pg_bin_enc_array rb this (RArray vs) False im e)"
      by (auto simp: pg_bin_enc_array_def Let_def array_dims_safe first_safe(1) [OF tp] intro!: safe_rbind)
    moreover have "bs = [] \<and> 0 \<le> n" if "pg_bin_enc_array rb this (RArray vs) False im e = Inr (n, bs, im')" for n bs im'
      using that first_safe(1) [OF tp] by (fastforce simp: pg_bin_enc_array_def Let_def rbind_Inr_iff)
    moreover have "safe (pg_bin_enc_array rb this (RArray vs) True im' e) \<and>
        (\<forall>k bs' im''. pg_bin_enc_array rb this (RArray vs) True im' e = Inr (k, bs', im'') \<longrightarrow> k = int (length bs') \<and> k \<le> n)"
      if f: "pg_bin_enc_array rb this (RArray vs) False im e = Inr (n, bs, im')" for n bs im'
    proof -
      let ?t = "\<lambda>ds. bin_items_text (\<lambda>v. encoded (pg_coder_enc_func rb (elem this)) v e) (bin_leaves (length (tl ds)) vs)"
      obtain ds where eq: "pg_bin_enc_array rb this (RArray vs) True im' e =
          rbind (?t ds) (\<lambda>t. let s = bin_array_header this ds @ t in Inr (int (length s), s, im'))"
        and le: "\<And>t. ?t ds = Inr t \<Longrightarrow> int (length (bin_array_header this ds @ t)) \<le> n"
        using bin_array_second [OF tp f] by blast
      have "safe (?t ds)" by (rule items_text_safe) (rule encoded_safe [OF tp])
      with le show ?thesis unfolding eq by (cases "?t ds") (auto simp: Let_def safe_iff)
    qed
    ultimately show ?thesis by (auto simp: contract_def)
  qed
  have "contract (pg_bin_enc_array rb this v False im e) (\<lambda>im'. pg_bin_enc_array rb this v True im' e)" for v im e
  proof (cases "\<exists>vs. v = RArray vs")
    case False
    then have "pg_bin_enc_array rb this v False im e = pg_coder_enc_to_s rb v False im e"
      by (cases v) (simp_all add: pg_bin_enc_array_def)
    then show ?thesis by (simp add: contract_to_s [OF rb_ok])
  qed (use arr in blast)
  then show ?thesis by (simp add: two_pass_iff)
qed

text \<open>FromBase64 keeps the contract when its elements encoder always answers with a String.\<close>

lemma two_pass_from_base64:
  assumes "good_coder (elem this)"
    and str: "\<And>v im e n bs im'. pg_coder_enc_func rb (elem this) v False im e = Inr (n, bs, im') \<Longrightarrow> n = - 1"
  shows "two_pass (pg_bin_enc_from_base64 rb this)"
proof -
  have "contract (pg_bin_enc_from_base64 rb this v False im e) r2" for v im e r2
    using two_pass.first_safe [OF enc_func_two_pass [OF assms(1)], of v Qundef e]
    by (auto simp: pg_bin_enc_from_base64_def Let_def dest!: str intro!: contract_rbind split: prod.splits)
  then show ?thesis by (simp add: two_pass_iff)
qed

end

sublocale ruby \<subseteq> bin_boolean: two_pass pg_bin_enc_boolean by (rule two_pass_bin_boolean)
sublocale ruby \<subseteq> bin_int2: two_pass "pg_bin_enc_int2 rb" by (rule two_pass_bin_int)
sublocale ruby \<subseteq> bin_int4: two_pass "pg_bin_enc_int4 rb" by (rule two_pass_bin_int)
sublocale ruby \<subseteq> bin_int8: two_pass "pg_bin_enc_int8 rb" by (rule two_pass_bin_int)
sublocale ruby \<subseteq> bin_float4: two_pass "pg_bin_enc_float4 rb" by (rule two_pass_bin_float)
sublocale ruby \<subseteq> bin_float8: two_pass "pg_bin_enc_float8 rb" by (rule two_pass_bin_float)
sublocale ruby \<subseteq> bin_timestamp: two_pass "pg_bin_enc_timestamp rb this" for this by (rule two_pass_bin_timestamp)
sublocale ruby \<subseteq> bin_date: two_pass "pg_bin_enc_date rb" by (rule two_pass_bin_date)

section \<open>Properties\<close>



lemma clz_example: "count_leading_zero_bits rb 99999999999999 = 17"
proof -
  have "length (takeWhile (\<lambda>i. \<not> bit (99999999999999 :: 64 word) i) (rev [0..<64])) = 17"
    by code_simp
  then show ?thesis by (simp add: count_leading_zero_bits_def)
qed

lemma dec_example: "length (dec_of_int 99999999999999) = 14"
  by (simp add: dec_of_int_def dec_of_nat.simps)

text \<open>FromBase64 decodes in place at \<open>out\<close>, but announces only the decoded size: with
  \<open>TextEncoder::Integer\<close> as its elements encoder and the 14 digit number 99999999999999 it announces
  12 bytes and the elements encoder stores 14 bytes there, outside of the string that
  \<open>PG::Coder#encode\<close> allocated.\<close>

theorem from_base64_overflow:
  assumes "rb_api_ok rb"
    and "elem c = Some (pg_simple_encoder_allocate o' (Some (\<lambda>_. pg_text_enc_integer rb)))"
  shows "pg_coder_encode rb (pg_simple_encoder_allocate self (Some (\<lambda>_. pg_bin_enc_from_base64 rb c)))
    [RInteger 99999999999999] = Inl MemFault"
proof -
  have i: "is_fixnum 99999999999999" "int_in 64 99999999999999"
    by (simp_all add: is_fixnum_def FIXNUM_MIN_def FIXNUM_MAX_def int_in_def)
  have enc: "pg_coder_enc_func rb (elem c) = pg_text_enc_integer rb"
    by (simp add: assms(2) pg_coder_enc_func_def)
  have "pg_bin_enc_from_base64 rb c (RInteger 99999999999999) False im e = Inr (12, [], RInteger 99999999999999)" for im e
    using i(1) by (simp add: pg_bin_enc_from_base64_def enc enc_integer_first int_estimate_def clz_example
        BASE64_DECODED_SIZE_def)
  moreover obtain m n where d: "rbpg_base64_decode (poke (\<lambda>_. 0) 0 (dec_of_int 99999999999999)) 0 0 14 = (m, n)"
    by fastforce
  have "pg_bin_enc_from_base64 rb c (RInteger 99999999999999) True (RInteger 99999999999999) e =
      Inr (int n, peek m 0 (max n 14), RInteger 99999999999999)" for e
    using i(2) by (simp add: pg_bin_enc_from_base64_def enc enc_integer_second dec_example Let_def d)
  ultimately show ?thesis
    by (auto simp: pg_coder_encode_def max_def)
qed

theorem from_base64_overflow_witness:
  "pg_coder_encode rb_sample (pg_simple_encoder_allocate Qnil (Some (\<lambda>_. pg_bin_enc_from_base64 rb_sample
     ((pg_composite_encoder_allocate Qnil None)\<lparr> elem := Some (pg_simple_encoder_allocate Qnil
        (Some (\<lambda>_. pg_text_enc_integer rb_sample))) \<rparr>))))
    [RInteger 99999999999999] = Inl MemFault"
  by (rule from_base64_overflow) simp_all

end
