(* ===== verification/PG_Binary_Decoder.thy ===== *)
theory PG_Binary_Decoder
  imports PG_Binary_Encoder
begin

text \<open>
  \<open>ext/pg_binary_decoder.c\<close>: the decoder functions for PostgreSQL's binary format, and the properties of
  encoding followed by decoding.
\<close>

section \<open>Scalars\<close>

definition pg_bin_dec_boolean :: dec_fn where
  "pg_bin_dec_boolean val tuple field enc_idx =
     (if length val < 1
      then Inl (Raise TypeError ''wrong data for binary boolean converter in tuple %d field %d'' [tuple, field])
      else Inr (if val ! 0 = 0 then Qfalse else Qtrue))"

definition pg_bin_dec_integer :: dec_fn where
  "pg_bin_dec_integer val tuple field enc_idx =
     (let len = length val in
      if len = 2 then Inr (RInteger (read_nbo16 val))
      else if len = 4 then Inr (RInteger (read_nbo32 val))
      else if len = 8 then Inr (RInteger (read_nbo64 val))
      else Inl (Raise TypeError ''wrong data for binary integer converter in tuple %d field %d length %d''
             [tuple, field, int len]))"

definition pg_bin_dec_float :: "rb_api \<Rightarrow> dec_fn" where
  "pg_bin_dec_float rb val tuple field enc_idx =
     (let len = length val in
      if len = 4 then Inr (RFloat (c_float2dbl rb (word_of_int (read_nbo32 val))))
      else if len = 8 then Inr (RFloat (word_of_int (read_nbo64 val)))
      else Inl (Raise TypeError ''wrong data for BinaryFloat converter in tuple %d field %d length %d''
             [tuple, field, int len]))"

text \<open>
  \<open>pg_bin_dec_to_base64\<close>: \<open>val\<close> lies behind the output buffer. The two shortcuts of the source for
  a String result give what the call of the string decoder gives.
\<close>

definition pg_bin_dec_to_base64 :: "rb_api \<Rightarrow> t_pg_composite_coder \<Rightarrow> dec_fn" where
  "pg_bin_dec_to_base64 rb this val tuple field enc_idx =
     (let dec_func = pg_coder_dec_func rb (elem this) (coder_format this \<noteq> 0);
          encoded_len = BASE64_ENCODED_SIZE (length val);
          m = rbpg_base64_encode (poke (\<lambda>_. 0) encoded_len val) 0 encoded_len (length val)
      in dec_func (peek m 0 encoded_len) tuple field enc_idx)"

section \<open>Arrays\<close>

text \<open>A read of four bytes at offset \<open>cur\<close> of the input.\<close>

definition rd32 :: "bytes \<Rightarrow> nat \<Rightarrow> int res" where
  "rd32 data cur = (if cur + 4 \<le> length data then Inr (read_nbo32 (drop cur data)) else Inl MemFault)"

abbreviation premature_end :: "nat \<Rightarrow> rb_exc" where
  "premature_end cur \<equiv> Raise ArgError ''premature end of binary array data at position: %ld'' [int cur + 1]"

text \<open>The loop over the dimensions in the header: the sizes, the number of items and the position.\<close>

primrec bin_dec_dims :: "bytes \<Rightarrow> nat \<Rightarrow> nat \<Rightarrow> int \<Rightarrow> (int list \<times> int \<times> nat) res" where
  "bin_dec_dims data 0 cur nitems32 = Inr ([], nitems32, cur)"
| "bin_dec_dims data (Suc k) cur nitems32 =
     (if length data - cur < 8 then Inl (premature_end cur)
      else rbind (rd32 data cur) (\<lambda>dim_size.
        let prod = nitems32 * dim_size; nitems32 = sint (word_of_int prod :: 32 word) in
        if dim_size < 0 \<or> nitems32 \<noteq> prod
        then Inl (Raise ArgError ''unsupported array size: %PRId64'' [prod])
        else rbind (bin_dec_dims data k (cur + 8) nitems32) (\<lambda>(ds, r). Inr (dim_size # ds, r))))"

text \<open>
  The array of the arrays under construction, \<open>arrays[dim]\<close> first and \<open>arrays[0]\<close> last. In the source
  a new array is pushed to its parent when it is created and filled later; here it is pushed when
  it is left, which nobody sees in between. Going down appends empty arrays until the innermost
  dimension is reached.
\<close>

definition bin_dec_down :: "nat \<Rightarrow> rvalue list list \<Rightarrow> rvalue list list" where
  "bin_dec_down ndim arrays = replicate (ndim - length arrays) [] @ arrays"

definition ary_push :: "rvalue \<Rightarrow> rvalue list list \<Rightarrow> rvalue list list" where
  "ary_push v arrays = (case arrays of a # as \<Rightarrow> (a @ [v]) # as | [] \<Rightarrow> [[v]])"

fun bin_dec_up :: "int list \<Rightarrow> rvalue list list \<Rightarrow> rvalue list list" where
  "bin_dec_up dim_sizes (a # p # as) =
     (if int (length a) \<ge> dim_sizes ! (length as + 1) then bin_dec_up dim_sizes ((p @ [RArray a]) # as)
      else a # p # as)"
| "bin_dec_up dim_sizes as = as"

text \<open>\<open>arrays[0]\<close> with all that was put into it.\<close>

fun ary_result :: "rvalue list list \<Rightarrow> rvalue list" where
  "ary_result (a # p # as) = ary_result ((p @ [RArray a]) # as)"
| "ary_result [a] = a"
| "ary_result [] = []"

text \<open>
  The loop over the items. A decoder function gets a pointer, so its result is never the object
  \<open>field_str\<close> itself; the buffer is reused for the next item.
\<close>

primrec bin_dec_items ::
    "rb_api \<Rightarrow> dec_fn \<Rightarrow> bytes \<Rightarrow> int list \<Rightarrow> int \<Rightarrow> int \<Rightarrow> enc_idx \<Rightarrow>
     nat \<Rightarrow> nat \<Rightarrow> rvalue list list \<Rightarrow> sbuf \<Rightarrow> (nat \<times> rvalue list list) res" where
  "bin_dec_items rb dec data dim_sizes tuple field enc_idx 0 cur arrays field_str = Inr (cur, arrays)"
| "bin_dec_items rb dec data dim_sizes tuple field enc_idx (Suc k) cur arrays field_str =
     (let arrays = bin_dec_down (length dim_sizes) arrays in
      if length data - cur < 4 then Inl (premature_end cur)
      else rbind (rd32 data cur) (\<lambda>input_len.
        let cur = cur + 4 in
        rbind
          (if input_len < 0 then
             if input_len \<noteq> - 1 then Inl (premature_end cur) else Inr (Qnil, cur, field_str)
           else if int (length data - cur) < input_len then Inl (premature_end cur)
           else
             let n = nat input_len in
             rbind (sb_put (take n (drop cur data)) (PG_RB_STR_ENSURE_CAPA rb n field_str)) (\<lambda>field_str.
             rbind (dec (sb_data field_str) tuple field enc_idx) (\<lambda>field_value.
               Inr (field_value, cur + n, field_str))))
          (\<lambda>(v, cur, field_str).
             bin_dec_items rb dec data dim_sizes tuple field enc_idx k cur
               (bin_dec_up dim_sizes (ary_push v arrays)) (field_str\<lparr> sb_data := [] \<rparr>))))"

definition pg_bin_dec_array :: "rb_api \<Rightarrow> t_pg_composite_coder \<Rightarrow> dec_fn" where
  "pg_bin_dec_array rb this input_line tuple field enc_idx =
     (let dec_func = pg_coder_dec_func rb (elem this) (coder_format this \<noteq> 0);
          field_str = PG_RB_STR_NEW rb; len = length input_line in
      if len < 4 then Inl (premature_end 0)
      else rbind (rd32 input_line 0) (\<lambda>ndim.
        if ndim < 0 \<or> ndim > int MAXDIM
        then Inl (Raise ArgError ''unsupported number of array dimensions: %d'' [ndim])
        else if len - 4 < 4 then Inl (premature_end 4)
        else rbind (rd32 input_line 4) (\<lambda>flags.
          if flags \<noteq> 0 \<and> flags \<noteq> 1
          then Inl (Raise ArgError ''unsupported binary array flags: %d'' [flags])
          else if len - 8 < 4 then Inl (premature_end 8)
          else rbind (bin_dec_dims input_line (nat ndim) 12 (if ndim = 0 then 0 else 1)) (\<lambda>(dim_sizes, nitems, cur).
          rbind (bin_dec_items rb dec_func input_line dim_sizes tuple field enc_idx (nat nitems) cur [[]] field_str)
            (\<lambda>(cur, arrays).
               if cur < len
               then Inl (Raise ArgError ''trailing data after binary array data at position: %ld'' [int cur + 1])
               else Inr (RArray (ary_result arrays)))))))"

section \<open>Timestamps and dates\<close>

text \<open>
  \<open>pg_bin_dec_timestamp\<close> as compiled with a \<open>time_t\<close> of 64 bit that may be negative.
\<close>

definition pg_bin_dec_timestamp :: "rb_api \<Rightarrow> coder_fields \<Rightarrow> dec_fn" where
  "pg_bin_dec_timestamp rb conv val tuple field enc_idx =
     (if length val \<noteq> 8
      then Inl (Raise TypeError ''wrong data for timestamp converter in tuple %d field %d length %d''
             [tuple, field, int (length val)])
      else
        let timestamp = read_nbo64 val in
        if timestamp = PG_INT64_MAX then Inr (RString (lit ''infinity'') rb_ascii8bit_encindex)
        else if timestamp = PG_INT64_MIN then Inr (RString (lit ''-infinity'') rb_ascii8bit_encindex)
        else
          let sec = cdiv timestamp 1000000 + epoch_diff; nsec = cmod timestamp 1000000 * 1000 in
          rbind (rb_time_timespec_new rb sec nsec
                   (if coder_flags conv AND PG_CODER_TIMESTAMP_APP_LOCAL \<noteq> 0 then INT_MAX else INT_MAX - 1)) (\<lambda>t.
            if coder_flags conv AND PG_CODER_TIMESTAMP_DB_LOCAL \<noteq> 0
            then rbind (rb_utc_offset rb t) (\<lambda>off. rb_time_minus rb t off)
            else Inr t))"

text \<open>The conversion of a 32 bit unsigned to a signed value.\<close>

definition s32 :: "int \<Rightarrow> int" where
  "s32 x = (x + 2 ^ 31) mod 2 ^ 32 - 2 ^ 31"

definition MONTHS_PER_YEAR :: int where "MONTHS_PER_YEAR = 12"

definition j2date :: "int \<Rightarrow> int \<times> int \<times> int" where
  "j2date jd =
     (let julian = u32 (u32 jd + 32044);
          quad = julian div 146097;
          extra = u32 ((julian - quad * 146097) * 4 + 3);
          julian = u32 (julian + u32 (60 + quad * 3 + extra div 146097));
          quad = julian div 1461;
          julian = u32 (julian - quad * 1461);
          y = u32 (julian * 4) div 1461;
          julian = (if y \<noteq> 0 then (julian + 305) mod 365 else (julian + 306) mod 366) + 123;
          y = s32 (y + quad * 4);
          year = y - 4800;
          quad = u32 (julian * 2141) div 65536;
          day = s32 (julian - u32 (7834 * quad) div 256);
          month = (quad + 10) mod MONTHS_PER_YEAR + 1
      in (year, month, day))"

definition pg_bin_dec_date :: "rb_api \<Rightarrow> dec_fn" where
  "pg_bin_dec_date rb val tuple field enc_idx =
     (if length val \<noteq> 4 then Inl (Raise TypeError ''unexpected date format != 4 bytes'' [])
      else
        let date = read_nbo32 val in
        if date = PG_INT32_MAX then Inr (RString (lit ''infinity'') rb_ascii8bit_encindex)
        else if date = PG_INT32_MIN then Inr (RString (lit ''-infinity'') rb_ascii8bit_encindex)
        else let (year, month, day) = j2date (date + POSTGRES_EPOCH_JDATE) in rb_Date_new rb year month day)"

section \<open>Memory safety\<close>

text \<open>A decoder object whose C function, if it has one, may raise but stays in its input and gives a Ruby object.\<close>

definition good_decoder :: "t_pg_coder option \<Rightarrow> bool" where
  "good_decoder c \<longleftrightarrow> (\<forall>this f val tu fi e. c = Some this \<longrightarrow> dec_func this = Some f \<longrightarrow>
     safe (f (coder_fields.truncate this) val tu fi e) \<and> f (coder_fields.truncate this) val tu fi e \<noteq> Inr Qundef)"

lemma good_decoder_None [simp]: "good_decoder None"
  by (simp add: good_decoder_def)

lemma dec_func_safe:
  assumes "rb_api_ok rb" "good_decoder c"
  shows "safe (pg_coder_dec_func rb c b val tu fi e)"
  using assms by (auto simp: pg_coder_dec_func_def good_decoder_def pg_text_dec_string_def pg_bin_dec_bytea_def
      pg_bin_dec_in_ruby_def pg_text_dec_in_ruby_def rb_api_okD(14) [OF assms(1)] split: option.splits)

lemma dec_func_defined:
  assumes "rb_api_ok rb" "good_decoder c"
  shows "pg_coder_dec_func rb c b val tu fi e \<noteq> Inr Qundef"
  using assms by (auto simp: pg_coder_dec_func_def good_decoder_def pg_text_dec_string_def pg_bin_dec_bytea_def rbind_Inr_iff
      pg_bin_dec_in_ruby_def pg_text_dec_in_ruby_def rb_api_okD(40) [OF assms(1)] split: option.splits)

lemma dec_dims_safe: "safe (bin_dec_dims data k cur n)"
  by (induction k arbitrary: cur n) (auto simp: rd32_def Let_def intro!: safe_rbind)

lemma dec_items_safe:
  assumes rb: "rb_api_ok rb" and dec: "\<And>val. safe (dec val tu fi e)" and "sbuf_wf fs"
  shows "safe (bin_dec_items rb dec data ds tu fi e k cur arrays fs)"
  using assms(3)
proof (induction k arbitrary: cur arrays fs)
  case (Suc k)
  have IH: "safe (bin_dec_items rb dec data ds tu fi e k c a (fs'\<lparr> sb_data := [] \<rparr>))" if "sbuf_wf fs'" for c a fs'
    by (rule Suc.IH) (use that in \<open>simp add: sbuf_wf_def\<close>)
  have put: "safe (rbind (sb_put bs (PG_RB_STR_ENSURE_CAPA rb n fs)) f)"
    if "length bs \<le> n" "\<And>s'. sbuf_wf s' \<Longrightarrow> safe (f s')" for bs n and f :: "sbuf \<Rightarrow> 'a res"
    using ENSURE_put [OF rb Suc.prems that(1)] that(2) by (metis rbind.simps(2))
  have ok: "cur + 4 \<le> length data" if "\<not> length data - cur < 4" using that by simp
  show ?case
    unfolding bin_dec_items.simps Let_def rd32_def
    by (auto simp: rbind_assoc dec IH Suc.prems intro!: safe_rbind [OF dec] put split: if_splits)
qed simp

section \<open>The array of arrays\<close>

text \<open>What one item does to the arrays under construction.\<close>

definition ary_step :: "int list \<Rightarrow> rvalue \<Rightarrow> rvalue list list \<Rightarrow> rvalue list list" where
  "ary_step ds v arrays = bin_dec_up ds (ary_push v (bin_dec_down (length ds) arrays))"

text \<open>The nested arrays that have the shape of the dimension sizes \<open>ns\<close> below the first one.\<close>

primrec rect :: "nat list \<Rightarrow> rvalue list \<Rightarrow> bool" where
  "rect [] vs \<longleftrightarrow> True"
| "rect (n # ns) vs \<longleftrightarrow> (\<forall>v\<in>set vs. \<exists>a. v = RArray a \<and> length a = n \<and> rect ns a)"

lemma up_short: "int (length a) < ds ! length as \<Longrightarrow> bin_dec_up ds (a # as) = a # as"
  by (cases as) simp_all

lemma up_full: "ds ! length as \<le> int (length a) \<Longrightarrow> as = p # as' \<Longrightarrow>
    bin_dec_up ds (a # as) = bin_dec_up ds ((p @ [RArray a]) # as')"
  by simp

lemma step_open: "length as < length ds \<Longrightarrow> ary_step ds v ([] # as) = ary_step ds v as"
proof -
  assume "length as < length ds"
  then obtain k where k: "length ds = length as + Suc k" using less_imp_Suc_add by fastforce
  then show ?thesis
    by (simp add: ary_step_def bin_dec_down_def replicate_append_same [symmetric])
qed

lemma fold_step_open: "length as < length ds \<Longrightarrow> vs \<noteq> [] \<Longrightarrow>
    fold (ary_step ds) vs ([] # as) = fold (ary_step ds) vs as"
  by (cases vs) (simp_all add: step_open)

text \<open>Filling one array by blocks of items that each append one value to it.\<close>

lemma fill_array:
  assumes "\<And>w pre. w \<in> set ws \<Longrightarrow> fold (ary_step ds) (blk w) (pre # as) = bin_dec_up ds ((pre @ [w]) # as)"
    and "int (length pre + length ws) = ds ! length as" "ws \<noteq> []"
  shows "fold (ary_step ds) (concat (map blk ws)) (pre # as) = bin_dec_up ds ((pre @ ws) # as)"
  using assms
proof (induction ws arbitrary: pre)
  case (Cons w ws)
  show ?case
  proof (cases "ws = []")
    case True
    with Cons.prems(1) show ?thesis by simp
  next
    case False
    have "int (length (pre @ [w])) < ds ! length as"
      using Cons.prems(2) False by (cases ws) auto
    then have "fold (ary_step ds) (blk w) (pre # as) = (pre @ [w]) # as"
      using Cons.prems(1) by (simp only: up_short list.set_intros)
    then show ?thesis
      using Cons.IH [of "pre @ [w]"] Cons.prems False by simp
  qed
qed simp

lemma leaves_nonempty: "rect ns vs \<Longrightarrow> 0 \<notin> set ns \<Longrightarrow> vs \<noteq> [] \<Longrightarrow> bin_leaves (length ns) vs \<noteq> []"
proof (induction ns arbitrary: vs)
  case (Cons n ns)
  then obtain a us where "vs = RArray a # us" "length a = n" "rect ns a" by (cases vs) auto
  moreover with Cons have "a \<noteq> []" by auto
  ultimately show ?case using Cons by simp
qed simp

lemma fold_leaves:
  assumes "ds = outer @ int n # map int ns" "length as = length outer" "rect ns vs" "length vs = n"
    "0 \<notin> set (n # ns)"
  shows "fold (ary_step ds) (bin_leaves (length ns) vs) ([] # as) = bin_dec_up ds (vs # as)"
  using assms
proof (induction ns arbitrary: outer n as vs)
  case Nil
  have "fold (ary_step ds) [v] (pre # as) = bin_dec_up ds ((pre @ [v]) # as)" for v pre
    using Nil by (simp add: ary_step_def bin_dec_down_def ary_push_def)
  with fill_array [of vs ds "\<lambda>v. [v]" as "[]"] Nil show ?case by (auto simp: nth_append)
next
  case (Cons m ns)
  define blk where "blk = (\<lambda>v. case v of RArray a \<Rightarrow> bin_leaves (length ns) a | _ \<Rightarrow> [])"
  have "fold (ary_step ds) (blk w) (pre # as) = bin_dec_up ds ((pre @ [w]) # as)" if w: "w \<in> set vs" for w pre
  proof -
    from w Cons.prems(3) obtain a where a: "w = RArray a" "length a = m" "rect ns a" by auto
    have "fold (ary_step ds) (bin_leaves (length ns) a) ([] # pre # as) = bin_dec_up ds (a # pre # as)"
      using Cons.prems a by (intro Cons.IH [of "outer @ [int n]"]) auto
    moreover have "bin_dec_up ds (a # pre # as) = bin_dec_up ds ((pre @ [RArray a]) # as)"
      using Cons.prems a by (simp add: nth_append)
    moreover have "bin_leaves (length ns) a \<noteq> []"
      using leaves_nonempty [of ns a] a Cons.prems(5) by auto
    ultimately show ?thesis
      using fold_step_open [of "pre # as" ds "bin_leaves (length ns) a"] Cons.prems(1,2) a by (simp add: blk_def)
  qed
  from fill_array [of vs ds blk as "[]", OF this] Cons.prems show ?case
    by (auto simp: nth_append blk_def)
qed

lemma length_leaves: "rect ns vs \<Longrightarrow> length (bin_leaves (length ns) vs) = length vs * prod_list ns"
proof (induction ns arbitrary: vs)
  case (Cons n ns)
  have "length (case v of RArray a \<Rightarrow> bin_leaves (length ns) a | _ \<Rightarrow> []) = n * prod_list ns" if "v \<in> set vs" for v
    using Cons that by auto
  then have "length (bin_leaves (length (n # ns)) vs) = (\<Sum>v\<leftarrow>vs. n * prod_list ns)"
    by (simp add: length_concat comp_def cong: map_cong)
  then show ?case by (simp add: sum_list_triv)
qed simp

text \<open>What the encoder accepts is rectangular.\<close>

lemma first_rect:
  "bin_first enc e ns dim arr = Inr r \<Longrightarrow> rect ns arr"
  "bin_first_subs enc e ns dim arr = Inr r \<Longrightarrow> rect ns arr"
proof (induction enc e ns dim arr and enc e ns dim arr arbitrary: r and r rule: bin_first_bin_first_subs.induct)
  case (5 enc e n ns dim sub subs)
  then show ?case by (cases sub) (fastforce simp: rbind_Inr_iff split: if_splits)+
qed auto

lemma dim_sizes_hd: "bin_dim_sizes dims ndim el = Inr ds \<Longrightarrow> \<exists>ns. ds = length el # ns"
  by (subst (asm) bin_dim_sizes.simps) (auto simp: rbind_Inr_iff split: list.splits rvalue.splits if_splits)

lemma dim_sizes_max: "bin_dim_sizes dims ndim el = Inr ds \<Longrightarrow> ndim \<le> MAXDIM \<Longrightarrow> length ds + ndim \<le> MAXDIM + 1"
proof (induction dims ndim el arbitrary: ds rule: bin_dim_sizes.induct)
  case (1 dims ndim el)
  show ?case
  proof (cases "\<exists>a us. el = RArray a # us \<and> (dims < 0 \<or> int ndim < dims)")
    case True
    then obtain a us where el: "el = RArray a # us" "dims < 0 \<or> int ndim < dims" by blast
    with 1(2) obtain ds' where "ndim + 1 \<le> MAXDIM" "bin_dim_sizes dims (ndim + 1) a = Inr ds'" "length ds = Suc (length ds')"
      by (subst (asm) bin_dim_sizes.simps) (auto simp: rbind_Inr_iff split: if_splits)
    with "1.IH" [OF el(1) refl el(2)] show ?thesis by simp
  next
    case False
    with 1(2) have "length ds = 1"
      by (subst (asm) bin_dim_sizes.simps) (auto split: list.splits rvalue.splits if_splits)
    with 1(3) show ?thesis by simp
  qed
qed

section \<open>Array round trip\<close>

lemma rd32_write:
  "data = pre @ write_nbo32 l @ post \<Longrightarrow> cur = length pre \<Longrightarrow> rd32 data cur = Inr (signed_take_bit 31 l)"
  by (simp add: rd32_def read_write_nbo32)

lemma stb31: "- (2 ^ 31) \<le> (i :: int) \<Longrightarrow> i < 2 ^ 31 \<Longrightarrow> signed_take_bit 31 i = i"
  by (rule signed_take_bit_int_eq_self) simp_all

lemma dec_dims_header:
  assumes "0 < k" "k * int (prod_list ds) < 2 ^ 31" "0 \<notin> set ds"
    "data = pre @ concat (map (\<lambda>n. write_nbo32 (int n) @ write_nbo32 1) ds) @ post" "cur = length pre"
  shows "bin_dec_dims data (length ds) cur k = Inr (map int ds, k * int (prod_list ds), cur + 8 * length ds)"
  using assms
proof (induction ds arbitrary: k pre cur)
  case (Cons n ds)
  have pos: "0 < prod_list ds" using Cons.prems(3) by (induction ds) auto
  then have kn: "k * int n * 1 \<le> k * int n * int (prod_list ds)"
    using Cons.prems(1) by (intro mult_left_mono) auto
  have n1: "1 * int n \<le> k * int n" using Cons.prems(1) by (intro mult_right_mono) auto
  have lim: "k * int n < 2 ^ 31" "int n < 2 ^ 31" "0 < k * int n"
  proof -
    have "k * int n * int (prod_list ds) < 2 ^ 31" using Cons.prems(2) by (simp add: mult.assoc)
    then show "k * int n < 2 ^ 31" "int n < 2 ^ 31" using kn n1 by linarith+
    show "0 < k * int n" using Cons.prems(1,3) by auto
  qed
  have rd: "rd32 data cur = Inr (int n)"
    using rd32_write [of data pre "int n" _ cur] Cons.prems(4,5) stb31 [of "int n"] lim(2) by simp
  have wrap: "sint (word_of_int (k * int n) :: 32 word) = k * int n"
    unfolding sint_signed_take using lim(1,3) stb31 [of "k * int n"] by simp
  have "bin_dec_dims data (length ds) (cur + 8) (k * int n) =
      Inr (map int ds, k * int n * int (prod_list ds), cur + 8 + 8 * length ds)"
    using Cons.prems lim by (intro Cons.IH [where pre = "pre @ write_nbo32 (int n) @ write_nbo32 1"]) (auto simp: mult.assoc)
  moreover have "\<not> length data - cur < 8" using Cons.prems(4,5) by simp
  ultimately show ?case using rd wrap by (simp add: Let_def mult.assoc)
qed simp

lemma dec_items_text:
  assumes rb: "rb_api_ok rb" and t: "bin_items_text el items = Inr t" and fs: "sbuf_wf fs" "sb_data fs = []"
    and dec: "\<And>v u. v \<in> set items \<Longrightarrow> v \<noteq> Qnil \<Longrightarrow> el v = Inr u \<Longrightarrow> dec u tu fi e = Inr v"
    and data: "data = pre @ t @ post" "cur = length pre" "length data < 2 ^ 31"
  shows "bin_dec_items rb dec data ds tu fi e (length items) cur arrays fs =
    Inr (cur + length t, fold (ary_step ds) items arrays)"
  using t fs dec data(1,2)
proof (induction items arbitrary: t fs pre cur arrays)
  case (Cons v items)
  have no: "\<not> length data - cur < 4"
    using Cons.prems(1,5,6) by (auto simp: rbind_Inr_iff split: if_splits)
  show ?case
  proof (cases "v = Qnil")
    case True
    with Cons.prems(1) obtain u where u: "bin_items_text el items = Inr u" "t = write_nbo32 (- 1) @ u"
      by (auto simp: rbind_Inr_iff)
    have "rd32 data cur = Inr (- 1)"
      using rd32_write [of data pre "- 1" _ cur] Cons.prems(5,6) u(2) stb31 [of "- 1"] by simp
    moreover have "bin_dec_items rb dec data ds tu fi e (length items) (cur + 4) arrays' (fs\<lparr> sb_data := [] \<rparr>) =
        Inr (cur + 4 + length u, fold (ary_step ds) items arrays')" for arrays'
      by (rule Cons.IH [OF u(1), where pre = "pre @ write_nbo32 (- 1)"])
        (use Cons.prems u(2) in \<open>auto simp: sbuf_wf_def\<close>)
    ultimately show ?thesis using True no u(2) by (simp add: Let_def ary_step_def [of _ Qnil])
  next
    case False
    with Cons.prems(1) obtain w u where w: "el v = Inr w" and u: "bin_items_text el items = Inr u"
      "t = write_nbo32 (int (length w)) @ w @ u"
      by (auto simp: rbind_Inr_iff)
    have data': "data = pre @ write_nbo32 (int (length w)) @ w @ u @ post" using Cons.prems(5) u(2) by simp
    have "rd32 data cur = Inr (int (length w))"
      using rd32_write [OF data' Cons.prems(6)] stb31 [of "int (length w)"] data' assms(8) by simp
    moreover have "take (length w) (drop (cur + 4) data) = w"
      using data' Cons.prems(6) by simp
    moreover have "length w \<le> length data - (cur + 4)" using data' Cons.prems(6) by simp
    moreover obtain fs' where "sb_put w (PG_RB_STR_ENSURE_CAPA rb (length w) fs) = Inr fs'" "sb_data fs' = w" "sbuf_wf fs'"
      using ENSURE_put [OF rb Cons.prems(2), of w "length w"] Cons.prems(3) by auto
    moreover have "dec w tu fi e = Inr v" using Cons.prems(4) False w by simp
    moreover have "bin_dec_items rb dec data ds tu fi e (length items) (cur + 4 + length w) arrays' (fs'\<lparr> sb_data := [] \<rparr>) =
        Inr (cur + 4 + length w + length u, fold (ary_step ds) items arrays')" for arrays'
      by (rule Cons.IH [OF u(1), where pre = "pre @ write_nbo32 (int (length w)) @ w"])
        (use Cons.prems data' \<open>sbuf_wf fs'\<close> in \<open>auto simp: sbuf_wf_def\<close>)
    ultimately show ?thesis using no u(2) by (simp add: Let_def ary_step_def [of _ v])
  qed
qed simp

lemma items_text_length: "bin_items_text el items = Inr t \<Longrightarrow> 4 * length items \<le> length t"
  by (induction items arbitrary: t) (fastforce simp: rbind_Inr_iff split: if_splits)+

lemma dec_array_text:
  assumes rb: "rb_api_ok rb" and shape: "rect (tl ds) vs" "ds = [] \<and> vs = [] \<or> ds \<noteq> [] \<and> hd ds = length vs"
      "0 \<notin> set ds" "length ds \<le> MAXDIM"
    and t: "bin_items_text el (bin_leaves (length (tl ds)) vs) = Inr t"
    and dec: "\<And>v u. v \<in> set (bin_leaves (length (tl ds)) vs) \<Longrightarrow> v \<noteq> Qnil \<Longrightarrow> el v = Inr u \<Longrightarrow>
      pg_coder_dec_func rb (elem d) (coder_format d \<noteq> 0) u tu fi e = Inr v"
    and len: "length (bin_array_header c ds @ t) < 2 ^ 31"
  shows "pg_bin_dec_array rb d (bin_array_header c ds @ t) tu fi e = Inr (RArray vs)"
proof -
  define data where "data = bin_array_header c ds @ t"
  define oid :: int where "oid = uint (case elem c of Some x \<Rightarrow> coder_oid x | None \<Rightarrow> 0)"
  define hd3 where "hd3 = write_nbo32 (int (length ds)) @ write_nbo32 1 @ write_nbo32 oid"
  define dm where "dm = concat (map (\<lambda>n. write_nbo32 (int n) @ write_nbo32 1) ds)"
  have d: "data = hd3 @ dm @ t" by (simp add: data_def bin_array_header_def hd3_def dm_def oid_def)
  have "int (length ds) < 2 ^ 31" using shape(4) by (simp add: MAXDIM_def)
  then have r0: "rd32 data 0 = Inr (int (length ds))"
    using rd32_write [of data "[]" "int (length ds)" "write_nbo32 1 @ write_nbo32 oid @ dm @ t" 0] stb31 [of "int (length ds)"]
    by (simp add: d hd3_def)
  have r4: "rd32 data 4 = Inr 1"
    using rd32_write [of data "write_nbo32 (int (length ds))" 1 "write_nbo32 oid @ dm @ t" 4] stb31 [of 1] by (simp add: d hd3_def)
  have ldm: "length dm = 8 * length ds" unfolding dm_def by (induction ds) simp_all
  have ln: "length data \<ge> 12" by (simp add: d hd3_def)
  let ?dec = "pg_coder_dec_func rb (elem d) (coder_format d \<noteq> 0)"
  have items: "bin_dec_items rb ?dec data (map int ds) tu fi e (length (bin_leaves (length (tl ds)) vs)) (12 + 8 * length ds) [[]]
      (PG_RB_STR_NEW rb) = Inr (length data, fold (ary_step (map int ds)) (bin_leaves (length (tl ds)) vs) [[]])"
  proof -
    have "data = (hd3 @ dm) @ t @ []" "12 + 8 * length ds = length (hd3 @ dm)" "length data < 2 ^ 31"
      using len by (simp_all add: d ldm hd3_def data_def [symmetric])
    from dec_items_text [where dec = ?dec, OF rb t sbuf_wf_new(2) [OF rb] sb_new_simps(2) _ this] show ?thesis
      using dec by (simp add: d ldm hd3_def)
  qed
  have "pg_bin_dec_array rb d data tu fi e = Inr (RArray vs)"
  proof (cases "ds = []")
    case True
    then show ?thesis
      using items r0 r4 ln shape(2) by (simp add: pg_bin_dec_array_def Let_def MAXDIM_def)
  next
    case False
    with shape(2) obtain ns where ds: "ds = length vs # ns" by (cases ds) auto
    have nl: "length (bin_leaves (length (tl ds)) vs) = prod_list ds"
      using length_leaves [OF shape(1)] by (simp add: ds)
    have "int (prod_list ds) < 2 ^ 31"
      using items_text_length [OF t] len nl by simp
    then have dims: "bin_dec_dims data (length ds) 12 1 = Inr (map int ds, int (prod_list ds), 12 + 8 * length ds)"
      using dec_dims_header [of 1 ds data hd3 t 12] shape(3) by (simp add: d dm_def hd3_def)
    have "fold (ary_step (map int ds)) (bin_leaves (length (tl ds)) vs) [[]] = [vs]"
      using fold_leaves [of "map int ds" "[]" "length vs" ns "[]" vs] shape(1,3) ds by simp
    with items nl have "bin_dec_items rb ?dec data (map int ds) tu fi e (prod_list ds) (12 + 8 * length ds) [[]]
        (PG_RB_STR_NEW rb) = Inr (length data, [vs])" by simp
    then show ?thesis
      using dims r0 r4 ln shape(4) False by (auto simp: pg_bin_dec_array_def Let_def)
  qed
  then show ?thesis by (simp add: data_def)
qed

section \<open>The calendar\<close>

definition month_length :: "int \<Rightarrow> int \<Rightarrow> int" where
  "month_length y m = (if m = 2 then if is_leap y then 29 else 28 else if m \<in> {4, 6, 9, 11} then 30 else 31)"

definition valid_date :: "int \<Rightarrow> int \<Rightarrow> int \<Rightarrow> bool" where
  "valid_date y m d \<longleftrightarrow> 1 \<le> m \<and> m \<le> 12 \<and> 1 \<le> d \<and> d \<le> month_length y m"

text \<open>The day in a year that starts with March.\<close>

definition march_day :: "int \<Rightarrow> int \<Rightarrow> int" where
  "march_day m d = 7834 * (if m > 2 then m + 1 else m + 13) div 256 + d - 123"

text \<open>\<open>date2j\<close> and the 400 year cycle: \<open>y\<close> counts years that start with March.\<close>

lemma date2j_cycle:
  assumes "y = (if m > 2 then year + 4800 else year + 4799)" "y = 400 * q + r" "0 \<le> q" "0 \<le> r" "r < 400" "1 \<le> m"
  shows "date2j year m d + 32044 = 146097 * q + (365 * r + r div 4 - r div 100 + march_day m d)"
proof -
  have "cdiv y 100 = 4 * q + r div 100" "cdiv y 4 = 100 * q + r div 4"
    using assms(2-5) by (simp_all add: cdiv_def)
  moreover have "cdiv (4 * q + r div 100) 4 = q"
    using assms(3-5) pos_imp_zdiv_nonneg_iff [of 100 r] by (auto simp: cdiv_def)
  moreover define mm where "mm = (if m > 2 then m + 1 else m + 13)"
  moreover have "cdiv (7834 * mm) 256 = 7834 * mm div 256"
    using assms(6) by (simp add: cdiv_def mm_def)
  moreover have "date2j year m d = y * 365 - 32167 + (cdiv y 4 - cdiv y 100 + cdiv (cdiv y 100) 4) + (cdiv (7834 * mm) 256 + d)"
    using assms(1) by (simp add: date2j_def Let_def mm_def)
  moreover have "march_day m d = 7834 * mm div 256 + d - 123" by (simp add: march_day_def mm_def)
  ultimately have "date2j year m d = y * 365 - 32167 + (100 * q + r div 4 - (4 * q + r div 100) + q) + (march_day m d + 123)"
    by simp
  then show ?thesis using assms(2) by simp
qed

text \<open>The last steps of \<open>j2date\<close>, on the day in a cycle of 4 years and the number of the cycle.\<close>

definition j2date_quad :: "int \<Rightarrow> int \<times> int \<times> int" where
  "j2date_quad julian =
     (let y = julian * 4 div 1461;
          julian = (if y \<noteq> 0 then (julian + 305) mod 365 else (julian + 306) mod 366) + 123;
          quad = julian * 2141 div 65536
      in (y, (quad + 10) mod 12 + 1, julian - 7834 * quad div 256))"

lemma j2date_steps:
  assumes jd: "jd + 32044 = 146097 * q + n" "0 \<le> jd" "0 \<le> q" "0 \<le> n" "n < 146097" "q < 14700"
    and c: "(n * 4 + 3) div 146097 = c"
    and s: "n + c + 60 = 1461 * s + k" "0 \<le> k" "k < 1461" "0 \<le> s"
    and f: "j2date_quad k = (y, m, d)" "0 \<le> y" "y < 4" "1 \<le> d" "d \<le> 31"
  shows "j2date jd = (400 * q + 4 * s + y - 4800, m, d)"
proof -
  have c4: "0 \<le> c" "c < 4" using c assms(4,5) by auto
  have j0: "u32 (u32 jd + 32044) = 146097 * q + n" using jd by simp
  have q0: "(146097 * q + n) div 146097 = q" using jd(4,5) by simp
  have "(146097 * q + n - q * 146097) * 4 + 3 = n * 4 + 3" by simp
  then have e1: "u32 ((146097 * q + n - q * 146097) * 4 + 3) div 146097 = c"
    using c jd(4,5) u32_id [of "n * 4 + 3"] by simp
  have e2: "u32 (146097 * q + n + u32 (60 + q * 3 + c)) = 1461 * (100 * q + s) + k"
  proof -
    have "u32 (60 + q * 3 + c) = 60 + q * 3 + c" using jd c4 by (intro u32_id) auto
    moreover have "146097 * q + n + (60 + q * 3 + c) = 1461 * (100 * q + s) + k"
      using s(1) by (simp add: distrib_left)
    moreover have "u32 (1461 * (100 * q + s) + k) = 1461 * (100 * q + s) + k"
      using jd c4 s by (intro u32_id) (simp_all add: distrib_left)
    ultimately show ?thesis by (simp only:)
  qed
  have e3: "(1461 * (100 * q + s) + k) div 1461 = 100 * q + s" using s(2,3) by simp
  have e4: "u32 (1461 * (100 * q + s) + k - (100 * q + s) * 1461) = k"
    using s(2,3) u32_id [of k] by simp
  have y: "k * 4 div 1461 = y" using arg_cong [OF f(1), of fst] unfolding j2date_quad_def Let_def by (simp only: fst_conv)
  have e5: "u32 (k * 4) = k * 4" using s(2,3) by (intro u32_id) simp_all
  have e6: "s32 (y + (100 * q + s) * 4) = 400 * q + 4 * s + y"
  proof -
    have "0 \<le> y + (100 * q + s) * 4 + 2 ^ 31" "y + (100 * q + s) * 4 + 2 ^ 31 < 2 ^ 32"
      using jd s c4 f(2,3) by (simp_all add: distrib_right)
    then have "(y + (100 * q + s) * 4 + 2 ^ 31) mod 2 ^ 32 = y + (100 * q + s) * 4 + 2 ^ 31" by (rule mod_pos_pos_trivial)
    then show ?thesis unfolding s32_def by simp
  qed
  define ju where "ju = (if y \<noteq> 0 then (k + 305) mod 365 else (k + 306) mod 366) + 123"
  have ju: "0 \<le> ju" "ju < 500"
    using pos_mod_bound [of 366 "k + 306"] pos_mod_bound [of 365 "k + 305"] by (auto simp: ju_def)
  have e7: "u32 (ju * 2141) = ju * 2141" using ju by (intro u32_id) simp_all
  have e8: "u32 (7834 * (ju * 2141 div 65536)) = 7834 * (ju * 2141 div 65536)"
  proof -
    have "ju * 2141 div 65536 \<le> 1068359 div 65536" using ju by (intro zdiv_mono1) simp_all
    then show ?thesis using ju by (intro u32_id) simp_all
  qed
  have e9: "ju - 7834 * (ju * 2141 div 65536) div 256 = d" "(ju * 2141 div 65536 + 10) mod 12 + 1 = m"
    using f(1) unfolding j2date_quad_def Let_def y ju_def [symmetric] by simp_all
  have e10: "s32 d = d" using f(4,5) by (simp add: s32_def)
  show ?thesis
    unfolding j2date_def Let_def MONTHS_PER_YEAR_def
    by (simp only: j0 q0 e1 e2 e3 e4 e5 y e6 ju_def [symmetric] e7 e8 e9 e10)
qed

lemma months: "1 \<le> (m::int) \<Longrightarrow> m \<le> 12 \<Longrightarrow> m \<in> {1, 2, 3, 4, 5, 6, 7, 8, 9, 10, 11, 12}"
  unfolding insert_iff empty_iff by presburger

lemma month_lengths:
  "month_length y 1 = 31" "month_length y 2 = (if is_leap y then 29 else 28)" "month_length y 3 = 31"
  "month_length y 4 = 30" "month_length y 5 = 31" "month_length y 6 = 30" "month_length y 7 = 31"
  "month_length y 8 = 31" "month_length y 9 = 30" "month_length y 10 = 31" "month_length y 11 = 30"
  "month_length y 12 = 31"
  by (simp_all add: month_length_def)

lemma march_day_bounds:
  assumes "valid_date y m d"
  shows "0 \<le> march_day m d" "march_day m d \<le> (if m = 2 \<and> d = 29 then 365 else 364)"
    "m \<le> 2 \<Longrightarrow> 306 \<le> march_day m d" "2 < m \<Longrightarrow> march_day m d < 306"
  using months [of m] assms
  by (auto simp: valid_date_def march_day_def month_lengths split: if_splits)

lemma month_of_march_day:
  assumes "valid_date y m d"
  shows "((march_day m d + 123) * 2141 div 65536 + 10) mod 12 + 1 = m"
    "march_day m d + 123 - 7834 * ((march_day m d + 123) * 2141 div 65536) div 256 = d"
proof -
  have q: "(march_day m d + 123) * 2141 div 65536 = (if m > 2 then m + 1 else m + 13)"
    using months [of m] assms
    by (auto simp: valid_date_def march_day_def month_lengths split: if_splits)
  show "((march_day m d + 123) * 2141 div 65536 + 10) mod 12 + 1 = m"
    unfolding q using months [of m] assms by (auto simp: valid_date_def)
  show "march_day m d + 123 - 7834 * ((march_day m d + 123) * 2141 div 65536) div 256 = d"
    unfolding q by (simp add: march_day_def)
qed

lemma quad_of_march_day:
  assumes v: "valid_date year m d" and t: "0 \<le> t" "t < 4" and leap: "m = 2 \<Longrightarrow> d = 29 \<Longrightarrow> t = 3"
    and k: "k = 365 * t + march_day m d + 60"
  shows "k < 1461 \<Longrightarrow> j2date_quad k = ((if m > 2 then t else t + 1), m, d)"
    "1461 \<le> k \<Longrightarrow> j2date_quad (k - 1461) = (0, m, d) \<and> t = 3 \<and> m \<le> 2 \<and> k < 2 * 1461"
proof -
  note b = march_day_bounds [OF v]
  have core: "j2date_quad k' = (y, m, d)"
    if "k' * 4 div 1461 = y" "(if y \<noteq> 0 then (k' + 305) mod 365 else (k' + 306) mod 366) = march_day m d" for k' y
    unfolding j2date_quad_def Let_def that(1) by (simp only: that(2) month_of_march_day [OF v])
  have ts: "t \<in> {0, 1, 2, 3}" using t by auto
  {
    assume lt: "k < 1461"
    show "j2date_quad k = ((if m > 2 then t else t + 1), m, d)"
    proof (rule core)
      show "k * 4 div 1461 = (if m > 2 then t else t + 1)"
        using ts lt b k by (auto split: if_splits)
      have "k + 305 = march_day m d + 365 * (t + 1)" "k + 306 = march_day m d + 365 * t + 366" using k by simp_all
      moreover have "march_day m d < 365" if "\<not> (t = 0 \<and> m > 2)"
        using b(2) leap lt k that ts by (auto split: if_splits)
      ultimately show "(if (if m > 2 then t else t + 1) \<noteq> 0 then (k + 305) mod 365 else (k + 306) mod 366) = march_day m d"
        using t(1) b(1,2,4) by (auto split: if_splits)
    qed
  next
    assume ge: "1461 \<le> k"
    have "t = 3" "k < 2 * 1461" using ge b(2) k ts by (auto split: if_splits)
    moreover have "m \<le> 2" using ge b(4) k calculation(1) by (cases "2 < m") auto
    moreover have "j2date_quad (k - 1461) = (0, m, d)"
      using calculation ge b(1,2) k by (intro core) (auto split: if_splits)
    ultimately show "j2date_quad (k - 1461) = (0, m, d) \<and> t = 3 \<and> m \<le> 2 \<and> k < 2 * 1461" by blast
  }
qed

lemma leap_cycle:
  assumes "year + 4799 = 400 * q + r" "0 \<le> r" "r < 400" "is_leap year"
  shows "r mod 4 = 3" "r mod 100 = 99 \<Longrightarrow> r = 399"
proof -
  have y: "year = 4 * (100 * (q - 12)) + (r + 1)" "year = 100 * (4 * (q - 12)) + (r + 1)" "year = 400 * (q - 12) + (r + 1)"
    using assms(1) by simp_all
  have "year mod 4 = (r + 1) mod 4" unfolding y(1) mod_mult_self4 ..
  moreover have "year mod 100 = (r + 1) mod 100" unfolding y(2) mod_mult_self4 ..
  moreover have "year mod 400 = (r + 1) mod 400" unfolding y(3) mod_mult_self4 ..
  ultimately have l: "(r + 1) mod 4 = 0" "(r + 1) mod 100 \<noteq> 0 \<or> (r + 1) mod 400 = 0"
    using assms(4) unfolding is_leap_def by simp_all
  show "r mod 4 = 3" using l(1) by presburger
  assume "r mod 100 = 99"
  then have "(r + 1) mod 100 = (99 + 1) mod 100" by (metis mod_add_left_eq)
  with l(2) have "(r + 1) mod 400 = 0" by simp
  then obtain j where "r + 1 = 400 * j" by auto
  moreover from this assms(2,3) have "0 < j" "j < 2" by linarith+
  ultimately show "r = 399" by auto
qed

lemma j2date_date2j:
  assumes v: "valid_date year m d" and "- 4712 \<le> year" "year \<le> 5874897"
  shows "j2date (date2j year m d) = (year, m, d)"
proof -
  define Y where "Y = (if m > 2 then year + 4800 else year + 4799)"
  define q where "q = Y div 400"
  define r where "r = Y mod 400"
  define c where "c = r div 100"
  define t where "t = r mod 4"
  define n where "n = 365 * r + r div 4 - r div 100 + march_day m d"
  note b = march_day_bounds [OF v]
  have Y: "87 \<le> Y" "Y \<le> 5879697" using assms(2,3) by (auto simp: Y_def)
  have Yqr: "Y = 400 * q + r" "0 \<le> r" "r < 400" by (simp_all add: q_def r_def)
  have q: "0 \<le> q" "q < 14700" using Y by (simp_all add: q_def)
  have m: "1 \<le> m" "m \<le> 12" using v by (simp_all add: valid_date_def)
  have leap: "t = 3 \<and> (r mod 100 = 99 \<longrightarrow> r = 399)" if "m = 2" "d = 29"
    using leap_cycle [of year q r] Yqr v that by (auto simp: Y_def t_def valid_date_def month_lengths split: if_splits)
  have jd: "date2j year m d + 32044 = 146097 * q + n"
    unfolding n_def using date2j_cycle [OF Y_def Yqr(1) q(1) Yqr(2,3) m(1)] by simp
  define r' where "r' = r mod 100"
  have c: "0 \<le> c" "c < 4" "r = 100 * c + r'" using Yqr(2,3) by (auto simp: c_def r'_def)
  have r': "0 \<le> r'" "r' \<le> 99" by (simp_all add: r'_def)
  have rd: "r div 4 = 25 * c + r' div 4" using c(3) div_mult_self4 [of 4 "25 * c" r'] by simp
  have n: "n = 36524 * c + (365 * r' + r' div 4 + march_day m d)"
    unfolding n_def c_def [symmetric] rd using c(3) by simp
  have lim: "365 * r' + r' div 4 + march_day m d < (if c = 3 then 36525 else 36524)"
  proof (cases "m = 2 \<and> d = 29 \<and> r' = 99")
    case True
    with leap have "c = 3" by (simp add: r'_def c_def)
    with True b(2) show ?thesis by simp
  next
    case False
    then have "r' \<le> 98 \<or> march_day m d \<le> 364" using b(2) r'(2) by (auto split: if_splits)
    with b(2) r' show ?thesis by (auto split: if_splits)
  qed
  have cs: "c \<in> {0, 1, 2, 3}" using c(1,2) by auto
  have "0 \<le> 365 * r' + r' div 4 + march_day m d" using r' b(1) by simp
  with lim cs n have nc: "(n * 4 + 3) div 146097 = c" "0 \<le> n" "n < 146097" by (auto split: if_splits)
  have jd0: "0 \<le> date2j year m d"
  proof (cases "q = 0")
    case True
    then have "87 \<le> r" "2 < m \<Longrightarrow> 88 \<le> r" using Y Yqr(1) assms(2) by (auto simp: Y_def)
    with b(1,3) jd True show ?thesis unfolding n_def by (cases "2 < m") auto
  next
    case False
    with q(1) nc(2) jd show ?thesis by auto
  qed
  define k where "k = 365 * t + march_day m d + 60"
  have rt: "r = 4 * (r div 4) + t" "0 \<le> t" "t < 4" by (simp_all add: t_def)
  have s: "n + c + 60 = 1461 * (r div 4) + k" using rt(1) by (simp add: n_def c_def k_def)
  have s0: "0 \<le> r div 4" using Yqr(2) by simp
  have d: "1 \<le> d" "d \<le> 31" using v by (auto simp: valid_date_def month_length_def split: if_splits)
  note quad = quad_of_march_day [OF v rt(2,3) _ k_def]
  show ?thesis
  proof (cases "k < 1461")
    case True
    have ym: "(if m > 2 then t else t + 1) < 4" using True b(3) rt(2,3) by (auto simp: k_def)
    have "j2date (date2j year m d) = (400 * q + 4 * (r div 4) + (if m > 2 then t else t + 1) - 4800, m, d)"
      by (rule j2date_steps [OF jd jd0 q(1) nc(2,3) q(2) nc(1) s _ True s0 quad(1) _ ym d])
        (use leap True rt(2) b(1) in \<open>auto simp: k_def\<close>)
    with rt(1) Yqr(1) show ?thesis by (auto simp: Y_def split: if_splits)
  next
    case False
    then have e: "j2date_quad (k - 1461) = (0, m, d)" "t = 3" "m \<le> 2" "k < 2 * 1461"
      using quad(2) leap by auto
    have "j2date (date2j year m d) = (400 * q + 4 * (r div 4 + 1) + 0 - 4800, m, d)"
      by (rule j2date_steps [OF jd jd0 q(1) nc(2,3) q(2) nc(1) _ _ _ _ e(1) _ _ d]) (use s s0 e(4) False in auto)
    with rt(1) Yqr(1) e(2,3) show ?thesis by (auto simp: Y_def)
  qed
qed

text \<open>\<open>date2j\<close> counts the days of the calendar: it agrees with the day number that \<open>timegm\<close> uses.\<close>

lemma div_pred:
  assumes "0 < k"
  shows "(y::int) div k = (y - 1) div k + (if y mod k = 0 then 1 else 0)"
proof -
  have y: "y = k * (y div k) + y mod k" "0 \<le> y mod k" "y mod k < k" using assms by simp_all
  show ?thesis
  proof (cases "y mod k = 0")
    case True
    then have "y - 1 = k * (y div k - 1) + (k - 1)" using y(1) by (simp add: right_diff_distrib)
    then have "(y - 1) div k = y div k - 1 + (k - 1) div k" using assms by (metis div_mult_self4 less_irrefl)
    moreover have "(k - 1) div k = 0" using assms by (intro div_pos_pos_trivial) auto
    ultimately have "(y - 1) div k = y div k - 1" by simp
    with True show ?thesis by simp
  next
    case False
    then have "y - 1 = k * (y div k) + (y mod k - 1)" using y(1) by simp
    then have "(y - 1) div k = y div k + (y mod k - 1) div k" using assms by (metis div_mult_self4 less_irrefl)
    moreover have "(y mod k - 1) div k = 0" using y(2,3) False by (intro div_pos_pos_trivial) auto
    ultimately show ?thesis using False by simp
  qed
qed

lemma leap_rule: "(C \<Longrightarrow> B) \<Longrightarrow> (B \<Longrightarrow> A) \<Longrightarrow>
    (a + (if A then 1 else 0)) - (b + (if B then 1 else 0)) + (c + (if C then 1 else 0)) =
    (a - b + c) + (if A \<and> (\<not> B \<or> C) then 1 else 0 :: int)"
  by (cases A; cases B; cases C) simp_all

lemma leap_days_step: "leap_days y = leap_days (y - 1) + (if is_leap y then 1 else 0)"
proof -
  have "y mod 400 = 0 \<Longrightarrow> y mod 100 = 0"
    using mod_mod_cancel [of 100 400 y] by (simp only:) simp
  moreover have "y mod 100 = 0 \<Longrightarrow> y mod 4 = 0"
    using mod_mod_cancel [of 4 100 y] by (simp only:) simp
  moreover have "y div 4 = (y - 1) div 4 + (if y mod 4 = 0 then 1 else 0)"
    "y div 100 = (y - 1) div 100 + (if y mod 100 = 0 then 1 else 0)"
    "y div 400 = (y - 1) div 400 + (if y mod 400 = 0 then 1 else 0)"
    by (rule div_pred, simp)+
  ultimately show ?thesis
    unfolding leap_days_def is_leap_def by (simp only: leap_rule)
qed

lemma cdiv_nonneg: "0 \<le> a \<Longrightarrow> cdiv a b = a div b"
  by (simp add: cdiv_def)

lemma date2j_civil:
  assumes "valid_date year m d" "- 4712 \<le> year"
  shows "date2j year m d = civil_days year m d + 2440588"
proof -
  define Y where "Y = (if m > 2 then year else year - 1)"
  have Y: "0 \<le> Y + 4800" using assms(2) by (simp add: Y_def)
  have lp: "cdiv (Y + 4800) 4 - cdiv (Y + 4800) 100 + cdiv (cdiv (Y + 4800) 100) 4 = leap_days Y + 1164"
  proof -
    have e: "(Y + 4800) div 100 div 4 = (Y + 4800) div 400"
      by (simp only: zdiv_zmult2_eq [of 4 "Y + 4800" 100, symmetric]) simp
    have f: "(Y + 4800) div 4 = Y div 4 + 1200" "(Y + 4800) div 100 = Y div 100 + 48" "(Y + 4800) div 400 = Y div 400 + 12"
      by simp_all
    have "0 \<le> (Y + 4800) div 100" using Y by simp
    then have "cdiv (cdiv (Y + 4800) 100) 4 = (Y + 4800) div 400" by (simp only: cdiv_nonneg [OF Y] cdiv_nonneg e)
    then show ?thesis unfolding leap_days_def cdiv_nonneg [OF Y] by (simp only: f)
  qed
  have "date2j year m d = (Y + 4800) * 365 - 32167 +
      (cdiv (Y + 4800) 4 - cdiv (Y + 4800) 100 + cdiv (cdiv (Y + 4800) 100) 4) + (cdiv (7834 * (if m > 2 then m + 1 else m + 13)) 256 + d)"
    by (simp add: date2j_def Let_def Y_def add.commute)
  then have j: "date2j year m d = (Y + 4800) * 365 - 32167 + (leap_days Y + 1164) + (cdiv (7834 * (if m > 2 then m + 1 else m + 13)) 256 + d)"
    unfolding lp .
  show ?thesis
    unfolding j using months [of m] assms(1) leap_days_step [of year]
    by (auto simp: civil_days_def month_days_def valid_date_def cdiv_def Y_def)
qed

section \<open>Properties\<close>

lemma stb_mod: "signed_take_bit n (i :: int) = (i + 2 ^ n) mod 2 ^ (n + 1) - 2 ^ n"
  by (simp add: signed_take_bit_eq_take_bit_shift take_bit_eq_mod)

text \<open>Claim C37. Integers through the binary format: what \<open>BinaryEncoder::Int2\<close>, \<open>Int4\<close> and \<open>Int8\<close> encode,
  \<open>BinaryDecoder::Integer\<close> decodes to the number modulo the width of the type. In the range of
  the type this is the number itself; Int2 and Int4 accept larger numbers and truncate them.\<close>

theorem binary_integer_roundtrip:
  assumes "rb_api_ok rb"
    and "(f, w, lim) \<in> {(pg_bin_enc_int2 rb, 16, 32), (pg_bin_enc_int4 rb, 32, 64), (pg_bin_enc_int8 rb, 64, 64)}"
    and "int_in lim i"
  shows "\<exists>s. pg_coder_encode rb (pg_simple_encoder_allocate self (Some (\<lambda>_. f))) [RInteger i] = Inr (RString s 0) \<and>
    pg_bin_dec_integer s tu fi e = Inr (RInteger ((i + 2 ^ (w - 1)) mod 2 ^ w - 2 ^ (w - 1))) \<and>
    (int_in w i \<longrightarrow> pg_bin_dec_integer s tu fi e = Inr (RInteger i))"
proof -
  have oi: "pg_obj_to_i rb (RInteger i) = Inr (RInteger i)" by (simp add: pg_obj_to_i_def)
  consider "f = pg_bin_enc_int2 rb" "w = 16" "lim = 32" | "f = pg_bin_enc_int4 rb" "w = 32" "lim = 64"
    | "f = pg_bin_enc_int8 rb" "w = 64" "lim = 64"
    using assms(2) by auto
  then show ?thesis
  proof cases
    case 1
    with assms(3) have "pg_coder_encode rb (pg_simple_encoder_allocate self (Some (\<lambda>_. f))) [RInteger i] = Inr (RString (write_nbo16 i) 0)"
      by (simp add: pg_coder_encode_def pg_bin_enc_int2_def oi rb_ascii8bit_encindex_def)
    then show ?thesis
      using 1 read_write_nbo16 [of i "[]"] by (auto simp: pg_bin_dec_integer_def stb_mod int_in_def)
  next
    case 2
    with assms(3) have "pg_coder_encode rb (pg_simple_encoder_allocate self (Some (\<lambda>_. f))) [RInteger i] = Inr (RString (write_nbo32 i) 0)"
      by (simp add: pg_coder_encode_def pg_bin_enc_int4_def oi rb_ascii8bit_encindex_def)
    then show ?thesis
      using 2 read_write_nbo32 [of i "[]"] by (auto simp: pg_bin_dec_integer_def stb_mod int_in_def)
  next
    case 3
    with assms(3) have "pg_coder_encode rb (pg_simple_encoder_allocate self (Some (\<lambda>_. f))) [RInteger i] = Inr (RString (write_nbo64 i) 0)"
      by (simp add: pg_coder_encode_def pg_bin_enc_int8_def oi rb_ascii8bit_encindex_def)
    then show ?thesis
      using 3 read_write_nbo64 [of i "[]"] by (auto simp: pg_bin_dec_integer_def stb_mod int_in_def)
  qed
qed

theorem binary_integer_roundtrip_witness:
  "\<exists>s. pg_coder_encode rb_sample (pg_simple_encoder_allocate Qnil (Some (\<lambda>_. pg_bin_enc_int2 rb_sample))) [RInteger 70000] = Inr (RString s 0) \<and>
    pg_bin_dec_integer s 0 0 0 = Inr (RInteger 4464)"
  using binary_integer_roundtrip [of rb_sample "pg_bin_enc_int2 rb_sample" 16 32 70000 Qnil 0 0 0]
  by (auto simp: int_in_def)

text \<open>Claim C13. Arrays through the binary format: when \<open>BinaryEncoder::Array\<close> encodes a nested array of
  up to 6 dimensions with no empty one, and the elements decoder inverts the elements encoder on
  the items, \<open>BinaryDecoder::Array\<close> gives the same nested array back, nil items included.\<close>

theorem binary_array_roundtrip:
  assumes rb: "rb_api_ok rb" and good: "good_coder (elem c)"
    and enc: "pg_coder_encode rb (pg_simple_encoder_allocate self (Some (\<lambda>_. pg_bin_enc_array rb c))) [RArray vs] = Inr (RString s e)"
    and dims: "bin_array_dims c vs = Inr ds" "0 \<notin> set ds" and len: "length s < 2 ^ 31"
    and elems: "\<And>v t. v \<in> set (bin_leaves (length (tl ds)) vs) \<Longrightarrow> v \<noteq> Qnil \<Longrightarrow>
      encoded (pg_coder_enc_func rb (elem c)) v 0 = Inr t \<Longrightarrow>
      pg_coder_dec_func rb (elem d) (coder_format d \<noteq> 0) t tu fi e' = Inr v"
  shows "pg_bin_dec_array rb d s tu fi e' = Inr (RArray vs)"
proof -
  let ?enc = "pg_coder_enc_func rb (elem c)"
  have r: "ruby rb" by (rule ruby.intro) (rule rb)
  have tp: "two_pass ?enc" by (rule ruby.enc_func_two_pass [OF r good])
  obtain sz im where one: "bin_first ?enc 0 (tl ds) 0 vs = Inr (sz, im)"
    using enc dims by (auto simp: pg_coder_encode_def pg_bin_enc_array_def Let_def rbind_Inr_iff rb_ascii8bit_encindex_def)
  then have first: "pg_bin_enc_array rb c (RArray vs) False Qnil 0 = Inr (12 + int (length ds) * 8 + sz, [], RArray im)"
    using dims by (simp add: pg_bin_enc_array_def)
  have sz: "0 \<le> sz" using first_safe(1) [OF tp] one by blast
  obtain t where t: "bin_items_text (\<lambda>v. encoded ?enc v 0) (bin_leaves (length (tl ds)) vs) = Inr t"
    and s: "s = bin_array_header c ds @ t"
    using bin_array_second [OF tp first] dims enc first sz
    by (auto simp: pg_coder_encode_def rb_ascii8bit_encindex_def rbind_Inr_iff Let_def split: if_splits)
  have shape: "ds = [] \<and> vs = [] \<or> ds \<noteq> [] \<and> hd ds = length vs" "length ds \<le> MAXDIM"
    using dims(1) dim_sizes_hd [of _ _ vs] dim_sizes_max [of _ 1 vs]
    by (fastforce simp: bin_array_dims_def rbind_Inr_iff Let_def MAXDIM_def split: if_splits)+
  show ?thesis
    unfolding s by (rule dec_array_text [OF rb first_rect(1) [OF one] shape(1) dims(2) shape(2) t elems len [unfolded s]])
qed



definition sample_enc :: t_pg_composite_coder where
  "sample_enc = (pg_composite_encoder_allocate Qnil None)\<lparr> elem := Some (pg_simple_encoder_allocate Qnil
     (Some (\<lambda>_. pg_bin_enc_int4 rb_sample))) \<rparr>"

definition sample_dec :: t_pg_composite_coder where
  "sample_dec = (pg_composite_decoder_allocate Qnil None)\<lparr> elem := Some (pg_simple_decoder_allocate Qnil
     (Some (\<lambda>_. pg_bin_dec_integer))) \<rparr>"

lemma sample_coders:
  "pg_coder_enc_func rb_sample (elem sample_enc) = pg_bin_enc_int4 rb_sample"
  "pg_coder_dec_func rb_sample (elem sample_dec) b = pg_bin_dec_integer" "dimensions sample_enc = - 1"
  "good_coder (elem sample_enc)"
  using ruby.two_pass_bin_int(2) [OF ruby.intro, of rb_sample]
  by (simp_all add: sample_enc_def sample_dec_def pg_coder_enc_func_def pg_coder_dec_func_def good_coder_def
      pg_simple_decoder_allocate_def pg_coder_init_decoder_def)

lemma int4_sample:
  assumes "int_in 64 i"
  shows "pg_bin_enc_int4 rb (RInteger i) False im e = Inr (4, [], RInteger i)"
    "pg_bin_enc_int4 rb v True (RInteger i) e = Inr (4, write_nbo32 i, RInteger i)"
    "encoded (pg_bin_enc_int4 rb) (RInteger i) e = Inr (write_nbo32 i)"
  using assms by (simp_all add: pg_bin_enc_int4_def pg_obj_to_i_def encoded_def)

theorem binary_array_roundtrip_witness:
  "\<exists>s. pg_coder_encode rb_sample (pg_simple_encoder_allocate Qnil (Some (\<lambda>_. pg_bin_enc_array rb_sample sample_enc)))
      [RArray [RArray [RInteger 1, Qnil], RArray [RInteger (- 2), RInteger 3]]] = Inr (RString s 0) \<and>
    pg_bin_dec_array rb_sample sample_dec s 0 0 0 = Inr (RArray [RArray [RInteger 1, Qnil], RArray [RInteger (- 2), RInteger 3]])"
proof -
  let ?vs = "[RArray [RInteger 1, Qnil], RArray [RInteger (- 2), RInteger 3]]"
  have ds: "bin_array_dims sample_enc ?vs = Inr [2, 2]"
    by (simp add: bin_array_dims_def bin_dim_sizes.simps sample_coders MAXDIM_def)
  obtain s where s: "pg_coder_encode rb_sample (pg_simple_encoder_allocate Qnil (Some (\<lambda>_. pg_bin_enc_array rb_sample sample_enc)))
      [RArray ?vs] = Inr (RString s 0)" "length s < 2 ^ 31"
    by (simp add: pg_coder_encode_def pg_bin_enc_array_def ds sample_coders int4_sample int_in_def Let_def store_over_def
        bin_array_header_def rb_ascii8bit_encindex_def)
  have dec: "pg_bin_dec_integer t 0 0 0 = Inr v"
    if v: "v \<in> set (bin_leaves (length (tl [2, 2 :: nat])) ?vs)" "v \<noteq> Qnil" and t: "encoded (pg_bin_enc_int4 rb_sample) v 0 = Inr t" for v t
  proof -
    obtain i where "v = RInteger i" "int_in 32 i" "int_in 64 i" using v by (auto simp: int_in_def)
    with t read_write_nbo32 [of i "[]"] stb31 [of i] show ?thesis
      by (auto simp: int4_sample pg_bin_dec_integer_def int_in_def)
  qed
  have "pg_bin_dec_array rb_sample sample_dec s 0 0 0 = Inr (RArray ?vs)"
    by (rule binary_array_roundtrip [OF rb_api_ok_sample sample_coders(4) s(1) ds _ s(2)])
      (use dec in \<open>simp_all add: sample_coders\<close>)
  with s(1) show ?thesis by blast
qed

text \<open>Claim C38. Timestamps through the binary format: a Time of \<open>tv_sec\<close> seconds and \<open>tv_nsec\<close>
  nanoseconds decodes to the same instant cut to microseconds, for all instants between the two
  values reserved for infinity.\<close>

theorem binary_timestamp_roundtrip:
  assumes "rb_api_ok rb" and "coder_flags this = 0" and "coder_flags conv = 0"
    and "\<not> is_str time" and "time \<noteq> Qnil" "time \<noteq> Qtrue" "time \<noteq> Qfalse"
    and ts: "rb_time_timespec rb time = Inr (tv_sec, tv_nsec)" "0 \<le> tv_nsec" "tv_nsec < 1000000000"
    and "PG_INT64_MIN < (tv_sec - epoch_diff) * 1000000 + tv_nsec div 1000"
      "(tv_sec - epoch_diff) * 1000000 + tv_nsec div 1000 < PG_INT64_MAX"
  shows "\<exists>s sec nsec. pg_coder_encode rb (pg_simple_encoder_allocate self (Some (\<lambda>_. pg_bin_enc_timestamp rb this))) [time]
      = Inr (RString s 0) \<and>
    pg_bin_dec_timestamp rb conv s tu fi e = rb_time_timespec_new rb sec nsec (INT_MAX - 1) \<and>
    sec * 1000000000 + nsec = tv_sec * 1000000000 + tv_nsec - tv_nsec mod 1000"
proof -
  define us where "us = (tv_sec - epoch_diff) * 1000000 + tv_nsec div 1000"
  have us: "signed_take_bit 63 us = us"
    using assms(11,12) by (intro signed_take_bit_int_eq_self) (simp_all add: us_def PG_INT64_MIN_def PG_INT64_MAX_def)
  have ne: "us \<noteq> PG_INT64_MAX" "us \<noteq> PG_INT64_MIN" using assms(11,12) unfolding us_def by auto
  have cd: "cdiv tv_nsec 1000 = tv_nsec div 1000" using ts(2) by (simp add: cdiv_nonneg)
  have fl: "pg_bin_enc_timestamp rb this time False im e' = Inr (8, [], time)" for im e'
    using assms(2,4) by (cases time) (simp_all add: pg_bin_enc_timestamp_def Let_def)
  have sl: "pg_bin_enc_timestamp rb this time True time e' = Inr (8, write_nbo64 us, time)" for e'
    using assms(2,4-7) ts(1) by (cases time) (simp_all add: pg_bin_enc_timestamp_def Let_def cd us_def)
  have enc: "pg_coder_encode rb (pg_simple_encoder_allocate self (Some (\<lambda>_. pg_bin_enc_timestamp rb this))) [time]
      = Inr (RString (write_nbo64 us) 0)"
    using assms(5) by (simp add: pg_coder_encode_def fl sl rb_ascii8bit_encindex_def)
  have "pg_bin_dec_timestamp rb conv (write_nbo64 us) tu fi e =
      rb_time_timespec_new rb (cdiv us 1000000 + epoch_diff) (cmod us 1000000 * 1000) (INT_MAX - 1)"
    using read_write_nbo64 [of us "[]"] us assms(3) ne
    by (simp add: pg_bin_dec_timestamp_def Let_def)
  moreover have "(cdiv us 1000000 + epoch_diff) * 1000000000 + cmod us 1000000 * 1000 =
      tv_sec * 1000000000 + tv_nsec - tv_nsec mod 1000"
  proof -
    have "(cdiv us 1000000 + epoch_diff) * 1000000000 + cmod us 1000000 * 1000 = us * 1000 + epoch_diff * 1000000000"
      by (simp add: cmod_def algebra_simps)
    also have "\<dots> = tv_sec * 1000000000 + tv_nsec div 1000 * 1000" by (simp add: us_def algebra_simps)
    finally show ?thesis by (simp add: minus_mod_eq_div_mult [symmetric])
  qed
  ultimately show ?thesis using enc by blast
qed

theorem binary_timestamp_roundtrip_witness:
  "\<exists>s sec nsec. pg_coder_encode rb_sample (pg_simple_encoder_allocate Qnil (Some (\<lambda>_. pg_bin_enc_timestamp rb_sample
       (coder_fields.truncate (pg_simple_encoder_allocate Qnil None))))) [RArray [RInteger (- 5), RInteger 1234]] = Inr (RString s 0) \<and>
    pg_bin_dec_timestamp rb_sample (coder_fields.truncate (pg_simple_encoder_allocate Qnil None)) s 0 0 0 =
      rb_time_timespec_new rb_sample sec nsec (INT_MAX - 1) \<and>
    sec * 1000000000 + nsec = (- 5) * 1000000000 + 1234 - 1234 mod 1000"
  by (rule binary_timestamp_roundtrip)
    (simp_all add: epoch_diff_def PG_INT64_MIN_def PG_INT64_MAX_def, simp add: rb_sample_def)

lemma civil_days_bounds:
  assumes "valid_date y m d" "- 4712 \<le> y" "y \<le> 5874897"
  shows "- 2500000 \<le> civil_days y m d" "civil_days y m d \<le> 2146000000"
proof -
  have "leap_days (y - 1) \<le> 1450000" "- 1200 \<le> leap_days (y - 1)"
    using assms(2,3) unfolding leap_days_def by linarith+
  moreover have "1 \<le> d" "d \<le> 31" using assms(1) by (auto simp: valid_date_def month_length_def split: if_splits)
  ultimately show "- 2500000 \<le> civil_days y m d" "civil_days y m d \<le> 2146000000"
    using months [of m] assms by (auto simp: civil_days_def Let_def month_days_def valid_date_def)
qed

text \<open>Claim C17. Dates through the binary format: every day of the proleptic Gregorian calendar between
  4713 BC and the last year of PostgreSQL is encoded as the number of days since 2000-01-01 of
  the calendar, and decoded to the same year, month and day.\<close>

theorem binary_date_roundtrip:
  assumes "rb_api_ok rb" and v: "valid_date y m d" "- 4712 \<le> y" "y \<le> 5874897"
    and date: "\<not> is_str date" "date \<noteq> Qtrue" "date \<noteq> Qfalse" "date \<noteq> Qnil" "rb_gregorianP rb date = Inr Qtrue"
      "rb_year rb date = Inr (RInteger y)" "rb_month rb date = Inr (RInteger m)" "rb_day rb date = Inr (RInteger d)"
  shows "\<exists>s. pg_coder_encode rb (pg_simple_encoder_allocate self (Some (\<lambda>_. pg_bin_enc_date rb))) [date] = Inr (RString s 0) \<and>
    s = write_nbo32 (civil_days y m d - civil_days 2000 1 1) \<and>
    pg_bin_dec_date rb s tu fi e = rb_Date_new rb y m d"
proof -
  have in32: "int_in 32 y" "int_in 32 m" "int_in 32 d"
    using v by (auto simp: int_in_def valid_date_def month_length_def split: if_splits)
  have fl: "pg_bin_enc_date rb date False im e' = Inr (4, [], date)" for im e'
    using date(1) by (cases date) (simp_all add: pg_bin_enc_date_def)
  have "date2j y m d - POSTGRES_EPOCH_JDATE = civil_days y m d - civil_days 2000 1 1"
    using date2j_civil [OF v(1,2)] by (simp add: POSTGRES_EPOCH_JDATE_def civil_days_def leap_days_def month_days_def)
  then have sl: "pg_bin_enc_date rb date True date e' = Inr (4, write_nbo32 (civil_days y m d - civil_days 2000 1 1), date)" for e'
    using date in32 by (cases date) (simp_all add: pg_bin_enc_date_def)
  have enc: "pg_coder_encode rb (pg_simple_encoder_allocate self (Some (\<lambda>_. pg_bin_enc_date rb))) [date]
      = Inr (RString (write_nbo32 (civil_days y m d - civil_days 2000 1 1)) 0)"
    using date(4) by (simp add: pg_coder_encode_def fl sl rb_ascii8bit_encindex_def)
  let ?n = "civil_days y m d - civil_days 2000 1 1"
  have c0: "civil_days 2000 1 1 = 10957" by (simp add: civil_days_def leap_days_def month_days_def)
  have rd: "read_nbo32 (write_nbo32 ?n) = ?n"
    using read_write_nbo32 [of ?n "[]"] stb31 [of ?n] civil_days_bounds [OF v] by (simp add: c0)
  have "?n \<noteq> PG_INT32_MAX" "?n \<noteq> PG_INT32_MIN" "?n + POSTGRES_EPOCH_JDATE = date2j y m d"
    using civil_days_bounds [OF v] date2j_civil [OF v(1,2)]
    by (simp_all add: c0 PG_INT32_MAX_def PG_INT32_MIN_def POSTGRES_EPOCH_JDATE_def)
  then have "pg_bin_dec_date rb (write_nbo32 ?n) tu fi e = rb_Date_new rb y m d"
    unfolding pg_bin_dec_date_def Let_def rd by (simp add: j2date_date2j [OF v])
  with enc show ?thesis by blast
qed

theorem binary_date_roundtrip_witness:
  "\<exists>s. pg_coder_encode rb_sample (pg_simple_encoder_allocate Qnil (Some (\<lambda>_. pg_bin_enc_date rb_sample)))
       [RArray [RInteger 2024, RInteger 2, RInteger 29]] = Inr (RString s 0) \<and>
    s = write_nbo32 (civil_days 2024 2 29 - civil_days 2000 1 1) \<and>
    pg_bin_dec_date rb_sample s 0 0 0 = rb_Date_new rb_sample 2024 2 29"
  by (rule binary_date_roundtrip)
    (simp_all add: valid_date_def month_length_def is_leap_def, simp_all add: rb_sample_def)

end
