(* ===== verification/PG_Type_Map.thy ===== *)
theory PG_Type_Map
  imports PG_Binary_Decoder
begin

text \<open>
  The type maps: \<open>ext/pg_type_map.c\<close> and the six kinds of type maps in
  \<open>ext/pg_type_map_all_strings.c\<close>, \<open>_by_column.c\<close>, \<open>_by_oid.c\<close>, \<open>_by_class.c\<close>, \<open>_by_mri_type.c\<close> and
  \<open>_in_ruby.c\<close>. A type map selects the coder of a query parameter, a result value or a COPY field
  and hands over to its default type map where it has none. The maps by OID and by class keep a
  direct mapped cache of 256 entries; the locale \<open>direct_cache\<close> states when such a cache is
  transparent.
\<close>

section \<open>Results of libpq\<close>

text \<open>
  What the type maps and \<open>PG::Result\<close> see of a \<open>PGresult\<close>. The accessors behave as libpq documents
  them: a row or field number out of range is answered as a NULL value, type 0 and format 0.
\<close>

record pgresult =
  pq_rows :: "bytes option list list"
  pq_ftypes :: "oid list"
  pq_fformats :: "int list"

definition PQntuples :: "'a pgresult_scheme \<Rightarrow> int" where
  "PQntuples r = int (length (pq_rows r))"

definition PQnfields :: "'a pgresult_scheme \<Rightarrow> int" where
  "PQnfields r = int (length (pq_ftypes r))"

definition PQfield :: "'a pgresult_scheme \<Rightarrow> int \<Rightarrow> int \<Rightarrow> bytes option" where
  "PQfield r tuple field =
     (if 0 \<le> tuple \<and> tuple < PQntuples r \<and> 0 \<le> field \<and> field < PQnfields r
         \<and> nat field < length (pq_rows r ! nat tuple)
      then pq_rows r ! nat tuple ! nat field else None)"

definition PQftype :: "'a pgresult_scheme \<Rightarrow> int \<Rightarrow> oid" where
  "PQftype r field = (if 0 \<le> field \<and> field < PQnfields r then pq_ftypes r ! nat field else 0)"

definition PQfformat :: "'a pgresult_scheme \<Rightarrow> int \<Rightarrow> int" where
  "PQfformat r field = (if 0 \<le> field \<and> nat field < length (pq_fformats r) then pq_fformats r ! nat field else 0)"

lemma PQ_truncate [simp]:
  "PQntuples (pgresult.truncate d) = PQntuples d" "PQnfields (pgresult.truncate d) = PQnfields d"
  "PQfield (pgresult.truncate d) t f = PQfield d t f" "PQftype (pgresult.truncate d) f = PQftype d f"
  "PQfformat (pgresult.truncate d) f = PQfformat d f"
  by (simp_all add: PQntuples_def PQnfields_def PQfield_def PQftype_def PQfformat_def pgresult.defs)

section \<open>Direct mapped caches\<close>

text \<open>
  A cache of entries (key, value), indexed by some bits of the key. \<open>hit\<close> is the test of the
  source whether an entry is the one of the key; no valid key hits the zeroed entry. The function
  \<open>f\<close> gives the value of a key, or \<open>None\<close> for a key that must not be cached. The cache is coherent
  with \<open>f\<close> when every hit gives the value of \<open>f\<close>.
\<close>

locale direct_cache =
  fixes valid :: "'k \<Rightarrow> bool" and idx :: "'k \<Rightarrow> nat" and hit :: "'k \<Rightarrow> 'k \<times> 'v \<Rightarrow> bool" and zeroed :: "'k \<times> 'v"
  assumes hit_key: "hit k e \<Longrightarrow> fst e = k"
    and hit_zeroed: "valid k \<Longrightarrow> \<not> hit k zeroed"
begin

definition coherent :: "(nat \<Rightarrow> 'k \<times> 'v) \<Rightarrow> ('k \<Rightarrow> 'v option) \<Rightarrow> bool" where
  "coherent cache f \<longleftrightarrow> (\<forall>k. valid k \<longrightarrow> hit k (cache (idx k)) \<longrightarrow> f k = Some (snd (cache (idx k))))"

lemma coherent_hit: "coherent cache f \<Longrightarrow> valid k \<Longrightarrow> hit k (cache (idx k)) \<Longrightarrow> f k = Some (snd (cache (idx k)))"
  by (simp add: coherent_def)

lemma coherent_zeroed: "coherent (\<lambda>_. zeroed) f"
  using hit_zeroed by (auto simp: coherent_def)

text \<open>
  When the function changes at one key, the entry of that key has to be overwritten, with the new
  value or with the zeroed entry. With no change this is the filling of the cache after a miss.
\<close>

lemma coherent_put:
  assumes "coherent cache f" "\<And>k'. k' \<noteq> k \<Longrightarrow> f' k' = f k'" "f' k = Some v"
  shows "coherent (cache(idx k := (k, v))) f'"
  unfolding coherent_def
proof (intro allI impI)
  fix k' assume "valid k'" "hit k' ((cache(idx k := (k, v))) (idx k'))"
  then show "f' k' = Some (snd ((cache(idx k := (k, v))) (idx k')))"
    using assms by (cases "idx k' = idx k"; cases "k' = k") (auto simp: coherent_def dest: hit_key)
qed

lemma coherent_drop:
  assumes "coherent cache f" "\<And>k'. idx k' \<noteq> idx k \<Longrightarrow> f' k' = f k'"
  shows "coherent (cache(idx k := zeroed)) f'"
  unfolding coherent_def
proof (intro allI impI)
  fix k' assume k': "valid k'" "hit k' ((cache(idx k := zeroed)) (idx k'))"
  then show "f' k' = Some (snd ((cache(idx k := zeroed)) (idx k')))"
    using assms hit_zeroed by (cases "idx k' = idx k") (auto simp: coherent_def)
qed

lemmas coherent_fill = coherent_put [OF _ refl]

end

section \<open>Type maps by OID\<close>

text \<open>
  The Ruby Hash objects of a type map by OID are shared between copies of the map, so they live in
  a store: an address gives the mapping from the Integer key to the coder.
\<close>

type_synonym hashes = "nat \<Rightarrow> int \<Rightarrow> t_pg_coder option"
type_synonym oid_cache = "nat \<Rightarrow> oid \<times> t_pg_coder option"

record t_tmbo =
  max_rows_for_online_lookup :: int
  oid_to_coder :: "int \<Rightarrow> nat"
  oid_cache_row :: "int \<Rightarrow> oid_cache"
  tmbo_frozen :: bool

definition CACHE_LOOKUP_oid :: "oid \<Rightarrow> nat" where
  "CACHE_LOOKUP_oid oid = unat (oid AND 0xff)"

text \<open>The test on the cache entry: the expected OID and not an empty entry.\<close>

definition oid_cache_hit :: "oid \<Rightarrow> oid \<times> t_pg_coder option \<Rightarrow> bool" where
  "oid_cache_hit oid ce \<longleftrightarrow> fst ce = oid \<and> (oid \<noteq> 0 \<or> snd ce \<noteq> None)"

interpretation oid_cache: direct_cache "\<lambda>_. True" CACHE_LOOKUP_oid oid_cache_hit "(0, None)"
  by unfold_locales (auto simp: oid_cache_hit_def)

definition pg_tmbo_lookup_oid :: "hashes \<Rightarrow> t_tmbo \<Rightarrow> int \<Rightarrow> oid \<Rightarrow> t_pg_coder option \<times> t_tmbo" where
  "pg_tmbo_lookup_oid hs this format oid =
     (let i = CACHE_LOOKUP_oid oid; ce = oid_cache_row this format i in
      if oid_cache_hit oid ce then (snd ce, this)
      else
        let conv = hs (oid_to_coder this format) (uint oid) in
        (conv, this\<lparr> oid_cache_row := (oid_cache_row this)(format := (oid_cache_row this format)(i := (oid, conv))) \<rparr>))"

text \<open>Allocation with two new hashes at the addresses \<open>a\<close> and \<open>a + 1\<close>.\<close>

definition pg_tmbo_s_allocate :: "nat \<Rightarrow> hashes \<Rightarrow> hashes \<times> t_tmbo" where
  "pg_tmbo_s_allocate a hs =
     (hs(a := Map.empty, a + 1 := Map.empty),
      \<lparr> max_rows_for_online_lookup = 10, oid_to_coder = (\<lambda>format. if format = 0 then a else a + 1),
        oid_cache_row = (\<lambda>_ _. (0, None)), tmbo_frozen = False \<rparr>)"

definition pg_tmbo_add_coder :: "t_pg_coder \<Rightarrow> hashes \<times> t_tmbo \<Rightarrow> (hashes \<times> t_tmbo) res" where
  "pg_tmbo_add_coder p_coder = (\<lambda>(hs, this).
     let format = coder_format p_coder; oid = coder_oid p_coder in
     if tmbo_frozen this then Inl frozen_error
     else if format < 0 \<or> format > 1 then Inl (Raise ArgError ''invalid format code %d'' [format])
     else
       let this = this\<lparr> oid_cache_row := (oid_cache_row this)(format :=
             (oid_cache_row this format)(CACHE_LOOKUP_oid oid := (oid, Some p_coder))) \<rparr>;
           hash = oid_to_coder this format
       in Inr (hs(hash := (hs hash)(uint oid := Some p_coder)), this))"

definition pg_tmbo_rm_coder :: "rb_api \<Rightarrow> rvalue \<Rightarrow> rvalue \<Rightarrow> hashes \<times> t_tmbo \<Rightarrow> (t_pg_coder option \<times> hashes \<times> t_tmbo) res" where
  "pg_tmbo_rm_coder rb format oid = (\<lambda>(hs, this).
     rbind (num2 32 (rb_dbl2int rb) format) (\<lambda>i_format.
     if tmbo_frozen this then Inl frozen_error
     else if i_format < 0 \<or> i_format > 1 then Inl (Raise ArgError ''invalid format code %d'' [i_format])
     else rbind (num2uint (rb_dbl2int rb) oid) (\<lambda>u_oid.
       let this = this\<lparr> oid_cache_row := (oid_cache_row this)(i_format :=
             (oid_cache_row this i_format)(CACHE_LOOKUP_oid u_oid := (0, None))) \<rparr>;
           hash = oid_to_coder this i_format
       in case oid of
            RInteger k \<Rightarrow> Inr (hs hash k, hs(hash := (hs hash)(k := None)), this)
          | _ \<Rightarrow> Inr (None, hs, this))))"

definition pg_tmbo_max_rows_for_online_lookup_set :: "rb_api \<Rightarrow> rvalue \<Rightarrow> t_tmbo \<Rightarrow> t_tmbo res" where
  "pg_tmbo_max_rows_for_online_lookup_set rb value this =
     (if tmbo_frozen this then Inl frozen_error
      else rbind (num2 32 (rb_dbl2int rb) value) (\<lambda>n. Inr (this\<lparr> max_rows_for_online_lookup := n \<rparr>)))"

definition pg_tmbo_max_rows_for_online_lookup_get :: "t_tmbo \<Rightarrow> rvalue" where
  "pg_tmbo_max_rows_for_online_lookup_get this = RInteger (max_rows_for_online_lookup this)"

section \<open>Type maps by class\<close>

text \<open>A class is the number of its \<open>VALUE\<close>; what is assigned to a class is a coder, a Symbol or an object with \<open>call\<close>.\<close>

datatype coder_or_ask = A_coder t_pg_coder | A_symbol rvalue | A_proc rvalue

record t_tmbk =
  klass_to_coder :: "nat \<Rightarrow> coder_or_ask option"
  tmbk_self :: rvalue
  klass_cache_row :: "nat \<Rightarrow> nat \<times> t_pg_coder option"
  tmbk_frozen :: bool

text \<open>
  The Ruby code of type maps as a parameter: the class of a value, the ancestors of a class, the
  coder that a method or proc answers (nil, a coder or another object) and the methods of
  TypeMapInRuby that a subclass overrides or defines.
\<close>

datatype coder_ret = Ret_nil | Ret_coder t_pg_coder | Ret_other

record tm_api =
  rb_obj_class :: "rvalue \<Rightarrow> nat"
  rb_mod_ancestors :: "nat \<Rightarrow> nat list"
  rb_ask_symbol :: "rvalue \<Rightarrow> rvalue \<Rightarrow> rvalue \<Rightarrow> coder_ret res"
  rb_ask_call :: "rvalue \<Rightarrow> rvalue \<Rightarrow> coder_ret res"
  tmir_fit_to_query :: "rvalue \<Rightarrow> (rvalue \<Rightarrow> unit res) option"
  tmir_fit_to_copy_get :: "rvalue \<Rightarrow> rvalue res option"
  tmir_typecast_query_param :: "rvalue \<Rightarrow> (rvalue \<Rightarrow> int \<Rightarrow> coder_ret res) option"
  tmir_typecast_copy_get :: "rvalue \<Rightarrow> (rvalue \<Rightarrow> int \<Rightarrow> int \<Rightarrow> rvalue \<Rightarrow> rvalue res) option"
  tmir_typecast_result_value :: "rvalue \<Rightarrow> (pgresult \<Rightarrow> int \<Rightarrow> int \<Rightarrow> rvalue res) option"

definition CACHE_LOOKUP_klass :: "nat \<Rightarrow> nat" where
  "CACHE_LOOKUP_klass klass = drop_bit 8 klass AND 0xff"

definition klass_cache_hit :: "nat \<Rightarrow> nat \<times> t_pg_coder option \<Rightarrow> bool" where
  "klass_cache_hit klass ce \<longleftrightarrow> fst ce = klass"

text \<open>A zeroed entry is the one of no class, as no class is at address 0.\<close>

interpretation klass_cache: direct_cache "\<lambda>klass. 0 < klass" CACHE_LOOKUP_klass klass_cache_hit "(0, None)"
  by unfold_locales (auto simp: klass_cache_hit_def)

text \<open>The loop over the ancestors, after its first element.\<close>

primrec find_ancestor :: "(nat \<Rightarrow> coder_or_ask option) \<Rightarrow> nat list \<Rightarrow> coder_or_ask option" where
  "find_ancestor h [] = None"
| "find_ancestor h (a # as) = (case h a of None \<Rightarrow> find_ancestor h as | Some x \<Rightarrow> Some x)"

definition klass_entry :: "tm_api \<Rightarrow> t_tmbk \<Rightarrow> nat \<Rightarrow> coder_or_ask option" where
  "klass_entry tm this klass =
     (case klass_to_coder this klass of
        Some x \<Rightarrow> Some x
      | None \<Rightarrow> find_ancestor (klass_to_coder this) (drop 1 (rb_mod_ancestors tm klass)))"

abbreviation wrong_coder :: rb_exc where
  "wrong_coder \<equiv> Raise TypeError ''wrong argument type (expected PG::Coder)'' []"

definition pg_tmbk_lookup_klass :: "tm_api \<Rightarrow> t_tmbk \<Rightarrow> nat \<Rightarrow> rvalue \<Rightarrow> (t_pg_coder option \<times> t_tmbk) res" where
  "pg_tmbk_lookup_klass tm this klass param_value =
     (let i = CACHE_LOOKUP_klass klass; ce = klass_cache_row this i in
      if klass_cache_hit klass ce then Inr (snd ce, this)
      else
        let ask = (\<lambda>r. rbind r (\<lambda>obj. case obj of
              Ret_nil \<Rightarrow> Inr (None, this) | Ret_coder c \<Rightarrow> Inr (Some c, this) | Ret_other \<Rightarrow> Inl wrong_coder));
            store = (\<lambda>c. Inr (c, this\<lparr> klass_cache_row := (klass_cache_row this)(i := (klass, c)) \<rparr>))
        in case klass_entry tm this klass of
             None \<Rightarrow> store None
           | Some (A_coder c) \<Rightarrow> store (Some c)
           | Some (A_symbol m) \<Rightarrow> ask (rb_ask_symbol tm (tmbk_self this) m param_value)
           | Some (A_proc p) \<Rightarrow> ask (rb_ask_call tm p param_value))"

definition pg_tmbk_s_allocate :: "rvalue \<Rightarrow> t_tmbk" where
  "pg_tmbk_s_allocate self =
     \<lparr> klass_to_coder = Map.empty, tmbk_self = self, klass_cache_row = (\<lambda>_. (0, None)), tmbk_frozen = False \<rparr>"

definition pg_tmbk_aset :: "nat \<Rightarrow> coder_or_ask option \<Rightarrow> t_tmbk \<Rightarrow> t_tmbk res" where
  "pg_tmbk_aset klass coder this =
     (if tmbk_frozen this then Inl frozen_error
      else Inr (this\<lparr> klass_to_coder := (klass_to_coder this)(klass := coder), klass_cache_row := (\<lambda>_. (0, None)) \<rparr>))"

definition pg_tmbk_aref :: "t_tmbk \<Rightarrow> nat \<Rightarrow> coder_or_ask option" where
  "pg_tmbk_aref this klass = klass_to_coder this klass"

text \<open>\<open>GC.compact\<close> moves classes, so the cache is cleared; \<open>moved\<close> is the hash with the new addresses.\<close>

definition pg_tmbk_compact :: "(nat \<Rightarrow> coder_or_ask option) \<Rightarrow> t_tmbk \<Rightarrow> t_tmbk" where
  "pg_tmbk_compact moved this = this\<lparr> klass_to_coder := moved, klass_cache_row := (\<lambda>_. (0, None)) \<rparr>"

section \<open>Type maps by MRI type\<close>

definition mri_types :: "string list" where
  "mri_types = [''T_FIXNUM'', ''T_TRUE'', ''T_FALSE'', ''T_FLOAT'', ''T_BIGNUM'', ''T_COMPLEX'', ''T_RATIONAL'',
     ''T_ARRAY'', ''T_STRING'', ''T_SYMBOL'', ''T_OBJECT'', ''T_CLASS'', ''T_MODULE'', ''T_REGEXP'', ''T_HASH'',
     ''T_STRUCT'', ''T_FILE'', ''T_DATA'']"

fun mri_type_name :: "rb_type \<Rightarrow> string" where
  "mri_type_name T_FIXNUM = ''T_FIXNUM''"
| "mri_type_name T_BIGNUM = ''T_BIGNUM''"
| "mri_type_name T_TRUE = ''T_TRUE''"
| "mri_type_name T_FALSE = ''T_FALSE''"
| "mri_type_name T_FLOAT = ''T_FLOAT''"
| "mri_type_name T_STRING = ''T_STRING''"
| "mri_type_name T_SYMBOL = ''T_SYMBOL''"
| "mri_type_name T_ARRAY = ''T_ARRAY''"
| "mri_type_name T_DATA = ''T_DATA''"
| "mri_type_name T_NIL = ''T_NIL''"
| "mri_type_name T_UNDEF = ''T_UNDEF''"

text \<open>\<open>ask_T\<close> is \<open>rb_obj_method(self, coder)\<close> for a Symbol, the object itself otherwise.\<close>

record mri_converter =
  mri_coder :: "t_pg_coder option"
  mri_ask :: "coder_or_ask option"
  mri_coder_obj :: "coder_or_ask option"

record t_tmbmt =
  tmbmt_self :: rvalue
  mri_coders :: "string \<Rightarrow> mri_converter"

definition pg_tmbmt_s_allocate :: "rvalue \<Rightarrow> t_tmbmt" where
  "pg_tmbmt_s_allocate self =
     \<lparr> tmbmt_self = self, mri_coders = (\<lambda>_. \<lparr> mri_coder = None, mri_ask = None, mri_coder_obj = None \<rparr>) \<rparr>"

definition pg_tmbmt_aset :: "string \<Rightarrow> coder_or_ask option \<Rightarrow> t_tmbmt \<Rightarrow> t_tmbmt res" where
  "pg_tmbmt_aset mri_type coder this =
     (if mri_type \<in> set mri_types then
        Inr (this\<lparr> mri_coders := (mri_coders this)(mri_type :=
          (case coder of
             None \<Rightarrow> \<lparr> mri_coder = None, mri_ask = None, mri_coder_obj = coder \<rparr>
           | Some (A_coder c) \<Rightarrow> \<lparr> mri_coder = Some c, mri_ask = None, mri_coder_obj = coder \<rparr>
           | Some a \<Rightarrow> \<lparr> mri_coder = None, mri_ask = Some a, mri_coder_obj = coder \<rparr>)) \<rparr>)
      else Inl (Raise ArgError ''unknown mri_type %s'' []))"

definition pg_tmbmt_aref :: "t_tmbmt \<Rightarrow> string \<Rightarrow> coder_or_ask option res" where
  "pg_tmbmt_aref this mri_type =
     (if mri_type \<in> set mri_types then Inr (mri_coder_obj (mri_coders this mri_type))
      else Inl (Raise ArgError ''unknown mri_type %s'' []))"

definition pg_tmbmt_coders :: "t_tmbmt \<Rightarrow> (string \<times> coder_or_ask option) list" where
  "pg_tmbmt_coders this = map (\<lambda>t. (t, mri_coder_obj (mri_coders this t))) mri_types"

text \<open>The coder of the type map itself; \<open>None\<close> leaves the value to the default type map.\<close>

definition pg_tmbmt_typecast_query_param :: "tm_api \<Rightarrow> t_tmbmt \<Rightarrow> rvalue \<Rightarrow> t_pg_coder option res" where
  "pg_tmbmt_typecast_query_param tm this param_value =
     (let t = mri_type_name (TYPE_of param_value);
          ce = (if t \<in> set mri_types then mri_coders this t else \<lparr> mri_coder = None, mri_ask = None, mri_coder_obj = None \<rparr>);
          check = (\<lambda>r. rbind r (\<lambda>obj. case obj of Ret_coder c \<Rightarrow> Inr (Some c) | _ \<Rightarrow> Inl wrong_coder))
      in case mri_ask ce of
           Some (A_symbol m) \<Rightarrow> check (rb_ask_symbol tm (tmbmt_self this) m param_value)
         | Some (A_proc p) \<Rightarrow> check (rb_ask_call tm p param_value)
         | _ \<Rightarrow> Inr (mri_coder ce))"

section \<open>Type map objects\<close>

text \<open>
  A type map object: its class, its data and its default type map. The function pointers of
  \<open>t_typemap\<close> are the dispatch on the constructor below; a base \<open>PG::TypeMap\<close> implements nothing.
\<close>

datatype typemap =
    TypeMap
  | TypeMapAllStrings
  | TypeMapByColumn "t_pg_coder option list" typemap
  | TypeMapByOid t_tmbo typemap
  | TypeMapByClass t_tmbk typemap
  | TypeMapByMriType t_tmbmt typemap
  | TypeMapInRuby rvalue typemap

abbreviation not_suitable :: "string \<Rightarrow> rb_exc" where
  "not_suitable what \<equiv> Raise NotImpError what []"

definition pg_typemap_fit_to_result :: "'a res" where
  "pg_typemap_fit_to_result = Inl (not_suitable ''type map %s is not suitable to map result values'')"

definition pg_typemap_fit_to_query :: "'a res" where
  "pg_typemap_fit_to_query = Inl (not_suitable ''type map %s is not suitable to map query params'')"

definition pg_typemap_fit_to_copy_get :: "'a res" where
  "pg_typemap_fit_to_copy_get = Inl (not_suitable ''type map %s is not suitable to map get_copy_data results'')"

definition pg_typemap_result_value :: "'a res" where
  "pg_typemap_result_value = Inl (not_suitable ''type map is not suitable to map result values'')"

definition pg_typemap_typecast_query_param :: "'a res" where
  "pg_typemap_typecast_query_param = Inl (not_suitable ''type map is not suitable to map query params'')"

definition pg_typemap_typecast_copy_get :: "'a res" where
  "pg_typemap_typecast_copy_get = Inl (not_suitable ''type map is not suitable to map get_copy_data results'')"

fun default_typemap :: "typemap \<Rightarrow> typemap" where
  "default_typemap (TypeMapByColumn cs d) = d"
| "default_typemap (TypeMapByOid t d) = d"
| "default_typemap (TypeMapByClass t d) = d"
| "default_typemap (TypeMapByMriType t d) = d"
| "default_typemap (TypeMapInRuby s d) = d"
| "default_typemap t = t"

fun set_default_typemap :: "typemap \<Rightarrow> typemap \<Rightarrow> typemap" where
  "set_default_typemap (TypeMapByColumn cs d) d' = TypeMapByColumn cs d'"
| "set_default_typemap (TypeMapByOid t d) d' = TypeMapByOid t d'"
| "set_default_typemap (TypeMapByClass t d) d' = TypeMapByClass t d'"
| "set_default_typemap (TypeMapByMriType t d) d' = TypeMapByMriType t d'"
| "set_default_typemap (TypeMapInRuby s d) d' = TypeMapInRuby s d'"
| "set_default_typemap t d' = t"

section \<open>Fitting to a query or to COPY data\<close>

definition pg_tmbc_fit_to_query :: "t_pg_coder option list \<Rightarrow> rvalue \<Rightarrow> unit res" where
  "pg_tmbc_fit_to_query convs params =
     (case params of
        RArray ps \<Rightarrow>
          if length convs \<noteq> length ps
          then Inl (Raise ArgError ''number of result fields (%d) does not match number of mapped columns (%d)''
                 [int (length ps), int (length convs)])
          else Inr ()
      | _ \<Rightarrow> Inl (Raise TypeError ''wrong argument type (expected Array)'' []))"

definition pg_tmir_fit_to_query :: "tm_api \<Rightarrow> rvalue \<Rightarrow> rvalue \<Rightarrow> unit res" where
  "pg_tmir_fit_to_query tm self params =
     (case tmir_fit_to_query tm self of Some f \<Rightarrow> f params | None \<Rightarrow> Inr ())"

fun fit_to_query :: "tm_api \<Rightarrow> typemap \<Rightarrow> rvalue \<Rightarrow> unit res" where
  "fit_to_query tm TypeMap params = pg_typemap_fit_to_query"
| "fit_to_query tm TypeMapAllStrings params = Inr ()"
| "fit_to_query tm (TypeMapByColumn convs d) params =
     rbind (pg_tmbc_fit_to_query convs params) (\<lambda>_. fit_to_query tm d params)"
| "fit_to_query tm (TypeMapByOid t d) params = pg_typemap_fit_to_query"
| "fit_to_query tm (TypeMapByClass t d) params = fit_to_query tm d params"
| "fit_to_query tm (TypeMapByMriType t d) params = fit_to_query tm d params"
| "fit_to_query tm (TypeMapInRuby self d) params =
     rbind (pg_tmir_fit_to_query tm self params) (\<lambda>_. fit_to_query tm d params)"

definition pg_tmir_fit_to_copy_get :: "rb_api \<Rightarrow> tm_api \<Rightarrow> rvalue \<Rightarrow> int res \<Rightarrow> int res" where
  "pg_tmir_fit_to_copy_get rb tm self dflt =
     rbind (case tmir_fit_to_copy_get tm self of Some r \<Rightarrow> r | None \<Rightarrow> Inr (RInteger 0)) (\<lambda>num_columns.
       case num_columns of
         RInteger n \<Rightarrow> rbind dflt (\<lambda>_. num2 32 (rb_dbl2int rb) num_columns)
       | _ \<Rightarrow> Inl (Raise TypeError ''wrong return type from fit_to_copy_get: %s expected kind of Integer'' []))"

fun fit_to_copy_get :: "rb_api \<Rightarrow> tm_api \<Rightarrow> typemap \<Rightarrow> int res" where
  "fit_to_copy_get rb tm TypeMapAllStrings = Inr 0"
| "fit_to_copy_get rb tm (TypeMapByColumn convs d) =
     rbind (fit_to_copy_get rb tm d) (\<lambda>_. Inr (int (length convs)))"
| "fit_to_copy_get rb tm (TypeMapInRuby self d) = pg_tmir_fit_to_copy_get rb tm self (fit_to_copy_get rb tm d)"
| "fit_to_copy_get rb tm _ = pg_typemap_fit_to_copy_get"

section \<open>Casting query parameters\<close>

text \<open>\<open>this->convs[field]\<close>: the number of fields was checked by \<open>fit_to_query\<close> before.\<close>

definition tmbc_conv :: "t_pg_coder option list \<Rightarrow> int \<Rightarrow> t_pg_coder option res" where
  "tmbc_conv convs field =
     (if 0 \<le> field \<and> field < int (length convs) then Inr (convs ! nat field) else Inl MemFault)"

definition pg_tmir_query_param :: "tm_api \<Rightarrow> rvalue \<Rightarrow> rvalue \<Rightarrow> int \<Rightarrow> t_pg_coder option res option" where
  "pg_tmir_query_param tm self param_value field =
     map_option (\<lambda>f. rbind (f param_value field) (\<lambda>coder. case coder of
         Ret_nil \<Rightarrow> Inr None | Ret_coder c \<Rightarrow> Inr (Some c)
       | Ret_other \<Rightarrow> Inl (Raise TypeError
           ''wrong return type from typecast_query_param: %s expected nil or kind of PG::Coder'' [])))
       (tmir_typecast_query_param tm self)"

text \<open>
  The coder of a parameter, \<open>None\<close> for NULL, and the type map with its caches written. Where
  TypeMapInRuby's method is not overridden, the C method asks the default type map.
\<close>

fun typecast_query_param :: "tm_api \<Rightarrow> typemap \<Rightarrow> rvalue \<Rightarrow> int \<Rightarrow> (t_pg_coder option \<times> typemap) res" where
  "typecast_query_param tm TypeMapAllStrings param_value field = Inr (None, TypeMapAllStrings)"
| "typecast_query_param tm (TypeMapByColumn convs d) param_value field =
     rbind (tmbc_conv convs field) (\<lambda>p_coder. case p_coder of
         Some c \<Rightarrow> Inr (Some c, TypeMapByColumn convs d)
       | None \<Rightarrow> rbind (typecast_query_param tm d param_value field) (\<lambda>(c, d'). Inr (c, TypeMapByColumn convs d')))"
| "typecast_query_param tm (TypeMapByClass this d) param_value field =
     rbind (pg_tmbk_lookup_klass tm this (rb_obj_class tm param_value) param_value) (\<lambda>(p_coder, this).
       case p_coder of
         Some c \<Rightarrow> Inr (Some c, TypeMapByClass this d)
       | None \<Rightarrow> rbind (typecast_query_param tm d param_value field) (\<lambda>(c, d'). Inr (c, TypeMapByClass this d')))"
| "typecast_query_param tm (TypeMapByMriType this d) param_value field =
     rbind (pg_tmbmt_typecast_query_param tm this param_value) (\<lambda>p_coder. case p_coder of
         Some c \<Rightarrow> Inr (Some c, TypeMapByMriType this d)
       | None \<Rightarrow> rbind (typecast_query_param tm d param_value field) (\<lambda>(c, d'). Inr (c, TypeMapByMriType this d')))"
| "typecast_query_param tm (TypeMapInRuby self d) param_value field =
     (case pg_tmir_query_param tm self param_value field of
        Some r \<Rightarrow> rbind r (\<lambda>c. Inr (c, TypeMapInRuby self d))
      | None \<Rightarrow> rbind (typecast_query_param tm d param_value field) (\<lambda>(c, d'). Inr (c, TypeMapInRuby self d')))"
| "typecast_query_param tm _ param_value field = pg_typemap_typecast_query_param"

primrec query_param_loop :: "tm_api \<Rightarrow> typemap \<Rightarrow> int \<Rightarrow> rvalue list \<Rightarrow> (t_pg_coder option list \<times> typemap) res" where
  "query_param_loop tm this i [] = Inr ([], this)"
| "query_param_loop tm this i (p # ps) =
     rbind (typecast_query_param tm this p i) (\<lambda>(c, this).
     rbind (query_param_loop tm this (i + 1) ps) (\<lambda>(cs, this). Inr (c # cs, this)))"

definition pg_typemap_query_param_encoders :: "tm_api \<Rightarrow> typemap \<Rightarrow> rvalue \<Rightarrow> (t_pg_coder option list \<times> typemap) res" where
  "pg_typemap_query_param_encoders tm this params =
     (case params of
        RArray ps \<Rightarrow> rbind (fit_to_query tm this params) (\<lambda>_. query_param_loop tm this 0 ps)
      | _ \<Rightarrow> Inl (Raise TypeError ''wrong argument type (expected Array)'' []))"

section \<open>Casting COPY fields\<close>

text \<open>The field as a String, and whether it is the object \<open>field_str\<close> itself.\<close>

definition pg_tmas_typecast_copy_get :: "bytes \<Rightarrow> int \<Rightarrow> enc_idx \<Rightarrow> (rvalue \<times> bool) res" where
  "pg_tmas_typecast_copy_get field_str format enc_idx =
     Inr (RString field_str (if format = 0 then enc_idx else rb_ascii8bit_encindex), True)"

text \<open>
  Without a coder \<open>pg_coder_dec_func\<close> is one of the two string decoders; a coder with a C function is
  compared with them by \<open>is_string_dec\<close>.
\<close>

definition pg_tmbc_typecast_copy_get ::
    "rb_api \<Rightarrow> (t_pg_coder \<Rightarrow> bool) \<Rightarrow> t_pg_coder option list \<Rightarrow> bytes \<Rightarrow> int \<Rightarrow> int \<Rightarrow> enc_idx \<Rightarrow> (rvalue \<times> bool) res option" where
  "pg_tmbc_typecast_copy_get rb is_string_dec convs field_str fieldno format enc_idx =
     (if fieldno \<ge> int (length convs) \<or> fieldno < 0
      then Some (Inl (Raise ArgError ''number of copy fields (%d) exceeds number of mapped columns (%d)''
             [fieldno, int (length convs)]))
      else map_option (\<lambda>c. rbind (pg_coder_dec_func rb (Some c) (format \<noteq> 0) field_str 0 fieldno enc_idx)
             (\<lambda>v. Inr (v, is_string_dec c))) (convs ! nat fieldno))"

fun typecast_copy_get ::
    "rb_api \<Rightarrow> tm_api \<Rightarrow> (t_pg_coder \<Rightarrow> bool) \<Rightarrow> typemap \<Rightarrow> bytes \<Rightarrow> int \<Rightarrow> int \<Rightarrow> enc_idx \<Rightarrow> (rvalue \<times> bool) res" where
  "typecast_copy_get rb tm isd TypeMapAllStrings field_str fieldno format enc_idx =
     pg_tmas_typecast_copy_get field_str format enc_idx"
| "typecast_copy_get rb tm isd (TypeMapByColumn convs d) field_str fieldno format enc_idx =
     (case pg_tmbc_typecast_copy_get rb isd convs field_str fieldno format enc_idx of
        Some r \<Rightarrow> r | None \<Rightarrow> typecast_copy_get rb tm isd d field_str fieldno format enc_idx)"
| "typecast_copy_get rb tm isd (TypeMapInRuby self d) field_str fieldno format enc_idx =
     (case tmir_typecast_copy_get tm self of
        Some f \<Rightarrow> rbind (f (RString field_str 0) fieldno format (rb_enc_from_encoding rb enc_idx)) (\<lambda>v. Inr (v, False))
      | None \<Rightarrow> rbind (typecast_copy_get rb tm isd d field_str fieldno format enc_idx) (\<lambda>(v, _). Inr (v, False)))"
| "typecast_copy_get rb tm isd _ field_str fieldno format enc_idx = pg_typemap_typecast_copy_get"

section \<open>Casting result values\<close>

definition pg_tmas_result_value :: "pgresult \<Rightarrow> enc_idx \<Rightarrow> int \<Rightarrow> int \<Rightarrow> rvalue res" where
  "pg_tmas_result_value r enc_idx tuple field =
     (case PQfield r tuple field of
        None \<Rightarrow> Inr Qnil
      | Some val \<Rightarrow> if PQfformat r field = 0 then pg_text_dec_string val tuple field enc_idx
                    else pg_bin_dec_bytea val tuple field enc_idx)"

definition pg_tmbc_result_value ::
    "rb_api \<Rightarrow> t_pg_coder option list \<Rightarrow> pgresult \<Rightarrow> enc_idx \<Rightarrow> int \<Rightarrow> int \<Rightarrow> rvalue option res" where
  "pg_tmbc_result_value rb convs r enc_idx tuple field =
     (case PQfield r tuple field of
        None \<Rightarrow> Inr (Some Qnil)
      | Some val \<Rightarrow> rbind (tmbc_conv convs field) (\<lambda>p_coder. case p_coder of
          Some c \<Rightarrow> rbind (pg_coder_dec_func rb (Some c) (PQfformat r field \<noteq> 0) val tuple field enc_idx) (\<lambda>v. Inr (Some v))
        | None \<Rightarrow> Inr None))"

definition pg_tmbo_result_value ::
    "rb_api \<Rightarrow> hashes \<Rightarrow> t_tmbo \<Rightarrow> pgresult \<Rightarrow> enc_idx \<Rightarrow> int \<Rightarrow> int \<Rightarrow> (rvalue option \<times> t_tmbo) res" where
  "pg_tmbo_result_value rb hs this r enc_idx tuple field =
     (case PQfield r tuple field of
        None \<Rightarrow> Inr (Some Qnil, this)
      | Some val \<Rightarrow>
          let format = PQfformat r field in
          if format < 0 \<or> format > 1
          then Inl (Raise ArgError ''result field %d has unsupported format code %d'' [field + 1, format])
          else
            let (p_coder, this) = pg_tmbo_lookup_oid hs this format (PQftype r field) in
            (case p_coder of
               Some c \<Rightarrow> rbind (pg_coder_dec_func rb (Some c) (format \<noteq> 0) val tuple field enc_idx) (\<lambda>v. Inr (Some v, this))
             | None \<Rightarrow> Inr (None, this)))"

fun typecast_result_value ::
    "rb_api \<Rightarrow> tm_api \<Rightarrow> hashes \<Rightarrow> typemap \<Rightarrow> pgresult \<Rightarrow> enc_idx \<Rightarrow> int \<Rightarrow> int \<Rightarrow> (rvalue \<times> typemap) res" where
  "typecast_result_value rb tm hs TypeMapAllStrings r enc_idx tuple field =
     rbind (pg_tmas_result_value r enc_idx tuple field) (\<lambda>v. Inr (v, TypeMapAllStrings))"
| "typecast_result_value rb tm hs (TypeMapByColumn convs d) r enc_idx tuple field =
     rbind (pg_tmbc_result_value rb convs r enc_idx tuple field) (\<lambda>x. case x of
         Some v \<Rightarrow> Inr (v, TypeMapByColumn convs d)
       | None \<Rightarrow> rbind (typecast_result_value rb tm hs d r enc_idx tuple field) (\<lambda>(v, d'). Inr (v, TypeMapByColumn convs d')))"
| "typecast_result_value rb tm hs (TypeMapByOid this d) r enc_idx tuple field =
     rbind (pg_tmbo_result_value rb hs this r enc_idx tuple field) (\<lambda>(x, this). case x of
         Some v \<Rightarrow> Inr (v, TypeMapByOid this d)
       | None \<Rightarrow> rbind (typecast_result_value rb tm hs d r enc_idx tuple field) (\<lambda>(v, d'). Inr (v, TypeMapByOid this d')))"
| "typecast_result_value rb tm hs (TypeMapInRuby self d) r enc_idx tuple field =
     (case tmir_typecast_result_value tm self of
        Some f \<Rightarrow> rbind (f r tuple field) (\<lambda>v. Inr (v, TypeMapInRuby self d))
      | None \<Rightarrow> rbind (typecast_result_value rb tm hs d r enc_idx tuple field) (\<lambda>(v, d'). Inr (v, TypeMapInRuby self d')))"
| "typecast_result_value rb tm hs _ r enc_idx tuple field = pg_typemap_result_value"

section \<open>Fitting to a result\<close>

text \<open>The coders of the columns by their type and format, and the map with its cache written.\<close>

primrec tmbo_columns :: "hashes \<Rightarrow> pgresult \<Rightarrow> nat \<Rightarrow> int \<Rightarrow> t_tmbo \<Rightarrow> (t_pg_coder option list \<times> t_tmbo) res" where
  "tmbo_columns hs r 0 i this = Inr ([], this)"
| "tmbo_columns hs r (Suc n) i this =
     (let format = PQfformat r i in
      if format < 0 \<or> format > 1
      then Inl (Raise ArgError ''result field %d has unsupported format code %d'' [i + 1, format])
      else
        let (c, this) = pg_tmbo_lookup_oid hs this format (PQftype r i) in
        rbind (tmbo_columns hs r n (i + 1) this) (\<lambda>(cs, this). Inr (c # cs, this)))"

definition pg_tmbo_build_type_map_for_result2 :: "hashes \<Rightarrow> t_tmbo \<Rightarrow> pgresult \<Rightarrow> (typemap \<times> t_tmbo) res" where
  "pg_tmbo_build_type_map_for_result2 hs this r =
     rbind (tmbo_columns hs r (nat (PQnfields r)) 0 this) (\<lambda>(convs, this).
       Inr (TypeMapByColumn convs TypeMapAllStrings, this))"

text \<open>
  The type map to use for a result, whether it is the same object, and the type map itself with its
  caches written. (TypeMapInRuby's own \<open>fit_to_result\<close> method is left out: the type maps below have
  none.)
\<close>

fun fit_to_result :: "hashes \<Rightarrow> typemap \<Rightarrow> pgresult \<Rightarrow> (typemap \<times> bool \<times> typemap) res" where
  "fit_to_result hs TypeMapAllStrings r = Inr (TypeMapAllStrings, True, TypeMapAllStrings)"
| "fit_to_result hs (TypeMapByColumn convs d) r =
     (let nfields = PQnfields r in
      if int (length convs) \<noteq> nfields
      then Inl (Raise ArgError ''number of result fields (%d) does not match number of mapped columns (%d)''
             [nfields, int (length convs)])
      else rbind (fit_to_result hs d r) (\<lambda>(sub, same, d').
        Inr (TypeMapByColumn convs sub, same, TypeMapByColumn convs d')))"
| "fit_to_result hs (TypeMapByOid this d) r =
     rbind (fit_to_result hs d r) (\<lambda>(sub, same, d').
       if PQntuples r \<le> max_rows_for_online_lookup this
       then Inr (TypeMapByOid this sub, same, TypeMapByOid this d')
       else rbind (pg_tmbo_build_type_map_for_result2 hs this r) (\<lambda>(new_typemap, this).
         Inr (set_default_typemap new_typemap sub, False, TypeMapByOid this d')))"
| "fit_to_result hs (TypeMapInRuby self d) r =
     rbind (fit_to_result hs d r) (\<lambda>(sub, same, d').
       Inr (TypeMapInRuby self sub, same, TypeMapInRuby self d'))"
| "fit_to_result hs _ r = pg_typemap_fit_to_result"

text \<open>
  \<open>TypeMapByColumn.new\<close>: the argument is an Array of nil and PG::Coder objects, or no Array; the object
  may be frozen already when \<open>initialize\<close> is called again.
\<close>

fun tmbc_convs :: "elem_arg list \<Rightarrow> t_pg_coder option list res" where
  "tmbc_convs [] = Inr []"
| "tmbc_convs (Elem_nil # cs) = rbind (tmbc_convs cs) (\<lambda>r. Inr (None # r))"
| "tmbc_convs (Elem_coder c # cs) = rbind (tmbc_convs cs) (\<lambda>r. Inr (Some c # r))"
| "tmbc_convs (Elem_other # cs) = Inl wrong_coder"

definition pg_tmbc_init :: "bool \<Rightarrow> elem_arg list option \<Rightarrow> typemap res" where
  "pg_tmbc_init frozen conv_ary =
     (if frozen then Inl frozen_error
      else case conv_ary of
        None \<Rightarrow> Inl (Raise TypeError ''wrong argument type (expected Array)'' [])
      | Some cs \<Rightarrow> rbind (tmbc_convs cs) (\<lambda>convs. Inr (TypeMapByColumn convs TypeMapAllStrings)))"

definition pg_tmbc_coders :: "t_pg_coder option list \<Rightarrow> rvalue" where
  "pg_tmbc_coders convs = RArray (map (\<lambda>c. case c of Some conv \<Rightarrow> coder_obj conv | None \<Rightarrow> Qnil) convs)"

section \<open>The cache by OID\<close>

text \<open>What a user can do with a type map by OID and its hashes, and the lookups in between.\<close>

inductive tmbo_reachable :: "rb_api \<Rightarrow> hashes \<times> t_tmbo \<Rightarrow> bool" for rb where
  allocated: "tmbo_reachable rb (pg_tmbo_s_allocate a hs)"
| add_coder: "tmbo_reachable rb s \<Longrightarrow> pg_tmbo_add_coder c s = Inr s' \<Longrightarrow> tmbo_reachable rb s'"
| rm_coder: "tmbo_reachable rb s \<Longrightarrow> pg_tmbo_rm_coder rb format oid s = Inr (c, s') \<Longrightarrow> tmbo_reachable rb s'"
| max_rows: "tmbo_reachable rb (hs, this) \<Longrightarrow> pg_tmbo_max_rows_for_online_lookup_set rb n this = Inr this' \<Longrightarrow>
    tmbo_reachable rb (hs, this')"
| lookup: "tmbo_reachable rb (hs, this) \<Longrightarrow> format \<in> {0, 1} \<Longrightarrow> pg_tmbo_lookup_oid hs this format oid = (c, this') \<Longrightarrow>
    tmbo_reachable rb (hs, this')"
| other_maps: "tmbo_reachable rb (hs, this) \<Longrightarrow> (\<And>format. format \<in> {0, 1} \<Longrightarrow> hs' (oid_to_coder this format) = hs (oid_to_coder this format)) \<Longrightarrow>
    tmbo_reachable rb (hs', this)"

text \<open>The mapping that the hash of a format stands for, as the function behind the cache.\<close>

definition hash_fun :: "hashes \<Rightarrow> t_tmbo \<Rightarrow> int \<Rightarrow> oid \<Rightarrow> t_pg_coder option option" where
  "hash_fun hs this format oid = Some (hs (oid_to_coder this format) (uint oid))"

definition tmbo_inv :: "hashes \<times> t_tmbo \<Rightarrow> bool" where
  "tmbo_inv = (\<lambda>(hs, this). oid_to_coder this 0 \<noteq> oid_to_coder this 1 \<and>
     (\<forall>format\<in>{0, 1}. oid_cache.coherent (oid_cache_row this format) (hash_fun hs this format)))"

lemma tmbo_invD:
  "tmbo_inv (hs, this) \<Longrightarrow> format \<in> {0, 1} \<Longrightarrow> oid_cache.coherent (oid_cache_row this format) (hash_fun hs this format)"
  by (auto simp: tmbo_inv_def)

lemma tmbo_invI:
  "oid_to_coder this 0 \<noteq> oid_to_coder this 1 \<Longrightarrow>
     (\<And>g. g \<in> {0, 1} \<Longrightarrow> oid_cache.coherent (oid_cache_row this g) (hash_fun hs this g)) \<Longrightarrow> tmbo_inv (hs, this)"
  by (simp add: tmbo_inv_def)

lemma tmbo_inv_ne:
  "tmbo_inv (hs, this) \<Longrightarrow> f \<in> {0, 1} \<Longrightarrow> g \<in> {0, 1} \<Longrightarrow> g \<noteq> f \<Longrightarrow> oid_to_coder this g \<noteq> oid_to_coder this f"
  by (auto simp: tmbo_inv_def)

lemma uint_inj32: "uint (a :: oid) = uint b \<longleftrightarrow> a = b"
  by (simp add: word_uint_eq_iff)

lemma hash_fun_cong:
  "oid_to_coder this' = oid_to_coder this \<Longrightarrow> hs' (oid_to_coder this g) = hs (oid_to_coder this g) \<Longrightarrow>
     hash_fun hs' this' g = hash_fun hs this g"
  by (simp add: hash_fun_def fun_eq_iff)

lemma lookup_oid_inv:
  assumes "tmbo_inv (hs, this)" "format \<in> {0, 1}" "pg_tmbo_lookup_oid hs this format oid = (c, this')"
  shows "tmbo_inv (hs, this') \<and> c = hs (oid_to_coder this format) (uint oid)"
proof (cases "oid_cache_hit oid (oid_cache_row this format (CACHE_LOOKUP_oid oid))")
  case True
  with assms oid_cache.coherent_hit [OF tmbo_invD [OF assms(1,2)] TrueI True]
  show ?thesis by (auto simp: pg_tmbo_lookup_oid_def hash_fun_def)
next
  case False
  have "oid_cache.coherent ((oid_cache_row this format)(CACHE_LOOKUP_oid oid := (oid, c))) (hash_fun hs this format)"
    using assms False by (intro oid_cache.coherent_fill [OF tmbo_invD [OF assms(1,2)]]) (auto simp: pg_tmbo_lookup_oid_def hash_fun_def Let_def)
  moreover have "this' = this\<lparr> oid_cache_row := (oid_cache_row this)(format := (oid_cache_row this format)(CACHE_LOOKUP_oid oid := (oid, c))) \<rparr>"
    "c = hs (oid_to_coder this format) (uint oid)"
    using assms(3) False by (auto simp: pg_tmbo_lookup_oid_def Let_def)
  moreover have "hash_fun hs this' g = hash_fun hs this g" for g
    using calculation(2) by (intro hash_fun_cong) simp_all
  ultimately show ?thesis using assms(1) by (auto simp: tmbo_inv_def)
qed

lemma add_coder_inv:
  assumes inv: "tmbo_inv s" and add: "pg_tmbo_add_coder c s = Inr s'"
  shows "tmbo_inv s'"
proof -
  obtain hs this where s: "s = (hs, this)" by (cases s)
  let ?f = "coder_format c" and ?o = "coder_oid c"
  let ?row = "(oid_cache_row this)(?f := (oid_cache_row this ?f)(CACHE_LOOKUP_oid ?o := (?o, Some c)))"
  let ?hs = "hs(oid_to_coder this ?f := (hs (oid_to_coder this ?f))(uint ?o := Some c))"
  from add have f: "?f \<in> {0, 1}" and s': "s' = (?hs, this\<lparr> oid_cache_row := ?row \<rparr>)"
    by (auto simp: pg_tmbo_add_coder_def s Let_def split: if_splits)
  have coh: "oid_cache.coherent (?row g) (hash_fun ?hs (this\<lparr> oid_cache_row := ?row \<rparr>) g)" if g: "g \<in> {0, 1}" for g
  proof (cases "g = ?f")
    case True
    then have "oid_cache.coherent ((oid_cache_row this ?f)(CACHE_LOOKUP_oid ?o := (?o, Some c)))
        (hash_fun ?hs (this\<lparr> oid_cache_row := ?row \<rparr>) ?f)"
      using inv f s by (intro oid_cache.coherent_put [OF tmbo_invD]) (auto simp: hash_fun_def uint_inj32)
    with True show ?thesis by simp
  next
    case False
    then have "oid_to_coder this g \<noteq> oid_to_coder this ?f" using tmbo_inv_ne [OF inv [unfolded s] f g] by simp
    then have "hash_fun ?hs (this\<lparr> oid_cache_row := ?row \<rparr>) g = hash_fun hs this g" by (intro hash_fun_cong) simp_all
    with False tmbo_invD [OF inv [unfolded s] g] show ?thesis by (simp only: fun_upd_other not_False_eq_True)
  qed
  show ?thesis unfolding s'
  proof (rule tmbo_invI)
    show "oid_to_coder (this\<lparr> oid_cache_row := ?row \<rparr>) 0 \<noteq> oid_to_coder (this\<lparr> oid_cache_row := ?row \<rparr>) 1"
      using inv s by (simp add: tmbo_inv_def)
  qed (use coh in simp)
qed

lemma rm_coder_inv:
  assumes inv: "tmbo_inv s" and rm: "pg_tmbo_rm_coder rb format oid s = Inr (c, s')"
  shows "tmbo_inv s'"
proof -
  obtain hs this where s: "s = (hs, this)" by (cases s)
  obtain f where f0: "num2 32 (rb_dbl2int rb) format = Inr f"
    using rm unfolding pg_tmbo_rm_coder_def s by (cases "num2 32 (rb_dbl2int rb) format") simp_all
  obtain u where u: "num2uint (rb_dbl2int rb) oid = Inr u"
    using rm unfolding pg_tmbo_rm_coder_def s by (cases "num2uint (rb_dbl2int rb) oid") (simp_all add: f0 split: if_splits)
  let ?row = "(oid_cache_row this)(f := (oid_cache_row this f)(CACHE_LOOKUP_oid u := (0, None)))"
  define hs' where "hs' = (case oid of RInteger k \<Rightarrow> hs(oid_to_coder this f := (hs (oid_to_coder this f))(k := None)) | _ \<Rightarrow> hs)"
  have f: "f \<in> {0, 1}" and r: "s' = (hs', this\<lparr> oid_cache_row := ?row \<rparr>)"
    using rm unfolding pg_tmbo_rm_coder_def s hs'_def
    by (auto simp: f0 u Let_def split: if_splits rvalue.splits)
  have other: "a \<noteq> oid_to_coder this f \<Longrightarrow> hs' a = hs a" for a by (simp add: hs'_def split: rvalue.split)
  have key: "v \<noteq> u \<Longrightarrow> hs' (oid_to_coder this f) (uint v) = hs (oid_to_coder this f) (uint v)" for v
    using u by (cases oid) (auto simp: hs'_def num2uint_def split: if_splits)
  have coh: "oid_cache.coherent (?row g) (hash_fun hs' (this\<lparr> oid_cache_row := ?row \<rparr>) g)" if g: "g \<in> {0, 1}" for g
  proof (cases "g = f")
    case True
    then have "oid_cache.coherent ((oid_cache_row this f)(CACHE_LOOKUP_oid u := (0, None))) (hash_fun hs' (this\<lparr> oid_cache_row := ?row \<rparr>) f)"
      by (intro oid_cache.coherent_drop [OF tmbo_invD [OF inv [unfolded s] f]]) (auto simp: hash_fun_def intro: key)
    with True show ?thesis by simp
  next
    case False
    then have "oid_to_coder this g \<noteq> oid_to_coder this f" using tmbo_inv_ne [OF inv [unfolded s] f g] by simp
    then have "hash_fun hs' (this\<lparr> oid_cache_row := ?row \<rparr>) g = hash_fun hs this g"
      by (intro hash_fun_cong) (simp_all add: other)
    with False tmbo_invD [OF inv [unfolded s] g] show ?thesis by (simp only: fun_upd_other not_False_eq_True)
  qed
  show ?thesis unfolding r
  proof (rule tmbo_invI)
    show "oid_to_coder (this\<lparr> oid_cache_row := ?row \<rparr>) 0 \<noteq> oid_to_coder (this\<lparr> oid_cache_row := ?row \<rparr>) 1"
      using inv s by (simp add: tmbo_inv_def)
  qed (use coh in simp)
qed

lemma tmbo_reachable_inv: "tmbo_reachable rb s \<Longrightarrow> tmbo_inv s"
proof (induction rule: tmbo_reachable.induct)
  case (allocated a hs)
  show ?case using oid_cache.coherent_zeroed by (simp add: tmbo_inv_def pg_tmbo_s_allocate_def)
next
  case (max_rows hs this n this')
  then have "oid_to_coder this' = oid_to_coder this" "oid_cache_row this' = oid_cache_row this"
    by (auto simp: pg_tmbo_max_rows_for_online_lookup_set_def rbind_Inr_iff split: if_splits)
  with max_rows.IH hash_fun_cong [OF this(1), of hs _ hs] show ?case by (simp add: tmbo_inv_def)
next
  case (lookup hs this format oid c this')
  then show ?case using lookup_oid_inv by blast
next
  case (other_maps hs this hs')
  have "hash_fun hs' this g = hash_fun hs this g" if "g \<in> {0, 1}" for g
    using other_maps.hyps(2) [OF that] by (intro hash_fun_cong) simp_all
  with other_maps.IH show ?case by (simp add: tmbo_inv_def)
qed (blast intro: add_coder_inv rm_coder_inv)+


lemma lookup_oid_hash:
  "tmbo_inv (hs, this) \<Longrightarrow> format \<in> {0, 1} \<Longrightarrow>
     fst (pg_tmbo_lookup_oid hs this format oid) = hs (oid_to_coder this format) (uint oid)"
  using lookup_oid_inv [of hs this format oid] by (metis prod.collapse)

lemma add_coder_lookup:
  assumes inv: "tmbo_inv (hs, this)" and f: "format \<in> {0, 1}" and add: "pg_tmbo_add_coder c (hs, this) = Inr (hs', this')"
  shows "fst (pg_tmbo_lookup_oid hs' this' format oid) =
    (if format = coder_format c \<and> oid = coder_oid c then Some c else fst (pg_tmbo_lookup_oid hs this format oid))"
proof -
  from add have c: "coder_format c \<in> {0, 1}" and o: "oid_to_coder this' = oid_to_coder this"
    and hs': "hs' = hs(oid_to_coder this (coder_format c) := (hs (oid_to_coder this (coder_format c)))(uint (coder_oid c) := Some c))"
    by (auto simp: pg_tmbo_add_coder_def Let_def split: if_splits)
  show ?thesis
    using tmbo_inv_ne [OF inv c f] lookup_oid_hash [OF inv f] lookup_oid_hash [OF add_coder_inv [OF inv add] f]
    by (auto simp: o hs' uint_inj32)
qed

lemma rm_coder_lookup:
  assumes inv: "tmbo_inv (hs, this)" and f: "format \<in> {0, 1}"
    and rm: "pg_tmbo_rm_coder rb (RInteger g) (RInteger (uint k)) (hs, this) = Inr (c, hs', this')"
  shows "c = fst (pg_tmbo_lookup_oid hs this g k) \<and> fst (pg_tmbo_lookup_oid hs' this' format oid) =
    (if format = g \<and> oid = k then None else fst (pg_tmbo_lookup_oid hs this format oid))"
proof -
  from rm have g: "g \<in> {0, 1}" and o: "oid_to_coder this' = oid_to_coder this" and c: "c = hs (oid_to_coder this g) (uint k)"
    and hs': "hs' = hs(oid_to_coder this g := (hs (oid_to_coder this g))(uint k := None))"
    by (auto simp: pg_tmbo_rm_coder_def rbind_Inr_iff Let_def split: if_splits)
  show ?thesis
    using tmbo_inv_ne [OF inv g f] lookup_oid_hash [OF inv f] lookup_oid_hash [OF inv g]
      lookup_oid_hash [OF rm_coder_inv [OF inv rm] f]
    by (auto simp: o hs' c uint_inj32)
qed

section \<open>The cache by class\<close>

text \<open>The class map without its cache.\<close>

definition answer :: "coder_ret res \<Rightarrow> t_pg_coder option res" where
  "answer r = rbind r (\<lambda>obj. case obj of Ret_nil \<Rightarrow> Inr None | Ret_coder c \<Rightarrow> Inr (Some c) | Ret_other \<Rightarrow> Inl wrong_coder)"

definition tmbk_spec :: "tm_api \<Rightarrow> t_tmbk \<Rightarrow> nat \<Rightarrow> rvalue \<Rightarrow> t_pg_coder option res" where
  "tmbk_spec tm this klass v =
     (case find_ancestor (klass_to_coder this) (klass # drop 1 (rb_mod_ancestors tm klass)) of
        None \<Rightarrow> Inr None
      | Some (A_coder c) \<Rightarrow> Inr (Some c)
      | Some (A_symbol m) \<Rightarrow> answer (rb_ask_symbol tm (tmbk_self this) m v)
      | Some (A_proc p) \<Rightarrow> answer (rb_ask_call tm p v))"

text \<open>
  The states of a class map, with the class hierarchy it meets: \<open>GC.compact\<close> moves the classes, so
  their addresses and ancestors may be others afterwards.
\<close>

inductive tmbk_reachable :: "tm_api \<Rightarrow> t_tmbk \<Rightarrow> bool" where
  allocated: "tmbk_reachable tm (pg_tmbk_s_allocate self)"
| aset: "tmbk_reachable tm this \<Longrightarrow> pg_tmbk_aset klass coder this = Inr this' \<Longrightarrow> tmbk_reachable tm this'"
| lookup: "tmbk_reachable tm this \<Longrightarrow> pg_tmbk_lookup_klass tm this klass v = Inr (c, this') \<Longrightarrow> tmbk_reachable tm this'"
| compacted: "tmbk_reachable tm this \<Longrightarrow> tmbk_reachable tm' (pg_tmbk_compact moved this)"

definition klass_fun :: "tm_api \<Rightarrow> t_tmbk \<Rightarrow> nat \<Rightarrow> t_pg_coder option option" where
  "klass_fun tm this klass =
     (case klass_entry tm this klass of None \<Rightarrow> Some None | Some (A_coder c) \<Rightarrow> Some (Some c) | _ \<Rightarrow> None)"

lemma klass_entry_find: "klass_entry tm this klass = find_ancestor (klass_to_coder this) (klass # drop 1 (rb_mod_ancestors tm klass))"
  by (simp add: klass_entry_def split: option.split)

lemma klass_fun_cache [simp]: "klass_fun tm (this\<lparr> klass_cache_row := row \<rparr>) = klass_fun tm this"
  by (simp add: klass_fun_def klass_entry_find fun_eq_iff)

lemma tmbk_spec_fun: "klass_fun tm this klass = Some c \<Longrightarrow> tmbk_spec tm this klass v = Inr c"
  by (simp add: klass_fun_def tmbk_spec_def klass_entry_find split: option.splits coder_or_ask.splits)

lemma lookup_klass_miss:
  assumes "\<not> klass_cache_hit klass (klass_cache_row this (CACHE_LOOKUP_klass klass))"
  shows "pg_tmbk_lookup_klass tm this klass v =
    (case klass_fun tm this klass of
       Some c \<Rightarrow> Inr (c, this\<lparr> klass_cache_row := (klass_cache_row this)(CACHE_LOOKUP_klass klass := (klass, c)) \<rparr>)
     | None \<Rightarrow> rbind (tmbk_spec tm this klass v) (\<lambda>c. Inr (c, this)))"
proof -
  have ask: "rbind r (\<lambda>obj. case obj of Ret_nil \<Rightarrow> Inr (None, this) | Ret_coder c \<Rightarrow> Inr (Some c, this) | Ret_other \<Rightarrow> Inl wrong_coder)
      = rbind (answer r) (\<lambda>c. Inr (c, this))" for r
    by (cases r) (auto simp: answer_def split: coder_ret.split)
  show ?thesis using assms
    unfolding pg_tmbk_lookup_klass_def klass_fun_def tmbk_spec_def ask klass_entry_find [symmetric] Let_def
    by (auto split: option.split coder_or_ask.split)
qed

lemma lookup_klass_inv:
  assumes coh: "klass_cache.coherent (klass_cache_row this) (klass_fun tm this)"
    and l: "pg_tmbk_lookup_klass tm this klass v = Inr (c, this')"
  shows "klass_cache.coherent (klass_cache_row this') (klass_fun tm this')"
proof (cases "klass_cache_hit klass (klass_cache_row this (CACHE_LOOKUP_klass klass))")
  case True
  with l coh show ?thesis by (simp add: pg_tmbk_lookup_klass_def Let_def)
next
  case False
  with l coh klass_cache.coherent_fill [OF coh] show ?thesis
    by (auto simp: lookup_klass_miss rbind_Inr_iff split: option.splits)
qed

lemma tmbk_reachable_inv: "tmbk_reachable tm this \<Longrightarrow> klass_cache.coherent (klass_cache_row this) (klass_fun tm this)"
proof (induction rule: tmbk_reachable.induct)
  case (lookup tm this klass v c this')
  then show ?case using lookup_klass_inv by blast
qed (auto simp: pg_tmbk_s_allocate_def pg_tmbk_aset_def pg_tmbk_compact_def klass_cache.coherent_zeroed split: if_splits)

lemma lookup_klass_spec:
  assumes "klass_cache.coherent (klass_cache_row this) (klass_fun tm this)" "0 < klass"
  shows "rbind (pg_tmbk_lookup_klass tm this klass v) (\<lambda>(c, _). Inr c) = tmbk_spec tm this klass v"
proof (cases "klass_cache_hit klass (klass_cache_row this (CACHE_LOOKUP_klass klass))")
  case True
  with klass_cache.coherent_hit [OF assms True] show ?thesis
    by (simp add: pg_tmbk_lookup_klass_def Let_def tmbk_spec_fun)
next
  case False
  then show ?thesis
    by (auto simp: lookup_klass_miss rbind_assoc tmbk_spec_fun split: option.split)
qed

section \<open>Indices into the column coders\<close>

text \<open>
  The Ruby code behind type maps may raise, but neither aborts nor corrupts memory; \<open>tm_sample\<close> is
  an instance without any such code, in which every value has the class 256.
\<close>

definition tm_api_ok :: "tm_api \<Rightarrow> bool" where
  "tm_api_ok tm \<longleftrightarrow>
     (\<forall>s m v. safe (rb_ask_symbol tm s m v)) \<and> (\<forall>p v. safe (rb_ask_call tm p v)) \<and>
     (\<forall>s f ps. tmir_fit_to_query tm s = Some f \<longrightarrow> safe (f ps)) \<and>
     (\<forall>s f v i. tmir_typecast_query_param tm s = Some f \<longrightarrow> safe (f v i)) \<and>
     (\<forall>s f r t i. tmir_typecast_result_value tm s = Some f \<longrightarrow> safe (f r t i) \<and> f r t i \<noteq> Inr Qundef) \<and>
     (\<forall>s f v i j w. tmir_typecast_copy_get tm s = Some f \<longrightarrow> safe (f v i j w)) \<and>
     (\<forall>s r. tmir_fit_to_copy_get tm s = Some r \<longrightarrow> safe r)"

definition tm_sample :: tm_api where
  "tm_sample = \<lparr> rb_obj_class = (\<lambda>_. 256), rb_mod_ancestors = (\<lambda>c. [c, 512]),
     rb_ask_symbol = (\<lambda>_ _ _. Inr Ret_nil), rb_ask_call = (\<lambda>_ _. Inr Ret_nil),
     tmir_fit_to_query = (\<lambda>_. None), tmir_fit_to_copy_get = (\<lambda>_. None), tmir_typecast_query_param = (\<lambda>_. None),
     tmir_typecast_copy_get = (\<lambda>_. None), tmir_typecast_result_value = (\<lambda>_. None) \<rparr>"

lemma tm_api_ok_sample [simp]: "tm_api_ok tm_sample"
  by (simp add: tm_api_ok_def tm_sample_def)

lemma tm_api_okD:
  assumes "tm_api_ok tm"
  shows "safe (rb_ask_symbol tm s m v)" "safe (rb_ask_call tm p v)"
    "tmir_fit_to_query tm s = Some f \<Longrightarrow> safe (f ps)"
    "tmir_typecast_query_param tm s = Some g \<Longrightarrow> safe (g v i)"
    "tmir_typecast_result_value tm s = Some h \<Longrightarrow> safe (h r t i)"
    "tmir_typecast_copy_get tm s = Some q \<Longrightarrow> safe (q v i j w)"
    "tmir_fit_to_copy_get tm s = Some u \<Longrightarrow> safe u"
    "tmir_typecast_result_value tm s = Some h \<Longrightarrow> h r t i \<noteq> Inr Qundef"
  using assms unfolding tm_api_ok_def by simp_all

text \<open>Every map by column in the chain of default type maps has \<open>n\<close> columns.\<close>

fun columns_fit :: "nat \<Rightarrow> typemap \<Rightarrow> bool" where
  "columns_fit n (TypeMapByColumn convs d) \<longleftrightarrow> length convs = n \<and> columns_fit n d"
| "columns_fit n (TypeMapByOid t d) \<longleftrightarrow> columns_fit n d"
| "columns_fit n (TypeMapByClass t d) \<longleftrightarrow> columns_fit n d"
| "columns_fit n (TypeMapByMriType t d) \<longleftrightarrow> columns_fit n d"
| "columns_fit n (TypeMapInRuby s d) \<longleftrightarrow> columns_fit n d"
| "columns_fit n t \<longleftrightarrow> True"

lemma fit_to_query_columns: "fit_to_query tm this (RArray ps) = Inr () \<Longrightarrow> columns_fit (length ps) this"
  by (induction this)
    (auto simp: pg_tmbc_fit_to_query_def rbind_Inr_iff pg_typemap_fit_to_query_def split: if_splits)

lemma fit_to_query_safe: "tm_api_ok tm \<Longrightarrow> safe (fit_to_query tm this ps)"
proof (induction this)
  case (TypeMapInRuby s d)
  then show ?case using tm_api_okD(3) [OF TypeMapInRuby.prems, of s]
    by (cases "tmir_fit_to_query tm s") (auto simp: pg_tmir_fit_to_query_def intro!: safe_rbind)
qed (auto simp: pg_tmbc_fit_to_query_def pg_typemap_fit_to_query_def intro!: safe_rbind split: rvalue.splits)

lemma lookup_klass_safe: "tm_api_ok tm \<Longrightarrow> safe (pg_tmbk_lookup_klass tm this klass v)"
  by (auto simp: pg_tmbk_lookup_klass_def Let_def intro!: safe_rbind tm_api_okD(1,2)
      split: option.splits coder_or_ask.splits coder_ret.splits)

lemma tmbmt_safe: "tm_api_ok tm \<Longrightarrow> safe (pg_tmbmt_typecast_query_param tm this v)"
  unfolding pg_tmbmt_typecast_query_param_def Let_def
  by (auto intro!: safe_rbind tm_api_okD(1,2) split: option.split coder_or_ask.split coder_ret.split)

lemma query_param_safe:
  assumes ok: "tm_api_ok tm" and i: "0 \<le> i" "i < int n"
  shows "columns_fit n this \<Longrightarrow> safe (typecast_query_param tm this v i)"
proof (induction this)
  case (TypeMapByColumn convs d)
  then have "i < int (length convs)" using i(2) by simp
  then show ?case using TypeMapByColumn i
    by (auto simp: tmbc_conv_def intro!: safe_rbind split: option.split)
next
  case (TypeMapInRuby s d)
  then show ?case using tm_api_okD(4) [OF ok, of s]
    by (cases "tmir_typecast_query_param tm s") (auto simp: pg_tmir_query_param_def intro!: safe_rbind split: coder_ret.split)
qed (auto intro!: safe_rbind lookup_klass_safe tmbmt_safe ok split: option.split
    simp: pg_typemap_typecast_query_param_def)

lemma query_param_columns:
  "typecast_query_param tm this v i = Inr (c, this') \<Longrightarrow> columns_fit n this \<Longrightarrow> columns_fit n this'"
  by (induction this arbitrary: c this')
    (fastforce simp: rbind_Inr_iff pg_typemap_typecast_query_param_def split: option.splits prod.splits)+

lemma query_param_loop_safe:
  assumes "tm_api_ok tm"
  shows "columns_fit n this \<Longrightarrow> 0 \<le> i \<Longrightarrow> i + int (length ps) \<le> int n \<Longrightarrow> safe (query_param_loop tm this i ps)"
proof (induction ps arbitrary: this i)
  case (Cons p ps)
  show ?case unfolding query_param_loop.simps
  proof (rule safe_rbind)
    show "safe (typecast_query_param tm this p i)"
      using Cons.prems by (intro query_param_safe [OF assms]) auto
    fix x assume x: "typecast_query_param tm this p i = Inr x"
    obtain c this' where x': "x = (c, this')" by (cases x)
    have "safe (query_param_loop tm this' (i + 1) ps)"
      using Cons.prems query_param_columns [OF x [unfolded x']] by (intro Cons.IH) auto
    then show "safe (case x of (c, this) \<Rightarrow> rbind (query_param_loop tm this (i + 1) ps) (\<lambda>(cs, this). Inr (c # cs, this)))"
      by (auto simp: x' intro!: safe_rbind)
  qed
qed simp

section \<open>Values of a fitted result\<close>

text \<open>
  A type map is ready for a result when its column maps have the number of fields of the result and
  every decoder it can come upon is well behaved.
\<close>

definition tmbo_good :: "hashes \<Rightarrow> t_tmbo \<Rightarrow> bool" where
  "tmbo_good hs this \<longleftrightarrow> (\<forall>f oid. good_decoder (hs (oid_to_coder this f) oid)) \<and> (\<forall>f i. good_decoder (snd (oid_cache_row this f i)))"

fun result_ready :: "hashes \<Rightarrow> nat \<Rightarrow> typemap \<Rightarrow> bool" where
  "result_ready hs n (TypeMapByColumn convs d) \<longleftrightarrow> length convs = n \<and> list_all good_decoder convs \<and> result_ready hs n d"
| "result_ready hs n (TypeMapByOid t d) \<longleftrightarrow> tmbo_good hs t \<and> result_ready hs n d"
| "result_ready hs n (TypeMapInRuby s d) \<longleftrightarrow> result_ready hs n d"
| "result_ready hs n t \<longleftrightarrow> True"

text \<open>The same without the number of columns: what is asked of a type map before it is fitted.\<close>

fun decoders_good :: "hashes \<Rightarrow> typemap \<Rightarrow> bool" where
  "decoders_good hs (TypeMapByColumn convs d) \<longleftrightarrow> list_all good_decoder convs \<and> decoders_good hs d"
| "decoders_good hs (TypeMapByOid t d) \<longleftrightarrow> tmbo_good hs t \<and> decoders_good hs d"
| "decoders_good hs (TypeMapInRuby s d) \<longleftrightarrow> decoders_good hs d"
| "decoders_good hs t \<longleftrightarrow> True"

lemma lookup_oid_good:
  "tmbo_good hs this \<Longrightarrow> pg_tmbo_lookup_oid hs this f oid = (c, this') \<Longrightarrow> good_decoder c \<and> tmbo_good hs this'"
  by (auto simp: pg_tmbo_lookup_oid_def tmbo_good_def Let_def split: if_splits)

lemma tmbo_columns_good:
  "tmbo_columns hs r n i this = Inr (cs, this') \<Longrightarrow> tmbo_good hs this \<Longrightarrow>
     length cs = n \<and> list_all good_decoder cs \<and> tmbo_good hs this'"
  by (induction n arbitrary: i this cs this')
    (fastforce simp: rbind_Inr_iff Let_def split: if_splits prod.splits dest: lookup_oid_good)+

lemma tmbo_columns_safe: "safe (tmbo_columns hs r n i this)"
  by (induction n arbitrary: i this) (auto simp: Let_def intro!: safe_rbind split: prod.split)

lemma fit_to_result_ready:
  "fit_to_result hs this r = Inr (this', same, this'') \<Longrightarrow> decoders_good hs this \<Longrightarrow>
     result_ready hs (nat (PQnfields r)) this' \<and> decoders_good hs this''"
proof (induction this arbitrary: this' same this'')
  case (TypeMapByOid t d)
  then show ?case
    by (fastforce simp: rbind_Inr_iff pg_tmbo_build_type_map_for_result2_def split: if_splits prod.splits
        dest: tmbo_columns_good)
qed (fastforce simp: rbind_Inr_iff pg_typemap_fit_to_result_def Let_def split: if_splits)+

lemma fit_to_result_safe: "safe (fit_to_result hs this r)"
  by (induction this)
    (auto simp: pg_typemap_fit_to_result_def pg_tmbo_build_type_map_for_result2_def Let_def
      intro!: safe_rbind tmbo_columns_safe split: prod.split)

lemma PQfield_Some: "PQfield r tuple field = Some v \<Longrightarrow> 0 \<le> field \<and> field < PQnfields r"
  by (simp add: PQfield_def split: if_splits)

lemma tmbc_result_safe:
  assumes "rb_api_ok rb" "length convs = nat (PQnfields r)" "list_all good_decoder convs"
  shows "safe (pg_tmbc_result_value rb convs r e tuple field)"
proof (cases "PQfield r tuple field")
  case (Some v)
  then have "0 \<le> field" "field < int (length convs)" using PQfield_Some [OF Some] assms(2) by auto
  moreover from this have "good_decoder (convs ! nat field)" using assms(3) by (simp add: list_all_length)
  ultimately show ?thesis using Some dec_func_safe [OF assms(1)]
    by (auto simp: pg_tmbc_result_value_def tmbc_conv_def intro!: safe_rbind split: option.split)
qed (simp add: pg_tmbc_result_value_def)

lemma tmbo_result_safe:
  assumes "rb_api_ok rb" "tmbo_good hs this"
  shows "safe (pg_tmbo_result_value rb hs this r e tuple field)"
  using assms lookup_oid_good [OF assms(2)] dec_func_safe [OF assms(1)]
  by (fastforce simp: pg_tmbo_result_value_def Let_def intro!: safe_rbind split: option.split prod.split)

lemma tmbo_result_good:
  "pg_tmbo_result_value rb hs this r e tuple field = Inr (v, this') \<Longrightarrow> tmbo_good hs this \<Longrightarrow> tmbo_good hs this'"
  by (auto simp: pg_tmbo_result_value_def Let_def rbind_Inr_iff split: option.splits prod.splits if_splits
      dest: lookup_oid_good)

lemma result_value_safe:
  assumes "rb_api_ok rb" "tm_api_ok tm"
  shows "result_ready hs (nat (PQnfields r)) this \<Longrightarrow> safe (typecast_result_value rb tm hs this r e tuple field)"
proof (induction this)
  case TypeMapAllStrings
  then show ?case by (auto simp: pg_tmas_result_value_def pg_text_dec_string_def pg_bin_dec_bytea_def split: option.split)
next
  case (TypeMapInRuby s d)
  then show ?case using tm_api_okD(5) [OF assms(2), of s]
    by (cases "tmir_typecast_result_value tm s") (auto intro!: safe_rbind)
qed (auto simp: pg_typemap_result_value_def intro!: safe_rbind tmbc_result_safe tmbo_result_safe assms split: option.split)

lemma result_value_ready:
  "typecast_result_value rb tm hs this r e tuple field = Inr (v, this') \<Longrightarrow> result_ready hs n this \<Longrightarrow> result_ready hs n this'"
  by (induction this arbitrary: v this')
    (fastforce simp: rbind_Inr_iff pg_typemap_result_value_def split: option.splits prod.splits dest: tmbo_result_good)+

lemma tmbc_result_defined:
  assumes "rb_api_ok rb" "list_all good_decoder convs" "pg_tmbc_result_value rb convs r e tuple field = Inr (Some v)"
  shows "v \<noteq> Qundef"
proof (cases "PQfield r tuple field")
  case None
  then show ?thesis using assms(3) by (auto simp: pg_tmbc_result_value_def)
next
  case (Some val)
  from assms(3) Some obtain c where c: "tmbc_conv convs field = Inr (Some c)"
    "pg_coder_dec_func rb (Some c) (PQfformat r field \<noteq> 0) val tuple field e = Inr v"
    by (auto simp: pg_tmbc_result_value_def rbind_Inr_iff split: option.splits)
  then have "good_decoder (Some c)" using assms(2)
    by (auto simp: tmbc_conv_def list_all_length split: if_splits dest!: spec [of _ "nat field"])
  then show ?thesis using dec_func_defined [OF assms(1), of "Some c"] c(2) by metis
qed

lemma tmbo_result_defined:
  assumes "rb_api_ok rb" "tmbo_good hs this" "pg_tmbo_result_value rb hs this r e tuple field = Inr (Some v, this')"
  shows "v \<noteq> Qundef"
proof (cases "PQfield r tuple field")
  case None
  then show ?thesis using assms(3) by (auto simp: pg_tmbo_result_value_def)
next
  case (Some val)
  obtain c this2 where l: "pg_tmbo_lookup_oid hs this (PQfformat r field) (PQftype r field) = (c, this2)" by fastforce
  have good: "good_decoder c" using lookup_oid_good [OF assms(2) l] by blast
  from assms(3) Some l obtain b where "pg_coder_dec_func rb c b val tuple field e = Inr v"
    by (auto simp: pg_tmbo_result_value_def rbind_Inr_iff Let_def split: option.splits if_splits)
  then show ?thesis using dec_func_defined [OF assms(1) good] by metis
qed

lemma result_value_defined:
  assumes "rb_api_ok rb" "tm_api_ok tm"
  shows "result_ready hs n this \<Longrightarrow> typecast_result_value rb tm hs this r e tuple field = Inr (v, this') \<Longrightarrow> v \<noteq> Qundef"
proof (induction this arbitrary: this')
  case TypeMapAllStrings
  then show ?case
    by (auto simp: pg_tmas_result_value_def pg_text_dec_string_def pg_bin_dec_bytea_def rbind_Inr_iff split: option.splits if_splits)
next
  case (TypeMapByColumn convs d)
  then show ?case using tmbc_result_defined [OF assms(1), of convs r e tuple field v]
    by (auto simp: rbind_Inr_iff split: option.splits)
next
  case (TypeMapByOid t d)
  then show ?case using tmbo_result_defined [OF assms(1), of hs t r e tuple field v]
    by (auto simp: rbind_Inr_iff split: option.splits)
next
  case (TypeMapInRuby s d)
  then show ?case using tm_api_okD(8) [OF assms(2), of s]
    by (auto simp: rbind_Inr_iff split: option.splits)
qed (simp_all add: pg_typemap_result_value_def)

section \<open>Properties\<close>


definition sample_tmbo :: "hashes \<times> t_tmbo" where
  "sample_tmbo = pg_tmbo_s_allocate 0 (\<lambda>_. Map.empty)"




text \<open>Selecting the encoders of query parameters never reads outside of the coder table of a
  type map by column, also where such a map is the default of another map: \<open>fit_to_query\<close> has
  compared the number of parameters with every table before.\<close>

theorem query_param_encoders_safe:
  assumes "tm_api_ok tm"
  shows "safe (pg_typemap_query_param_encoders tm this params)"
proof (cases params)
  case (RArray ps)
  have "safe (query_param_loop tm this 0 ps)" if "fit_to_query tm this (RArray ps) = Inr ()"
    using fit_to_query_columns [OF that] by (intro query_param_loop_safe [OF assms]) auto
  then show ?thesis
    using fit_to_query_safe [OF assms] by (auto simp: pg_typemap_query_param_encoders_def RArray intro!: safe_rbind)
qed (simp_all add: pg_typemap_query_param_encoders_def)

theorem query_param_encoders_safe_witness:
  "safe (pg_typemap_query_param_encoders tm_sample
     (TypeMapByClass (pg_tmbk_s_allocate Qnil) (TypeMapByColumn [None, None] TypeMapAllStrings)) (RArray [Qtrue, Qtrue]))"
  by (rule query_param_encoders_safe) simp

text \<open>When \<open>fit_to_result\<close> copies a type map by OID, the copy has a cache of its own but
  shares the hashes: after the coder is removed from the original map, the copy still answers it
  from its cache, though no hash holds it any more.\<close>

theorem oid_copy_keeps_removed_coder:
  assumes "pg_tmbo_add_coder c (hs, this) = Inr (hs1, this1)"
    and "fit_to_result hs1 (TypeMapByOid this1 d) r = Inr (TypeMapByOid copy d', False, tm')"
    and "pg_tmbo_rm_coder rb (RInteger (coder_format c)) (RInteger (uint (coder_oid c))) (hs1, this1) = Inr (x, hs2, this2)"
  shows "fst (pg_tmbo_lookup_oid hs2 copy (coder_format c) (coder_oid c)) = Some c \<and>
    hs2 (oid_to_coder copy (coder_format c)) (uint (coder_oid c)) = None"
proof -
  have "copy = this1" using assms(2)
    by (auto simp: rbind_Inr_iff pg_tmbo_build_type_map_for_result2_def split: if_splits)
  moreover have "oid_cache_row this1 (coder_format c) (CACHE_LOOKUP_oid (coder_oid c)) = (coder_oid c, Some c)"
    using assms(1) by (auto simp: pg_tmbo_add_coder_def Let_def split: if_splits)
  moreover have "hs2 (oid_to_coder this1 (coder_format c)) (uint (coder_oid c)) = None"
    using assms(3) by (auto simp: pg_tmbo_rm_coder_def rbind_Inr_iff Let_def split: if_splits)
  ultimately show ?thesis unfolding pg_tmbo_lookup_oid_def Let_def oid_cache_hit_def by (simp only: simp_thms fst_conv snd_conv if_True option.distinct)
qed

definition sample_int4 :: t_pg_coder where
  "sample_int4 = (pg_simple_decoder_allocate Qnil None)\<lparr> coder_oid := 23 \<rparr>"

definition one_row :: pgresult where
  "one_row = \<lparr> pq_rows = [[Some (lit ''1'')]], pq_ftypes = [23], pq_fformats = [0] \<rparr>"

theorem oid_copy_keeps_removed_coder_witness:
  "\<exists>hs1 this1 copy hs2 this2.
     pg_tmbo_add_coder sample_int4 sample_tmbo = Inr (hs1, this1) \<and>
     pg_tmbo_rm_coder rb_sample (RInteger 0) (RInteger 23) (hs1, this1) = Inr (Some sample_int4, hs2, this2) \<and>
     fst (pg_tmbo_lookup_oid hs2 this2 0 23) = None \<and>
     fst (pg_tmbo_lookup_oid hs2 copy 0 23) = Some sample_int4"
proof -
  let ?d = "TypeMapByOid ((snd (pg_tmbo_s_allocate 2 (\<lambda>_. Map.empty)))\<lparr> max_rows_for_online_lookup := 0 \<rparr>) TypeMapAllStrings"
  have c [simp]: "coder_format sample_int4 = 0" "coder_oid sample_int4 = 23"
    by (simp_all add: sample_int4_def pg_simple_decoder_allocate_def pg_coder_init_decoder_def)
  obtain hs this where s: "sample_tmbo = (hs, this)" by (cases sample_tmbo)
  obtain hs1 this1 where a: "pg_tmbo_add_coder sample_int4 (hs, this) = Inr (hs1, this1)"
    using s by (auto simp: pg_tmbo_add_coder_def sample_tmbo_def pg_tmbo_s_allocate_def Let_def)
  obtain copy d' tm' where f: "fit_to_result hs1 (TypeMapByOid this1 ?d) one_row = Inr (TypeMapByOid copy d', False, tm')"
    using a s by (auto simp: one_row_def PQntuples_def PQnfields_def PQfformat_def PQftype_def sample_tmbo_def pg_tmbo_s_allocate_def
        pg_tmbo_add_coder_def pg_tmbo_build_type_map_for_result2_def pg_tmbo_lookup_oid_def oid_cache_hit_def Let_def)
  obtain hs2 this2 where m: "pg_tmbo_rm_coder rb_sample (RInteger 0) (RInteger 23) (hs1, this1) = Inr (Some sample_int4, hs2, this2)"
    and n: "fst (pg_tmbo_lookup_oid hs2 this2 0 23) = None"
    using a s by (auto simp: pg_tmbo_rm_coder_def num2uint_def int_in_def sample_tmbo_def pg_tmbo_s_allocate_def
        pg_tmbo_add_coder_def Let_def pg_tmbo_lookup_oid_def oid_cache_hit_def)
  from oid_copy_keeps_removed_coder [OF a f, of rb_sample "Some sample_int4" hs2 this2] m n a s show ?thesis
    by auto
qed

end
