(* ===== verification/PG_Copy_Coder.thy ===== *)
theory PG_Copy_Coder
  imports PG_Type_Map
begin

text \<open>
  \<open>ext/pg_copy_coder.c\<close>: the coders for one row of COPY data in text and binary format. The encoders
  are \<open>enc_fn\<close>s, so what the type map of the coder writes into its caches lives for one row only;
  caches are transparent (\<open>PG_Type_Map\<close>).
\<close>

section \<open>The coder struct\<close>

record t_pg_copycoder = t_pg_coder +
  copy_typemap :: typemap
  copy_null_string :: rvalue
  copy_delimiter :: byte

definition pg_copycoder_encoder_allocate :: "rvalue \<Rightarrow> (coder_fields \<Rightarrow> enc_fn) option \<Rightarrow> t_pg_copycoder" where
  "pg_copycoder_encoder_allocate self cfunc =
     t_pg_coder.extend (pg_coder_init_encoder self cfunc)
       (t_pg_copycoder.fields TypeMapAllStrings (RString [c_backslash, 0x4E] rb_ascii8bit_encindex) c_tab)"

definition pg_copycoder_decoder_allocate :: "rvalue \<Rightarrow> (coder_fields \<Rightarrow> dec_fn) option \<Rightarrow> t_pg_copycoder" where
  "pg_copycoder_decoder_allocate self cfunc =
     t_pg_coder.extend (pg_coder_init_decoder self cfunc)
       (t_pg_copycoder.fields TypeMapAllStrings (RString [c_backslash, 0x4E] rb_ascii8bit_encindex) c_tab)"

definition pg_copycoder_delimiter_set :: "rb_api \<Rightarrow> rvalue \<Rightarrow> t_pg_copycoder \<Rightarrow> t_pg_copycoder res" where
  "pg_copycoder_delimiter_set rb delim this =
     (if coder_frozen this then Inl frozen_error
      else rbind (rb_StringValue rb delim) (\<lambda>s.
        if length (str_bytes s) \<noteq> 1 then Inl (Raise ArgError ''delimiter size must be one byte'' [])
        else Inr (this\<lparr> copy_delimiter := str_bytes s ! 0 \<rparr>)))"

definition pg_copycoder_delimiter_get :: "t_pg_copycoder \<Rightarrow> rvalue" where
  "pg_copycoder_delimiter_get this = RString [copy_delimiter this] rb_ascii8bit_encindex"

definition pg_copycoder_null_string_set :: "rb_api \<Rightarrow> rvalue \<Rightarrow> t_pg_copycoder \<Rightarrow> t_pg_copycoder res" where
  "pg_copycoder_null_string_set rb null_string this =
     (if coder_frozen this then Inl frozen_error
      else rbind (rb_StringValue rb null_string) (\<lambda>s. Inr (this\<lparr> copy_null_string := s \<rparr>)))"

definition pg_copycoder_null_string_get :: "t_pg_copycoder \<Rightarrow> rvalue" where
  "pg_copycoder_null_string_get this = copy_null_string this"

text \<open>The argument of \<open>type_map=\<close> is a type map or some other object.\<close>

definition pg_copycoder_type_map_set :: "typemap option \<Rightarrow> t_pg_copycoder \<Rightarrow> t_pg_copycoder res" where
  "pg_copycoder_type_map_set type_map this =
     (if coder_frozen this then Inl frozen_error
      else case type_map of
        Some t \<Rightarrow> Inr (this\<lparr> copy_typemap := t \<rparr>)
      | None \<Rightarrow> Inl (Raise TypeError ''wrong elements type %s (expected some kind of PG::TypeMap)'' []))"

definition pg_copycoder_type_map_get :: "t_pg_copycoder \<Rightarrow> typemap" where
  "pg_copycoder_type_map_get this = copy_typemap this"

section \<open>Encoding a row in text format\<close>

definition copy_esc :: "byte \<Rightarrow> byte \<Rightarrow> byte option" where
  "copy_esc delim ch =
     (if ch = c_backslash \<or> ch = c_nl \<or> ch = c_cr \<or> ch = delim then Some c_backslash else None)"

text \<open>
  One field: the two calls of the element encoder and the escaping, of a String while it is
  copied, of bytes stored at the output position in place. The record encoder does the same with
  quotes \<open>q\<close> around the field; here \<open>q\<close> is empty.
\<close>

definition put_escaped ::
    "rb_api \<Rightarrow> (byte \<Rightarrow> byte option) \<Rightarrow> bytes \<Rightarrow> t_pg_coder option \<Rightarrow> rvalue \<Rightarrow> sbuf \<Rightarrow> enc_idx \<Rightarrow> sbuf res" where
  "put_escaped rb esc q p_elem_coder entry str enc_idx =
     (let enc_func = pg_coder_enc_func rb p_elem_coder in
      rbind (enc_func entry False Qundef enc_idx) (\<lambda>(strlen, _, subint).
        if strlen = - 1 then
          let s = str_bytes subint in
          sb_put (q @ escape esc s @ q) (PG_RB_STR_ENSURE_CAPA rb (length s * 2 + 2 * length q) str)
        else
          rbind (sb_put q (PG_RB_STR_ENSURE_CAPA rb (nat strlen * 2 + 2 * length q) str)) (\<lambda>str.
          rbind (enc_func entry True subint enc_idx) (\<lambda>(strlen, s, _).
          rbind (sb_fits s str) (\<lambda>_.
            let m = poke (\<lambda>_. 0) 0 s; n = nat strlen; backslashes = count_escapes esc m 0 n in
            rbind (escape_until esc m 0 n (n + backslashes)) (\<lambda>m.
            rbind (sb_put (peek m 0 (n + backslashes)) str) (\<lambda>str. sb_put q str)))))))"

primrec text_copy_entries ::
    "rb_api \<Rightarrow> tm_api \<Rightarrow> t_pg_copycoder \<Rightarrow> typemap \<Rightarrow> nat \<Rightarrow> rvalue list \<Rightarrow> sbuf \<Rightarrow> enc_idx \<Rightarrow> sbuf res" where
  "text_copy_entries rb tm this p_typemap i [] str enc_idx = Inr str"
| "text_copy_entries rb tm this p_typemap i (entry # rest) str enc_idx =
     rbind (if i > 0 then sb_put [copy_delimiter this] (PG_RB_STR_ENSURE_CAPA rb 1 str) else Inr str) (\<lambda>str.
       if TYPE_of entry = T_NIL then
         let null = str_bytes (copy_null_string this) in
         rbind (sb_put null (PG_RB_STR_ENSURE_CAPA rb (length null) str)) (\<lambda>str.
           text_copy_entries rb tm this p_typemap (i + 1) rest str enc_idx)
       else
         rbind (typecast_query_param tm p_typemap entry (int i)) (\<lambda>(p_elem_coder, p_typemap).
         rbind (put_escaped rb (copy_esc (copy_delimiter this)) [] p_elem_coder entry str enc_idx) (\<lambda>str.
           text_copy_entries rb tm this p_typemap (i + 1) rest str enc_idx)))"

text \<open>
  A value that is no Array is taken for one by \<open>RARRAY_LENINT\<close> and \<open>rb_ary_entry\<close>, which do not check,
  unless the type map has refused it before.
\<close>

definition pg_text_enc_copy_row :: "rb_api \<Rightarrow> tm_api \<Rightarrow> t_pg_copycoder \<Rightarrow> enc_fn" where
  "pg_text_enc_copy_row rb tm this value out intermediate enc_idx =
     rbind (fit_to_query tm (copy_typemap this) value) (\<lambda>_.
       case value of
         RArray vs \<Rightarrow>
           rbind (text_copy_entries rb tm this (copy_typemap this) 0 vs (PG_RB_STR_NEW rb) enc_idx) (\<lambda>str.
           rbind (sb_put [c_nl] (PG_RB_STR_ENSURE_CAPA rb 1 str)) (\<lambda>str.
             Inr (- 1, [], sb_str str enc_idx)))
       | _ \<Rightarrow> Inl MemFault)"

section \<open>Encoding a row in binary format\<close>

primrec bin_copy_entries ::
    "rb_api \<Rightarrow> tm_api \<Rightarrow> typemap \<Rightarrow> nat \<Rightarrow> rvalue list \<Rightarrow> sbuf \<Rightarrow> enc_idx \<Rightarrow> sbuf res" where
  "bin_copy_entries rb tm p_typemap i [] str enc_idx = Inr str"
| "bin_copy_entries rb tm p_typemap i (entry # rest) str enc_idx =
     (if TYPE_of entry = T_NIL then
        rbind (sb_put (write_nbo32 (- 1)) (PG_RB_STR_ENSURE_CAPA rb 4 str)) (\<lambda>str.
          bin_copy_entries rb tm p_typemap (i + 1) rest str enc_idx)
      else
        rbind (typecast_query_param tm p_typemap entry (int i)) (\<lambda>(p_elem_coder, p_typemap).
        let enc_func = pg_coder_enc_func rb p_elem_coder in
        rbind (enc_func entry False Qundef enc_idx) (\<lambda>(strlen, _, subint).
        rbind
          (if strlen = - 1 then
             let s = str_bytes subint; strlen = length s in
             rbind (sb_put (write_nbo32 (int strlen)) (PG_RB_STR_ENSURE_CAPA rb (4 + strlen) str)) (\<lambda>str. sb_put s str)
           else
             rbind (sb_put (write_nbo32 strlen) (PG_RB_STR_ENSURE_CAPA rb (4 + nat strlen) str)) (\<lambda>str.
             rbind (enc_func entry True subint enc_idx) (\<lambda>(strlen, s, _).
             rbind (sb_fits s str) (\<lambda>_. sb_put (take (nat strlen) s) str))))
          (\<lambda>str. bin_copy_entries rb tm p_typemap (i + 1) rest str enc_idx))))"

definition pg_bin_enc_copy_row :: "rb_api \<Rightarrow> tm_api \<Rightarrow> t_pg_copycoder \<Rightarrow> enc_fn" where
  "pg_bin_enc_copy_row rb tm this value out intermediate enc_idx =
     (case value of
        RArray vs \<Rightarrow>
          if length vs \<ge> 32768
          then Inl (Raise ArgError ''too many columns in array for PG::BinaryEncoder::CopyRow: %ld'' [int (length vs)])
          else rbind (fit_to_query tm (copy_typemap this) value) (\<lambda>_.
            rbind (sb_put (write_nbo16 (int (length vs))) (PG_RB_STR_ENSURE_CAPA rb 2 (PG_RB_STR_NEW rb))) (\<lambda>str.
            rbind (bin_copy_entries rb tm (copy_typemap this) 0 vs str enc_idx) (\<lambda>str.
              Inr (- 1, [], sb_str str enc_idx))))
      | _ \<Rightarrow> Inl MemFault)"

section \<open>Decoding a row in text format\<close>

definition GetDecimalFromHex :: "byte \<Rightarrow> int" where
  "GetDecimalFromHex hex =
     (if c_0 \<le> hex \<and> hex \<le> c_9 then uint hex - uint c_0
      else if 0x61 \<le> hex \<and> hex \<le> 0x66 then uint hex - 0x61 + 10
      else if 0x41 \<le> hex \<and> hex \<le> 0x46 then uint hex - 0x41 + 10
      else - 1)"

definition ISOCTAL :: "byte \<Rightarrow> bool" where
  "ISOCTAL c \<longleftrightarrow> c_0 \<le> c \<and> c \<le> 0x37"

definition OCTVALUE :: "byte \<Rightarrow> int" where
  "OCTVALUE c = uint c - uint c_0"

text \<open>A read of the byte at offset \<open>cur\<close> of the input, which need not be terminated.\<close>

definition rd8 :: "bytes \<Rightarrow> nat \<Rightarrow> byte res" where
  "rd8 data cur = (if cur < length data then Inr (data ! cur) else Inl MemFault)"

definition copy_octal :: "bytes \<Rightarrow> nat \<Rightarrow> byte \<Rightarrow> (byte \<times> nat) res" where
  "copy_octal data cur c =
     (let val = OCTVALUE c; end = length data in
      rbind
        (if cur < end then
           rbind (rd8 data cur) (\<lambda>c.
             if ISOCTAL c then
               let cur = cur + 1; val = push_bit 3 val + OCTVALUE c in
               if cur < end then
                 rbind (rd8 data cur) (\<lambda>c.
                   if ISOCTAL c then Inr (push_bit 3 val + OCTVALUE c, cur + 1) else Inr (val, cur))
               else Inr (val, cur)
             else Inr (val, cur))
         else Inr (val, cur))
        (\<lambda>(val, cur). Inr (word_of_int (val AND 0xFF), cur)))"

definition copy_hex :: "bytes \<Rightarrow> nat \<Rightarrow> byte \<Rightarrow> (byte \<times> nat) res" where
  "copy_hex data cur c =
     (let end = length data in
      if cur < end then
        rbind (rd8 data cur) (\<lambda>hexchar.
          let val = GetDecimalFromHex hexchar in
          if val \<ge> 0 then
            rbind
              (let cur = cur + 1 in
               if cur < end then
                 rbind (rd8 data cur) (\<lambda>hexchar.
                   let val2 = GetDecimalFromHex hexchar in
                   if val2 \<ge> 0 then Inr (push_bit 4 val + val2, cur + 1) else Inr (val, cur))
               else Inr (val, cur))
              (\<lambda>(val, cur). Inr (word_of_int (val AND 0xFF), cur))
          else Inr (c, cur))
      else Inr (c, cur))"

text \<open>The \<open>switch\<close> on the byte behind a backslash.\<close>

definition copy_unescape :: "bytes \<Rightarrow> nat \<Rightarrow> byte \<Rightarrow> (byte \<times> nat) res" where
  "copy_unescape data cur c =
     (if ISOCTAL c then copy_octal data cur c
      else if c = 0x78 then copy_hex data cur c
      else if c = 0x62 then Inr (c_bs, cur)
      else if c = 0x66 then Inr (c_ff, cur)
      else if c = 0x6E then Inr (c_nl, cur)
      else if c = 0x72 then Inr (c_cr, cur)
      else if c = 0x74 then Inr (c_tab, cur)
      else if c = 0x76 then Inr (c_vt, cur)
      else Inr (c, cur))"

lemma copy_octal_cur: "copy_octal data cur c = Inr (c', cur') \<Longrightarrow> cur \<le> cur'"
  by (auto simp: copy_octal_def Let_def rbind_Inr_iff split: if_splits)

lemma copy_hex_cur: "copy_hex data cur c = Inr (c', cur') \<Longrightarrow> cur \<le> cur'"
  by (auto simp: copy_hex_def Let_def rbind_Inr_iff split: if_splits)

lemma copy_unescape_cur: "copy_unescape data cur c = Inr (c', cur') \<Longrightarrow> cur \<le> cur'"
  by (auto simp: copy_unescape_def dest: copy_octal_cur copy_hex_cur split: if_splits)

text \<open>The scan of one field: whether a delimiter ended it, the end of the raw field and the new position.\<close>

function copy_scan :: "rb_api \<Rightarrow> byte \<Rightarrow> bytes \<Rightarrow> nat \<Rightarrow> sbuf \<Rightarrow> (bool \<times> nat \<times> nat \<times> sbuf) res" where
  "copy_scan rb delimc data cur field_str =
     (if cur \<ge> length data then Inr (False, cur, cur, field_str)
      else rbind (rd8 data cur) (\<lambda>c.
        if c = delimc then Inr (True, cur, cur + 1, field_str)
        else if c = c_nl then Inr (False, cur, cur + 1, field_str)
        else if c = c_backslash then
          if cur + 1 \<ge> length data then Inr (False, cur, cur + 1, field_str)
          else
            rbind (rd8 data (cur + 1)) (\<lambda>c.
            rbind (copy_unescape data (cur + 2) c) (\<lambda>(c, cur').
            rbind (sb_put [c] (PG_RB_STR_ENSURE_CAPA rb 1 field_str)) (\<lambda>field_str.
              copy_scan rb delimc data cur' field_str)))
        else
          rbind (sb_put [c] (PG_RB_STR_ENSURE_CAPA rb 1 field_str)) (\<lambda>field_str.
            copy_scan rb delimc data (cur + 1) field_str)))"
  by pat_completeness auto
termination
  by (relation "measure (\<lambda>(rb, delimc, data, cur, field_str). length data - cur)")
    (auto dest!: copy_unescape_cur)

declare copy_scan.simps [simp del]

text \<open>\<open>strncmp(a, b, n) == 0\<close> for two areas of \<open>n\<close> bytes: the comparison ends at a common NUL.\<close>

fun strncmp_eq :: "bytes \<Rightarrow> bytes \<Rightarrow> bool" where
  "strncmp_eq (x # xs) (y # ys) \<longleftrightarrow> x = y \<and> (x = 0 \<or> strncmp_eq xs ys)"
| "strncmp_eq _ _ \<longleftrightarrow> True"

lemma copy_scan_cur:
  "copy_scan rb delimc data cur fs = Inr (found, e, cur', fs') \<Longrightarrow> cur \<le> e \<and> (found \<longrightarrow> cur < cur' \<and> cur < length data)"
proof (induction "length data - cur" arbitrary: cur fs rule: less_induct)
  case less
  show ?case
  proof (cases "cur < length data")
    case True
    have IH: "copy_scan rb delimc data k f = Inr (found, e, cur', fs') \<Longrightarrow> cur < k \<Longrightarrow> cur \<le> e \<and> (found \<longrightarrow> cur < cur' \<and> cur < length data)" for k f
      using less.hyps [of k f] True by fastforce
    from less.prems True show ?thesis
      by (subst (asm) copy_scan.simps)
        (auto simp: rbind_Inr_iff rd8_def split: if_splits dest!: IH copy_unescape_cur)
  qed (use less.prems in \<open>simp add: copy_scan.simps\<close>)
qed

text \<open>The outer loop over the fields, with the values decoded so far.\<close>

function text_copy_fields ::
    "rb_api \<Rightarrow> tm_api \<Rightarrow> (t_pg_coder \<Rightarrow> bool) \<Rightarrow> t_pg_copycoder \<Rightarrow> bytes \<Rightarrow> enc_idx \<Rightarrow> nat \<Rightarrow> nat \<Rightarrow> sbuf \<Rightarrow> rvalue list \<Rightarrow> rvalue list res" where
  "text_copy_fields rb tm is_string_dec this data enc_idx fieldno cur field_str array =
     rbind (copy_scan rb (copy_delimiter this) data cur field_str) (\<lambda>(found_delim, end_ptr, cur', field_str).
       if \<not> found_delim \<and> cur' < length data
       then Inl (Raise ArgError ''trailing data after linefeed at position: %ld'' [int cur' + 1])
       else
         let input_len = end_ptr - cur; null = str_bytes (copy_null_string this) in
         rbind
           (if input_len = length null \<and> strncmp_eq (take input_len (drop cur data)) null
            then Inr (Qnil, field_str\<lparr> sb_data := [] \<rparr>)
            else
              rbind (typecast_copy_get rb tm is_string_dec (copy_typemap this) (sb_data field_str) (int fieldno) 0 enc_idx)
                (\<lambda>(field_value, same). Inr (field_value, if same then PG_RB_STR_NEW rb else field_str\<lparr> sb_data := [] \<rparr>)))
           (\<lambda>(v, field_str).
              if \<not> found_delim then Inr (array @ [v])
              else text_copy_fields rb tm is_string_dec this data enc_idx (fieldno + 1) cur' field_str (array @ [v])))"
  by pat_completeness auto
termination
  by (relation "measure (\<lambda>(rb, tm, isd, this, data, e, fieldno, cur, fs, array). length data - cur)")
    (auto dest!: copy_scan_cur)

declare text_copy_fields.simps [simp del]

definition pg_text_dec_copy_row :: "rb_api \<Rightarrow> tm_api \<Rightarrow> (t_pg_coder \<Rightarrow> bool) \<Rightarrow> t_pg_copycoder \<Rightarrow> dec_fn" where
  "pg_text_dec_copy_row rb tm is_string_dec this input_line tuple field enc_idx =
     rbind (fit_to_copy_get rb tm (copy_typemap this)) (\<lambda>expected_fields.
       if expected_fields < 0 then Inl (Raise ArgError ''negative array size (or size too big)'' [])
       else rbind (text_copy_fields rb tm is_string_dec this input_line enc_idx 0 0 (PG_RB_STR_NEW rb) []) (\<lambda>array.
         Inr (RArray array)))"

section \<open>Decoding a row in binary format\<close>

definition BinarySignature :: bytes where
  "BinarySignature = lit ''PGCOPY'' @ [c_nl, 0xFF, c_cr, c_nl, 0]"

definition rd16 :: "bytes \<Rightarrow> nat \<Rightarrow> int res" where
  "rd16 data cur = (if cur + 2 \<le> length data then Inr (read_nbo16 (drop cur data)) else Inl MemFault)"

abbreviation copy_length_error :: "nat \<Rightarrow> rb_exc" where
  "copy_length_error cur \<equiv> Raise ArgError ''premature end of COPY data at position: %ld'' [int cur + 1]"

text \<open>The position behind the signature, flags and header extensions, when the signature is there.\<close>

definition bin_copy_header :: "bytes \<Rightarrow> nat res" where
  "bin_copy_header data =
     (let len = length data in
      if len \<ge> 11 \<and> take 11 data = BinarySignature then
        if len - 11 < 4 then Inl (copy_length_error 11)
        else if len - 15 < 4 then Inl (copy_length_error 15)
        else rbind (rd32 data 15) (\<lambda>ext_bytes.
          if ext_bytes < 0 then Inl (copy_length_error 15)
          else if int (len - 19) < ext_bytes then Inl (copy_length_error 19)
          else Inr (19 + nat ext_bytes))
      else Inr 0)"

primrec bin_copy_fields ::
    "rb_api \<Rightarrow> tm_api \<Rightarrow> (t_pg_coder \<Rightarrow> bool) \<Rightarrow> t_pg_copycoder \<Rightarrow> bytes \<Rightarrow> enc_idx \<Rightarrow> nat \<Rightarrow> nat \<Rightarrow> nat \<Rightarrow> sbuf \<Rightarrow> rvalue list
     \<Rightarrow> (nat \<times> rvalue list) res" where
  "bin_copy_fields rb tm is_string_dec this data enc_idx 0 fieldno cur field_str array = Inr (cur, array)"
| "bin_copy_fields rb tm is_string_dec this data enc_idx (Suc k) fieldno cur field_str array =
     (if length data - cur < 4 then Inl (copy_length_error cur)
      else rbind (rd32 data cur) (\<lambda>input_len.
        let cur = cur + 4 in
        rbind
          (if input_len < 0 then
             if input_len \<noteq> - 1 then Inl (copy_length_error cur) else Inr (Qnil, cur, field_str\<lparr> sb_data := [] \<rparr>)
           else if int (length data - cur) < input_len then Inl (copy_length_error cur)
           else
             let n = nat input_len in
             rbind (sb_put (take n (drop cur data)) (PG_RB_STR_ENSURE_CAPA rb n field_str)) (\<lambda>field_str.
             rbind (typecast_copy_get rb tm is_string_dec (copy_typemap this) (sb_data field_str) (int fieldno) 1 enc_idx)
               (\<lambda>(field_value, same).
                  Inr (field_value, cur + n, if same then PG_RB_STR_NEW rb else field_str\<lparr> sb_data := [] \<rparr>))))
          (\<lambda>(v, cur, field_str).
             bin_copy_fields rb tm is_string_dec this data enc_idx k (fieldno + 1) cur field_str (array @ [v]))))"

definition pg_bin_dec_copy_row :: "rb_api \<Rightarrow> tm_api \<Rightarrow> (t_pg_coder \<Rightarrow> bool) \<Rightarrow> t_pg_copycoder \<Rightarrow> dec_fn" where
  "pg_bin_dec_copy_row rb tm is_string_dec this input_line tuple field enc_idx =
     rbind (fit_to_copy_get rb tm (copy_typemap this)) (\<lambda>expected_fields.
     rbind (bin_copy_header input_line) (\<lambda>cur.
       if length input_line - cur < 2 then Inl (copy_length_error cur)
       else rbind (rd16 input_line cur) (\<lambda>nfields.
         let cur = cur + 2 in
         rbind
           (if nfields < 0 then
              if nfields \<noteq> - 1 then Inl (copy_length_error cur) else Inr (cur, Qnil)
            else if expected_fields < 0 then Inl (Raise ArgError ''negative array size (or size too big)'' [])
            else
              rbind (bin_copy_fields rb tm is_string_dec this input_line enc_idx (nat nfields) 0 cur (PG_RB_STR_NEW rb) [])
                (\<lambda>(cur, array). Inr (cur, RArray array)))
           (\<lambda>(cur, array).
              if cur < length input_line
              then Inl (Raise ArgError ''trailing data after row data at position: %ld'' [int cur + 1])
              else Inr array))))"

section \<open>Type maps with well behaved encoders\<close>

text \<open>Every encoder that the type map can select keeps the two pass contract.\<close>

definition answers_good :: "tm_api \<Rightarrow> bool" where
  "answers_good tm \<longleftrightarrow> tm_api_ok tm \<and>
     (\<forall>s m v c. rb_ask_symbol tm s m v = Inr (Ret_coder c) \<longrightarrow> good_coder (Some c)) \<and>
     (\<forall>p v c. rb_ask_call tm p v = Inr (Ret_coder c) \<longrightarrow> good_coder (Some c)) \<and>
     (\<forall>s f v i c. tmir_typecast_query_param tm s = Some f \<longrightarrow> f v i = Inr (Ret_coder c) \<longrightarrow> good_coder (Some c))"

fun encoders_good :: "typemap \<Rightarrow> bool" where
  "encoders_good (TypeMapByColumn convs d) \<longleftrightarrow> list_all good_coder convs \<and> encoders_good d"
| "encoders_good (TypeMapByClass t d) \<longleftrightarrow>
     (\<forall>k c. klass_to_coder t k = Some (A_coder c) \<longrightarrow> good_coder (Some c)) \<and>
     (\<forall>i. good_coder (snd (klass_cache_row t i))) \<and> encoders_good d"
| "encoders_good (TypeMapByMriType t d) \<longleftrightarrow> (\<forall>n. good_coder (mri_coder (mri_coders t n))) \<and> encoders_good d"
| "encoders_good (TypeMapInRuby s d) \<longleftrightarrow> encoders_good d"
| "encoders_good t \<longleftrightarrow> True"

lemma answers_good_sample [simp]: "answers_good tm_sample"
  by (simp add: answers_good_def) (simp add: tm_sample_def)

lemma find_ancestor_in: "find_ancestor h as = Some x \<Longrightarrow> \<exists>a. h a = Some x"
  by (induction as) (auto split: option.splits)

lemma lookup_klass_good:
  assumes "answers_good tm" "\<forall>k c. klass_to_coder t k = Some (A_coder c) \<longrightarrow> good_coder (Some c)"
    "\<forall>i. good_coder (snd (klass_cache_row t i))" "pg_tmbk_lookup_klass tm t k v = Inr (c, t')"
  shows "good_coder c \<and> klass_to_coder t' = klass_to_coder t \<and> (\<forall>i. good_coder (snd (klass_cache_row t' i)))"
proof (cases "klass_cache_hit k (klass_cache_row t (CACHE_LOOKUP_klass k))")
  case True
  then show ?thesis using assms by (auto simp: pg_tmbk_lookup_klass_def Let_def)
next
  case False
  have entry: "klass_entry tm t k = Some (A_coder c) \<Longrightarrow> good_coder (Some c)" for c
    unfolding klass_entry_find using assms(2) find_ancestor_in by blast
  have ans: "answer r = Inr c \<Longrightarrow> (\<And>c. r = Inr (Ret_coder c) \<Longrightarrow> good_coder (Some c)) \<Longrightarrow> good_coder c" for r c
    by (cases r) (auto simp: answer_def split: coder_ret.splits)
  have good: "answers_good tm \<Longrightarrow> rb_ask_symbol tm s m v = Inr (Ret_coder c) \<Longrightarrow> good_coder (Some c)"
    "answers_good tm \<Longrightarrow> rb_ask_call tm p v = Inr (Ret_coder c) \<Longrightarrow> good_coder (Some c)" for s m p v c
    by (auto simp: answers_good_def)
  have spec: "tmbk_spec tm t k v = (case klass_entry tm t k of None \<Rightarrow> Inr None | Some (A_coder c) \<Rightarrow> Inr (Some c)
      | Some (A_symbol m) \<Rightarrow> answer (rb_ask_symbol tm (tmbk_self t) m v) | Some (A_proc p) \<Rightarrow> answer (rb_ask_call tm p v))"
    by (simp only: tmbk_spec_def klass_entry_find)
  from assms(1,3,4) False show ?thesis
    by (auto simp: lookup_klass_miss klass_fun_def spec rbind_Inr_iff entry
        split: option.splits coder_or_ask.splits dest!: ans intro: good)
qed

lemma mri_good:
  assumes "answers_good tm" "\<forall>n. good_coder (mri_coder (mri_coders t n))" "pg_tmbmt_typecast_query_param tm t v = Inr c"
  shows "good_coder c"
proof -
  have check: "rbind r (\<lambda>obj. case obj of Ret_coder c \<Rightarrow> Inr (Some c) | _ \<Rightarrow> Inl wrong_coder) = Inr c \<Longrightarrow>
      \<exists>d. r = Inr (Ret_coder d) \<and> c = Some d" for r
    by (cases r) (auto split: coder_ret.splits)
  show ?thesis
    using assms unfolding pg_tmbmt_typecast_query_param_def answers_good_def Let_def
    by (auto split: option.splits coder_or_ask.splits if_splits dest!: check)
qed

lemma query_param_good:
  assumes "answers_good tm"
  shows "typecast_query_param tm this v i = Inr (c, this') \<Longrightarrow> encoders_good this \<Longrightarrow> good_coder c \<and> encoders_good this'"
proof (induction this arbitrary: c this')
  case (TypeMapByColumn convs d)
  then obtain p where p: "tmbc_conv convs i = Inr p" by (auto simp: rbind_Inr_iff)
  then have "good_coder p" using TypeMapByColumn.prems(2) by (auto simp: tmbc_conv_def list_all_length split: if_splits)
  then show ?case using TypeMapByColumn p by (auto simp: rbind_Inr_iff split: option.splits)
next
  case (TypeMapByClass t d)
  then obtain p t' where p: "pg_tmbk_lookup_klass tm t (rb_obj_class tm v) v = Inr (p, t')" by (auto simp: rbind_Inr_iff)
  with TypeMapByClass.prems(2) lookup_klass_good [OF assms _ _ p] show ?case
    using TypeMapByClass by (auto simp: rbind_Inr_iff split: option.splits)
next
  case (TypeMapByMriType t d)
  then obtain p where p: "pg_tmbmt_typecast_query_param tm t v = Inr p" by (auto simp: rbind_Inr_iff)
  with TypeMapByMriType.prems(2) mri_good [OF assms _ p] show ?case
    using TypeMapByMriType by (auto simp: rbind_Inr_iff split: option.splits)
next
  case (TypeMapInRuby s d)
  show ?case
  proof (cases "tmir_typecast_query_param tm s")
    case None
    then show ?thesis using TypeMapInRuby by (auto simp: pg_tmir_query_param_def rbind_Inr_iff)
  next
    case (Some f)
    then show ?thesis using TypeMapInRuby.prems assms
      by (cases "f v i") (auto simp: pg_tmir_query_param_def answers_good_def split: coder_ret.splits)
  qed
qed (auto simp: pg_typemap_typecast_query_param_def)

section \<open>The text of a row\<close>

text \<open>
  The texts of the fields of a row, \<open>None\<close> for nil: what the row encoders put into their output, each
  in its own form.
\<close>

primrec row_fields :: "rb_api \<Rightarrow> tm_api \<Rightarrow> typemap \<Rightarrow> nat \<Rightarrow> rvalue list \<Rightarrow> enc_idx \<Rightarrow> bytes option list res" where
  "row_fields rb tm T i [] e = Inr []"
| "row_fields rb tm T i (v # vs) e =
     (if TYPE_of v = T_NIL then rbind (row_fields rb tm T (i + 1) vs e) (\<lambda>fs. Inr (None # fs))
      else rbind (typecast_query_param tm T v (int i)) (\<lambda>(c, T).
        rbind (encoded (pg_coder_enc_func rb c) v e) (\<lambda>t.
        rbind (row_fields rb tm T (i + 1) vs e) (\<lambda>fs. Inr (Some t # fs)))))"

text \<open>The fields with a separator in front of every field but the first.\<close>

primrec seps :: "byte \<Rightarrow> nat \<Rightarrow> bytes list \<Rightarrow> bytes" where
  "seps d i [] = []"
| "seps d i (r # rs) = (if i > 0 then [d] else []) @ r @ seps d (i + 1) rs"

definition copy_raw :: "byte \<Rightarrow> bytes \<Rightarrow> bytes option \<Rightarrow> bytes" where
  "copy_raw delim null f = (case f of None \<Rightarrow> null | Some t \<Rightarrow> escape (copy_esc delim) t)"

lemma copy_raw_simps [simp]:
  "copy_raw delim null None = null" "copy_raw delim null (Some t) = escape (copy_esc delim) t"
  by (simp_all add: copy_raw_def)

lemma put_escaped_appends:
  assumes rb: "rb_api_ok rb" and good: "good_coder c" and wf: "sbuf_wf s"
  shows "appends s (rbind (encoded (pg_coder_enc_func rb c) v e) (\<lambda>t. Inr (q @ escape f t @ q))) (put_escaped rb f q c v s e)"
proof -
  let ?enc = "pg_coder_enc_func rb c"
  note tp = two_pass_enc_func [OF rb good]
  show ?thesis
  proof (cases "?enc v False Qundef e")
    case (Inl x)
    then show ?thesis by (simp add: put_escaped_def encoded_def)
  next
    case (Inr r)
    obtain n bs im where r: "r = (n, bs, im)" by (cases r)
    note first = Inr [unfolded r]
    show ?thesis
    proof (cases "n = - 1")
      case True
      let ?t = "str_bytes im"
      have "length (q @ escape f ?t @ q) \<le> length ?t * 2 + 2 * length q" using length_escape(2) [of f ?t] by simp
      from appends_ENSURE_put [OF rb wf this] show ?thesis
        using first True by (simp add: put_escaped_def encoded_def Let_def)
    next
      case False
      define s1 where "s1 = PG_RB_STR_ENSURE_CAPA rb (nat n * 2 + 2 * length q) s"
      define s2 where "s2 = s1\<lparr> sb_data := sb_data s1 @ q \<rparr>"
      have room: "room s1 (nat n * 2 + 2 * length q)" unfolding s1_def by (rule room_ENSURE [OF rb wf])
      then have q: "sb_put q s1 = Inr s2" unfolding s2_def by (intro sb_put_room) auto
      have room2: "room s2 (nat n * 2 + length q)" using room by (simp add: s2_def room_def)
      have wf2: "sbuf_wf s2" using q sb_put_wf sbuf_wf_ensure(2) [OF rb wf] unfolding s1_def by blast
      show ?thesis
      proof (cases "?enc v True im e")
        case (Inl x)
        with first False q show ?thesis by (simp add: put_escaped_def encoded_def Let_def flip: s1_def)
      next
        case second: (Inr r2)
        obtain k t im2 where r2: "r2 = (k, t, im2)" by (cases r2)
        have k: "k = int (length t)" "k \<le> n" using two_pass.second_call(2) [OF tp first False] second r2 by auto
        let ?m = "poke (\<lambda>_. 0) 0 t" and ?c = "count_escapes f (poke (\<lambda>_. 0) 0 t) 0 (length t)"
        obtain m' where m': "escape_until f ?m 0 (length t) (length t + ?c) = Inr m'"
          "peek m' 0 (length t + ?c) = escape f t"
          using escape_until_correct [of "length t + ?c" 0 "length t" f ?m] by auto
        have len: "length (escape f t) \<le> nat n * 2" using length_escape(2) [of f t] k by linarith
        have "sb_fits t s2 = Inr ()" using k by (intro sb_fits_room [OF room2]) auto
        moreover have p: "sb_put (escape f t) s2 = Inr (s2\<lparr> sb_data := sb_data s2 @ escape f t \<rparr>)"
          using len by (intro sb_put_room [OF room2]) auto
        moreover have p2: "sb_put q (s2\<lparr> sb_data := sb_data s2 @ escape f t \<rparr>) = Inr (s2\<lparr> sb_data := (sb_data s2 @ escape f t) @ q \<rparr>)"
          using len room2 by (simp add: sb_put_def room_def)
        moreover have "sbuf_wf (s2\<lparr> sb_data := (sb_data s2 @ escape f t) @ q \<rparr>)"
          using sb_put_wf [OF p2 sb_put_wf [OF p wf2]] .
        ultimately show ?thesis
          using first False q second r2 k m'
          by (simp add: put_escaped_def encoded_def Let_def appends_def s2_def flip: s1_def) (simp add: s1_def)
      qed
    qed
  qed
qed

lemma appends_cons:
  assumes "appends s (Inr t) f" "\<And>s'. f = Inr s' \<Longrightarrow> sbuf_wf s' \<Longrightarrow> appends s' r (g s')"
  shows "appends s (rbind r (\<lambda>u. Inr (t @ u))) (rbind f g)"
  using appends_rbind [OF assms(1), of "\<lambda>_. r" g] assms(2) by simp

lemma appends_sep:
  assumes "rb_api_ok rb" "sbuf_wf s"
  shows "appends s (Inr (if i > 0 then [d] else [])) (if i > (0::nat) then sb_put [d] (PG_RB_STR_ENSURE_CAPA rb 1 s) else Inr s)"
  using appends_ENSURE_put [OF assms, of "[d]" 1] assms(2) by simp

text \<open>The loop over the entries of a row, for the text encoders of rows and records.\<close>

lemma text_copy_entries_appends:
  assumes rb: "rb_api_ok rb" and tm: "answers_good tm"
  shows "encoders_good T \<Longrightarrow> sbuf_wf s \<Longrightarrow>
    appends s (rbind (row_fields rb tm T i vs e)
        (\<lambda>fs. Inr (seps (copy_delimiter this) i (map (copy_raw (copy_delimiter this) (str_bytes (copy_null_string this))) fs))))
      (text_copy_entries rb tm this T i vs s e)"
proof (induction vs arbitrary: T i s)
  case (Cons v vs)
  let ?d = "copy_delimiter this" and ?null = "str_bytes (copy_null_string this)"
  let ?sep = "if i > 0 then [?d] else []"
  show ?case
  proof (cases "TYPE_of v = T_NIL")
    case True
    have "appends s (rbind (rbind (rbind (row_fields rb tm T (i + 1) vs e)
        (\<lambda>fs. Inr (seps ?d (i + 1) (map (copy_raw ?d ?null) fs)))) (\<lambda>u. Inr (?null @ u))) (\<lambda>u. Inr (?sep @ u)))
      (text_copy_entries rb tm this T i (v # vs) s e)"
      unfolding text_copy_entries.simps Let_def if_P [OF True]
      by (rule appends_cons [OF appends_sep [OF rb Cons.prems(2)]],
          rule appends_cons [OF appends_ENSURE_put [OF rb]]) (auto intro: Cons.IH Cons.prems)
    then show ?thesis using True by (simp add: rbind_assoc del: text_copy_entries.simps split del: if_split)
  next
    case False
    show ?thesis
    proof (cases "typecast_query_param tm T v (int i)")
      case (Inl x)
      have "appends s (rbind (Inl x) (\<lambda>u. Inr (?sep @ u))) (text_copy_entries rb tm this T i (v # vs) s e)"
        unfolding text_copy_entries.simps if_not_P [OF False] Inl
        by (rule appends_cons [OF appends_sep [OF rb Cons.prems(2)]]) simp
      then show ?thesis using False Inl by (simp del: text_copy_entries.simps)
    next
      case (Inr r)
      obtain c T' where r: "r = (c, T')" by (cases r)
      have good: "good_coder c" "encoders_good T'" using query_param_good [OF tm Inr [unfolded r] Cons.prems(1)] by auto
      let ?enc = "encoded (pg_coder_enc_func rb c) v e"
      have "appends s (rbind (rbind (rbind ?enc (\<lambda>t. Inr ([] @ escape (copy_esc ?d) t @ [])))
          (\<lambda>t. rbind (rbind (row_fields rb tm T' (i + 1) vs e)
            (\<lambda>fs. Inr (seps ?d (i + 1) (map (copy_raw ?d ?null) fs)))) (\<lambda>u. Inr (t @ u)))) (\<lambda>u. Inr (?sep @ u)))
        (text_copy_entries rb tm this T i (v # vs) s e)"
        unfolding text_copy_entries.simps if_not_P [OF False] Inr r rbind.simps prod.case
        by (rule appends_cons [OF appends_sep [OF rb Cons.prems(2)]],
            rule appends_rbind [OF put_escaped_appends [OF rb good(1)]]) (auto intro: Cons.IH good)
      then show ?thesis using False Inr r by (simp add: rbind_assoc del: text_copy_entries.simps split del: if_split)
    qed
  qed
qed simp

lemma enc_copy_row_text:
  assumes rb: "rb_api_ok rb" and tm: "answers_good tm" and T: "encoders_good (copy_typemap this)"
    and fit: "fit_to_query tm (copy_typemap this) (RArray vs) = Inr ()"
  shows "pg_text_enc_copy_row rb tm this (RArray vs) out im e =
    rbind (row_fields rb tm (copy_typemap this) 0 vs e) (\<lambda>fs.
      Inr (- 1, [], RString (seps (copy_delimiter this) 0
        (map (copy_raw (copy_delimiter this) (str_bytes (copy_null_string this))) fs) @ [c_nl]) e))"
proof -
  let ?d = "copy_delimiter this" and ?null = "str_bytes (copy_null_string this)" and ?s = "PG_RB_STR_NEW rb"
  have "appends ?s (rbind (rbind (row_fields rb tm (copy_typemap this) 0 vs e)
        (\<lambda>fs. Inr (seps ?d 0 (map (copy_raw ?d ?null) fs)))) (\<lambda>t. rbind (Inr [c_nl]) (\<lambda>u. Inr (t @ u))))
      (rbind (text_copy_entries rb tm this (copy_typemap this) 0 vs ?s e) (\<lambda>str. sb_put [c_nl] (PG_RB_STR_ENSURE_CAPA rb 1 str)))"
    by (rule appends_rbind [OF text_copy_entries_appends [OF rb tm T sbuf_wf_new(2) [OF rb]]])
      (simp add: appends_ENSURE_put rb)
  from appends_result [OF this, of "\<lambda>b. (- 1, [], RString b e)"] show ?thesis
    by (simp add: pg_text_enc_copy_row_def fit sb_str_def rbind_assoc)
qed

section \<open>Reading back a text row\<close>

definition copy_delim_ok :: "byte \<Rightarrow> bool" where
  "copy_delim_ok d \<longleftrightarrow> \<not> ISOCTAL d \<and> d \<notin> {c_backslash, c_nl, 0x4E, 0x62, 0x66, 0x6E, 0x72, 0x74, 0x76, 0x78}"

lemma unescape_literal:
  "copy_delim_ok d \<Longrightarrow> c \<in> {c_backslash, c_nl, c_cr, 0x4E, d} \<Longrightarrow> copy_unescape data cur c = Inr (c, cur)"
  by (auto simp: copy_unescape_def copy_delim_ok_def ISOCTAL_def)

text \<open>One byte of a field, as it is written by the encoder, is read and stored.\<close>

lemma scan_byte:
  assumes rb: "rb_api_ok rb" and d: "copy_delim_ok d" and wf: "sbuf_wf fs"
    and data: "data = pre @ escape1 (copy_esc d) b @ post"
  obtains fs' where "copy_scan rb d data (length pre) fs = copy_scan rb d data (length pre + length (escape1 (copy_esc d) b)) fs'"
    and "sb_data fs' = sb_data fs @ [b]" and "sbuf_wf fs'"
proof -
  obtain fs' where fs': "sb_put [b] (PG_RB_STR_ENSURE_CAPA rb 1 fs) = Inr fs'" "sb_data fs' = sb_data fs @ [b]" "sbuf_wf fs'"
    by (rule ENSURE_put [OF rb wf, of "[b]" 1]) auto
  have nb: "c_backslash \<noteq> d" "c_nl \<noteq> d" using d by (auto simp: copy_delim_ok_def)
  show thesis
  proof (cases "copy_esc d b")
    case None
    then have "b \<noteq> d" "b \<noteq> c_nl" "b \<noteq> c_backslash" by (auto simp: copy_esc_def split: if_splits)
    then show thesis using that fs' None data
      by (subst (asm) copy_scan.simps) (simp add: rd8_def escape1_def nth_append)
  next
    case (Some p)
    then have b: "p = c_backslash" "b \<in> {c_backslash, c_nl, c_cr, 0x4E, d}" by (auto simp: copy_esc_def split: if_splits)
    note u = unescape_literal [OF d b(2)]
    show thesis using that fs' Some data b(1) nb u
      by (subst (asm) copy_scan.simps) (simp add: rd8_def escape1_def nth_append)
  qed
qed

lemma scan_end:
  assumes "data = pre @ c # post" "c = d \<or> c = c_nl"
  shows "copy_scan rb d data (length pre) fs = Inr (c = d, length pre, length pre + 1, fs)"
  using assms by (subst copy_scan.simps) (auto simp: rd8_def)

lemma scan_field:
  assumes rb: "rb_api_ok rb" and d: "copy_delim_ok d" and c: "c = d \<or> c = c_nl"
  shows "data = pre @ escape (copy_esc d) t @ c # post \<Longrightarrow> sbuf_wf fs \<Longrightarrow>
    \<exists>fs'. copy_scan rb d data (length pre) fs =
        Inr (c = d, length pre + length (escape (copy_esc d) t), length pre + length (escape (copy_esc d) t) + 1, fs') \<and>
      sb_data fs' = sb_data fs @ t \<and> sbuf_wf fs'"
proof (induction t arbitrary: pre fs)
  case Nil
  then show ?case using scan_end [OF _ c] by simp
next
  case (Cons b t)
  from Cons.prems(1) have data: "data = pre @ escape1 (copy_esc d) b @ (escape (copy_esc d) t @ c # post)" by simp
  obtain fs1 where fs1: "copy_scan rb d data (length pre) fs = copy_scan rb d data (length pre + length (escape1 (copy_esc d) b)) fs1"
    "sb_data fs1 = sb_data fs @ [b]" "sbuf_wf fs1"
    by (rule scan_byte [OF rb d Cons.prems(2) data])
  from Cons.IH [OF _ fs1(3), of "pre @ escape1 (copy_esc d) b"] data fs1 show ?case by (auto simp: add.assoc)
qed

text \<open>The null string \<open>\N\<close> is scanned as a literal N.\<close>

abbreviation copy_null :: bytes where
  "copy_null \<equiv> [c_backslash, 0x4E]"

lemma scan_null:
  assumes rb: "rb_api_ok rb" and d: "copy_delim_ok d" and c: "c = d \<or> c = c_nl"
    and data: "data = pre @ copy_null @ c # post" and wf: "sbuf_wf fs"
  shows "\<exists>fs'. copy_scan rb d data (length pre) fs = Inr (c = d, length pre + 2, length pre + 3, fs') \<and> sbuf_wf fs'"
proof -
  obtain fs' where fs': "sb_put [0x4E] (PG_RB_STR_ENSURE_CAPA rb 1 fs) = Inr fs'" "sbuf_wf fs'"
    by (rule ENSURE_put [OF rb wf, of "[0x4E]" 1]) auto
  have "c_backslash \<noteq> d" using d by (auto simp: copy_delim_ok_def)
  then have "copy_scan rb d data (length pre) fs = copy_scan rb d data (length pre + 2) fs'"
    using data fs' unescape_literal [OF d, of "0x4E"]
    by (subst copy_scan.simps) (simp add: rd8_def nth_append)
  also have "\<dots> = Inr (c = d, length pre + 2, length pre + 3, fs')"
    using scan_end [OF _ c, of data "pre @ copy_null" post rb fs'] data by simp
  finally show ?thesis using fs' by blast
qed

lemma strncmp_eq_iff: "length a = length b \<Longrightarrow> 0 \<notin> set b \<Longrightarrow> strncmp_eq a b \<longleftrightarrow> a = b"
  by (induction a b rule: strncmp_eq.induct) auto

lemma escape_not_null: "copy_delim_ok d \<Longrightarrow> escape (copy_esc d) t \<noteq> copy_null"
proof (cases t)
  case (Cons b bs)
  moreover assume "copy_delim_ok d"
  ultimately show ?thesis
    by (cases bs) (auto simp: escape1_def copy_esc_def copy_delim_ok_def split: option.splits if_splits)
qed simp

text \<open>
  A field of the row and the value that it is decoded to: nil, or what the type map makes of the
  text.
\<close>

definition copy_value ::
    "rb_api \<Rightarrow> tm_api \<Rightarrow> (t_pg_coder \<Rightarrow> bool) \<Rightarrow> typemap \<Rightarrow> int \<Rightarrow> enc_idx \<Rightarrow> nat \<Rightarrow> bytes option \<Rightarrow> rvalue \<Rightarrow> bool" where
  "copy_value rb tm isd T format e i f v \<longleftrightarrow>
     (case f of None \<Rightarrow> v = Qnil | Some t \<Rightarrow> \<exists>same. typecast_copy_get rb tm isd T t (int i) format e = Inr (v, same))"

lemma decode_field:
  assumes rb: "rb_api_ok rb" and d: "copy_delim_ok (copy_delimiter this)"
    and null: "str_bytes (copy_null_string this) = copy_null"
    and data: "data = pre @ copy_raw (copy_delimiter this) copy_null f @ c # post"
    and c: "c = copy_delimiter this \<or> c = c_nl \<and> post = []"
    and fs: "sbuf_wf fs" "sb_data fs = []"
    and v: "copy_value rb tm isd (copy_typemap this) 0 e i f v"
  obtains fs' where "sbuf_wf fs'" "sb_data fs' = []"
    "text_copy_fields rb tm isd this data e i (length pre) fs array =
      (if c \<noteq> copy_delimiter this then Inr (array @ [v])
       else text_copy_fields rb tm isd this data e (i + 1) (length pre + length (copy_raw (copy_delimiter this) copy_null f) + 1) fs' (array @ [v]))"
proof -
  let ?d = "copy_delimiter this"
  have wf': "sbuf_wf (x\<lparr> sb_data := [] \<rparr>)" if "sbuf_wf x" for x using that by (simp add: sbuf_wf_def)
  have c': "c = ?d \<or> c = c_nl" using c by blast
  show thesis
  proof (cases f)
    case None
    then have v': "v = Qnil" using v by (simp add: copy_value_def)
    from scan_null [OF rb d c' _ fs(1), of data pre post] data None obtain fs1 where
      s: "copy_scan rb ?d data (length pre) fs = Inr (c = ?d, length pre + 2, length pre + 3, fs1)" "sbuf_wf fs1"
      by (auto simp: numeral_3_eq_3)
    have "\<not> (c \<noteq> ?d \<and> length pre + 3 < length data)" using c data None by auto
    moreover have "take 2 (drop (length pre) data) = copy_null" using data None by simp
    ultimately have "text_copy_fields rb tm isd this data e i (length pre) fs array =
      (if c \<noteq> ?d then Inr (array @ [v])
       else text_copy_fields rb tm isd this data e (i + 1) (length pre + length (copy_raw ?d copy_null f) + 1) (fs1\<lparr> sb_data := [] \<rparr>) (array @ [v]))"
      using s None null v' by (subst text_copy_fields.simps) (auto simp: strncmp_eq_iff numeral_3_eq_3)
    then show thesis using that wf' [OF s(2)] by simp
  next
    case (Some t)
    let ?x = "escape (copy_esc ?d) t"
    obtain same where tc: "typecast_copy_get rb tm isd (copy_typemap this) t (int i) 0 e = Inr (v, same)"
      using v Some by (auto simp: copy_value_def)
    from scan_field [OF rb d c' _ fs(1), of data pre t post] data Some fs(2) obtain fs1 where
      s: "copy_scan rb ?d data (length pre) fs = Inr (c = ?d, length pre + length ?x, length pre + length ?x + 1, fs1)"
        "sb_data fs1 = t" "sbuf_wf fs1"
      by auto
    have tr: "\<not> (c \<noteq> ?d \<and> length pre + length ?x + 1 < length data)" using c data Some by auto
    have raw: "take (length pre + length ?x - length pre) (drop (length pre) data) = ?x" using data Some by simp
    have nn: "\<not> (length pre + length ?x - length pre = length copy_null \<and> strncmp_eq ?x copy_null)"
      using escape_not_null [OF d, of t] strncmp_eq_iff [of ?x copy_null] by auto
    define fs2 where "fs2 = (if same then PG_RB_STR_NEW rb else fs1\<lparr> sb_data := [] \<rparr>)"
    have wf2: "sbuf_wf fs2" "sb_data fs2 = []" using wf' [OF s(3)] sbuf_wf_new(2) [OF rb] by (simp_all add: fs2_def)
    have "text_copy_fields rb tm isd this data e i (length pre) fs array =
      (if c \<noteq> ?d then Inr (array @ [v])
       else text_copy_fields rb tm isd this data e (i + 1) (length pre + length ?x + 1) fs2 (array @ [v]))"
      unfolding text_copy_fields.simps [of rb tm isd this data e i "length pre" fs array] s(1) rbind.simps prod.case
        if_not_P [OF tr] Let_def null raw if_not_P [OF nn] s(2) tc fs2_def by simp
    then show thesis using that wf2 Some by simp
  qed
qed

lemma seps_Suc: "seps d (Suc i) rs = concat (map (Cons d) rs)"
  by (induction rs arbitrary: i) auto

lemma decode_fields:
  assumes rb: "rb_api_ok rb" and d: "copy_delim_ok (copy_delimiter this)"
    and null: "str_bytes (copy_null_string this) = copy_null"
  shows "data = pre @ copy_raw (copy_delimiter this) copy_null f
        @ seps (copy_delimiter this) (Suc 0) (map (copy_raw (copy_delimiter this) copy_null) fls) @ [c_nl] \<Longrightarrow>
    sbuf_wf fs \<Longrightarrow> sb_data fs = [] \<Longrightarrow> length vs = length fls \<Longrightarrow>
    (\<And>j. j \<le> length fls \<Longrightarrow> copy_value rb tm isd (copy_typemap this) 0 e (i + j) ((f # fls) ! j) ((v # vs) ! j)) \<Longrightarrow>
    text_copy_fields rb tm isd this data e i (length pre) fs array = Inr (array @ v # vs)"
proof (induction fls arbitrary: f v vs i pre fs array)
  case Nil
  have cv: "copy_value rb tm isd (copy_typemap this) 0 e i f v" using Nil.prems(5) [of 0] by simp
  have nl: "c_nl \<noteq> copy_delimiter this" using d by (auto simp: copy_delim_ok_def)
  obtain fs' where "text_copy_fields rb tm isd this data e i (length pre) fs array =
      (if c_nl \<noteq> copy_delimiter this then Inr (array @ [v])
       else text_copy_fields rb tm isd this data e (i + 1) (length pre + length (copy_raw (copy_delimiter this) copy_null f) + 1) fs' (array @ [v]))"
    by (rule decode_field [OF rb d null _ _ Nil.prems(2,3) cv, of data pre c_nl "[]" array]) (use Nil.prems in auto)
  then show ?case using Nil.prems(4) nl by simp
next
  case (Cons f' fls)
  let ?d = "copy_delimiter this"
  obtain v' vs' where vs: "vs = v' # vs'" using Cons.prems(4) by (cases vs) auto
  let ?post = "copy_raw ?d copy_null f' @ seps ?d (Suc 0) (map (copy_raw ?d copy_null) fls) @ [c_nl]"
  have data: "data = pre @ copy_raw ?d copy_null f @ ?d # ?post" using Cons.prems(1) by (simp add: seps_Suc)
  have cv: "copy_value rb tm isd (copy_typemap this) 0 e i f v" using Cons.prems(5) [of 0] by simp
  obtain fs' where fs': "sbuf_wf fs'" "sb_data fs' = []"
    "text_copy_fields rb tm isd this data e i (length pre) fs array =
      (if ?d \<noteq> copy_delimiter this then Inr (array @ [v])
       else text_copy_fields rb tm isd this data e (i + 1) (length pre + length (copy_raw ?d copy_null f) + 1) fs' (array @ [v]))"
    by (rule decode_field [OF rb d null data _ Cons.prems(2,3) cv, of array]) auto
  have "text_copy_fields rb tm isd this data e (i + 1) (length (pre @ copy_raw ?d copy_null f @ [?d])) fs' (array @ [v])
      = Inr ((array @ [v]) @ v' # vs')"
  proof (rule Cons.IH [OF _ fs'(1,2)])
    show "data = (pre @ copy_raw ?d copy_null f @ [?d]) @ ?post" using data by simp
    show "length vs' = length fls" using Cons.prems(4) vs by simp
    show "copy_value rb tm isd (copy_typemap this) 0 e (i + 1 + j) ((f' # fls) ! j) ((v' # vs') ! j)" if "j \<le> length fls" for j
      using Cons.prems(5) [of "Suc j"] that vs by simp
  qed
  then show ?case using fs'(3) vs by (simp add: add.assoc)
qed

section \<open>Memory safety of the row decoders\<close>

text \<open>The decoders that \<open>typecast_copy_get\<close> can select are well behaved.\<close>

fun copy_good :: "typemap \<Rightarrow> bool" where
  "copy_good (TypeMapByColumn convs d) \<longleftrightarrow> list_all good_decoder convs \<and> copy_good d"
| "copy_good (TypeMapInRuby s d) \<longleftrightarrow> copy_good d"
| "copy_good t \<longleftrightarrow> True"

lemma typecast_copy_get_safe:
  assumes rb: "rb_api_ok rb" and tm: "tm_api_ok tm"
  shows "copy_good T \<Longrightarrow> safe (typecast_copy_get rb tm isd T b i f e)"
proof (induction T)
  case (TypeMapByColumn convs d)
  show ?case
  proof (cases "i \<ge> int (length convs) \<or> i < 0")
    case False
    then have "good_decoder (convs ! nat i)" using TypeMapByColumn.prems by (auto simp: list_all_length)
    then show ?thesis using False TypeMapByColumn dec_func_safe [OF rb]
      by (cases "convs ! nat i") (auto simp: pg_tmbc_typecast_copy_get_def intro!: safe_rbind)
  qed (simp add: pg_tmbc_typecast_copy_get_def)
next
  case (TypeMapInRuby s d)
  then show ?case using tm_api_okD(6) [OF tm, of s]
    by (cases "tmir_typecast_copy_get tm s") (auto intro!: safe_rbind)
qed (auto simp: pg_tmas_typecast_copy_get_def pg_typemap_typecast_copy_get_def)

lemma fit_to_copy_get_safe: "tm_api_ok tm \<Longrightarrow> safe (fit_to_copy_get rb tm T)"
proof (induction T)
  case (TypeMapInRuby s d)
  then have "safe (fit_to_copy_get rb tm d)" by simp
  then show ?case using tm_api_okD(7) [OF TypeMapInRuby.prems, of s]
    by (cases "tmir_fit_to_copy_get tm s")
      (auto simp: pg_tmir_fit_to_copy_get_def intro!: safe_rbind safe_num2 split: rvalue.split)
qed (auto simp: pg_typemap_fit_to_copy_get_def intro!: safe_rbind)

lemma safe_ENSURE_put1:
  assumes "rb_api_ok rb" "sbuf_wf s" "length bs \<le> n"
  shows "safe (sb_put bs (PG_RB_STR_ENSURE_CAPA rb n s))"
    and "sb_put bs (PG_RB_STR_ENSURE_CAPA rb n s) = Inr s' \<Longrightarrow> sbuf_wf s'"
  by (rule ENSURE_put [OF assms]; simp)+

lemma unescape_safe: "safe (copy_unescape data cur c)"
proof -
  have rd: "cur < length data \<Longrightarrow> safe (rd8 data cur)" for cur by (simp add: rd8_def)
  have "safe (copy_octal data cur c)" for c unfolding copy_octal_def Let_def by (auto intro!: safe_rbind rd)
  moreover have "safe (copy_hex data cur c)" for c unfolding copy_hex_def Let_def by (auto intro!: safe_rbind rd)
  ultimately show ?thesis by (simp add: copy_unescape_def)
qed

lemma copy_scan_safe:
  assumes rb: "rb_api_ok rb"
  shows "sbuf_wf fs \<Longrightarrow> safe (copy_scan rb d data cur fs) \<and>
    (\<forall>found e cur' fs'. copy_scan rb d data cur fs = Inr (found, e, cur', fs') \<longrightarrow> sbuf_wf fs')"
proof (induction "length data - cur" arbitrary: cur fs rule: less_induct)
  case less
  show ?case
  proof (cases "cur < length data")
    case True
    note put = safe_ENSURE_put1 [OF rb less.prems, of "[_]" 1, simplified]
    have IH: "sb_put [c] (PG_RB_STR_ENSURE_CAPA rb (Suc 0) fs) = Inr fs1 \<Longrightarrow> cur < k \<Longrightarrow> safe (copy_scan rb d data k fs1)"
      "copy_scan rb d data k fs1 = Inr (found, e, cur', fs') \<Longrightarrow> sb_put [c] (PG_RB_STR_ENSURE_CAPA rb (Suc 0) fs) = Inr fs1 \<Longrightarrow> cur < k \<Longrightarrow> sbuf_wf fs'"
      for k c fs1 found e cur' fs'
      using less.hyps [of k fs1] put(2) True by auto
    have "safe (copy_scan rb d data cur fs)"
      using True IH put(1) by (subst copy_scan.simps)
        (auto simp: rd8_def less_eq_Suc_le intro!: safe_rbind unescape_safe dest!: copy_unescape_cur)
    moreover have "sbuf_wf fs'" if "copy_scan rb d data cur fs = Inr (found, e, cur', fs')" for found e cur' fs'
      using that True IH less.prems by (subst (asm) copy_scan.simps)
        (auto simp: rd8_def rbind_Inr_iff split: if_splits dest!: IH(2) copy_unescape_cur)
    ultimately show ?thesis by blast
  next
    case False
    then show ?thesis using less.prems by (simp add: copy_scan.simps)
  qed
qed

lemma text_copy_fields_safe:
  assumes rb: "rb_api_ok rb" and tm: "tm_api_ok tm" and T: "copy_good (copy_typemap this)"
  shows "sbuf_wf fs \<Longrightarrow> safe (text_copy_fields rb tm isd this data e i cur fs array)"
proof (induction "length data - cur" arbitrary: cur i fs array rule: less_induct)
  case less
  let ?d = "copy_delimiter this"
  have sc: "safe (copy_scan rb ?d data cur fs)" using copy_scan_safe [OF rb less.prems] by blast
  have wf': "sbuf_wf (x\<lparr> sb_data := [] \<rparr>)" if "sbuf_wf x" for x using that by (simp add: sbuf_wf_def)
  have IH: "copy_scan rb ?d data cur fs = Inr (True, en, cur', fs1) \<Longrightarrow> sbuf_wf fs2 \<Longrightarrow>
      safe (text_copy_fields rb tm isd this data e i2 cur' fs2 array2)" for en cur' fs1 fs2 i2 array2
    using copy_scan_cur [of rb ?d data cur fs True en cur' fs1] by (intro less.hyps) auto
  have wf1: "copy_scan rb ?d data cur fs = Inr (fo, en, cur', fs1) \<Longrightarrow> sbuf_wf fs1" for fo en cur' fs1
    using copy_scan_safe [OF rb less.prems] by blast
  show ?case unfolding text_copy_fields.simps [of rb tm isd this data e i cur fs array]
  proof (rule safe_rbind [OF sc])
    fix x assume x: "copy_scan rb ?d data cur fs = Inr x"
    obtain found en cur' fs1 where x': "x = (found, en, cur', fs1)" by (cases x)
    note wf = wf1 [OF x [unfolded x']]
    have "safe (text_copy_fields rb tm isd this data e (i + 1) cur' fs2 array2)" if found "sbuf_wf fs2" for fs2 array2
      using IH x x' that by simp
    then show "safe (case x of (found_delim, end_ptr, cur', field_str) \<Rightarrow>
        if \<not> found_delim \<and> cur' < length data
        then Inl (Raise ArgError ''trailing data after linefeed at position: %ld'' [int cur' + 1])
        else let input_len = end_ptr - cur; null = str_bytes (copy_null_string this) in
         rbind
           (if input_len = length null \<and> strncmp_eq (take input_len (drop cur data)) null
            then Inr (Qnil, field_str\<lparr> sb_data := [] \<rparr>)
            else
              rbind (typecast_copy_get rb tm isd (copy_typemap this) (sb_data field_str) (int i) 0 e)
                (\<lambda>(field_value, same). Inr (field_value, if same then PG_RB_STR_NEW rb else field_str\<lparr> sb_data := [] \<rparr>)))
           (\<lambda>(v, field_str).
              if \<not> found_delim then Inr (array @ [v])
              else text_copy_fields rb tm isd this data e (i + 1) cur' field_str (array @ [v])))"
      unfolding x' using wf' [OF wf] sbuf_wf_new(2) [OF rb]
      by (auto simp: Let_def rbind_Inr_iff intro!: safe_rbind typecast_copy_get_safe rb tm T sbuf_wf_new split: if_splits)
  qed
qed

lemma bin_copy_fields_safe:
  assumes rb: "rb_api_ok rb" and tm: "tm_api_ok tm" and T: "copy_good (copy_typemap this)"
  shows "sbuf_wf fs \<Longrightarrow> safe (bin_copy_fields rb tm isd this data e k i cur fs array)"
proof (induction k arbitrary: i cur fs array)
  case (Suc k)
  have wf': "sbuf_wf (x\<lparr> sb_data := [] \<rparr>)" if "sbuf_wf x" for x using that by (simp add: sbuf_wf_def)
  have put: "safe (sb_put (take n (drop c data)) (PG_RB_STR_ENSURE_CAPA rb n fs))"
    "sb_put (take n (drop c data)) (PG_RB_STR_ENSURE_CAPA rb n fs) = Inr fs1 \<Longrightarrow> sbuf_wf fs1" for n c fs1
    using safe_ENSURE_put1 [OF rb Suc.prems, of "take n (drop c data)" n] by auto
  show ?case
    by (auto simp: Let_def rd32_def rbind_Inr_iff intro!: safe_rbind typecast_copy_get_safe rb tm T Suc.IH wf' put(1) sbuf_wf_new Suc.prems
        dest: put(2) split: prod.splits if_splits)
qed simp

lemma bin_copy_header_safe: "safe (bin_copy_header data)"
  by (auto simp: bin_copy_header_def Let_def rd32_def intro!: safe_rbind)

section \<open>Binary rows\<close>

text \<open>A field of a binary row: the announced size and the bytes.\<close>

primrec bin_row_fields :: "rb_api \<Rightarrow> tm_api \<Rightarrow> typemap \<Rightarrow> nat \<Rightarrow> rvalue list \<Rightarrow> enc_idx \<Rightarrow> (int \<times> bytes) option list res" where
  "bin_row_fields rb tm T i [] e = Inr []"
| "bin_row_fields rb tm T i (v # vs) e =
     (if TYPE_of v = T_NIL then rbind (bin_row_fields rb tm T (i + 1) vs e) (\<lambda>fs. Inr (None # fs))
      else rbind (typecast_query_param tm T v (int i)) (\<lambda>(c, T).
        let enc = pg_coder_enc_func rb c in
        rbind (enc v False Qundef e) (\<lambda>(n, _, im).
        rbind (if n = - 1 then Inr (int (length (str_bytes im)), str_bytes im)
               else rbind (enc v True im e) (\<lambda>(k, bs, _). Inr (n, bs))) (\<lambda>f.
        rbind (bin_row_fields rb tm T (i + 1) vs e) (\<lambda>fs. Inr (Some f # fs))))))"

definition bin_raw :: "(int \<times> bytes) option \<Rightarrow> bytes" where
  "bin_raw f = (case f of None \<Rightarrow> write_nbo32 (- 1) | Some (n, t) \<Rightarrow> write_nbo32 n @ t)"

lemma bin_raw_simps [simp]: "bin_raw None = write_nbo32 (- 1)" "bin_raw (Some (n, t)) = write_nbo32 n @ t"
  by (simp_all add: bin_raw_def)

lemma bin_copy_entries_appends:
  assumes rb: "rb_api_ok rb" and tm: "answers_good tm"
  shows "encoders_good T \<Longrightarrow> sbuf_wf s \<Longrightarrow>
    appends s (rbind (bin_row_fields rb tm T i vs e) (\<lambda>fs. Inr (concat (map bin_raw fs)))) (bin_copy_entries rb tm T i vs s e)"
proof (induction vs arbitrary: T i s)
  case (Cons v vs)
  show ?case
  proof (cases "TYPE_of v = T_NIL")
    case True
    have "appends s (rbind (rbind (bin_row_fields rb tm T (i + 1) vs e) (\<lambda>fs. Inr (concat (map bin_raw fs))))
        (\<lambda>u. Inr (write_nbo32 (- 1) @ u))) (bin_copy_entries rb tm T i (v # vs) s e)"
      unfolding bin_copy_entries.simps if_P [OF True]
      by (rule appends_cons [OF appends_ENSURE_put [OF rb]]) (auto intro: Cons.IH Cons.prems)
    then show ?thesis using True by (simp add: rbind_assoc del: bin_copy_entries.simps)
  next
    case False
    show ?thesis
    proof (cases "typecast_query_param tm T v (int i)")
      case (Inl x)
      then show ?thesis using False by simp
    next
      case (Inr r)
      obtain c T' where r: "r = (c, T')" by (cases r)
      have good: "good_coder c" "encoders_good T'" using query_param_good [OF tm Inr [unfolded r] Cons.prems(1)] by auto
      let ?enc = "pg_coder_enc_func rb c"
      note tp = two_pass_enc_func [OF rb good(1)]
      show ?thesis
      proof (cases "?enc v False Qundef e")
        case (Inl x)
        then show ?thesis using False Inr r by (simp add: Let_def)
      next
        case first: (Inr r1)
        obtain n bs im where r1: "r1 = (n, bs, im)" by (cases r1)
        define st where "st = (if n = - 1 then
             rbind (sb_put (write_nbo32 (int (length (str_bytes im)))) (PG_RB_STR_ENSURE_CAPA rb (4 + length (str_bytes im)) s)) (\<lambda>str. sb_put (str_bytes im) str)
           else
             rbind (sb_put (write_nbo32 n) (PG_RB_STR_ENSURE_CAPA rb (4 + nat n) s)) (\<lambda>str.
             rbind (?enc v True im e) (\<lambda>(strlen, t, _).
             rbind (sb_fits t str) (\<lambda>_. sb_put (take (nat strlen) t) str))))"
        define sp where "sp = (if n = - 1 then Inr (int (length (str_bytes im)), str_bytes im)
             else rbind (?enc v True im e) (\<lambda>(k, bs, _). Inr (n, bs)))"
        have one: "appends s (rbind sp (\<lambda>f. Inr (bin_raw (Some f)))) st"
        proof (cases "n = - 1")
          case True
          then show ?thesis using appends_ENSURE_put [OF rb Cons.prems(2), of "write_nbo32 (int (length (str_bytes im))) @ str_bytes im" "4 + length (str_bytes im)"]
            by (auto simp: st_def sp_def sb_put_def appends_def sbuf_wf_def split: if_splits)
        next
          case n: False
          show ?thesis
          proof (cases "?enc v True im e")
            case (Inl x)
            then show ?thesis using n safe_ENSURE_put1(1) [OF rb Cons.prems(2), of "write_nbo32 n" "4 + nat n"]
              by (auto simp: st_def sp_def sb_put_def split: if_splits)
          next
            case second: (Inr r2)
            obtain k t im2 where r2: "r2 = (k, t, im2)" by (cases r2)
            have k: "k = int (length t)" "k \<le> n"
              using two_pass.second_call(2) [OF tp first [unfolded r1] n] second r2 by auto
            then have "length (write_nbo32 n @ t) \<le> 4 + nat n" by simp
            from appends_ENSURE_put [OF rb Cons.prems(2) this] second n k show ?thesis
              by (auto simp: st_def sp_def r2 sb_put_def sb_fits_def appends_def sbuf_wf_def split: if_splits)
          qed
        qed
        have "appends s (rbind (rbind sp (\<lambda>f. Inr (bin_raw (Some f)))) (\<lambda>t.
            rbind (rbind (bin_row_fields rb tm T' (i + 1) vs e) (\<lambda>fs. Inr (concat (map bin_raw fs)))) (\<lambda>u. Inr (t @ u))))
          (rbind st (\<lambda>str. bin_copy_entries rb tm T' (i + 1) vs str e))"
          by (rule appends_rbind [OF one]) (auto intro: Cons.IH good)
        then show ?thesis using False Inr r first r1 unfolding st_def sp_def
          by (cases "n = - 1") (simp_all add: Let_def rbind_assoc case_prod_unfold)
      qed
    qed
  qed
qed simp

lemma enc_bin_copy_row:
  assumes rb: "rb_api_ok rb" and tm: "answers_good tm" and T: "encoders_good (copy_typemap this)"
    and fit: "fit_to_query tm (copy_typemap this) (RArray vs) = Inr ()" and len: "length vs < 32768"
  shows "pg_bin_enc_copy_row rb tm this (RArray vs) out im e =
    rbind (bin_row_fields rb tm (copy_typemap this) 0 vs e) (\<lambda>fs.
      Inr (- 1, [], RString (write_nbo16 (int (length vs)) @ concat (map bin_raw fs)) e))"
proof -
  let ?s = "PG_RB_STR_NEW rb"
  have "appends ?s (rbind (rbind (bin_row_fields rb tm (copy_typemap this) 0 vs e) (\<lambda>fs. Inr (concat (map bin_raw fs))))
        (\<lambda>u. Inr (write_nbo16 (int (length vs)) @ u)))
      (rbind (sb_put (write_nbo16 (int (length vs))) (PG_RB_STR_ENSURE_CAPA rb 2 ?s)) (\<lambda>str. bin_copy_entries rb tm (copy_typemap this) 0 vs str e))"
    by (rule appends_cons [OF appends_ENSURE_put [OF rb sbuf_wf_new(2) [OF rb]]])
      (auto intro: bin_copy_entries_appends [OF rb tm T])
  from appends_result [OF this, of "\<lambda>b. (- 1, [], RString b e)"] len show ?thesis
    by (simp add: pg_bin_enc_copy_row_def fit sb_str_def rbind_assoc)
qed

text \<open>Reading the fields of a binary row back, when the announced sizes are exact.\<close>

definition bin_copy_value ::
    "rb_api \<Rightarrow> tm_api \<Rightarrow> (t_pg_coder \<Rightarrow> bool) \<Rightarrow> typemap \<Rightarrow> enc_idx \<Rightarrow> nat \<Rightarrow> (int \<times> bytes) option \<Rightarrow> rvalue \<Rightarrow> bool" where
  "bin_copy_value rb tm isd T e i f v \<longleftrightarrow>
     copy_value rb tm isd T 1 e i (map_option snd f) v \<and> (\<forall>n t. f = Some (n, t) \<longrightarrow> n = int (length t) \<and> n < 2 ^ 31)"

lemma decode_bin_fields:
  assumes rb: "rb_api_ok rb"
  shows "data = pre @ concat (map bin_raw fls) @ post \<Longrightarrow> sbuf_wf fs \<Longrightarrow> sb_data fs = [] \<Longrightarrow> length vs = length fls \<Longrightarrow>
    (\<And>j. j < length fls \<Longrightarrow> bin_copy_value rb tm isd (copy_typemap this) e (i + j) (fls ! j) (vs ! j)) \<Longrightarrow>
    bin_copy_fields rb tm isd this data e (length fls) i (length pre) fs array
      = Inr (length pre + length (concat (map bin_raw fls)), array @ vs)"
proof (induction fls arbitrary: vs i pre fs array)
  case (Cons f fls)
  obtain v vs' where vs: "vs = v # vs'" using Cons.prems(4) by (cases vs) auto
  have wf': "sbuf_wf (x\<lparr> sb_data := [] \<rparr>)" if "sbuf_wf x" for x using that by (simp add: sbuf_wf_def)
  have cv: "bin_copy_value rb tm isd (copy_typemap this) e i f v" using Cons.prems(5) [of 0] vs by simp
  have IH: "bin_copy_fields rb tm isd this data e (length fls) (i + 1) (length (pre @ bin_raw f)) fs' (array @ [v])
      = Inr (length (pre @ bin_raw f) + length (concat (map bin_raw fls)), (array @ [v]) @ vs')"
    if "sbuf_wf fs'" "sb_data fs' = []" for fs'
    by (rule Cons.IH [OF _ that]) (use Cons.prems vs in \<open>force+\<close>)
  show ?case
  proof (cases f)
    case None
    have "rd32 data (length pre) = Inr (signed_take_bit 31 (- 1))"
      by (rule rd32_write [of _ pre "- 1" "concat (map bin_raw fls) @ post"]) (use Cons.prems(1) None in auto)
    then show ?thesis using Cons.prems(1) None cv vs IH [OF wf' [OF Cons.prems(2)]]
      by (simp add: bin_copy_value_def copy_value_def Let_def)
  next
    case (Some p)
    obtain n t where p: "p = (n, t)" by (cases p)
    have n: "n = int (length t)" "n < 2 ^ 31" and tc: "copy_value rb tm isd (copy_typemap this) 1 e i (Some t) v"
      using cv Some p by (auto simp: bin_copy_value_def)
    obtain same where same: "typecast_copy_get rb tm isd (copy_typemap this) t (int i) 1 e = Inr (v, same)"
      using tc by (auto simp: copy_value_def)
    have rd: "rd32 data (length pre) = Inr n"
      using rd32_write [of data pre n "t @ concat (map bin_raw fls) @ post" "length pre"] Cons.prems(1) Some p n
      by (simp add: stb31)
    have tk: "take (length t) (drop (length pre + 4) data) = t" and len: "length data = length pre + 4 + length t + length (concat (map bin_raw fls) @ post)"
      using Cons.prems(1) Some p n by auto
    obtain fs1 where fs1: "sb_put t (PG_RB_STR_ENSURE_CAPA rb (nat n) fs) = Inr fs1" "sb_data fs1 = sb_data fs @ t" "sbuf_wf fs1"
      by (rule ENSURE_put [OF rb Cons.prems(2), of t "nat n"]) (use n in auto)
    have wf2: "sbuf_wf (if same then PG_RB_STR_NEW rb else fs1\<lparr> sb_data := [] \<rparr>)"
      "sb_data (if same then PG_RB_STR_NEW rb else fs1\<lparr> sb_data := [] \<rparr>) = []"
      using wf' [OF fs1(3)] sbuf_wf_new(2) [OF rb] by simp_all
    have "bin_copy_fields rb tm isd this data e (Suc (length fls)) i (length pre) fs array =
        bin_copy_fields rb tm isd this data e (length fls) (i + 1) (length pre + 4 + length t)
          (if same then PG_RB_STR_NEW rb else fs1\<lparr> sb_data := [] \<rparr>) (array @ [v])"
      using len n Cons.prems(3) fs1 same by (simp add: rd tk Let_def)
    then show ?thesis using IH [OF wf2] Some p vs n by (simp add: add.assoc)
  qed
qed simp

section \<open>Rows of strings\<close>

abbreviation string_row :: "enc_idx \<Rightarrow> rvalue list \<Rightarrow> bool" where
  "string_row e \<equiv> list_all (\<lambda>v. v = Qnil \<or> (\<exists>s. v = RString s e))"

definition row_text :: "rvalue \<Rightarrow> bytes option" where
  "row_text v = (if v = Qnil then None else Some (str_bytes v))"

lemma enc_to_s_string:
  "rb_api_ok rb \<Longrightarrow> pg_coder_enc_func rb None (RString s e) out im e = Inr (- 1, [], RString s e)"
  by (simp add: pg_coder_enc_func_def pg_coder_enc_to_s_def rb_api_okD(3))

lemma encoded_string: "rb_api_ok rb \<Longrightarrow> encoded (pg_coder_enc_func rb None) (RString s e) e = Inr s"
  by (simp add: encoded_def enc_to_s_string)

lemma row_fields_strings:
  "rb_api_ok rb \<Longrightarrow> string_row e vs \<Longrightarrow> row_fields rb tm TypeMapAllStrings i vs e = Inr (map row_text vs)"
  by (induction vs arbitrary: i) (auto simp: row_text_def encoded_string)

lemma bin_row_fields_strings:
  "rb_api_ok rb \<Longrightarrow> string_row e vs \<Longrightarrow>
     bin_row_fields rb tm TypeMapAllStrings i vs e = Inr (map (\<lambda>v. map_option (\<lambda>t. (int (length t), t)) (row_text v)) vs)"
  by (induction vs arbitrary: i) (auto simp: row_text_def enc_to_s_string)

lemma string_values:
  "v = Qnil \<or> (\<exists>s. v = RString s e) \<Longrightarrow> copy_value rb tm isd TypeMapAllStrings 0 e i (row_text v) v"
  by (auto simp: copy_value_def row_text_def pg_tmas_typecast_copy_get_def)

section \<open>Properties\<close>

text \<open>Claim C26. The COPY text encoder writes the fields, as their coders encode them, escaped and
  separated by the delimiter, nil as the null string, and ends the row with a newline; it raises
  what the type map or the first failing coder raises. Escaping in place gives the same as
  escaping while copying.\<close>

theorem copy_row_text_encode:
  assumes "rb_api_ok rb" and "answers_good tm" and "encoders_good (copy_typemap this)"
  shows "pg_text_enc_copy_row rb tm this (RArray vs) out im e =
    rbind (fit_to_query tm (copy_typemap this) (RArray vs)) (\<lambda>_.
    rbind (row_fields rb tm (copy_typemap this) 0 vs e) (\<lambda>fs.
      Inr (- 1, [], RString (seps (copy_delimiter this) 0
        (map (copy_raw (copy_delimiter this) (str_bytes (copy_null_string this))) fs) @ [c_nl]) e)))"
  using enc_copy_row_text [OF assms] by (cases "fit_to_query tm (copy_typemap this) (RArray vs)") (simp_all add: pg_text_enc_copy_row_def)

definition sample_copy_enc :: t_pg_copycoder where
  "sample_copy_enc = pg_copycoder_encoder_allocate Qnil None"

definition sample_copy_dec :: t_pg_copycoder where
  "sample_copy_dec = pg_copycoder_decoder_allocate Qnil None"

lemma sample_copy_coders [simp]:
  "copy_typemap sample_copy_enc = TypeMapAllStrings" "copy_typemap sample_copy_dec = TypeMapAllStrings"
  "copy_null_string sample_copy_enc = RString copy_null 0" "copy_null_string sample_copy_dec = RString copy_null 0"
  "copy_delimiter sample_copy_enc = c_tab" "copy_delimiter sample_copy_dec = c_tab"
  by (simp_all add: sample_copy_enc_def sample_copy_dec_def pg_copycoder_encoder_allocate_def
      pg_copycoder_decoder_allocate_def pg_coder_init_encoder_def pg_coder_init_decoder_def
      t_pg_coder.defs t_pg_copycoder.defs rb_ascii8bit_encindex_def)

theorem copy_row_text_encode_witness:
  "pg_text_enc_copy_row rb_sample tm_sample sample_copy_enc (RArray [RString (lit ''a'' @ [c_tab]) 0, Qnil]) False Qnil 0
   = Inr (- 1, [], RString (lit ''a'' @ [c_backslash, c_tab, c_tab, c_backslash] @ lit ''N'' @ [c_nl]) 0)"
  using copy_row_text_encode [of rb_sample tm_sample sample_copy_enc "[RString (lit ''a'' @ [c_tab]) 0, Qnil]" False Qnil 0]
  by (simp add: encoded_string copy_esc_def escape1_def)

lemma copy_text_row:
  assumes "rb_api_ok rb" and "answers_good tm"
    and "copy_typemap enc = TypeMapAllStrings" and "copy_typemap dec = TypeMapAllStrings"
    and "copy_delimiter enc = copy_delimiter dec" and "copy_delim_ok (copy_delimiter dec)"
    and "str_bytes (copy_null_string enc) = copy_null" and "str_bytes (copy_null_string dec) = copy_null"
    and "vs \<noteq> []" and "string_row e vs"
  shows "\<exists>t. pg_text_enc_copy_row rb tm enc (RArray vs) False im e = Inr (- 1, [], RString t e) \<and>
    pg_text_dec_copy_row rb tm isd dec t tuple field e = Inr (RArray vs)"
proof -
  let ?d = "copy_delimiter dec"
  obtain v vs' where vs: "vs = v # vs'" using assms(9) by (cases vs) auto
  let ?t = "seps ?d 0 (map (copy_raw ?d copy_null) (map row_text vs)) @ [c_nl]"
  have "pg_text_enc_copy_row rb tm enc (RArray vs) False im e = Inr (- 1, [], RString ?t e)"
    using enc_copy_row_text [OF assms(1,2), of enc vs False im e] assms(3,5,7) row_fields_strings [OF assms(1,10)] by simp
  moreover have "text_copy_fields rb tm isd dec ?t e 0 (length ([] :: bytes)) (PG_RB_STR_NEW rb) [] = Inr ([] @ v # vs')"
  proof (rule decode_fields [OF assms(1,6,8), of _ "[]" "row_text v" "map row_text vs'"])
    show "?t = [] @ copy_raw ?d copy_null (row_text v) @ seps ?d (Suc 0) (map (copy_raw ?d copy_null) (map row_text vs')) @ [c_nl]"
      by (simp add: vs)
    show "copy_value rb tm isd (copy_typemap dec) 0 e (0 + j) ((row_text v # map row_text vs') ! j) ((v # vs') ! j)"
      if "j \<le> length (map row_text vs')" for j
    proof -
      have "(v # vs') ! j \<in> set vs" using that vs by (auto simp: nth_Cons split: nat.split)
      with assms(10) have "(v # vs') ! j = Qnil \<or> (\<exists>s. (v # vs') ! j = RString s e)" unfolding list_all_iff by blast
      moreover have "(row_text v # map row_text vs') ! j = row_text ((v # vs') ! j)" using that by (simp add: nth_Cons split: nat.split)
      ultimately show ?thesis using string_values assms(4) by simp
    qed
  qed (use sbuf_wf_new(2) [OF assms(1)] in simp_all)
  ultimately show ?thesis using assms(4) vs by (simp add: pg_text_dec_copy_row_def)
qed

text \<open>Claim C11. A row of strings and nil survives the COPY text format: whatever bytes the strings hold,
  the text decoder returns the row that the text encoder was given, for every delimiter that has
  no meaning of its own behind a backslash.\<close>

theorem copy_row_text_roundtrip:
  assumes "rb_api_ok rb" and "answers_good tm"
    and "copy_typemap enc = TypeMapAllStrings" and "copy_typemap dec = TypeMapAllStrings"
    and "copy_delimiter enc = copy_delimiter dec" and "copy_delim_ok (copy_delimiter dec)"
    and "str_bytes (copy_null_string enc) = copy_null" and "str_bytes (copy_null_string dec) = copy_null"
    and "vs \<noteq> []" and "string_row e vs"
  shows "\<exists>t. pg_text_enc_copy_row rb tm enc (RArray vs) False im e = Inr (- 1, [], RString t e) \<and>
    pg_text_dec_copy_row rb tm isd dec t tuple field e = Inr (RArray vs)"
  by (rule copy_text_row [OF assms])

theorem copy_row_text_roundtrip_witness:
  "\<exists>t. pg_text_enc_copy_row rb_sample tm_sample sample_copy_enc
      (RArray [RString [c_tab, c_backslash, 0x4E, 0, c_nl] 0, Qnil, RString copy_null 0, RString [] 0]) False Qnil 0
      = Inr (- 1, [], RString t 0) \<and>
    pg_text_dec_copy_row rb_sample tm_sample (\<lambda>_. False) sample_copy_dec t 0 0 0
      = Inr (RArray [RString [c_tab, c_backslash, 0x4E, 0, c_nl] 0, Qnil, RString copy_null 0, RString [] 0])"
  by (rule copy_row_text_roundtrip) (simp_all add: copy_delim_ok_def ISOCTAL_def)



lemma signature_no_row:
  assumes "n < 32768" "take 11 (write_nbo16 (int n) @ t) = BinarySignature"
  shows "n = 0x5047"
proof -
  have "write_nbo16 (int n) = [0x50, 0x47]"
    using assms(2) by (simp add: BinarySignature_def write_nbo16_def)
  then have "read_nbo16 (write_nbo16 (int n) @ []) = 0x5047" by (simp add: read_nbo16_def)
  moreover have "read_nbo16 (write_nbo16 (int n) @ []) = int n"
    using assms(1) by (simp only: read_write_nbo16) (simp add: signed_take_bit_int_eq_self)
  ultimately show ?thesis by simp
qed

definition copy_header :: "bytes \<Rightarrow> bytes \<Rightarrow> bytes" where
  "copy_header flags ext = BinarySignature @ flags @ write_nbo32 (int (length ext)) @ ext"

lemma header_skipped:
  assumes "length flags = 4" "length ext < 2 ^ 31"
  shows "bin_copy_header (copy_header flags ext @ row) = Inr (length (copy_header flags ext))"
proof -
  have "rd32 (copy_header flags ext @ row) 15 = Inr (int (length ext))"
    using rd32_write [of "copy_header flags ext @ row" "BinarySignature @ flags" "int (length ext)" "ext @ row" 15] assms
    by (simp add: copy_header_def BinarySignature_def stb31)
  with assms show ?thesis by (simp add: bin_copy_header_def Let_def) (simp add: copy_header_def BinarySignature_def)
qed

lemma header_absent:
  assumes "n < 32768" "n \<noteq> 0x5047"
  shows "bin_copy_header (write_nbo16 (int n) @ t) = Inr 0"
  using signature_no_row [OF assms(1)] assms(2) by (auto simp: bin_copy_header_def Let_def)

lemma decode_bin_row:
  assumes rb: "rb_api_ok rb" and hdr: "bin_copy_header (hdr @ write_nbo16 (int (length fls)) @ concat (map bin_raw fls)) = Inr (length hdr)"
    and fit: "fit_to_copy_get rb tm (copy_typemap this) = Inr n" "0 \<le> n"
    and len: "length fls < 32768" "length vs = length fls"
    and val: "\<And>j. j < length fls \<Longrightarrow> bin_copy_value rb tm isd (copy_typemap this) e j (fls ! j) (vs ! j)"
  shows "pg_bin_dec_copy_row rb tm isd this (hdr @ write_nbo16 (int (length fls)) @ concat (map bin_raw fls)) tuple field e = Inr (RArray vs)"
proof -
  let ?data = "hdr @ write_nbo16 (int (length fls)) @ concat (map bin_raw fls)"
  have "signed_take_bit 15 (int (length fls)) = int (length fls)"
    using len(1) by (intro signed_take_bit_int_eq_self) auto
  then have rd: "rd16 ?data (length hdr) = Inr (int (length fls))"
    by (simp add: rd16_def read_write_nbo16)
  have "bin_copy_fields rb tm isd this ?data e (length fls) 0 (length (hdr @ write_nbo16 (int (length fls)))) (PG_RB_STR_NEW rb) []
      = Inr (length (hdr @ write_nbo16 (int (length fls))) + length (concat (map bin_raw fls)), [] @ vs)"
    by (rule decode_bin_fields [OF rb, where post = "[]"]) (use sbuf_wf_new(2) [OF rb] len val in simp_all)
  then have "bin_copy_fields rb tm isd this ?data e (length fls) 0 (length hdr + 2) (PG_RB_STR_NEW rb) []
      = Inr (length ?data, vs)" by simp
  then show ?thesis using fit(2) unfolding pg_bin_dec_copy_row_def fit(1) hdr rbind.simps Let_def
    by (simp add: rd)
qed

text \<open>Claim C39. A row of strings and nil survives the COPY binary format, also behind the file header
  that precedes the first row. (A row of 0x5047 columns without a header in front could start with
  the bytes of the signature.)\<close>

theorem copy_row_binary_roundtrip:
  assumes "rb_api_ok rb" and "answers_good tm"
    and "copy_typemap enc = TypeMapAllStrings" and "copy_typemap dec = TypeMapAllStrings"
    and "string_row 0 vs" and "length vs < 32768" and "list_all (\<lambda>v. length (str_bytes v) < 2 ^ 31) vs"
    and "hdr = [] \<and> length vs \<noteq> 0x5047 \<or> (\<exists>flags ext. hdr = copy_header flags ext \<and> length flags = 4 \<and> length ext < 2 ^ 31)"
  shows "\<exists>t. pg_bin_enc_copy_row rb tm enc (RArray vs) False im 0 = Inr (- 1, [], RString t 0) \<and>
    pg_bin_dec_copy_row rb tm isd dec (hdr @ t) tuple field 0 = Inr (RArray vs)"
proof -
  define fls where "fls = map (\<lambda>v. map_option (\<lambda>t. (int (length t), t)) (row_text v)) vs"
  let ?t = "write_nbo16 (int (length fls)) @ concat (map bin_raw fls)"
  have len: "length fls = length vs" by (simp add: fls_def)
  have "pg_bin_enc_copy_row rb tm enc (RArray vs) False im 0 = Inr (- 1, [], RString ?t 0)"
    using enc_bin_copy_row [OF assms(1,2), of enc vs False im 0] assms(3,6) bin_row_fields_strings [OF assms(1,5)]
    by (simp add: fls_def)
  moreover have "bin_copy_header (hdr @ ?t) = Inr (length hdr)"
    using assms(8) header_skipped header_absent [of "length fls"] assms(6) len by auto
  then have "pg_bin_dec_copy_row rb tm isd dec (hdr @ ?t) tuple field 0 = Inr (RArray vs)"
  proof (rule decode_bin_row [OF assms(1), where n = 0])
    show "bin_copy_value rb tm isd (copy_typemap dec) 0 j (fls ! j) (vs ! j)" if "j < length fls" for j
      using that assms(4,5,7) len by (auto simp: fls_def list_all_length bin_copy_value_def copy_value_def row_text_def
          pg_tmas_typecast_copy_get_def rb_ascii8bit_encindex_def)
  qed (use assms(4,6) len in simp_all)
  ultimately show ?thesis by blast
qed

theorem copy_row_binary_roundtrip_witness:
  "\<exists>t. pg_bin_enc_copy_row rb_sample tm_sample sample_copy_enc (RArray [RString [0, c_nl] 0, Qnil, RString [] 0]) False Qnil 0
      = Inr (- 1, [], RString t 0) \<and>
    pg_bin_dec_copy_row rb_sample tm_sample (\<lambda>_. False) sample_copy_dec (copy_header [0, 0, 0, 0] [7] @ t) 0 0 0
      = Inr (RArray [RString [0, c_nl] 0, Qnil, RString [] 0])"
proof (rule copy_row_binary_roundtrip)
  have "copy_header [0, 0, 0, 0] [7] = copy_header [0, 0, 0, 0] [7] \<and> length [0, 0, 0, 0 :: byte] = 4 \<and> length [7 :: byte] < 2 ^ 31" by simp
  then show "copy_header [0, 0, 0, 0] [7] = [] \<and> length [RString [0, c_nl] 0, Qnil, RString [] 0] \<noteq> 0x5047 \<or>
      (\<exists>flags ext. copy_header [0, 0, 0, 0] [7] = copy_header flags ext \<and> length flags = 4 \<and> length ext < 2 ^ 31)" by blast
qed simp_all

lemma clz_8: "count_leading_zero_bits rb 8 = 60"
proof -
  have "length (takeWhile (\<lambda>i. \<not> bit (8 :: 64 word) i) (rev [0..<64])) = 60" by code_simp
  then show ?thesis by (simp add: count_leading_zero_bits_def)
qed

text \<open>The binary COPY encoder writes the size of the first pass as the length of a field,
  although the second pass may store less: with \<open>TextEncoder::Integer\<close> the number 8 announces two
  bytes and stores one, and the decoder finds the row to end too early.\<close>

theorem copy_row_binary_bad_length:
  assumes "rb_api_ok rb"
    and "copy_typemap this = TypeMapByColumn [Some (pg_simple_encoder_allocate o' (Some (\<lambda>_. pg_text_enc_integer rb)))] TypeMapAllStrings"
    and "copy_typemap dec = TypeMapAllStrings"
  shows "pg_bin_enc_copy_row rb tm_sample this (RArray [RInteger 8]) out im e =
      Inr (- 1, [], RString [0, 1, 0, 0, 0, 2, 0x38] e) \<and>
    pg_bin_dec_copy_row rb tm_sample isd dec [0, 1, 0, 0, 0, 2, 0x38] tuple field e = Inl (copy_length_error 6)"
proof
  let ?c = "pg_simple_encoder_allocate o' (Some (\<lambda>_. pg_text_enc_integer rb))"
  have i: "is_fixnum 8" "int_in 64 8" by (simp_all add: is_fixnum_def FIXNUM_MIN_def FIXNUM_MAX_def int_in_def)
  have good: "good_coder (Some ?c)" using ruby.two_pass_integer [OF ruby.intro [OF assms(1)]] by (simp add: good_coder_def)
  have enc: "pg_coder_enc_func rb (Some ?c) = pg_text_enc_integer rb" by (simp add: pg_coder_enc_func_def)
  have "int_estimate rb 8 = 2" by (simp add: int_estimate_def clz_8)
  moreover have "dec_of_int 8 = [0x38]" by (simp add: dec_of_int_def dec_of_nat.simps)
  ultimately have "bin_row_fields rb tm_sample (copy_typemap this) 0 [RInteger 8] e = Inr [Some (2, [0x38])]"
    using enc_integer_first [OF i(1)] enc_integer_second [OF i(2)] by (simp add: assms(2) tmbc_conv_def enc)
  then show "pg_bin_enc_copy_row rb tm_sample this (RArray [RInteger 8]) out im e = Inr (- 1, [], RString [0, 1, 0, 0, 0, 2, 0x38] e)"
    using enc_bin_copy_row [OF assms(1) answers_good_sample, of this "[RInteger 8]" out im e] good
    by (simp add: assms(2) pg_tmbc_fit_to_query_def write_nbo16_def write_nbo32_def)
  show "pg_bin_dec_copy_row rb tm_sample isd dec [0, 1, 0, 0, 0, 2, 0x38] tuple field e = Inl (copy_length_error 6)"
    by (simp add: pg_bin_dec_copy_row_def assms(3) bin_copy_header_def rd16_def rd32_def read_nbo16_def read_nbo32_def)
qed

theorem copy_row_binary_bad_length_witness:
  "pg_bin_enc_copy_row rb_sample tm_sample (sample_copy_enc\<lparr> copy_typemap := TypeMapByColumn
      [Some (pg_simple_encoder_allocate Qnil (Some (\<lambda>_. pg_text_enc_integer rb_sample)))] TypeMapAllStrings \<rparr>)
      (RArray [RInteger 8]) False Qnil 0 = Inr (- 1, [], RString [0, 1, 0, 0, 0, 2, 0x38] 0) \<and>
   pg_bin_dec_copy_row rb_sample tm_sample (\<lambda>_. False) sample_copy_dec [0, 1, 0, 0, 0, 2, 0x38] 0 0 0 = Inl (copy_length_error 6)"
  by (rule copy_row_binary_bad_length) simp_all

end
