(* ===== verification/PG_Record_Coder.thy ===== *)
theory PG_Record_Coder
  imports PG_Copy_Coder
begin

text \<open>
  \<open>ext/pg_record_coder.c\<close>: the coders for composite types in text format. The field encoding is the
  one of COPY rows with other special bytes and with quotes around each field.
\<close>

section \<open>The coder struct\<close>

record t_pg_recordcoder = t_pg_coder +
  record_typemap :: typemap

definition pg_recordcoder_encoder_allocate :: "rvalue \<Rightarrow> (coder_fields \<Rightarrow> enc_fn) option \<Rightarrow> t_pg_recordcoder" where
  "pg_recordcoder_encoder_allocate self cfunc =
     t_pg_coder.extend (pg_coder_init_encoder self cfunc) (t_pg_recordcoder.fields TypeMapAllStrings)"

definition pg_recordcoder_decoder_allocate :: "rvalue \<Rightarrow> (coder_fields \<Rightarrow> dec_fn) option \<Rightarrow> t_pg_recordcoder" where
  "pg_recordcoder_decoder_allocate self cfunc =
     t_pg_coder.extend (pg_coder_init_decoder self cfunc) (t_pg_recordcoder.fields TypeMapAllStrings)"

definition pg_recordcoder_type_map_set :: "typemap option \<Rightarrow> t_pg_recordcoder \<Rightarrow> t_pg_recordcoder res" where
  "pg_recordcoder_type_map_set type_map this =
     (if coder_frozen this then Inl frozen_error
      else case type_map of
        Some t \<Rightarrow> Inr (this\<lparr> record_typemap := t \<rparr>)
      | None \<Rightarrow> Inl (Raise TypeError ''wrong elements type %s (expected some kind of PG::TypeMap)'' []))"

definition pg_recordcoder_type_map_get :: "t_pg_recordcoder \<Rightarrow> typemap" where
  "pg_recordcoder_type_map_get this = record_typemap this"

section \<open>Encoding\<close>

text \<open>A quote and a backslash are doubled.\<close>

definition record_esc :: "byte \<Rightarrow> byte option" where
  "record_esc ch = (if ch = c_dquote \<or> ch = c_backslash then Some ch else None)"

primrec text_record_entries ::
    "rb_api \<Rightarrow> tm_api \<Rightarrow> typemap \<Rightarrow> nat \<Rightarrow> rvalue list \<Rightarrow> sbuf \<Rightarrow> enc_idx \<Rightarrow> sbuf res" where
  "text_record_entries rb tm p_typemap i [] str enc_idx = Inr str"
| "text_record_entries rb tm p_typemap i (entry # rest) str enc_idx =
     rbind (if i > 0 then sb_put [c_comma] (PG_RB_STR_ENSURE_CAPA rb 1 str) else Inr str) (\<lambda>str.
       if TYPE_of entry = T_NIL then text_record_entries rb tm p_typemap (i + 1) rest str enc_idx
       else
         rbind (typecast_query_param tm p_typemap entry (int i)) (\<lambda>(p_elem_coder, p_typemap).
         rbind (put_escaped rb record_esc [c_dquote] p_elem_coder entry str enc_idx) (\<lambda>str.
           text_record_entries rb tm p_typemap (i + 1) rest str enc_idx)))"

text \<open>As in the COPY encoders a value that is no Array is taken for one.\<close>

definition pg_text_enc_record :: "rb_api \<Rightarrow> tm_api \<Rightarrow> t_pg_recordcoder \<Rightarrow> enc_fn" where
  "pg_text_enc_record rb tm this value out intermediate enc_idx =
     rbind (fit_to_query tm (record_typemap this) value) (\<lambda>_.
     rbind (sb_put [c_lparen] (PG_RB_STR_ENSURE_CAPA rb 1 (PG_RB_STR_NEW rb))) (\<lambda>str.
       case value of
         RArray vs \<Rightarrow>
           rbind (text_record_entries rb tm (record_typemap this) 0 vs str enc_idx) (\<lambda>str.
           rbind (sb_put [c_rparen] (PG_RB_STR_ENSURE_CAPA rb 1 str)) (\<lambda>str.
             Inr (- 1, [], sb_str str enc_idx)))
       | _ \<Rightarrow> Inl MemFault))"

section \<open>Decoding\<close>

definition record_isspace :: "byte \<Rightarrow> bool" where
  "record_isspace ch \<longleftrightarrow> ch = c_space \<or> ch = c_tab \<or> ch = c_nl \<or> ch = c_cr \<or> ch = c_vt \<or> ch = c_ff"

text \<open>A read of the input, which a NUL byte follows.\<close>

definition rdz :: "bytes \<Rightarrow> nat \<Rightarrow> byte res" where
  "rdz data cur = (if cur < length data then Inr (data ! cur) else if cur = length data then Inr 0 else Inl MemFault)"

text \<open>\<open>while (*cur_ptr && record_isspace(*cur_ptr)) cur_ptr++\<close>.\<close>

function skip_space :: "bytes \<Rightarrow> nat \<Rightarrow> nat res" where
  "skip_space data cur = rbind (rdz data cur) (\<lambda>c.
     if c \<noteq> 0 \<and> record_isspace c then skip_space data (cur + 1) else Inr cur)"
  by pat_completeness auto
termination
  by (relation "measure (\<lambda>(data, cur). length data - cur)") (auto simp: rdz_def split: if_splits)

abbreviation malformed_record :: "string \<Rightarrow> rb_exc" where
  "malformed_record why \<equiv> Raise ArgError (''malformed record literal: - '' @ why) []"

text \<open>The loop over the bytes of one field.\<close>

function record_field :: "rb_api \<Rightarrow> bytes \<Rightarrow> nat \<Rightarrow> bool \<Rightarrow> sbuf \<Rightarrow> (nat \<times> sbuf) res" where
  "record_field rb data cur inquote field_str =
     rbind (rdz data cur) (\<lambda>ch.
       if \<not> (inquote \<or> \<not> (ch = c_comma \<or> ch = c_rparen)) then Inr (cur, field_str)
       else if ch = 0 then Inl (malformed_record ''Unexpected end of input.'')
       else if ch = c_backslash then
         rbind (rdz data (cur + 1)) (\<lambda>c.
           if c = 0 then Inl (malformed_record ''Unexpected end of input.'')
           else rbind (sb_put [c] (PG_RB_STR_ENSURE_CAPA rb 1 field_str)) (\<lambda>field_str.
             record_field rb data (cur + 2) inquote field_str))
       else if ch = c_dquote then
         if \<not> inquote then record_field rb data (cur + 1) True field_str
         else rbind (rdz data (cur + 1)) (\<lambda>c.
           if c = c_dquote then
             rbind (sb_put [c] (PG_RB_STR_ENSURE_CAPA rb 1 field_str)) (\<lambda>field_str.
               record_field rb data (cur + 2) inquote field_str)
           else record_field rb data (cur + 1) False field_str)
       else rbind (sb_put [ch] (PG_RB_STR_ENSURE_CAPA rb 1 field_str)) (\<lambda>field_str.
         record_field rb data (cur + 1) inquote field_str))"
  by pat_completeness auto
termination
  by (relation "measure (\<lambda>(rb, data, cur, inquote, field_str). length data + 1 - cur)")
    (auto simp: rdz_def split: if_splits)

declare record_field.simps [simp del] skip_space.simps [simp del]

lemma record_field_cur: "record_field rb data cur inquote fs = Inr (cur', fs') \<Longrightarrow> cur \<le> cur' \<and> cur' < length data"
proof (induction "length data + 1 - cur" arbitrary: cur inquote fs rule: less_induct)
  case less
  have IH: "record_field rb data k q f = Inr (cur', fs') \<Longrightarrow> cur < k \<Longrightarrow> cur \<le> length data \<Longrightarrow> cur \<le> cur' \<and> cur' < length data" for k q f
    using less.hyps [of k q f] by fastforce
  from less.prems show ?case
    by (subst (asm) record_field.simps)
      (auto simp: rbind_Inr_iff rdz_def split: if_splits dest!: IH)
qed

text \<open>The loop over the fields: the position behind the closing parenthesis and the values.\<close>

function record_fields ::
    "rb_api \<Rightarrow> tm_api \<Rightarrow> (t_pg_coder \<Rightarrow> bool) \<Rightarrow> typemap \<Rightarrow> bytes \<Rightarrow> enc_idx \<Rightarrow> nat \<Rightarrow> nat \<Rightarrow> sbuf \<Rightarrow> rvalue list
     \<Rightarrow> (nat \<times> rvalue list) res" where
  "record_fields rb tm is_string_dec p_typemap data enc_idx fieldno cur field_str array =
     rbind (rdz data cur) (\<lambda>c.
     rbind
       (if c = c_comma \<or> c = c_rparen then Inr (cur, Qnil, field_str)
        else
          rbind (record_field rb data cur False field_str) (\<lambda>(cur, field_str).
          rbind (typecast_copy_get rb tm is_string_dec p_typemap (sb_data field_str) (int fieldno) 0 enc_idx)
            (\<lambda>(field_value, same).
               Inr (cur, field_value, if same then PG_RB_STR_NEW rb else field_str\<lparr> sb_data := [] \<rparr>))))
       (\<lambda>(cur', v, field_str).
          rbind (rdz data cur') (\<lambda>c.
            if c = c_comma then
              record_fields rb tm is_string_dec p_typemap data enc_idx (fieldno + 1) (cur' + 1) field_str (array @ [v])
            else if c = c_rparen then Inr (cur' + 1, array @ [v])
            else Inl (malformed_record ''Too few columns.''))))"
  by pat_completeness auto
termination
proof (relation "measure (\<lambda>(rb, tm, isd, T, data, e, fieldno, cur, fs, array). length data + 1 - cur)")
qed (auto simp: rbind_Inr_iff rdz_def split: if_splits dest!: record_field_cur)

declare record_fields.simps [simp del]

definition pg_text_dec_record :: "rb_api \<Rightarrow> tm_api \<Rightarrow> (t_pg_coder \<Rightarrow> bool) \<Rightarrow> t_pg_recordcoder \<Rightarrow> dec_fn" where
  "pg_text_dec_record rb tm is_string_dec this input_line tuple field enc_idx =
     rbind (fit_to_copy_get rb tm (record_typemap this)) (\<lambda>expected_fields.
       if expected_fields < 0 then Inl (Raise ArgError ''negative array size (or size too big)'' [])
       else
         rbind (skip_space input_line 0) (\<lambda>cur.
         rbind (rdz input_line cur) (\<lambda>c.
           if c \<noteq> c_lparen then Inl (malformed_record ''Missing left parenthesis.'')
           else
             rbind (record_fields rb tm is_string_dec (record_typemap this) input_line enc_idx 0 (cur + 1) (PG_RB_STR_NEW rb) [])
               (\<lambda>(cur, array).
             rbind (skip_space input_line cur) (\<lambda>cur.
             rbind (rdz input_line cur) (\<lambda>c.
               if c \<noteq> 0 then Inl (malformed_record ''Junk after right parenthesis.'')
               else Inr (RArray array)))))))"

section \<open>The text of a record\<close>

definition record_raw :: "bytes option \<Rightarrow> bytes" where
  "record_raw f = (case f of None \<Rightarrow> [] | Some t \<Rightarrow> [c_dquote] @ escape record_esc t @ [c_dquote])"

lemma record_raw_simps [simp]:
  "record_raw None = []" "record_raw (Some t) = [c_dquote] @ escape record_esc t @ [c_dquote]"
  by (simp_all add: record_raw_def)

lemma record_entries_appends:
  assumes rb: "rb_api_ok rb" and tm: "answers_good tm"
  shows "encoders_good T \<Longrightarrow> sbuf_wf s \<Longrightarrow>
    appends s (rbind (row_fields rb tm T i vs e) (\<lambda>fs. Inr (seps c_comma i (map record_raw fs))))
      (text_record_entries rb tm T i vs s e)"
proof (induction vs arbitrary: T i s)
  case (Cons v vs)
  let ?sep = "if i > 0 then [c_comma] else []"
  show ?case
  proof (cases "TYPE_of v = T_NIL")
    case True
    have "appends s (rbind (rbind (row_fields rb tm T (i + 1) vs e) (\<lambda>fs. Inr (seps c_comma (i + 1) (map record_raw fs))))
        (\<lambda>u. Inr (?sep @ u))) (text_record_entries rb tm T i (v # vs) s e)"
      unfolding text_record_entries.simps if_P [OF True]
      by (rule appends_cons [OF appends_sep [OF rb Cons.prems(2)]]) (auto intro: Cons.IH Cons.prems)
    then show ?thesis using True by (simp add: rbind_assoc del: text_record_entries.simps split del: if_split)
  next
    case False
    show ?thesis
    proof (cases "typecast_query_param tm T v (int i)")
      case (Inl x)
      have "appends s (rbind (Inl x) (\<lambda>u. Inr (?sep @ u))) (text_record_entries rb tm T i (v # vs) s e)"
        unfolding text_record_entries.simps if_not_P [OF False] Inl
        by (rule appends_cons [OF appends_sep [OF rb Cons.prems(2)]]) simp
      then show ?thesis using False Inl by (simp del: text_record_entries.simps)
    next
      case (Inr r)
      obtain c T' where r: "r = (c, T')" by (cases r)
      have good: "good_coder c" "encoders_good T'" using query_param_good [OF tm Inr [unfolded r] Cons.prems(1)] by auto
      have "appends s (rbind (rbind (rbind (encoded (pg_coder_enc_func rb c) v e)
            (\<lambda>t. Inr ([c_dquote] @ escape record_esc t @ [c_dquote])))
          (\<lambda>t. rbind (rbind (row_fields rb tm T' (i + 1) vs e)
            (\<lambda>fs. Inr (seps c_comma (i + 1) (map record_raw fs)))) (\<lambda>u. Inr (t @ u)))) (\<lambda>u. Inr (?sep @ u)))
        (text_record_entries rb tm T i (v # vs) s e)"
        unfolding text_record_entries.simps if_not_P [OF False] Inr r rbind.simps prod.case
        by (rule appends_cons [OF appends_sep [OF rb Cons.prems(2)]],
            rule appends_rbind [OF put_escaped_appends [OF rb good(1)]]) (auto intro: Cons.IH good)
      then show ?thesis using False Inr r by (simp add: rbind_assoc del: text_record_entries.simps split del: if_split)
    qed
  qed
qed simp

lemma enc_record_text:
  assumes rb: "rb_api_ok rb" and tm: "answers_good tm" and T: "encoders_good (record_typemap this)"
    and fit: "fit_to_query tm (record_typemap this) (RArray vs) = Inr ()"
  shows "pg_text_enc_record rb tm this (RArray vs) out im e =
    rbind (row_fields rb tm (record_typemap this) 0 vs e) (\<lambda>fs.
      Inr (- 1, [], RString ([c_lparen] @ seps c_comma 0 (map record_raw fs) @ [c_rparen]) e))"
proof -
  let ?s = "PG_RB_STR_NEW rb" and ?T = "record_typemap this"
  have "appends ?s (rbind (rbind (rbind (row_fields rb tm ?T 0 vs e) (\<lambda>fs. Inr (seps c_comma 0 (map record_raw fs))))
        (\<lambda>t. rbind (Inr [c_rparen]) (\<lambda>u. Inr (t @ u)))) (\<lambda>u. Inr ([c_lparen] @ u)))
      (rbind (sb_put [c_lparen] (PG_RB_STR_ENSURE_CAPA rb 1 ?s)) (\<lambda>s.
       rbind (text_record_entries rb tm ?T 0 vs s e) (\<lambda>str. sb_put [c_rparen] (PG_RB_STR_ENSURE_CAPA rb 1 str))))"
    by (rule appends_cons [OF appends_ENSURE_put [OF rb sbuf_wf_new(2) [OF rb]]], simp,
        rule appends_rbind [OF record_entries_appends [OF rb tm T]]) (simp_all add: appends_ENSURE_put rb)
  from appends_result [OF this, of "\<lambda>b. (- 1, [], RString b e)"] show ?thesis
    by (simp add: pg_text_enc_record_def fit sb_str_def rbind_assoc)
qed

section \<open>Reading back a record\<close>

lemma rdz_at: "data = pre @ c # post \<Longrightarrow> cur = length pre \<Longrightarrow> rdz data cur = Inr c"
  by (simp add: rdz_def)

lemma record_byte:
  assumes rb: "rb_api_ok rb" and b: "b \<noteq> 0" and wf: "sbuf_wf fs" and data: "data = pre @ escape1 record_esc b @ post"
  obtains fs' where "record_field rb data (length pre) True fs = record_field rb data (length pre + length (escape1 record_esc b)) True fs'"
    and "sb_data fs' = sb_data fs @ [b]" and "sbuf_wf fs'"
proof -
  obtain fs' where fs': "sb_put [b] (PG_RB_STR_ENSURE_CAPA rb 1 fs) = Inr fs'" "sb_data fs' = sb_data fs @ [b]" "sbuf_wf fs'"
    by (rule ENSURE_put [OF rb wf, of "[b]" 1]) auto
  have "record_field rb data (length pre) True fs = record_field rb data (length pre + length (escape1 record_esc b)) True fs'"
  proof (cases "b = c_dquote \<or> b = c_backslash")
    case True
    have "rdz data (length pre) = Inr b" "rdz data (length pre + 1) = Inr b"
      by (rule rdz_at [of _ pre b "b # post"] rdz_at [of _ "pre @ [b]" b post]; use data True in \<open>simp add: escape1_def record_esc_def\<close>)+
    then show ?thesis using True fs' b
      by (subst record_field.simps) (auto simp: escape1_def record_esc_def)
  next
    case False
    then have "rdz data (length pre) = Inr b"
      using data by (intro rdz_at [of _ pre b post]) (simp_all add: escape1_def record_esc_def)
    then show ?thesis using False fs' b
      by (subst record_field.simps) (auto simp: escape1_def record_esc_def)
  qed
  then show thesis using that fs' by blast
qed

lemma record_body:
  assumes rb: "rb_api_ok rb" and c: "c = c_comma \<or> c = c_rparen"
  shows "data = pre @ escape record_esc t @ c_dquote # c # post \<Longrightarrow> 0 \<notin> set t \<Longrightarrow> sbuf_wf fs \<Longrightarrow>
    \<exists>fs'. record_field rb data (length pre) True fs = Inr (length pre + length (escape record_esc t) + 1, fs') \<and>
      sb_data fs' = sb_data fs @ t \<and> sbuf_wf fs'"
proof (induction t arbitrary: pre fs)
  case Nil
  then have "rdz data (length pre) = Inr c_dquote" "rdz data (length pre + 1) = Inr c"
    by (auto simp: rdz_def nth_append)
  then have "record_field rb data (length pre) True fs = Inr (length pre + 1, fs)"
    using c by (subst record_field.simps, simp, subst record_field.simps) auto
  then show ?case using Nil by simp
next
  case (Cons b t)
  from Cons.prems(1) have data: "data = pre @ escape1 record_esc b @ (escape record_esc t @ c_dquote # c # post)" by simp
  obtain fs1 where fs1: "record_field rb data (length pre) True fs = record_field rb data (length pre + length (escape1 record_esc b)) True fs1"
    "sb_data fs1 = sb_data fs @ [b]" "sbuf_wf fs1"
    by (rule record_byte [OF rb _ Cons.prems(3) data]) (use Cons.prems(2) in auto)
  from Cons.IH [OF _ _ fs1(3), of "pre @ escape1 record_esc b"] Cons.prems(2) data fs1 show ?case by (auto simp: add.assoc)
qed

lemma record_quoted:
  assumes rb: "rb_api_ok rb" and c: "c = c_comma \<or> c = c_rparen" and wf: "sbuf_wf fs" and t: "0 \<notin> set t"
    and data: "data = pre @ record_raw (Some t) @ c # post"
  shows "\<exists>fs'. record_field rb data (length pre) False fs = Inr (length pre + length (record_raw (Some t)), fs') \<and>
      sb_data fs' = sb_data fs @ t \<and> sbuf_wf fs'"
proof -
  have "rdz data (length pre) = Inr c_dquote"
    by (rule rdz_at [of _ pre _ "escape record_esc t @ c_dquote # c # post"]) (simp_all add: data)
  then have "record_field rb data (length pre) False fs = record_field rb data (length pre + 1) True fs"
    by (subst record_field.simps) simp
  with record_body [OF rb c _ t wf, of data "pre @ [c_dquote]" post] data show ?thesis by simp
qed

text \<open>A text without NUL bytes, as a field of a record.\<close>

definition record_value ::
    "rb_api \<Rightarrow> tm_api \<Rightarrow> (t_pg_coder \<Rightarrow> bool) \<Rightarrow> typemap \<Rightarrow> enc_idx \<Rightarrow> nat \<Rightarrow> bytes option \<Rightarrow> rvalue \<Rightarrow> bool" where
  "record_value rb tm isd T e i f v \<longleftrightarrow> copy_value rb tm isd T 0 e i f v \<and> (\<forall>t. f = Some t \<longrightarrow> 0 \<notin> set t)"

lemma record_field_step:
  assumes rb: "rb_api_ok rb" and c: "c = c_comma \<or> c = c_rparen" and fs: "sbuf_wf fs" "sb_data fs = []"
    and data: "data = pre @ record_raw f @ c # post" and v: "record_value rb tm isd T e i f v"
  obtains fs' where "sbuf_wf fs'" "sb_data fs' = []"
    "record_fields rb tm isd T data e i (length pre) fs array =
      (if c = c_comma then record_fields rb tm isd T data e (i + 1) (length pre + length (record_raw f) + 1) fs' (array @ [v])
       else Inr (length pre + length (record_raw f) + 1, array @ [v]))"
proof (cases f)
  case None
  then have rd: "rdz data (length pre) = Inr c" and v': "v = Qnil"
    using data v by (auto simp: rdz_def record_value_def copy_value_def)
  have "record_fields rb tm isd T data e i (length pre) fs array =
      (if c = c_comma then record_fields rb tm isd T data e (i + 1) (length pre + length (record_raw f) + 1) fs (array @ [v])
       else Inr (length pre + length (record_raw f) + 1, array @ [v]))"
    unfolding record_fields.simps [of rb tm isd T data e i "length pre" fs array] using c None rd v' by auto
  then show thesis using that fs by blast
next
  case (Some t)
  obtain same where tc: "typecast_copy_get rb tm isd T t (int i) 0 e = Inr (v, same)" and t: "0 \<notin> set t"
    using v Some by (auto simp: record_value_def copy_value_def)
  have rd: "rdz data (length pre) = Inr c_dquote"
    using data Some by (intro rdz_at [of _ pre _ "escape record_esc t @ c_dquote # c # post"]) simp_all
  have rd2: "rdz data (length pre + length (record_raw f)) = Inr c"
    using data by (intro rdz_at [of _ "pre @ record_raw f" _ post]) simp_all
  obtain fs1 where fs1: "record_field rb data (length pre) False fs = Inr (length pre + length (record_raw f), fs1)"
    "sb_data fs1 = t" "sbuf_wf fs1"
    using record_quoted [OF rb c fs(1) t, of data pre post] data Some fs(2) by auto
  define fs2 where "fs2 = (if same then PG_RB_STR_NEW rb else fs1\<lparr> sb_data := [] \<rparr>)"
  have wf2: "sbuf_wf fs2" "sb_data fs2 = []" using fs1(3) sbuf_wf_new(2) [OF rb] by (auto simp: fs2_def sbuf_wf_def)
  have "record_fields rb tm isd T data e i (length pre) fs array =
      (if c = c_comma then record_fields rb tm isd T data e (i + 1) (length pre + length (record_raw f) + 1) fs2 (array @ [v])
       else Inr (length pre + length (record_raw f) + 1, array @ [v]))"
    unfolding record_fields.simps [of rb tm isd T data e i "length pre" fs array] rd fs1(1) rbind.simps prod.case
    using c fs1(2) tc rd2 by (auto simp: fs2_def)
  then show thesis using that wf2 by blast
qed

lemma decode_record_fields:
  assumes rb: "rb_api_ok rb"
  shows "data = pre @ record_raw f @ seps c_comma (Suc 0) (map record_raw fls) @ c_rparen # post \<Longrightarrow>
    sbuf_wf fs \<Longrightarrow> sb_data fs = [] \<Longrightarrow> length vs = length fls \<Longrightarrow>
    (\<And>j. j \<le> length fls \<Longrightarrow> record_value rb tm isd T e (i + j) ((f # fls) ! j) ((v # vs) ! j)) \<Longrightarrow>
    record_fields rb tm isd T data e i (length pre) fs array = Inr (length data - length post, array @ v # vs)"
proof (induction fls arbitrary: f v vs i pre fs array)
  case Nil
  have rv: "record_value rb tm isd T e i f v" using Nil.prems(5) [of 0] by simp
  have data: "data = pre @ record_raw f @ c_rparen # post" using Nil.prems(1) by simp
  obtain fs' where "record_fields rb tm isd T data e i (length pre) fs array =
      (if c_rparen = c_comma then record_fields rb tm isd T data e (i + 1) (length pre + length (record_raw f) + 1) fs' (array @ [v])
       else Inr (length pre + length (record_raw f) + 1, array @ [v]))"
    by (rule record_field_step [OF rb _ Nil.prems(2,3) data rv, of array]) auto
  then show ?case using Nil.prems(4) data by simp
next
  case (Cons f' fls)
  obtain v' vs' where vs: "vs = v' # vs'" using Cons.prems(4) by (cases vs) auto
  let ?rest = "record_raw f' @ seps c_comma (Suc 0) (map record_raw fls) @ c_rparen # post"
  have data: "data = pre @ record_raw f @ c_comma # ?rest" using Cons.prems(1) by (simp add: seps_Suc)
  have rv: "record_value rb tm isd T e i f v" using Cons.prems(5) [of 0] by simp
  obtain fs' where fs': "sbuf_wf fs'" "sb_data fs' = []" "record_fields rb tm isd T data e i (length pre) fs array =
      (if c_comma = c_comma then record_fields rb tm isd T data e (i + 1) (length pre + length (record_raw f) + 1) fs' (array @ [v])
       else Inr (length pre + length (record_raw f) + 1, array @ [v]))"
    by (rule record_field_step [OF rb _ Cons.prems(2,3) data rv, of array]) auto
  have "record_fields rb tm isd T data e (i + 1) (length (pre @ record_raw f @ [c_comma])) fs' (array @ [v])
      = Inr (length data - length post, (array @ [v]) @ v' # vs')"
  proof (rule Cons.IH [OF _ fs'(1,2)])
    show "data = (pre @ record_raw f @ [c_comma]) @ ?rest" using data by simp
    show "length vs' = length fls" using Cons.prems(4) vs by simp
    show "record_value rb tm isd T e (i + 1 + j) ((f' # fls) ! j) ((v' # vs') ! j)" if "j \<le> length fls" for j
      using Cons.prems(5) [of "Suc j"] that vs by simp
  qed
  then show ?case using fs'(3) vs by (simp add: add.assoc)
qed

section \<open>Memory safety\<close>

lemma skip_space_ok: "cur \<le> length data \<Longrightarrow> \<exists>cur'. skip_space data cur = Inr cur' \<and> cur' \<le> length data"
proof (induction "length data - cur" arbitrary: cur rule: less_induct)
  case less
  show ?case
  proof (cases "cur < length data \<and> data ! cur \<noteq> 0 \<and> record_isspace (data ! cur)")
    case True
    then have "skip_space data cur = skip_space data (cur + 1)" by (subst skip_space.simps) (simp add: rdz_def)
    then show ?thesis using less.hyps [of "cur + 1"] True by auto
  next
    case False
    then have "skip_space data cur = Inr cur" using less.prems by (subst skip_space.simps) (auto simp: rdz_def)
    then show ?thesis using less.prems by blast
  qed
qed

lemma record_field_safe:
  assumes rb: "rb_api_ok rb"
  shows "sbuf_wf fs \<Longrightarrow> cur \<le> length data \<Longrightarrow> safe (record_field rb data cur q fs)"
    and "sbuf_wf fs \<Longrightarrow> record_field rb data cur q fs = Inr (cur', fs') \<Longrightarrow> sbuf_wf fs'"
proof -
  have "sbuf_wf fs \<Longrightarrow> (cur \<le> length data \<longrightarrow> safe (record_field rb data cur q fs)) \<and>
    (\<forall>cur' fs'. record_field rb data cur q fs = Inr (cur', fs') \<longrightarrow> sbuf_wf fs')"
  proof (induction "length data + 1 - cur" arbitrary: cur q fs rule: less_induct)
    case less
    note put = safe_ENSURE_put1 [OF rb less.prems, of "[_]" 1, simplified]
    have H: "(k \<le> length data \<longrightarrow> safe (record_field rb data k q f)) \<and>
        (\<forall>cur' fs'. record_field rb data k q f = Inr (cur', fs') \<longrightarrow> sbuf_wf fs')"
      if "sbuf_wf f" "cur \<le> length data" "cur < k" for k q f
      by (rule less.hyps) (use that in auto)
    have IH: "sb_put [c] (PG_RB_STR_ENSURE_CAPA rb (Suc 0) fs) = Inr fs1 \<Longrightarrow> cur \<le> length data \<Longrightarrow> cur < k \<Longrightarrow> k \<le> length data \<Longrightarrow> safe (record_field rb data k q fs1)"
      "record_field rb data k q fs1 = Inr (cur', fs') \<Longrightarrow> sb_put [c] (PG_RB_STR_ENSURE_CAPA rb (Suc 0) fs) = Inr fs1 \<Longrightarrow> cur \<le> length data \<Longrightarrow> cur < k \<Longrightarrow> sbuf_wf fs'"
      "cur \<le> length data \<Longrightarrow> cur < k \<Longrightarrow> k \<le> length data \<Longrightarrow> safe (record_field rb data k q fs)"
      "record_field rb data k q fs = Inr (cur', fs') \<Longrightarrow> cur \<le> length data \<Longrightarrow> cur < k \<Longrightarrow> sbuf_wf fs'" for k c q fs1 cur' fs'
      using H put(2) less.prems by blast+
    have 1: "safe (record_field rb data cur q fs)" if "cur \<le> length data"
      using that IH(1,3) put(1) by (subst record_field.simps) (auto simp: rdz_def intro!: safe_rbind)
    have 2: "sbuf_wf fs'" if "record_field rb data cur q fs = Inr (cur', fs')" for cur' fs'
      using that less.prems by (subst (asm) record_field.simps)
        (auto simp: rbind_Inr_iff rdz_def split: if_splits dest!: IH(2,4))
    from 1 2 show ?case by blast
  qed
  then show "sbuf_wf fs \<Longrightarrow> cur \<le> length data \<Longrightarrow> safe (record_field rb data cur q fs)"
    "sbuf_wf fs \<Longrightarrow> record_field rb data cur q fs = Inr (cur', fs') \<Longrightarrow> sbuf_wf fs'" by blast+
qed

lemma record_fields_safe:
  assumes rb: "rb_api_ok rb" and tm: "tm_api_ok tm" and T: "copy_good T"
  shows "sbuf_wf fs \<Longrightarrow> cur \<le> length data \<Longrightarrow> safe (record_fields rb tm isd T data e i cur fs array) \<and>
    (\<forall>cur' vs. record_fields rb tm isd T data e i cur fs array = Inr (cur', vs) \<longrightarrow> cur' \<le> length data)"
proof (induction "length data + 1 - cur" arbitrary: cur i fs array rule: less_induct)
  case less
  have wf': "sbuf_wf (x\<lparr> sb_data := [] \<rparr>)" if "sbuf_wf x" for x using that by (simp add: sbuf_wf_def)
  let ?first = "\<lambda>c. if c = c_comma \<or> c = c_rparen then Inr (cur, Qnil, fs)
        else rbind (record_field rb data cur False fs) (\<lambda>(cur, field_str).
          rbind (typecast_copy_get rb tm isd T (sb_data field_str) (int i) 0 e)
            (\<lambda>(field_value, same). Inr (cur, field_value, if same then PG_RB_STR_NEW rb else field_str\<lparr> sb_data := [] \<rparr>)))"
  have first: "safe (?first c)" for c
    using less.prems by (auto intro!: safe_rbind record_field_safe typecast_copy_get_safe rb tm T)
  have first_out: "sbuf_wf fs1 \<and> cur \<le> k \<and> k \<le> length data" if "?first c = Inr (k, v, fs1)" for c k v fs1
    using that less.prems wf' [OF record_field_safe(2) [OF rb less.prems(1)]] sbuf_wf_new(2) [OF rb]
    by (auto simp: rbind_Inr_iff split: if_splits dest: record_field_cur less_imp_le)
  have IH: "?first c = Inr (k, v, fs1) \<Longrightarrow> k < length data \<Longrightarrow> safe (record_fields rb tm isd T data e j (k + 1) fs1 array2) \<and>
     (\<forall>cur' vs. record_fields rb tm isd T data e j (k + 1) fs1 array2 = Inr (cur', vs) \<longrightarrow> cur' \<le> length data)" for c k v fs1 j array2
    using first_out [of c k v fs1] by (intro less.hyps) auto
  obtain c where c: "rdz data cur = Inr c" using less.prems by (cases "cur < length data") (auto simp: rdz_def)
  note unf = record_fields.simps [of rb tm isd T data e i cur fs array, unfolded c rbind.simps]
  show ?case
  proof (cases "?first c")
    case (Inl x)
    then show ?thesis using first [of c] unfolding unf Inl by (auto simp: safe_iff)
  next
    case (Inr r)
    obtain k v fs1 where r: "r = (k, v, fs1)" by (cases r)
    have k: "k \<le> length data" using first_out [OF Inr [unfolded r]] by simp
    show ?thesis
    proof (cases "k < length data")
      case True
      then show ?thesis unfolding unf Inr r rbind.simps prod.case
        using IH [OF Inr [unfolded r] True, of "i + 1" "array @ [v]"] by (auto simp: rdz_def)
    next
      case False
      then show ?thesis unfolding unf Inr r rbind.simps prod.case using k by (simp add: rdz_def)
    qed
  qed
qed

section \<open>Properties\<close>

text \<open>Claim C15. A record of strings without NUL bytes and nil survives the composite type format: quotes,
  backslashes, commas, parentheses and white space inside the fields come back as they were, and
  an empty string stays different from nil.\<close>

theorem record_roundtrip:
  assumes "rb_api_ok rb" and "answers_good tm"
    and "record_typemap enc = TypeMapAllStrings" and "record_typemap dec = TypeMapAllStrings"
    and "vs \<noteq> []" and "string_row e vs" and "list_all (\<lambda>v. 0 \<notin> set (str_bytes v)) vs"
  shows "\<exists>t. pg_text_enc_record rb tm enc (RArray vs) False im e = Inr (- 1, [], RString t e) \<and>
    pg_text_dec_record rb tm isd dec t tuple field e = Inr (RArray vs)"
proof -
  obtain v vs' where vs: "vs = v # vs'" using assms(5) by (cases vs) auto
  let ?t = "[c_lparen] @ seps c_comma 0 (map record_raw (map row_text vs)) @ [c_rparen]"
  have "pg_text_enc_record rb tm enc (RArray vs) False im e = Inr (- 1, [], RString ?t e)"
    using enc_record_text [OF assms(1,2), of enc vs False im e] assms(3) row_fields_strings [OF assms(1,6)] by simp
  moreover have "record_fields rb tm isd TypeMapAllStrings ?t e 0 (length [c_lparen]) (PG_RB_STR_NEW rb) []
      = Inr (length ?t - length ([] :: bytes), [] @ v # vs')"
  proof (rule decode_record_fields [OF assms(1), of _ _ "row_text v" "map row_text vs'"])
    show "?t = [c_lparen] @ record_raw (row_text v) @ seps c_comma (Suc 0) (map record_raw (map row_text vs')) @ c_rparen # []"
      by (simp add: vs)
    show "record_value rb tm isd TypeMapAllStrings e (0 + j) ((row_text v # map row_text vs') ! j) ((v # vs') ! j)"
      if "j \<le> length (map row_text vs')" for j
    proof -
      have mem: "(v # vs') ! j \<in> set vs" using that vs by (auto simp: nth_Cons split: nat.split)
      with assms(6) have "(v # vs') ! j = Qnil \<or> (\<exists>s. (v # vs') ! j = RString s e)" unfolding list_all_iff by blast
      moreover have "0 \<notin> set (str_bytes ((v # vs') ! j))" using mem assms(7) unfolding list_all_iff by blast
      moreover have "(row_text v # map row_text vs') ! j = row_text ((v # vs') ! j)" using that by (simp add: nth_Cons split: nat.split)
      ultimately show ?thesis using string_values by (auto simp: record_value_def row_text_def split: if_splits)
    qed
  qed (use sbuf_wf_new(2) [OF assms(1)] in simp_all)
  moreover have "skip_space ?t 0 = Inr 0" "rdz ?t 0 = Inr c_lparen"
    by (simp_all add: skip_space.simps rdz_def record_isspace_def)
  moreover have "skip_space ?t (length ?t) = Inr (length ?t)" "rdz ?t (length ?t) = Inr 0"
    by (simp_all add: skip_space.simps rdz_def)
  ultimately have "pg_text_dec_record rb tm isd dec ?t tuple field e = Inr (RArray vs)"
    unfolding pg_text_dec_record_def by (simp add: assms(4) vs)
  with \<open>pg_text_enc_record rb tm enc (RArray vs) False im e = Inr (- 1, [], RString ?t e)\<close> show ?thesis by blast
qed

definition sample_record_enc :: t_pg_recordcoder where
  "sample_record_enc = pg_recordcoder_encoder_allocate Qnil None"

definition sample_record_dec :: t_pg_recordcoder where
  "sample_record_dec = pg_recordcoder_decoder_allocate Qnil None"

lemma sample_record_coders [simp]:
  "record_typemap sample_record_enc = TypeMapAllStrings" "record_typemap sample_record_dec = TypeMapAllStrings"
  by (simp_all add: sample_record_enc_def sample_record_dec_def pg_recordcoder_encoder_allocate_def
      pg_recordcoder_decoder_allocate_def pg_coder_init_encoder_def pg_coder_init_decoder_def
      t_pg_coder.defs t_pg_recordcoder.defs)

theorem record_roundtrip_witness:
  "\<exists>t. pg_text_enc_record rb_sample tm_sample sample_record_enc
      (RArray [RString [c_dquote, c_comma, c_backslash] 1, Qnil, RString [] 1, RString (lit '') '') 1]) False Qnil 1
      = Inr (- 1, [], RString t 1) \<and>
    pg_text_dec_record rb_sample tm_sample (\<lambda>_. False) sample_record_dec t 0 0 1
      = Inr (RArray [RString [c_dquote, c_comma, c_backslash] 1, Qnil, RString [] 1, RString (lit '') '') 1])"
  by (rule record_roundtrip) simp_all

text \<open>Claim C22. The record decoder never reads behind the NUL byte that ends its input and never writes
  outside of its field buffer, whatever the input is.\<close>

theorem record_decode_safe:
  assumes "rb_api_ok rb" and "tm_api_ok tm" and "copy_good (record_typemap this)"
  shows "safe (pg_text_dec_record rb tm isd this input_line tuple field e)"
proof -
  let ?d = "input_line"
  have rd: "cur \<le> length ?d \<Longrightarrow> safe (rdz ?d cur)" for cur by (auto simp: rdz_def)
  obtain cur where cur: "skip_space ?d 0 = Inr cur" "cur \<le> length ?d" using skip_space_ok [of 0 ?d] by auto
  have "safe (rbind (record_fields rb tm isd (record_typemap this) ?d e 0 (cur + 1) (PG_RB_STR_NEW rb) []) (\<lambda>(cur, array).
      rbind (skip_space ?d cur) (\<lambda>cur. rbind (rdz ?d cur) (\<lambda>c.
        if c \<noteq> 0 then Inl (malformed_record ''Junk after right parenthesis.'') else Inr (RArray array)))))"
    if "cur < length ?d"
  proof (rule safe_rbind)
    note rf = record_fields_safe [OF assms sbuf_wf_new(2) [OF assms(1)], of "cur + 1" ?d isd e 0 "[]"]
    show "safe (record_fields rb tm isd (record_typemap this) ?d e 0 (cur + 1) (PG_RB_STR_NEW rb) [])" using rf that by simp
    fix r assume r: "record_fields rb tm isd (record_typemap this) ?d e 0 (cur + 1) (PG_RB_STR_NEW rb) [] = Inr r"
    obtain k vs where kv: "r = (k, vs)" by (cases r)
    with r rf that have "k \<le> length ?d" by auto
    from skip_space_ok [OF this] obtain k' where "skip_space ?d k = Inr k'" "k' \<le> length ?d" by blast
    then show "safe (case r of (cur, array) \<Rightarrow> rbind (skip_space ?d cur) (\<lambda>cur. rbind (rdz ?d cur) (\<lambda>c.
        if c \<noteq> 0 then Inl (malformed_record ''Junk after right parenthesis.'') else Inr (RArray array))))"
      using rd by (auto simp: kv intro!: safe_rbind)
  qed
  then show ?thesis using cur unfolding pg_text_dec_record_def
    by (cases "cur < length ?d") (auto simp: rdz_def intro!: safe_rbind fit_to_copy_get_safe assms)
qed

theorem record_decode_safe_witness:
  "safe (pg_text_dec_record rb_sample tm_sample (\<lambda>_. True) sample_record_dec [c_space, c_lparen, c_dquote, c_backslash] 0 0 0)"
  by (rule record_decode_safe) simp_all

end
