(* ===== verification/PG_Errors.thy ===== *)
theory PG_Errors
  imports PG_Record_Coder
begin

text \<open>
  \<open>ext/pg_errors.c\<close>: the table of error classes by SQLSTATE. The entries of \<open>ext/errorcodes.def\<close>, which
  is generated from the list in PostgreSQL, are an argument: a list of classes, each with the code of
  its base class, if any, and the codes it is registered for.
\<close>

section \<open>The table\<close>

text \<open>Classes with their superclass, in the order of definition, and \<open>rb_hErrors\<close>.\<close>

record errors =
  err_classes :: "(string \<times> string) list"
  rb_hErrors :: "(bytes \<times> string) list"

definition define_error_class :: "string \<Rightarrow> bytes option \<Rightarrow> errors \<Rightarrow> (string \<times> errors) res" where
  "define_error_class name baseclass_code t =
     rbind (case baseclass_code of
              None \<Rightarrow> Inr ''ServerError''
            | Some code \<Rightarrow> (case map_of (rb_hErrors t) code of
                Some klass \<Rightarrow> Inr klass
              | None \<Rightarrow> Inl (Raise TypeError ''superclass must be a Class'' []))) (\<lambda>baseclass.
       case map_of (err_classes t) name of
         None \<Rightarrow> Inr (name, t\<lparr> err_classes := (name, baseclass) # err_classes t \<rparr>)
       | Some super \<Rightarrow>
           if super = baseclass then Inr (name, t)
           else Inl (Raise TypeError ''superclass mismatch for class'' []))"

definition register_error_class :: "bytes \<Rightarrow> string \<Rightarrow> errors \<Rightarrow> errors" where
  "register_error_class code klass t = t\<lparr> rb_hErrors := (code, klass) # rb_hErrors t \<rparr>"

text \<open>
  The class for an SQLSTATE, a C string. \<open>rb_str_new(sqlstate, 2)\<close> takes two bytes whatever the length
  of the string is.
\<close>

definition lookup_error_class :: "errors \<Rightarrow> bytes option \<Rightarrow> string res" where
  "lookup_error_class t sqlstate =
     (case sqlstate of
        Some code \<Rightarrow>
          (case map_of (rb_hErrors t) code of
             Some klass \<Rightarrow> Inr klass
           | None \<Rightarrow>
               if length code + 1 < 2 then Inl MemFault
               else (case map_of (rb_hErrors t) (take 2 (code @ [0])) of
                 Some klass \<Rightarrow> Inr klass
               | None \<Rightarrow> Inr ''ServerError''))
      | None \<Rightarrow> Inr ''UnableToSend'')"

text \<open>\<open>init_pg_errors\<close>: the fixed classes, then the entries of \<open>errorcodes.def\<close>.\<close>

primrec init_error_codes :: "(string \<times> bytes option \<times> bytes list) list \<Rightarrow> errors \<Rightarrow> errors res" where
  "init_error_codes [] t = Inr t"
| "init_error_codes (d # ds) t =
     (case d of (name, base, codes) \<Rightarrow>
        rbind (define_error_class name base t) (\<lambda>(klass, t).
          init_error_codes ds (fold (\<lambda>code. register_error_class code klass) codes t)))"

definition init_pg_errors :: "(string \<times> bytes option \<times> bytes list) list \<Rightarrow> errors res" where
  "init_pg_errors defs = init_error_codes defs
     \<lparr> err_classes = rev
         [(''Error'', ''StandardError''), (''ServerError'', ''Error''), (''UnableToSend'', ''Error''),
          (''ConnectionBad'', ''Error''), (''InvalidResultStatus'', ''Error''), (''NoResultError'', ''Error''),
          (''InvalidChangeOfResultFields'', ''Error'')],
       rb_hErrors = [] \<rparr>"

section \<open>The class hierarchy\<close>

text \<open>A class and its superclasses up to \<open>ServerError\<close>.\<close>

inductive server_error :: "errors \<Rightarrow> string \<Rightarrow> bool" for t where
  base: "server_error t ''ServerError''"
| derived: "map_of (err_classes t) name = Some super \<Longrightarrow> server_error t super \<Longrightarrow> server_error t name"

definition errors_inv :: "errors \<Rightarrow> bool" where
  "errors_inv t \<longleftrightarrow> (\<forall>code klass. map_of (rb_hErrors t) code = Some klass \<longrightarrow> server_error t klass)"

lemma server_error_mono:
  "server_error t k \<Longrightarrow> (\<And>n s. map_of (err_classes t) n = Some s \<Longrightarrow> map_of (err_classes t') n = Some s) \<Longrightarrow> server_error t' k"
  by (induction rule: server_error.induct) (auto intro: server_error.intros)

lemma errors_inv_mono:
  "errors_inv t \<Longrightarrow> rb_hErrors t' = rb_hErrors t \<Longrightarrow>
     (\<And>n s. map_of (err_classes t) n = Some s \<Longrightarrow> map_of (err_classes t') n = Some s) \<Longrightarrow> errors_inv t'"
  unfolding errors_inv_def using server_error_mono by metis

lemma define_error_class_inv:
  assumes "errors_inv t" "define_error_class name base t = Inr (klass, t')"
  shows "errors_inv t' \<and> server_error t' klass"
proof -
  obtain sup where b: "(case base of None \<Rightarrow> Inr ''ServerError'' | Some code \<Rightarrow> (case map_of (rb_hErrors t) code of
      Some klass \<Rightarrow> Inr klass | None \<Rightarrow> Inl (Raise TypeError ''superclass must be a Class'' []))) = Inr sup"
    and r: "(case map_of (err_classes t) name of None \<Rightarrow> Inr (name, t\<lparr> err_classes := (name, sup) # err_classes t \<rparr>)
       | Some super \<Rightarrow> if super = sup then Inr (name, t) else Inl (Raise TypeError ''superclass mismatch for class'' []))
      = Inr (klass, t')"
    using assms(2) unfolding define_error_class_def by (rule rbind_InrE)
  have sup: "server_error t sup" "klass = name"
    using b r assms(1) by (simp_all add: errors_inv_def split: option.splits if_splits) (auto intro: server_error.base)
  have cs: "map_of (err_classes t) name = None \<and> t' = t\<lparr> err_classes := (name, sup) # err_classes t \<rparr> \<or>
      map_of (err_classes t) name = Some sup \<and> t' = t"
    using r by (auto split: option.splits if_splits)
  from cs show ?thesis
  proof
    assume c: "map_of (err_classes t) name = None \<and> t' = t\<lparr> err_classes := (name, sup) # err_classes t \<rparr>"
    then have mono: "map_of (err_classes t) n = Some s \<Longrightarrow> map_of (err_classes t') n = Some s" for n s by auto
    have s': "server_error t' sup" using server_error_mono [OF sup(1) mono] .
    have "map_of (err_classes t') klass = Some sup" using c sup(2) by simp
    then have "server_error t' klass" by (rule server_error.derived [OF _ s'])
    moreover have "errors_inv t'" by (rule errors_inv_mono [OF assms(1) _ mono]) (use c in simp)
    ultimately show ?thesis by simp
  next
    assume "map_of (err_classes t) name = Some sup \<and> t' = t"
    then show ?thesis using assms(1) sup by (auto intro: server_error.derived)
  qed
qed

lemma register_inv:
  assumes "errors_inv t" "server_error t klass"
  shows "errors_inv (register_error_class code klass t) \<and> server_error (register_error_class code klass t) klass"
proof -
  have same: "server_error (register_error_class code klass t) k" if "server_error t k" for k
    using that by (rule server_error_mono) (simp add: register_error_class_def)
  show ?thesis using assms same by (auto simp: errors_inv_def register_error_class_def)
qed

lemma registers_inv:
  "errors_inv t \<Longrightarrow> server_error t klass \<Longrightarrow> errors_inv (fold (\<lambda>code. register_error_class code klass) codes t)"
proof (induction codes arbitrary: t)
  case (Cons c codes)
  then show ?case using register_inv [OF Cons.prems, of c] by simp
qed simp

lemma init_error_codes_inv: "errors_inv t \<Longrightarrow> init_error_codes defs t = Inr t' \<Longrightarrow> errors_inv t'"
proof (induction defs arbitrary: t)
  case (Cons d defs)
  obtain name base codes where d: "d = (name, base, codes)" by (cases d)
  with Cons.prems(2) obtain klass t1 where "define_error_class name base t = Inr (klass, t1)"
    "init_error_codes defs (fold (\<lambda>code. register_error_class code klass) codes t1) = Inr t'"
    by (auto simp: rbind_Inr_iff)
  with Cons.IH registers_inv define_error_class_inv [OF Cons.prems(1)] show ?case by blast
qed simp

section \<open>Properties\<close>


definition sample_errors :: "(string \<times> bytes option \<times> bytes list) list" where
  "sample_errors = [(''SyntaxErrorOrAccessRuleViolation'', None, [lit ''42000'', lit ''42'']),
     (''InsufficientPrivilege'', Some (lit ''42''), [lit ''42501''])]"


end
