(* ===== verification/PG_Result.thy ===== *)
theory PG_Result
  imports PG_Errors
begin

text \<open>
  \<open>ext/pg_result.c\<close> and the constructor of \<open>PG::Tuple\<close>: results as Ruby objects that own a \<open>PGresult\<close> of libpq.
  Objects and \<open>PGresult\<close>s live in a state; \<open>PQclear\<close> frees a \<open>PGresult\<close>, and a read of one that was
  freed is a \<open>MemFault\<close>. A method is a function from the state to a result and the new state,
  which also an exception leaves behind. A block is such a function too: it may call any
  method on the object it iterates over.
\<close>

section \<open>State\<close>

datatype exec_status = PGRES_EMPTY_QUERY | PGRES_COMMAND_OK | PGRES_TUPLES_OK | PGRES_COPY_OUT | PGRES_COPY_IN
  | PGRES_BAD_RESPONSE | PGRES_NONFATAL_ERROR | PGRES_FATAL_ERROR | PGRES_COPY_BOTH | PGRES_SINGLE_TUPLE
  | PGRES_PIPELINE_SYNC | PGRES_PIPELINE_ABORTED | PGRES_TUPLES_CHUNK | PGRES_OTHER int

text \<open>The numbers of libpq's enumeration.\<close>

fun exec_status_code :: "exec_status \<Rightarrow> int" where
  "exec_status_code PGRES_EMPTY_QUERY = 0"
| "exec_status_code PGRES_COMMAND_OK = 1"
| "exec_status_code PGRES_TUPLES_OK = 2"
| "exec_status_code PGRES_COPY_OUT = 3"
| "exec_status_code PGRES_COPY_IN = 4"
| "exec_status_code PGRES_BAD_RESPONSE = 5"
| "exec_status_code PGRES_NONFATAL_ERROR = 6"
| "exec_status_code PGRES_FATAL_ERROR = 7"
| "exec_status_code PGRES_COPY_BOTH = 8"
| "exec_status_code PGRES_SINGLE_TUPLE = 9"
| "exec_status_code PGRES_PIPELINE_SYNC = 10"
| "exec_status_code PGRES_PIPELINE_ABORTED = 11"
| "exec_status_code PGRES_TUPLES_CHUNK = 12"
| "exec_status_code (PGRES_OTHER n) = n"

text \<open>The contents of a \<open>PGresult\<close> that the extension reads, and \<open>PQfnumber\<close>, which libpq computes from it.\<close>

record pg_data = pgresult +
  pq_fnames :: "bytes list"
  pq_status :: exec_status
  pq_errmsg :: bytes
  pq_errfields :: "int \<Rightarrow> bytes option"
  pq_ftables :: "oid list"
  pq_ftablecols :: "int list"
  pq_fmods :: "int list"
  pq_fsizes :: "int list"
  pq_paramtypes :: "oid list"
  pq_cmdstatus :: bytes
  pq_cmdtuples :: bytes
  pq_verbose_errmsg :: "int \<Rightarrow> int \<Rightarrow> bytes option"
  pq_oid :: oid
  pq_binary :: bool
  PQfnumber :: "bytes \<Rightarrow> int"

text \<open>\<open>t_pg_result\<close>; the connection is only present or not. \<open>res_capa\<close> is the number of slots that are
  allocated for \<open>fnames\<close>.\<close>

record t_pg_result =
  res_pgresult :: "nat option"
  res_connection :: bool
  res_typemap :: typemap
  res_enc_idx :: enc_idx
  res_autoclear :: bool
  res_flags :: int
  res_nfields :: int
  res_size :: int
  res_field_map :: "(rvalue \<times> int) list option"
  res_capa :: nat
  res_fnames :: "rvalue list"
  res_frozen :: bool

text \<open>\<open>t_pg_tuple\<close>; the field names are there when some of them are equal.\<close>

record t_pg_tuple =
  tup_result :: "nat option"
  tup_typemap :: "typemap option"
  tup_field_map :: "(rvalue \<times> int) list"
  tup_row_num :: int
  tup_num_fields :: int
  tup_values :: "rvalue list"
  tup_field_names :: "rvalue list option"

text \<open>The \<open>PGresult\<close>s, the objects, the next free address and the memory published to the GC.\<close>

record rst =
  st_heap :: "nat \<Rightarrow> pg_data option"
  st_res :: "nat \<Rightarrow> t_pg_result option"
  st_tup :: "nat \<Rightarrow> t_pg_tuple option"
  st_next :: nat
  st_gc_usage :: int

text \<open>
  The code outside of the extension: Ruby's objects and the coders, the Ruby code of type maps,
  the hashes of the type maps by OID, the interning of a name as a Symbol, which raises when the
  name is not valid in its encoding, and the texts of libpq's result states.
\<close>

record env =
  env_rb :: rb_api
  env_tm :: tm_api
  env_hs :: hashes
  env_intern :: "bytes \<Rightarrow> enc_idx \<Rightarrow> rvalue res"
  env_res_status :: "int \<Rightarrow> bytes"

type_synonym 'a rop = "rst \<Rightarrow> 'a res \<times> rst"

definition oret :: "'a \<Rightarrow> 'a rop" where
  "oret x = (\<lambda>s. (Inr x, s))"

definition oerr :: "rb_exc \<Rightarrow> 'a rop" where
  "oerr e = (\<lambda>s. (Inl e, s))"

definition olift :: "'a res \<Rightarrow> 'a rop" where
  "olift r = (\<lambda>s. (r, s))"

definition obind :: "'a rop \<Rightarrow> ('a \<Rightarrow> 'b rop) \<Rightarrow> 'b rop" where
  "obind m f = (\<lambda>s. case m s of (Inl e, s') \<Rightarrow> (Inl e, s') | (Inr x, s') \<Rightarrow> f x s')"

text \<open>\<open>pgresult_get_this\<close>, a write of the struct, and reads through a \<open>PGresult\<close> pointer. A NULL pointer is
  answered by libpq as a result without rows and fields.\<close>

definition pgresult_get_this :: "nat \<Rightarrow> t_pg_result rop" where
  "pgresult_get_this self = (\<lambda>s. (case st_res s self of Some r \<Rightarrow> Inr r | None \<Rightarrow> Inl MemFault, s))"

definition upd_this :: "nat \<Rightarrow> (t_pg_result \<Rightarrow> t_pg_result) \<Rightarrow> unit rop" where
  "upd_this self f = (\<lambda>s. (Inr (), s\<lparr> st_res := (st_res s)(self := map_option f (st_res s self)) \<rparr>))"

definition deref :: "nat \<Rightarrow> pg_data rop" where
  "deref a = (\<lambda>s. (case st_heap s a of Some d \<Rightarrow> Inr d | None \<Rightarrow> Inl MemFault, s))"

definition null_result :: pgresult where
  "null_result = \<lparr> pq_rows = [], pq_ftypes = [], pq_fformats = [] \<rparr>"

definition deref_or_null :: "nat option \<Rightarrow> pgresult rop" where
  "deref_or_null p = (case p of None \<Rightarrow> oret null_result | Some a \<Rightarrow> obind (deref a) (\<lambda>d. oret (pgresult.truncate d)))"

section \<open>The size of a result\<close>

text \<open>\<open>__builtin_clz\<close> on a positive \<open>unsigned int\<close>.\<close>

definition clz32 :: "32 word \<Rightarrow> int" where
  "clz32 x = int (length (takeWhile (\<lambda>i. \<not> bit x i) (rev [0..<32])))"

definition num_samples :: "int \<Rightarrow> int \<Rightarrow> int" where
  "num_samples num_fields num_tuples =
     (if num_fields < 9 then num_fields else 39 - clz32 (word_of_int (num_fields - 8))) *
     (if num_tuples < 8 then 1 else 30 - clz32 (word_of_int num_tuples))"

definition PGRESULT_DATA_BLOCKSIZE :: int where "PGRESULT_DATA_BLOCKSIZE = 2048"

definition PQgetlength :: "'a pgresult_scheme \<Rightarrow> int \<Rightarrow> int \<Rightarrow> int" where
  "PQgetlength d tuple field = (case PQfield d tuple field of None \<Rightarrow> 0 | Some v \<Rightarrow> int (length v))"

text \<open>The fields that are looked at, the last ones first.\<close>

definition sample_fields :: "int \<Rightarrow> int \<Rightarrow> (int \<times> int) list" where
  "sample_fields num_fields num_tuples =
     (let n = num_samples num_fields num_tuples in
      map (\<lambda>pos. (num_tuples - 1 - pos div num_fields, num_fields - 1 - pos mod num_fields)) [0..(n + 1) div 2 - 1] @
      map (\<lambda>pos. (pos div num_fields, pos mod num_fields)) [0..n div 2 - 1])"

text \<open>\<open>pgresult_approx_size\<close> where libpq has no \<open>PQresultMemorySize\<close>, on a 64 bit system.\<close>

definition pgresult_approx_size :: "'a pgresult_scheme \<Rightarrow> int" where
  "pgresult_approx_size d =
     (let num_fields = PQnfields d in
      (if num_fields > 0 then
         let num_tuples = PQntuples d;
             size = (if num_tuples > 0 then
                 sum_list (map (\<lambda>(t, f). PQgetlength d t f) (sample_fields num_fields num_tuples)) * num_tuples * num_fields
                   div num_samples num_fields num_tuples
               else 0);
             size = size + num_fields * (40 + num_tuples * (16 + 1));
             size = (size + PGRESULT_DATA_BLOCKSIZE - 1) div PGRESULT_DATA_BLOCKSIZE * PGRESULT_DATA_BLOCKSIZE
         in size + 8 * ((num_tuples + 128 - 1) div 128 * 128)
       else 0) + 216)"

section \<open>Construction and clearing\<close>

definition PQclear :: "nat \<Rightarrow> unit rop" where
  "PQclear a = obind (deref a) (\<lambda>_ s. (Inr (), s\<lparr> st_heap := (st_heap s)(a := None) \<rparr>))"

definition rb_gc_adjust_memory_usage :: "int \<Rightarrow> unit rop" where
  "rb_gc_adjust_memory_usage diff = (\<lambda>s. (Inr (), s\<lparr> st_gc_usage := st_gc_usage s + diff \<rparr>))"

definition pgresult_clear :: "nat \<Rightarrow> unit rop" where
  "pgresult_clear self =
     obind (pgresult_get_this self) (\<lambda>this.
     obind (case res_pgresult this of
              None \<Rightarrow> oret ()
            | Some a \<Rightarrow>
                if \<not> res_autoclear this
                then obind (PQclear a) (\<lambda>_. rb_gc_adjust_memory_usage (- res_size this))
                else oret ()) (\<lambda>_.
       upd_this self (\<lambda>r. r\<lparr> res_size := 0, res_nfields := - 1, res_pgresult := None \<rparr>)))"

definition pgresult_gc_free :: "nat \<Rightarrow> unit rop" where
  "pgresult_gc_free self =
     obind (pgresult_clear self) (\<lambda>_ s. (Inr (), s\<lparr> st_res := (st_res s)(self := None) \<rparr>))"

definition pgresult_memsize :: "t_pg_result \<Rightarrow> int" where
  "pgresult_memsize this = res_size this"

definition pg_get_result_enc_idx :: "nat \<Rightarrow> enc_idx rop" where
  "pg_get_result_enc_idx self = obind (pgresult_get_this self) (\<lambda>this. oret (res_enc_idx this))"

text \<open>What a result takes from its connection.\<close>

record conn_part =
  conn_type_map_for_results :: typemap
  conn_enc_idx :: enc_idx
  conn_flags :: int

definition pg_new_result2 :: "hashes \<Rightarrow> conn_part \<Rightarrow> enc_idx \<Rightarrow> nat option \<Rightarrow> nat rop" where
  "pg_new_result2 hs p_conn rb_locale_encindex result =
     obind (deref_or_null result) (\<lambda>d.
     obind (\<lambda>s. (Inr (st_next s), s\<lparr> st_next := st_next s + 1, st_res := (st_res s)(st_next s \<mapsto>
         \<lparr> res_pgresult = result, res_connection = True, res_typemap = TypeMapAllStrings, res_enc_idx = 0,
           res_autoclear = False, res_flags = 0, res_nfields = - 1, res_size = 0, res_field_map = None,
           res_capa = nat (PQnfields d), res_fnames = [], res_frozen = False \<rparr>) \<rparr>)) (\<lambda>self.
       if result \<noteq> None then
         obind (upd_this self (\<lambda>r. r\<lparr> res_enc_idx := conn_enc_idx p_conn \<rparr>)) (\<lambda>_.
         obind (olift (fit_to_result hs (conn_type_map_for_results p_conn) d)) (\<lambda>(typemap, _).
         obind (upd_this self (\<lambda>r. r\<lparr> res_typemap := typemap, res_flags := conn_flags p_conn \<rparr>)) (\<lambda>_. oret self)))
       else obind (upd_this self (\<lambda>r. r\<lparr> res_enc_idx := rb_locale_encindex \<rparr>)) (\<lambda>_. oret self)))"

definition pg_new_result :: "hashes \<Rightarrow> conn_part \<Rightarrow> enc_idx \<Rightarrow> nat option \<Rightarrow> nat rop" where
  "pg_new_result hs p_conn rb_locale_encindex result =
     obind (pg_new_result2 hs p_conn rb_locale_encindex result) (\<lambda>self.
     obind (deref_or_null result) (\<lambda>d.
       let size = pgresult_approx_size d in
       obind (upd_this self (\<lambda>r. r\<lparr> res_autoclear := False, res_size := size \<rparr>)) (\<lambda>_.
       obind (rb_gc_adjust_memory_usage size) (\<lambda>_. oret self))))"

text \<open>The copy takes over the \<open>PGresult\<close> and its size; the caller sets the pointer of the original to NULL.\<close>

definition pg_copy_result :: "nat \<Rightarrow> nat rop" where
  "pg_copy_result self =
     obind (pgresult_get_this self) (\<lambda>this.
     obind (if res_nfields this = - 1 then obind (deref_or_null (res_pgresult this)) (\<lambda>d. oret (PQnfields d))
            else oret (res_nfields this)) (\<lambda>nfields.
       if nat nfields > res_capa this then oerr MemFault
       else
         obind (upd_this self (\<lambda>r. r\<lparr> res_size := 0 \<rparr>)) (\<lambda>_ s.
           (Inr (st_next s), s\<lparr> st_next := st_next s + 1, st_res := (st_res s)(st_next s \<mapsto>
              this\<lparr> res_frozen := False, res_capa := nat nfields, res_fnames := take (nat nfields) (res_fnames this) \<rparr>) \<rparr>))))"

definition pg_new_result_autoclear :: "hashes \<Rightarrow> conn_part \<Rightarrow> enc_idx \<Rightarrow> nat option \<Rightarrow> nat rop" where
  "pg_new_result_autoclear hs p_conn rb_locale_encindex result =
     obind (pg_new_result2 hs p_conn rb_locale_encindex result) (\<lambda>self.
     obind (upd_this self (\<lambda>r. r\<lparr> res_size := 0, res_autoclear := True \<rparr>)) (\<lambda>_. oret self))"

abbreviation cleared_error :: rb_exc where
  "cleared_error \<equiv> Raise PGError ''result has been cleared'' []"

definition pgresult_get_this_safe :: "nat \<Rightarrow> (t_pg_result \<times> nat) rop" where
  "pgresult_get_this_safe self =
     obind (pgresult_get_this self) (\<lambda>this. case res_pgresult this of None \<Rightarrow> oerr cleared_error | Some a \<Rightarrow> oret (this, a))"

definition pgresult_get :: "nat \<Rightarrow> nat rop" where
  "pgresult_get self =
     obind (pgresult_get_this self) (\<lambda>this. case res_pgresult this of None \<Rightarrow> oerr cleared_error | Some a \<Rightarrow> oret a)"

text \<open>The data of a result that is not cleared.\<close>

definition live :: "nat \<Rightarrow> pg_data rop" where
  "live self = obind (pgresult_get self) deref"

definition check_frozen :: "nat \<Rightarrow> unit rop" where
  "check_frozen self = obind (pgresult_get_this self) (\<lambda>this. if res_frozen this then oerr frozen_error else oret ())"

definition pg_result_clear :: "nat \<Rightarrow> unit rop" where
  "pg_result_clear self = obind (check_frozen self) (\<lambda>_. pgresult_clear self)"

definition pgresult_cleared_p :: "nat \<Rightarrow> bool rop" where
  "pgresult_cleared_p self = obind (pgresult_get_this self) (\<lambda>this. oret (res_pgresult this = None))"

definition pgresult_autoclear_p :: "nat \<Rightarrow> bool rop" where
  "pgresult_autoclear_p self = obind (pgresult_get_this self) (\<lambda>this. oret (res_autoclear this))"

text \<open>\<open>PG_DIAG_SQLSTATE\<close> is the character C.\<close>

definition pg_result_check :: "errors \<Rightarrow> nat \<Rightarrow> unit rop" where
  "pg_result_check errs self =
     obind (pgresult_get_this self) (\<lambda>this.
       case res_pgresult this of
         None \<Rightarrow>
           if \<not> res_connection this then oerr (Raise TypeError ''wrong argument type nil (expected PG::Connection)'' [])
           else obind (olift (lookup_error_class errs None)) (\<lambda>klass. oerr (Raise (PGClass klass) ''%s'' []))
       | Some a \<Rightarrow>
           obind (deref a) (\<lambda>d.
             if pq_status d \<in> {PGRES_TUPLES_OK, PGRES_COPY_OUT, PGRES_COPY_IN, PGRES_COPY_BOTH, PGRES_SINGLE_TUPLE,
                 PGRES_EMPTY_QUERY, PGRES_COMMAND_OK, PGRES_PIPELINE_SYNC, PGRES_TUPLES_CHUNK} then oret ()
             else
               let error = (if pq_status d \<in> {PGRES_BAD_RESPONSE, PGRES_FATAL_ERROR, PGRES_NONFATAL_ERROR, PGRES_PIPELINE_ABORTED}
                            then ''%s'' else ''internal error : unknown result status.'') in
               obind (olift (lookup_error_class errs (pq_errfields d 67))) (\<lambda>klass. oerr (Raise (PGClass klass) error []))))"

section \<open>Field names\<close>

definition PG_RESULT_FIELD_NAMES_MASK :: int where "PG_RESULT_FIELD_NAMES_MASK = 1"
definition PG_RESULT_FIELD_NAMES_SYMBOL :: int where "PG_RESULT_FIELD_NAMES_SYMBOL = 1"

definition pg_cstr_to_sym :: "env \<Rightarrow> bytes \<Rightarrow> int \<Rightarrow> enc_idx \<Rightarrow> rvalue res" where
  "pg_cstr_to_sym env str flags enc_idx =
     (if flags AND PG_RESULT_FIELD_NAMES_SYMBOL \<noteq> 0 then env_intern env str enc_idx else Inr (RString str enc_idx))"

text \<open>\<open>this->fnames[i] = fname; this->nfields = i + 1\<close>.\<close>

definition set_fname :: "nat \<Rightarrow> nat \<Rightarrow> rvalue \<Rightarrow> unit rop" where
  "set_fname self i fname =
     obind (pgresult_get_this self) (\<lambda>this.
       if i < res_capa this
       then upd_this self (\<lambda>r. r\<lparr> res_fnames := take i (res_fnames r) @ [fname], res_nfields := int i + 1 \<rparr>)
       else oerr MemFault)"

text \<open>The loop stores one name after the other; where one of them raises, the number of fields is the
  number of names stored so far.\<close>

primrec init_fnames_loop :: "env \<Rightarrow> nat \<Rightarrow> int \<Rightarrow> enc_idx \<Rightarrow> nat \<Rightarrow> bytes list \<Rightarrow> unit rop" where
  "init_fnames_loop env self flags enc_idx i [] = oret ()"
| "init_fnames_loop env self flags enc_idx i (cfname # cfnames) =
     obind (olift (pg_cstr_to_sym env cfname flags enc_idx)) (\<lambda>fname.
     obind (set_fname self i fname) (\<lambda>_.
       init_fnames_loop env self flags enc_idx (i + 1) cfnames))"

definition pgresult_init_fnames :: "env \<Rightarrow> nat \<Rightarrow> unit rop" where
  "pgresult_init_fnames env self =
     obind (pgresult_get_this_safe self) (\<lambda>(this, a).
       if res_nfields this = - 1 then
         obind (deref a) (\<lambda>d.
         obind (init_fnames_loop env self (res_flags this) (res_enc_idx this) 0 (pq_fnames d)) (\<lambda>_.
           upd_this self (\<lambda>r. r\<lparr> res_nfields := PQnfields d \<rparr>)))
       else oret ())"

definition pgresult_fields :: "env \<Rightarrow> nat \<Rightarrow> rvalue list rop" where
  "pgresult_fields env self =
     obind (pgresult_get_this_safe self) (\<lambda>(this, a).
     obind (if res_nfields this = - 1 then pgresult_init_fnames env self else oret ()) (\<lambda>_.
     obind (pgresult_get_this self) (\<lambda>this. oret (take (nat (res_nfields this)) (res_fnames this)))))"

text \<open>
  Keys of a Hash are compared by \<open>eql?\<close>: Strings with the same bytes are equal when they have the same
  encoding or only ASCII characters; client encodings are ASCII compatible. A key that is there
  keeps its place.
\<close>

fun rb_eql :: "rvalue \<Rightarrow> rvalue \<Rightarrow> bool" where
  "rb_eql (RString b e) (RString b' e') \<longleftrightarrow> b = b' \<and> (e = e' \<or> (\<forall>c \<in> set b. c < 128))"
| "rb_eql v w \<longleftrightarrow> v = w"

fun rb_hash_aset :: "rvalue \<Rightarrow> 'v \<Rightarrow> (rvalue \<times> 'v) list \<Rightarrow> (rvalue \<times> 'v) list" where
  "rb_hash_aset k v [] = [(k, v)]"
| "rb_hash_aset k v ((k', v') # h) = (if rb_eql k k' then (k', v) # h else (k', v') # rb_hash_aset k v h)"

definition rb_hash_lookup :: "(rvalue \<times> 'v) list \<Rightarrow> rvalue \<Rightarrow> 'v option" where
  "rb_hash_lookup h k = map_option snd (find (\<lambda>(k', _). rb_eql k k') h)"

definition make_field_map :: "rvalue list \<Rightarrow> (rvalue \<times> int) list" where
  "make_field_map fnames = fold (\<lambda>(i, n) h. rb_hash_aset n (int i) h) (enumerate 0 fnames) []"

definition ensure_init_for_tuple :: "env \<Rightarrow> nat \<Rightarrow> unit rop" where
  "ensure_init_for_tuple env self =
     obind (pgresult_get_this_safe self) (\<lambda>(this, a).
       if res_field_map this = None then
         obind (if res_nfields this = - 1 then pgresult_init_fnames env self else oret ()) (\<lambda>_.
           upd_this self (\<lambda>r. r\<lparr> res_field_map := Some (make_field_map (take (nat (res_nfields r)) (res_fnames r))) \<rparr>))
       else oret ())"

definition pg_result_freeze :: "env \<Rightarrow> nat \<Rightarrow> unit rop" where
  "pg_result_freeze env self =
     obind (ensure_init_for_tuple env self) (\<lambda>_. upd_this self (\<lambda>r. r\<lparr> res_connection := False, res_frozen := True \<rparr>))"

text \<open>The argument of \<open>field_name_type=\<close> is a Symbol or another object.\<close>

definition pgresult_field_name_type_set :: "rvalue \<Rightarrow> nat \<Rightarrow> unit rop" where
  "pgresult_field_name_type_set name_type self =
     obind (check_frozen self) (\<lambda>_.
     obind (pgresult_get_this self) (\<lambda>this.
       if res_nfields this \<noteq> - 1 then oerr (Raise ArgError ''field names are already materialized'' [])
       else
         obind (upd_this self (\<lambda>r. r\<lparr> res_flags := res_flags r AND NOT PG_RESULT_FIELD_NAMES_MASK \<rparr>)) (\<lambda>_.
           if name_type = RSymbol (lit ''symbol'')
           then upd_this self (\<lambda>r. r\<lparr> res_flags := res_flags r OR PG_RESULT_FIELD_NAMES_SYMBOL \<rparr>)
           else if name_type = RSymbol (lit ''string'') then oret ()
           else oerr (Raise ArgError ''invalid argument'' []))))"

definition pgresult_field_name_type_get :: "nat \<Rightarrow> rvalue rop" where
  "pgresult_field_name_type_get self = obind (pgresult_get_this self) (\<lambda>this.
     oret (RSymbol (if res_flags this AND PG_RESULT_FIELD_NAMES_SYMBOL \<noteq> 0 then lit ''symbol'' else lit ''string'')))"

section \<open>Accessors\<close>

definition pgresult_result_status :: "nat \<Rightarrow> rvalue rop" where
  "pgresult_result_status self = obind (live self) (\<lambda>d. oret (RInteger (exec_status_code (pq_status d))))"

definition num2int :: "rb_api \<Rightarrow> rvalue \<Rightarrow> int rop" where
  "num2int rb v = olift (num2 32 (rb_dbl2int rb) v)"

text \<open>\<open>rb_utf8_encindex()\<close>; Ruby fixes this number.\<close>

definition utf8_encindex :: enc_idx where "utf8_encindex = 1"

definition pgresult_s_res_status :: "env \<Rightarrow> rvalue \<Rightarrow> rvalue rop" where
  "pgresult_s_res_status env status =
     obind (num2int (env_rb env) status) (\<lambda>n. oret (RString (env_res_status env n) utf8_encindex))"

definition pgresult_res_status :: "env \<Rightarrow> rvalue list \<Rightarrow> nat \<Rightarrow> rvalue rop" where
  "pgresult_res_status env argv self =
     obind (pgresult_get_this_safe self) (\<lambda>(this, a).
     obind (case argv of
              [] \<Rightarrow> obind (deref a) (\<lambda>d. oret (env_res_status env (exec_status_code (pq_status d))))
            | [status] \<Rightarrow> obind (num2int (env_rb env) status) (\<lambda>n. oret (env_res_status env n))
            | _ \<Rightarrow> oerr (Raise ArgError ''only 0 or 1 arguments expected'' [])) (\<lambda>ret.
       oret (RString ret (res_enc_idx this))))"

definition pgresult_verbose_error_message :: "env \<Rightarrow> rvalue \<Rightarrow> rvalue \<Rightarrow> nat \<Rightarrow> rvalue rop" where
  "pgresult_verbose_error_message env verbosity show_context self =
     obind (pgresult_get_this_safe self) (\<lambda>(this, a).
     obind (num2int (env_rb env) verbosity) (\<lambda>v.
     obind (num2int (env_rb env) show_context) (\<lambda>c.
     obind (deref a) (\<lambda>d.
       case pq_verbose_errmsg d v c of
         None \<Rightarrow> oerr (Raise NoMemError ''insufficient memory to format error message'' [])
       | Some str \<Rightarrow> oret (RString str (res_enc_idx this))))))"

definition pgresult_ntuples :: "nat \<Rightarrow> rvalue rop" where
  "pgresult_ntuples self = obind (live self) (\<lambda>d. oret (RInteger (PQntuples d)))"

definition pgresult_nfields :: "nat \<Rightarrow> rvalue rop" where
  "pgresult_nfields self = obind (live self) (\<lambda>d. oret (RInteger (PQnfields d)))"

definition pgresult_binary_tuples :: "nat \<Rightarrow> rvalue rop" where
  "pgresult_binary_tuples self = obind (live self) (\<lambda>d. oret (RInteger (if pq_binary d then 1 else 0)))"

text \<open>The accessors of a column: a number out of range raises ArgumentError before libpq is asked. Some
  of them look for a cleared result first, others convert the number first.\<close>

definition column_attr :: "rb_api \<Rightarrow> string \<Rightarrow> (pg_data \<Rightarrow> nat \<Rightarrow> 'a) \<Rightarrow> rvalue \<Rightarrow> nat \<Rightarrow> 'a rop" where
  "column_attr rb msg attr index self =
     obind (num2int rb index) (\<lambda>i.
     obind (live self) (\<lambda>d.
       if i < 0 \<or> i \<ge> PQnfields d then oerr (Raise ArgError msg [i]) else oret (attr d (nat i))))"

definition column_attr2 :: "rb_api \<Rightarrow> string \<Rightarrow> (pg_data \<Rightarrow> nat \<Rightarrow> 'a) \<Rightarrow> rvalue \<Rightarrow> nat \<Rightarrow> 'a rop" where
  "column_attr2 rb msg attr index self =
     obind (pgresult_get self) (\<lambda>result.
     obind (num2int rb index) (\<lambda>i.
     obind (deref result) (\<lambda>d.
       if i < 0 \<or> i \<ge> PQnfields d then oerr (Raise ArgError msg [i]) else oret (attr d (nat i)))))"

definition pgresult_ftable :: "rb_api \<Rightarrow> rvalue \<Rightarrow> nat \<Rightarrow> rvalue rop" where
  "pgresult_ftable rb = column_attr rb ''Invalid column index: %d'' (\<lambda>d i. RInteger (uint (pq_ftables d ! i)))"

definition pgresult_ftablecol :: "rb_api \<Rightarrow> rvalue \<Rightarrow> nat \<Rightarrow> rvalue rop" where
  "pgresult_ftablecol rb = column_attr rb ''Invalid column index: %d'' (\<lambda>d i. RInteger (pq_ftablecols d ! i))"

definition pgresult_fformat :: "rb_api \<Rightarrow> rvalue \<Rightarrow> nat \<Rightarrow> rvalue rop" where
  "pgresult_fformat rb = column_attr2 rb ''Column number is out of range: %d'' (\<lambda>d i. RInteger (PQfformat d (int i)))"

definition pgresult_ftype :: "rb_api \<Rightarrow> rvalue \<Rightarrow> nat \<Rightarrow> rvalue rop" where
  "pgresult_ftype rb = column_attr2 rb ''invalid field number %d'' (\<lambda>d i. RInteger (uint (PQftype d (int i))))"

definition pgresult_fmod :: "rb_api \<Rightarrow> rvalue \<Rightarrow> nat \<Rightarrow> rvalue rop" where
  "pgresult_fmod rb = column_attr2 rb ''Column number is out of range: %d'' (\<lambda>d i. RInteger (pq_fmods d ! i))"

definition pgresult_fsize :: "rb_api \<Rightarrow> rvalue \<Rightarrow> nat \<Rightarrow> rvalue rop" where
  "pgresult_fsize rb = column_attr rb ''invalid field number %d'' (\<lambda>d i. RInteger (pq_fsizes d ! i))"

definition pgresult_fname :: "env \<Rightarrow> rvalue \<Rightarrow> nat \<Rightarrow> rvalue rop" where
  "pgresult_fname env index self =
     obind (pgresult_get_this_safe self) (\<lambda>(this, a).
     obind (num2int (env_rb env) index) (\<lambda>i.
     obind (deref a) (\<lambda>d.
       if i < 0 \<or> i \<ge> PQnfields d then oerr (Raise ArgError ''invalid field number %d'' [i])
       else olift (pg_cstr_to_sym env (pq_fnames d ! nat i) (res_flags this) (res_enc_idx this)))))"

text \<open>\<open>StringValueCStr\<close>: a String without NUL bytes.\<close>

definition string_value_cstr :: "rb_api \<Rightarrow> rvalue \<Rightarrow> bytes rop" where
  "string_value_cstr rb v = obind (olift (rb_StringValue rb v)) (\<lambda>s.
     if 0 \<in> set (str_bytes s) then oerr (Raise ArgError ''string contains null byte'' []) else oret (str_bytes s))"

definition pgresult_fnumber :: "rb_api \<Rightarrow> rvalue \<Rightarrow> nat \<Rightarrow> rvalue rop" where
  "pgresult_fnumber rb name self =
     (if TYPE_of name \<noteq> T_STRING then oerr (Raise TypeError ''wrong argument type (expected String)'' [])
      else
        obind (live self) (\<lambda>d.
        obind (string_value_cstr rb name) (\<lambda>n.
          if PQfnumber d n = - 1 then oerr (Raise ArgError ''Unknown field: %s'' []) else oret (RInteger (PQfnumber d n)))))"

definition pgresult_nparams :: "nat \<Rightarrow> rvalue rop" where
  "pgresult_nparams self = obind (live self) (\<lambda>d. oret (RInteger (int (length (pq_paramtypes d)))))"

definition pgresult_paramtype :: "rb_api \<Rightarrow> rvalue \<Rightarrow> nat \<Rightarrow> rvalue rop" where
  "pgresult_paramtype rb param_number self =
     obind (pgresult_get self) (\<lambda>result.
     obind (num2int rb param_number) (\<lambda>n.
     obind (deref result) (\<lambda>d.
       oret (RInteger (if 0 \<le> n \<and> nat n < length (pq_paramtypes d) then uint (pq_paramtypes d ! nat n) else 0)))))"

definition pgresult_cmd_status :: "nat \<Rightarrow> rvalue rop" where
  "pgresult_cmd_status self = obind (pgresult_get_this_safe self) (\<lambda>(this, a).
     obind (deref a) (\<lambda>d. oret (RString (pq_cmdstatus d) (res_enc_idx this))))"

text \<open>\<open>strtol\<close> to base 10: white space, a sign, and digits up to the first other character; a \<open>long\<close>
  of 64 bits takes the nearest value.\<close>

definition strtol10 :: "bytes \<Rightarrow> int" where
  "strtol10 str =
     (let s = dropWhile (\<lambda>b. b = 32 \<or> 9 \<le> b \<and> b \<le> 13) str;
          neg = (s \<noteq> [] \<and> hd s = 45);
          s = (if s \<noteq> [] \<and> (hd s = 45 \<or> hd s = 43) then tl s else s);
          n = fold (\<lambda>b n. 10 * n + uint b - 48) (takeWhile (\<lambda>b. 48 \<le> b \<and> b \<le> 57) s) 0
      in max (- (2 ^ 63)) (min (2 ^ 63 - 1) (if neg then - n else n)))"

definition pgresult_cmd_tuples :: "nat \<Rightarrow> rvalue rop" where
  "pgresult_cmd_tuples self = obind (live self) (\<lambda>d. oret (RInteger (strtol10 (pq_cmdtuples d))))"

definition pgresult_oid_value :: "nat \<Rightarrow> rvalue rop" where
  "pgresult_oid_value self = obind (live self) (\<lambda>d. oret (if pq_oid d = 0 then Qnil else RInteger (uint (pq_oid d))))"

definition pgresult_error_message :: "nat \<Rightarrow> rvalue rop" where
  "pgresult_error_message self = obind (pgresult_get_this_safe self) (\<lambda>(this, a).
     obind (deref a) (\<lambda>d. oret (RString (pq_errmsg d) (res_enc_idx this))))"

definition pgresult_error_field :: "rb_api \<Rightarrow> rvalue \<Rightarrow> nat \<Rightarrow> rvalue rop" where
  "pgresult_error_field rb field self = obind (pgresult_get_this_safe self) (\<lambda>(this, a).
     obind (num2int rb field) (\<lambda>fieldcode.
     obind (deref a) (\<lambda>d. oret (case pq_errfields d fieldcode of None \<Rightarrow> Qnil | Some b \<Rightarrow> RString b (res_enc_idx this)))))"

section \<open>Values\<close>

text \<open>
  \<open>typecast_result_value\<close> of the result's type map. It reads \<open>pgresult\<close> without the check for a cleared
  result. Ruby code that a type map calls sees the data of the result only.
\<close>

definition cast_value :: "env \<Rightarrow> nat \<Rightarrow> int \<Rightarrow> int \<Rightarrow> rvalue rop" where
  "cast_value env self tuple field =
     obind (pgresult_get_this self) (\<lambda>this.
     obind (deref_or_null (res_pgresult this)) (\<lambda>d.
     obind (olift (typecast_result_value (env_rb env) (env_tm env) (env_hs env) (res_typemap this) d (res_enc_idx this) tuple field))
       (\<lambda>(v, typemap). obind (upd_this self (\<lambda>r. r\<lparr> res_typemap := typemap \<rparr>)) (\<lambda>_. oret v))))"

primrec cast_values :: "env \<Rightarrow> nat \<Rightarrow> (int \<times> int) list \<Rightarrow> rvalue list rop" where
  "cast_values env self [] = oret []"
| "cast_values env self (c # cs) =
     obind (cast_value env self (fst c) (snd c)) (\<lambda>v. obind (cast_values env self cs) (\<lambda>vs. oret (v # vs)))"

definition row_cells :: "int \<Rightarrow> int \<Rightarrow> (int \<times> int) list" where
  "row_cells row num_fields = map (\<lambda>field. (row, field)) [0..num_fields - 1]"

definition pgresult_getvalue :: "env \<Rightarrow> rvalue \<Rightarrow> rvalue \<Rightarrow> nat \<Rightarrow> rvalue rop" where
  "pgresult_getvalue env tup_num field_num self =
     obind (pgresult_get_this_safe self) (\<lambda>(this, a).
     obind (num2int (env_rb env) tup_num) (\<lambda>i.
     obind (num2int (env_rb env) field_num) (\<lambda>j.
     obind (deref a) (\<lambda>d.
       if i < 0 \<or> i \<ge> PQntuples d then oerr (Raise ArgError ''invalid tuple number %d'' [i])
       else if j < 0 \<or> j \<ge> PQnfields d then oerr (Raise ArgError ''invalid field number %d'' [j])
       else cast_value env self i j))))"

definition pgresult_getisnull :: "rb_api \<Rightarrow> rvalue \<Rightarrow> rvalue \<Rightarrow> nat \<Rightarrow> rvalue rop" where
  "pgresult_getisnull rb tup_num field_num self =
     obind (num2int rb tup_num) (\<lambda>i.
     obind (num2int rb field_num) (\<lambda>j.
     obind (live self) (\<lambda>d.
       if i < 0 \<or> i \<ge> PQntuples d then oerr (Raise ArgError ''invalid tuple number %d'' [i])
       else if j < 0 \<or> j \<ge> PQnfields d then oerr (Raise ArgError ''invalid field number %d'' [j])
       else oret (if PQfield d i j = None then Qtrue else Qfalse))))"

definition pgresult_getlength :: "rb_api \<Rightarrow> rvalue \<Rightarrow> rvalue \<Rightarrow> nat \<Rightarrow> rvalue rop" where
  "pgresult_getlength rb tup_num field_num self =
     obind (num2int rb tup_num) (\<lambda>i.
     obind (num2int rb field_num) (\<lambda>j.
     obind (live self) (\<lambda>d.
       if i < 0 \<or> i \<ge> PQntuples d then oerr (Raise ArgError ''invalid tuple number %d'' [i])
       else if j < 0 \<or> j \<ge> PQnfields d then oerr (Raise ArgError ''invalid field number %d'' [j])
       else oret (RInteger (PQgetlength d i j)))))"

text \<open>\<open>pgresult_aref\<close>: the Hash as a list of names and values.\<close>

definition pgresult_aref :: "env \<Rightarrow> rvalue \<Rightarrow> nat \<Rightarrow> (rvalue \<times> rvalue) list rop" where
  "pgresult_aref env index self =
     obind (pgresult_get_this_safe self) (\<lambda>(this, a).
     obind (num2int (env_rb env) index) (\<lambda>tuple_num.
     obind (deref a) (\<lambda>d.
     obind (if res_nfields this = - 1 then pgresult_init_fnames env self else oret ()) (\<lambda>_.
       if tuple_num < 0 \<or> tuple_num \<ge> PQntuples d then oerr (Raise IndexError ''Index %d is out of range'' [tuple_num])
       else
         obind (pgresult_get_this self) (\<lambda>this.
         obind (cast_values env self (row_cells tuple_num (res_nfields this))) (\<lambda>vals.
           oret (fold (\<lambda>(n, v). rb_hash_aset n v) (zip (res_fnames this) vals) [])))))))"

primrec rows_loop :: "env \<Rightarrow> nat \<Rightarrow> int \<Rightarrow> int list \<Rightarrow> rvalue list rop" where
  "rows_loop env self num_fields [] = oret []"
| "rows_loop env self num_fields (row # rows) =
     obind (cast_values env self (row_cells row num_fields)) (\<lambda>vs.
     obind (rows_loop env self num_fields rows) (\<lambda>rs. oret (RArray vs # rs)))"

definition pgresult_values :: "env \<Rightarrow> nat \<Rightarrow> rvalue rop" where
  "pgresult_values env self =
     obind (live self) (\<lambda>d.
     obind (rows_loop env self (PQnfields d) [0..PQntuples d - 1]) (\<lambda>rows. oret (RArray rows)))"

text \<open>Only the upper bound of the column number is checked.\<close>

definition make_column_result_array :: "env \<Rightarrow> int \<Rightarrow> nat \<Rightarrow> rvalue rop" where
  "make_column_result_array env col self =
     obind (live self) (\<lambda>d.
       if col \<ge> PQnfields d then oerr (Raise IndexError ''no column %d in result'' [col])
       else obind (cast_values env self (map (\<lambda>i. (i, col)) [0..PQntuples d - 1])) (\<lambda>vs. oret (RArray vs)))"

definition pgresult_column_values :: "env \<Rightarrow> rvalue \<Rightarrow> nat \<Rightarrow> rvalue rop" where
  "pgresult_column_values env index self = obind (num2int (env_rb env) index) (\<lambda>col. make_column_result_array env col self)"

definition pgresult_field_values :: "env \<Rightarrow> rvalue \<Rightarrow> nat \<Rightarrow> rvalue rop" where
  "pgresult_field_values env field self =
     obind (pgresult_get self) (\<lambda>result.
     obind (string_value_cstr (env_rb env) (case field of RSymbol b \<Rightarrow> RString b 0 | _ \<Rightarrow> field)) (\<lambda>fieldname.
     obind (deref result) (\<lambda>d.
       let fnum = PQfnumber d fieldname in
       if fnum < 0 then oerr (Raise IndexError ''no such field '%s' in result'' [])
       else make_column_result_array env fnum self)))"

definition pgresult_tuple_values :: "env \<Rightarrow> rvalue \<Rightarrow> nat \<Rightarrow> rvalue rop" where
  "pgresult_tuple_values env index self =
     obind (num2int (env_rb env) index) (\<lambda>tuple_num.
     obind (live self) (\<lambda>d.
       if tuple_num < 0 \<or> tuple_num \<ge> PQntuples d then oerr (Raise IndexError ''Index %d is out of range'' [tuple_num])
       else obind (cast_values env self (row_cells tuple_num (PQnfields d))) (\<lambda>vs. oret (RArray vs))))"

text \<open>The type maps whose \<open>fit_to_result\<close> asks for the \<open>PGresult\<close> and so raises on a cleared result.\<close>

fun reads_result :: "typemap \<Rightarrow> bool" where
  "reads_result (TypeMapByColumn convs d) = True"
| "reads_result (TypeMapByOid this d) = True"
| "reads_result (TypeMapInRuby self d) = reads_result d"
| "reads_result _ = False"

definition pgresult_type_map_set :: "env \<Rightarrow> typemap \<Rightarrow> nat \<Rightarrow> unit rop" where
  "pgresult_type_map_set env typemap self =
     obind (check_frozen self) (\<lambda>_.
     obind (pgresult_get_this self) (\<lambda>this.
     obind (if reads_result typemap then obind (live self) (\<lambda>d. oret (pgresult.truncate d)) else oret null_result) (\<lambda>d.
     obind (olift (fit_to_result (env_hs env) typemap d)) (\<lambda>(typemap, _).
       upd_this self (\<lambda>r. r\<lparr> res_typemap := typemap \<rparr>)))))"

definition pgresult_type_map_get :: "nat \<Rightarrow> typemap rop" where
  "pgresult_type_map_get self = obind (pgresult_get_this self) (\<lambda>this. oret (res_typemap this))"

section \<open>Tuples\<close>

text \<open>
  \<open>pg_tuple_new\<close>: a negative number of fields, where the names are not initialised, makes
  \<open>rb_ary_new4\<close> raise.
\<close>

definition pg_tuple_new :: "nat \<Rightarrow> int \<Rightarrow> nat rop" where
  "pg_tuple_new result row_num =
     obind (pgresult_get_this result) (\<lambda>p_result.
       case res_field_map p_result of
         None \<Rightarrow> oerr MemFault
       | Some field_map \<Rightarrow>
           let num_fields = res_nfields p_result;
               dup_names = (num_fields \<noteq> int (length field_map))
           in
           obind (if dup_names then
                    if num_fields < 0 then oerr (Raise ArgError ''negative array size (or size too big)'' [])
                    else if nat num_fields > length (res_fnames p_result) then oerr MemFault
                    else oret (Some (take (nat num_fields) (res_fnames p_result)))
                  else oret None) (\<lambda>field_names s.
             (Inr (st_next s), s\<lparr> st_next := st_next s + 1, st_tup := (st_tup s)(st_next s \<mapsto>
                \<lparr> tup_result = Some result, tup_typemap = Some (res_typemap p_result), tup_field_map = field_map,
                  tup_row_num = row_num, tup_num_fields = num_fields, tup_values = replicate (nat num_fields) Qundef,
                  tup_field_names = field_names \<rparr>) \<rparr>)))"

definition pgresult_tuple :: "env \<Rightarrow> rvalue \<Rightarrow> nat \<Rightarrow> nat rop" where
  "pgresult_tuple env index self =
     obind (num2int (env_rb env) index) (\<lambda>tuple_num.
     obind (live self) (\<lambda>d.
       if tuple_num < 0 \<or> tuple_num \<ge> PQntuples d then oerr (Raise IndexError ''Index %d is out of range'' [tuple_num])
       else obind (ensure_init_for_tuple env self) (\<lambda>_. pg_tuple_new self tuple_num)))"

section \<open>Iteration\<close>

text \<open>A block is called with what is yielded to it; it may raise.\<close>

primrec each_row_loop :: "env \<Rightarrow> (rvalue \<Rightarrow> unit rop) \<Rightarrow> nat \<Rightarrow> int \<Rightarrow> int list \<Rightarrow> unit rop" where
  "each_row_loop env block self num_fields [] = oret ()"
| "each_row_loop env block self num_fields (row # rows) =
     obind (cast_values env self (row_cells row num_fields)) (\<lambda>vs.
     obind (block (RArray vs)) (\<lambda>_. each_row_loop env block self num_fields rows))"

definition pgresult_each_row :: "env \<Rightarrow> (rvalue \<Rightarrow> unit rop) \<Rightarrow> nat \<Rightarrow> unit rop" where
  "pgresult_each_row env block self =
     obind (live self) (\<lambda>d. each_row_loop env block self (PQnfields d) [0..PQntuples d - 1])"

text \<open>
  \<open>pgresult_each\<close> and \<open>pgresult_each_tuple\<close> keep the \<open>PGresult\<close> pointer in a local variable and read
  \<open>PQntuples\<close> through it before every iteration and once more at the end; a \<open>PGresult\<close> does not change
  as long as it is not freed.
\<close>

primrec each_loop :: "(int \<Rightarrow> 'a rop) \<Rightarrow> ('a \<Rightarrow> unit rop) \<Rightarrow> nat \<Rightarrow> int list \<Rightarrow> unit rop" where
  "each_loop item block result [] = obind (deref result) (\<lambda>_. oret ())"
| "each_loop item block result (i # is) =
     obind (deref result) (\<lambda>_.
     obind (item i) (\<lambda>x.
     obind (block x) (\<lambda>_. each_loop item block result is)))"

definition pgresult_each :: "env \<Rightarrow> ((rvalue \<times> rvalue) list \<Rightarrow> unit rop) \<Rightarrow> nat \<Rightarrow> unit rop" where
  "pgresult_each env block self =
     obind (pgresult_get self) (\<lambda>result.
     obind (deref result) (\<lambda>d.
       each_loop (\<lambda>i. pgresult_aref env (RInteger i) self) block result [0..PQntuples d - 1]))"

definition pgresult_each_tuple :: "env \<Rightarrow> (nat \<Rightarrow> unit rop) \<Rightarrow> nat \<Rightarrow> unit rop" where
  "pgresult_each_tuple env block self =
     obind (pgresult_get self) (\<lambda>result.
     obind (deref result) (\<lambda>d.
       each_loop (\<lambda>i. pgresult_tuple env (RInteger i) self) block result [0..PQntuples d - 1]))"

section \<open>Streaming\<close>

text \<open>The yielders answer whether the result is to be cleared afterwards.\<close>

primrec yield_hash_loop :: "env \<Rightarrow> ((rvalue \<times> rvalue) list \<Rightarrow> unit rop) \<Rightarrow> nat \<Rightarrow> int list \<Rightarrow> unit rop" where
  "yield_hash_loop env block self [] = oret ()"
| "yield_hash_loop env block self (i # is) =
     obind (pgresult_aref env (RInteger i) self) (\<lambda>h.
     obind (block h) (\<lambda>_. yield_hash_loop env block self is))"

definition yield_hash :: "env \<Rightarrow> ((rvalue \<times> rvalue) list \<Rightarrow> unit rop) \<Rightarrow> nat \<Rightarrow> int \<Rightarrow> int \<Rightarrow> bool rop" where
  "yield_hash env block self ntuples nfields = obind (yield_hash_loop env block self [0..ntuples - 1]) (\<lambda>_. oret True)"

definition yield_array :: "env \<Rightarrow> (rvalue \<Rightarrow> unit rop) \<Rightarrow> nat \<Rightarrow> int \<Rightarrow> int \<Rightarrow> bool rop" where
  "yield_array env block self ntuples nfields =
     obind (each_row_loop env block self nfields [0..ntuples - 1]) (\<lambda>_. oret True)"

primrec yield_tuple_loop :: "env \<Rightarrow> (nat \<Rightarrow> unit rop) \<Rightarrow> nat \<Rightarrow> int list \<Rightarrow> unit rop" where
  "yield_tuple_loop env block copy [] = oret ()"
| "yield_tuple_loop env block copy (i # is) =
     obind (pgresult_tuple env (RInteger i) copy) (\<lambda>t.
     obind (block t) (\<lambda>_. yield_tuple_loop env block copy is))"

definition yield_tuple :: "env \<Rightarrow> (nat \<Rightarrow> unit rop) \<Rightarrow> nat \<Rightarrow> int \<Rightarrow> int \<Rightarrow> bool rop" where
  "yield_tuple env block self ntuples nfields =
     obind (pg_copy_result self) (\<lambda>copy.
     obind (upd_this self (\<lambda>r. r\<lparr> res_pgresult := None \<rparr>)) (\<lambda>_.
     obind (yield_tuple_loop env block copy [0..ntuples - 1]) (\<lambda>_. oret False)))"

text \<open>\<open>gvl_PQgetResult\<close> with the contents of the \<open>PGresult\<close> that arrives.\<close>

definition alloc_pgresult :: "pg_data \<Rightarrow> nat rop" where
  "alloc_pgresult d = (\<lambda>s. (Inr (st_next s), s\<lparr> st_next := st_next s + 1, st_heap := (st_heap s)(st_next s \<mapsto> d) \<rparr>))"

text \<open>One turn of the loop, up to the next \<open>PQgetResult\<close>; \<open>next_result\<close> is the rest.\<close>

definition stream_step ::
    "errors \<Rightarrow> (nat \<Rightarrow> int \<Rightarrow> int \<Rightarrow> bool rop) \<Rightarrow> nat \<Rightarrow> int \<Rightarrow> nat \<Rightarrow> unit rop \<Rightarrow> unit rop" where
  "stream_step errs yielder self nfields result next_result =
     obind (deref result) (\<lambda>d.
       let ntuples = PQntuples d; nfields2 = PQnfields d;
           go_on = obind (if nfields \<noteq> nfields2 then
                            obind (pgresult_clear self) (\<lambda>_. oerr (Raise (PGClass ''InvalidChangeOfResultFields'')
                              ''number of fields changed in single row mode from %d to %d - this is a sign for intersection with another query''
                              [nfields, nfields2]))
                          else oret ()) (\<lambda>_.
             obind (yielder self ntuples nfields) (\<lambda>clear.
             obind (if clear then pgresult_clear self else oret ()) (\<lambda>_. next_result)))
       in if pq_status d = PGRES_TUPLES_OK \<or> pq_status d = PGRES_COMMAND_OK then
            if ntuples = 0 then oret ()
            else oerr (Raise (PGClass ''InvalidResultStatus'') ''PG::Result is not in single row mode'' [])
          else if pq_status d = PGRES_SINGLE_TUPLE \<or> pq_status d = PGRES_TUPLES_CHUNK then go_on
          else obind (pg_result_check errs self) (\<lambda>_. go_on))"

text \<open>The loop over the results that the connection has to deliver; then \<open>PQgetResult\<close> gives NULL.\<close>

primrec stream_loop ::
    "errors \<Rightarrow> (nat \<Rightarrow> int \<Rightarrow> int \<Rightarrow> bool rop) \<Rightarrow> nat \<Rightarrow> int \<Rightarrow> pg_data list \<Rightarrow> nat \<Rightarrow> unit rop" where
  "stream_loop errs yielder self nfields [] result =
     stream_step errs yielder self nfields result
       (oerr (Raise (PGClass ''NoResultError'') ''no result received - possibly an intersection with another query'' []))"
| "stream_loop errs yielder self nfields (d # ds) result =
     stream_step errs yielder self nfields result
       (obind (alloc_pgresult d) (\<lambda>a.
        obind (upd_this self (\<lambda>r. r\<lparr> res_pgresult := Some a \<rparr>)) (\<lambda>_.
          stream_loop errs yielder self nfields ds a)))"

definition pgresult_stream_any :: "errors \<Rightarrow> (nat \<Rightarrow> int \<Rightarrow> int \<Rightarrow> bool rop) \<Rightarrow> pg_data list \<Rightarrow> nat \<Rightarrow> unit rop" where
  "pgresult_stream_any errs yielder incoming self =
     obind (check_frozen self) (\<lambda>_.
     obind (pgresult_get_this_safe self) (\<lambda>(this, result).
     obind (if res_connection this then oret () else oerr (Raise TypeError ''wrong argument type nil (expected PG::Connection)'' [])) (\<lambda>_.
     obind (deref result) (\<lambda>d. stream_loop errs yielder self (PQnfields d) incoming result))))"

definition pgresult_stream_each :: "errors \<Rightarrow> env \<Rightarrow> ((rvalue \<times> rvalue) list \<Rightarrow> unit rop) \<Rightarrow> pg_data list \<Rightarrow> nat \<Rightarrow> unit rop" where
  "pgresult_stream_each errs env block = pgresult_stream_any errs (yield_hash env block)"

definition pgresult_stream_each_row :: "errors \<Rightarrow> env \<Rightarrow> (rvalue \<Rightarrow> unit rop) \<Rightarrow> pg_data list \<Rightarrow> nat \<Rightarrow> unit rop" where
  "pgresult_stream_each_row errs env block = pgresult_stream_any errs (yield_array env block)"

definition pgresult_stream_each_tuple :: "errors \<Rightarrow> env \<Rightarrow> (nat \<Rightarrow> unit rop) \<Rightarrow> pg_data list \<Rightarrow> nat \<Rightarrow> unit rop" where
  "pgresult_stream_each_tuple errs env block incoming self =
     obind (ensure_init_for_tuple env self) (\<lambda>_. pgresult_stream_any errs (yield_tuple env block) incoming self)"

end
