(* ===== verification/PG_Result_Safety.thy ===== *)
theory PG_Result_Safety
  imports PG_Result
begin

text \<open>
  An invariant of the result and tuple objects, and that the methods of \<open>PG::Result\<close> keep it and
  never touch memory that is freed or not theirs. The proofs run the methods symbolically: \<open>good P\<close>
  of an outcome says that it is no memory fault and that the state left behind, also by an
  exception, satisfies \<open>P\<close>.
\<close>

section \<open>Running methods\<close>

named_theorems exec

definition good :: "(rst \<Rightarrow> bool) \<Rightarrow> 'a res \<times> rst \<Rightarrow> bool" where
  "good P out \<longleftrightarrow> safe (fst out) \<and> P (snd out)"

lemma obind_laws [exec]:
  "obind (oret x) f = f x"
  "obind (oerr e) f = oerr e"
  "obind (obind k g) f = obind k (\<lambda>x. obind (g x) f)"
  "obind (if b then m else m') f = (if b then obind m f else obind m' f)"
  "obind (case_option m n z) f = (case z of None \<Rightarrow> obind m f | Some y \<Rightarrow> obind (n y) f)"
  by (auto simp: obind_def oret_def oerr_def fun_eq_iff split: prod.split sum.split option.split)

lemma good_basic [exec]:
  "good P (oret x s) \<longleftrightarrow> P s"
  "good P (oerr e s) \<longleftrightarrow> safe (Inl e :: unit res) \<and> P s"
  "good P (olift r s) \<longleftrightarrow> safe r \<and> P s"
  "good P (upd_this self g s) \<longleftrightarrow> P (s\<lparr> st_res := (st_res s)(self := map_option g (st_res s self)) \<rparr>)"
  by (auto simp: good_def oret_def oerr_def olift_def upd_this_def safe_iff)

lemma good_steps [exec]:
  "good P (obind (pgresult_get_this self) f s) \<longleftrightarrow> (case st_res s self of None \<Rightarrow> False | Some r \<Rightarrow> good P (f r s))"
  "good P (obind (deref a) g s) \<longleftrightarrow> (case st_heap s a of None \<Rightarrow> False | Some d \<Rightarrow> good P (g d s))"
  "good P (obind (upd_this self u) h s) \<longleftrightarrow>
     good P (h () (s\<lparr> st_res := (st_res s)(self := map_option u (st_res s self)) \<rparr>))"
  "good P (obind (olift r) k s) \<longleftrightarrow> (case r of Inl e \<Rightarrow> safe (Inl e :: unit res) \<and> P s | Inr x \<Rightarrow> good P (k x s))"
  by (auto simp: good_def obind_def pgresult_get_this_def deref_def upd_this_def olift_def safe_iff split: option.split sum.split)

lemma good_free_steps [exec]:
  "good P (obind (PQclear a) f s) \<longleftrightarrow>
     (case st_heap s a of None \<Rightarrow> False | Some d \<Rightarrow> good P (f () (s\<lparr> st_heap := (st_heap s)(a := None) \<rparr>)))"
  "good P (obind (rb_gc_adjust_memory_usage n) g s) \<longleftrightarrow> good P (g () (s\<lparr> st_gc_usage := st_gc_usage s + n \<rparr>))"
  "good P (obind (alloc_pgresult d) h s) \<longleftrightarrow>
     good P (h (st_next s) (s\<lparr> st_next := st_next s + 1, st_heap := (st_heap s)(st_next s \<mapsto> d) \<rparr>))"
  by (auto simp: good_def obind_def PQclear_def rb_gc_adjust_memory_usage_def alloc_pgresult_def deref_def split: option.split)

lemma good_obind2:
  assumes "good P (m s)" "\<And>s. P s \<Longrightarrow> Q s" "\<And>x s'. m s = (Inr x, s') \<Longrightarrow> P s' \<Longrightarrow> good Q (f x s')"
  shows "good Q (obind m f s)"
  using assms by (auto simp: good_def obind_def safe_iff split: prod.split sum.split)

lemma good_obind:
  assumes "good P (m s)" and "\<And>x s'. m s = (Inr x, s') \<Longrightarrow> P s' \<Longrightarrow> good P (f x s')"
  shows "good P (obind m f s)"
  using assms by (auto simp: good_def obind_def safe_iff split: prod.split sum.split)

lemma good_num2int [exec]: "good P (obind (num2int rb v) f s) \<longleftrightarrow>
    (case num2 32 (rb_dbl2int rb) v of Inl e \<Rightarrow> P s | Inr x \<Rightarrow> good P (f x s))"
  using safe_num2 [of 32 "rb_dbl2int rb" v] by (auto simp: num2int_def exec safe_iff split: sum.split)

section \<open>The invariant\<close>

text \<open>What libpq promises of a \<open>PGresult\<close>: every column has a name.\<close>

definition data_ok :: "pg_data \<Rightarrow> bool" where
  "data_ok d \<longleftrightarrow> length (pq_fnames d) = length (pq_ftypes d)"

text \<open>The names that are stored fit into the slots of the object.\<close>

definition names_ok :: "t_pg_result \<Rightarrow> bool" where
  "names_ok r \<longleftrightarrow>
     res_nfields r = - 1 \<or> 0 \<le> res_nfields r \<and> nat (res_nfields r) \<le> length (res_fnames r) \<and> nat (res_nfields r) \<le> res_capa r"

text \<open>The object fits to \<open>PGresult\<close>s with as many fields as it was made for.\<close>

definition shape_ok :: "env \<Rightarrow> t_pg_result \<Rightarrow> bool" where
  "shape_ok env r \<longleftrightarrow> result_ready (env_hs env) (res_capa r) (res_typemap r) \<and> res_nfields r \<in> {- 1, int (res_capa r)} \<and>
     (\<forall>m. res_field_map r = Some m \<longrightarrow> (\<exists>names. m = make_field_map names \<and> length names \<le> res_capa r))"

definition obj_ok :: "env \<Rightarrow> (nat \<Rightarrow> pg_data option) \<Rightarrow> t_pg_result \<Rightarrow> bool" where
  "obj_ok env h r \<longleftrightarrow> names_ok r \<and> (res_pgresult r = None \<or> res_autoclear r \<longrightarrow> res_size r = 0) \<and>
     (\<forall>a. res_pgresult r = Some a \<longrightarrow> (\<exists>d. h a = Some d \<and> data_ok d \<and> PQnfields d \<le> int (res_capa r) \<and>
        (pq_rows d \<noteq> [] \<longrightarrow> PQnfields d = int (res_capa r) \<and> shape_ok env r)))"

definition tup_ok :: "env \<Rightarrow> (nat \<Rightarrow> t_pg_result option) \<Rightarrow> t_pg_tuple \<Rightarrow> bool" where
  "tup_ok env res t \<longleftrightarrow>
     0 \<le> tup_num_fields t \<and> length (tup_values t) = nat (tup_num_fields t) \<and>
     (\<forall>(k, i) \<in> set (tup_field_map t). 0 \<le> i \<and> i < tup_num_fields t) \<and>
     (\<forall>names. tup_field_names t = Some names \<longrightarrow> length names = nat (tup_num_fields t)) \<and>
     (tup_field_names t = None \<longrightarrow> {0..<tup_num_fields t} \<subseteq> snd ` set (tup_field_map t)) \<and>
     (case tup_result t of
        None \<Rightarrow> Qundef \<notin> set (tup_values t)
      | Some i \<Rightarrow> \<exists>r tm. res i = Some r \<and> tup_typemap t = Some tm \<and> result_ready (env_hs env) (res_capa r) tm)"

definition gc_size :: "t_pg_result option \<Rightarrow> int" where
  "gc_size x = (case x of None \<Rightarrow> 0 | Some r \<Rightarrow> res_size r)"

definition wf_st :: "env \<Rightarrow> rst \<Rightarrow> bool" where
  "wf_st env s \<longleftrightarrow>
     (\<forall>i r. st_res s i = Some r \<longrightarrow> i < st_next s \<and> obj_ok env (st_heap s) r) \<and>
     (\<forall>a d. st_heap s a = Some d \<longrightarrow> a < st_next s) \<and>
     (\<forall>i j r r' a. st_res s i = Some r \<longrightarrow> st_res s j = Some r' \<longrightarrow> res_pgresult r = Some a \<longrightarrow> res_pgresult r' = Some a \<longrightarrow> i = j) \<and>
     (\<forall>i t. st_tup s i = Some t \<longrightarrow> i < st_next s \<and> tup_ok env (st_res s) t) \<and>
     st_gc_usage s = sum (\<lambda>i. gc_size (st_res s i)) {..<st_next s}"

text \<open>
  The invariant under which a method runs: the objects \<open>E\<close> exist, those in \<open>H\<close>
  hold the \<open>PGresult\<close> that \<open>H\<close> gives, and those in the domain of \<open>F\<close> are being streamed: they keep the
  number of fields that \<open>F\<close> gives.
\<close>

definition streaming :: "env \<Rightarrow> nat \<Rightarrow> (nat \<Rightarrow> pg_data option) \<Rightarrow> t_pg_result \<Rightarrow> bool" where
  "streaming env n h r \<longleftrightarrow> res_capa r = n \<and> shape_ok env r \<and>
     (\<forall>a d. res_pgresult r = Some a \<longrightarrow> h a = Some d \<longrightarrow> PQnfields d = int n)"

definition rinv :: "env \<Rightarrow> nat set \<Rightarrow> (nat \<times> nat) set \<Rightarrow> (nat \<Rightarrow> nat option) \<Rightarrow> rst \<Rightarrow> bool" where
  "rinv env E H F s \<longleftrightarrow> wf_st env s \<and> (\<forall>i\<in>E. st_res s i \<noteq> None) \<and>
     (\<forall>(i, a)\<in>H. \<exists>r. st_res s i = Some r \<and> res_pgresult r = Some a) \<and>
     (\<forall>i n. F i = Some n \<longrightarrow> (\<exists>r. st_res s i = Some r \<and> streaming env n (st_heap s) r))"

definition env_ok :: "env \<Rightarrow> bool" where
  "env_ok env \<longleftrightarrow> rb_api_ok (env_rb env) \<and> tm_api_ok (env_tm env) \<and> (\<forall>str e. ok (env_intern env str e))"


section \<open>Keeping the invariant\<close>

lemma env_okD:
  assumes "env_ok env"
  shows "rb_api_ok (env_rb env)" "tm_api_ok (env_tm env)" "\<exists>v. env_intern env str e = Inr v"
  using assms by (auto simp: env_ok_def ok_def)

lemma rinv_exists: "rinv env E H F s \<Longrightarrow> self \<in> E \<Longrightarrow> \<exists>r. st_res s self = Some r"
  by (auto simp: rinv_def)

lemma rinv_obj: "rinv env E H F s \<Longrightarrow> st_res s self = Some r \<Longrightarrow> obj_ok env (st_heap s) r"
  by (auto simp: rinv_def wf_st_def)

lemma rinv_streaming: "rinv env E H F s \<Longrightarrow> F self = Some n \<Longrightarrow> st_res s self = Some r \<Longrightarrow> streaming env n (st_heap s) r"
  by (fastforce simp: rinv_def)

lemma rinv_pgresult:
  assumes "rinv env E H F s" "st_res s self = Some r" "res_pgresult r = Some a"
  obtains d where "st_heap s a = Some d" "data_ok d" "PQnfields d \<le> int (res_capa r)"
    "pq_rows d \<noteq> [] \<Longrightarrow> PQnfields d = int (res_capa r) \<and> shape_ok env r"
  using rinv_obj [OF assms(1,2)] assms(3) unfolding obj_ok_def by blast

lemma gc_sum_upd:
  "self < n \<Longrightarrow> sum (\<lambda>i. gc_size ((m(self := x)) i)) {..<n} = sum (\<lambda>i. gc_size (m i)) {..<n} - gc_size (m self) + gc_size x"
  for n :: nat
  by (simp add: sum.remove [where x = self] fun_upd_def cong: if_cong)

lemma wf_st_upd:
  assumes "wf_st env s" "st_res s self = Some r"
    and "res_size r' = res_size r" "res_pgresult r' = res_pgresult r" "res_capa r' = res_capa r" "obj_ok env (st_heap s) r'"
  shows "wf_st env (s\<lparr> st_res := (st_res s)(self \<mapsto> r') \<rparr>)"
proof -
  have self: "self < st_next s" using assms(1,2) by (auto simp: wf_st_def)
  have "tup_ok env ((st_res s)(self \<mapsto> r')) t" if "tup_ok env (st_res s) t" for t
    using that assms(2,5) by (auto simp: tup_ok_def split: option.splits)
  moreover have "sum (\<lambda>i. gc_size (((st_res s)(self \<mapsto> r')) i)) {..<st_next s} = sum (\<lambda>i. gc_size (st_res s i)) {..<st_next s}"
    using assms(2,3) by (subst gc_sum_upd [OF self]) (simp add: gc_size_def)
  ultimately show ?thesis
    using assms by (simp add: wf_st_def) (metis option.inject)
qed

lemma rinv_upd:
  assumes "rinv env E H F s" "st_res s self = Some r"
    and "res_size r' = res_size r" "res_pgresult r' = res_pgresult r" "res_capa r' = res_capa r" "obj_ok env (st_heap s) r'"
    and "\<And>n. F self = Some n \<Longrightarrow> streaming env n (st_heap s) r'"
  shows "rinv env E H F (s\<lparr> st_res := (st_res s)(self \<mapsto> r') \<rparr>)"
  using assms wf_st_upd [of env s self r r'] by (fastforce simp: rinv_def)


lemma rinv_upd_good:
  assumes "rinv env E H F s" "st_res s self = Some r"
    and "res_size (g r) = res_size r" "res_pgresult (g r) = res_pgresult r" "res_capa (g r) = res_capa r"
    and "res_autoclear (g r) = res_autoclear r"
    and "names_ok (g r)" "shape_ok env r \<Longrightarrow> shape_ok env (g r)"
  shows "rinv env E H F (s\<lparr> st_res := (st_res s)(self := map_option g (st_res s self)) \<rparr>)"
proof -
  have "obj_ok env (st_heap s) (g r)"
    using rinv_obj [OF assms(1,2)] assms(3-8) by (auto simp: obj_ok_def)
  moreover have "streaming env n (st_heap s) (g r)" if "F self = Some n" for n
    using rinv_streaming [OF assms(1) that assms(2)] assms(3-8) by (auto simp: streaming_def)
  ultimately show ?thesis using rinv_upd [OF assms(1,2)] assms by simp
qed

lemma cast_null_safe:
  assumes "tm_api_ok tm" "PQfield d t f = None"
  shows "safe (typecast_result_value rb tm hs this d e t f)"
proof (induction this)
  case (TypeMapInRuby s m)
  then show ?case using tm_api_okD(5) [OF assms(1), of s]
    by (cases "tmir_typecast_result_value tm s") (auto intro!: safe_rbind)
qed (auto simp: assms pg_tmas_result_value_def pg_tmbc_result_value_def pg_tmbo_result_value_def pg_typemap_result_value_def)

lemma PQfield_no_rows: "pq_rows d = [] \<Longrightarrow> PQfield d t f = None"
  by (auto simp: PQfield_def PQntuples_def)

lemma cast_safe:
  assumes "env_ok env" "rinv env E H F s" "st_res s self = Some r" "res_pgresult r = Some a" "st_heap s a = Some d"
    and "result_ready (env_hs env) (res_capa r) tm"
  shows "safe (typecast_result_value (env_rb env) (env_tm env) (env_hs env) tm (pgresult.truncate d) e t f)"
proof (cases "pq_rows d = []")
  case True
  then show ?thesis using cast_null_safe [OF env_okD(2) [OF assms(1)]] by (simp add: PQfield_no_rows)
next
  case False
  then have "PQnfields d = int (res_capa r)" using rinv_pgresult [OF assms(2-4)] assms(5) by (metis option.inject)
  then show ?thesis using result_value_safe [OF env_okD(1) [OF assms(1)] env_okD(2) [OF assms(1)]] assms(6) by simp
qed

text \<open>An object without rows may have any type map.\<close>

lemma cast_safe_own:
  assumes "env_ok env" "rinv env E H F s" "st_res s self = Some r" "res_pgresult r = Some a" "st_heap s a = Some d"
  shows "safe (typecast_result_value (env_rb env) (env_tm env) (env_hs env) (res_typemap r) (pgresult.truncate d) e t f)"
proof (cases "pq_rows d = []")
  case True
  then show ?thesis using cast_null_safe [OF env_okD(2) [OF assms(1)]] by (simp add: PQfield_no_rows)
next
  case False
  then have "shape_ok env r" using rinv_pgresult [OF assms(2-4)] assms(5) by (metis option.inject)
  then show ?thesis using cast_safe [OF assms] by (simp add: shape_ok_def)
qed

lemma good_cast_value:
  assumes "env_ok env" "rinv env E H F s" "self \<in> E"
  shows "good (rinv env E H F) (cast_value env self t f s)"
proof -
  obtain r where r: "st_res s self = Some r" using rinv_exists [OF assms(2,3)] by blast
  have upd: "rinv env E H F (s\<lparr> st_res := (st_res s)(self := map_option (\<lambda>r. r\<lparr> res_typemap := tm' \<rparr>) (st_res s self)) \<rparr>)"
    if "typecast_result_value (env_rb env) (env_tm env) (env_hs env) (res_typemap r) d e t f = Inr (v, tm')" for d e v tm'
    using rinv_obj [OF assms(2) r] result_value_ready [OF that]
    by (intro rinv_upd_good [OF assms(2) r]) (auto simp: obj_ok_def names_ok_def shape_ok_def)
  have null: "PQfield null_result t f = None" by (simp add: null_result_def PQfield_no_rows)
  show ?thesis
  proof (cases "res_pgresult r")
    case None
    then show ?thesis
      using cast_null_safe [OF env_okD(2) [OF assms(1)] null] upd assms(2)
      by (auto simp: cast_value_def exec r deref_or_null_def safe_iff split: sum.split)
  next
    case (Some a)
    obtain d where "st_heap s a = Some d" using rinv_pgresult [OF assms(2) r Some] by blast
    then show ?thesis
      using cast_safe_own [OF assms(1,2) r Some] upd assms(2)
      by (auto simp: cast_value_def exec r Some deref_or_null_def safe_iff split: sum.split)
  qed
qed

lemma good_cast_values:
  assumes "env_ok env" "self \<in> E"
  shows "rinv env E H F s \<Longrightarrow> good (rinv env E H F) (cast_values env self cells s)"
proof (induction cells arbitrary: s)
  case (Cons c cs)
  show ?case unfolding cast_values.simps
    by (rule good_obind, rule good_cast_value [OF assms(1) Cons.prems assms(2)], rule good_obind, rule Cons.IH)
      (simp_all add: exec)
qed (simp add: exec)


section \<open>Clearing\<close>

text \<open>No other object has the \<open>PGresult\<close> that is freed.\<close>

lemma rinv_clear:
  assumes "rinv env E H F s" "st_res s self = Some r" and H: "\<And>a. (self, a) \<notin> H" and h: "\<And>a. res_pgresult r \<noteq> Some a \<Longrightarrow> h a = st_heap s a"
    and hn: "\<And>a. h a \<noteq> None \<Longrightarrow> st_heap s a = h a"
  shows "rinv env E H F (s\<lparr> st_heap := h, st_gc_usage := st_gc_usage s - res_size r,
    st_res := (st_res s)(self \<mapsto> r\<lparr> res_size := 0, res_nfields := - 1, res_pgresult := None \<rparr>) \<rparr>)" (is "rinv _ _ _ _ ?s")
proof -
  let ?r = "r\<lparr> res_size := 0, res_nfields := - 1, res_pgresult := None \<rparr>"
  have wf: "wf_st env s" using assms(1) by (simp add: rinv_def)
  have self: "self < st_next s" using wf assms(2) by (simp add: wf_st_def)
  have obj: "obj_ok env h r'" if "st_res s i = Some r'" "i \<noteq> self" for i r'
  proof -
    have "h a = st_heap s a" if "res_pgresult r' = Some a" for a
      using h wf \<open>st_res s i = Some r'\<close> assms(2) \<open>i \<noteq> self\<close> that unfolding wf_st_def by blast
    moreover have "obj_ok env (st_heap s) r'" using wf that by (simp add: wf_st_def)
    ultimately show ?thesis by (simp add: obj_ok_def)
  qed
  have own: "obj_ok env h ?r" using rinv_obj [OF assms(1,2)] by (auto simp: obj_ok_def names_ok_def)
  have tup: "tup_ok env ((st_res s)(self \<mapsto> ?r)) t" if "tup_ok env (st_res s) t" for t
    using that assms(2) by (auto simp: tup_ok_def split: option.splits)
  have sum: "sum (\<lambda>i. gc_size (((st_res s)(self \<mapsto> ?r)) i)) {..<st_next s} = sum (\<lambda>i. gc_size (st_res s i)) {..<st_next s} - res_size r"
    using assms(2) by (subst gc_sum_upd [OF self]) (simp add: gc_size_def)
  have uniq: "i = j" if "st_res ?s i = Some x" "st_res ?s j = Some y" "res_pgresult x = Some a" "res_pgresult y = Some a" for i j x y a
    using wf that unfolding wf_st_def by (auto split: if_splits)
  have "wf_st env ?s"
    unfolding wf_st_def
  proof (intro conjI allI impI)
    show "i < st_next ?s" "obj_ok env (st_heap ?s) x" if "st_res ?s i = Some x" for i x
      using that self own obj wf by (auto simp: wf_st_def split: if_splits)
    show "a < st_next ?s" if "st_heap ?s a = Some d" for a d
      using that hn [of a] wf by (auto simp: wf_st_def)
    show "i < st_next ?s" "tup_ok env (st_res ?s) x" if "st_tup ?s i = Some x" for i x
      using that tup wf by (auto simp: wf_st_def)
    show "st_gc_usage ?s = sum (\<lambda>i. gc_size (st_res ?s i)) {..<st_next ?s}"
      using sum wf by (simp add: wf_st_def)
  qed (rule uniq)
  moreover have "\<exists>r'. st_res ?s i = Some r' \<and> streaming env n (st_heap ?s) r'" if F: "F i = Some n" for i n
  proof -
    obtain x where x: "st_res s i = Some x" "streaming env n (st_heap s) x" using assms(1) F unfolding rinv_def by blast
    then show ?thesis
      using assms(2) hn by (cases "i = self") (auto simp: streaming_def shape_ok_def)
  qed
  ultimately show ?thesis using assms(1) H by (fastforce simp: rinv_def)
qed

lemma good_clear:
  assumes "rinv env E H F s" "self \<in> E" "\<And>a. (self, a) \<notin> H"
  shows "good (rinv env E H F) (pgresult_clear self s)"
proof -
  obtain r where r: "st_res s self = Some r" using rinv_exists [OF assms(1,2)] by blast
  have keep: "rinv env E H F (s\<lparr> st_res := (st_res s)(self \<mapsto> r\<lparr> res_size := 0, res_nfields := - 1, res_pgresult := None \<rparr>) \<rparr>)"
    if "res_pgresult r = None \<or> res_autoclear r"
    using rinv_clear [OF assms(1) r assms(3), of "st_heap s"] rinv_obj [OF assms(1) r] that by (simp add: obj_ok_def)
  show ?thesis
  proof (cases "res_pgresult r")
    case None
    then show ?thesis using keep by (simp add: pgresult_clear_def exec r)
  next
    case (Some a)
    obtain d where d: "st_heap s a = Some d" using rinv_pgresult [OF assms(1) r Some] by blast
    have "rinv env E H F (s\<lparr> st_heap := (st_heap s)(a := None), st_gc_usage := st_gc_usage s - res_size r,
        st_res := (st_res s)(self \<mapsto> r\<lparr> res_size := 0, res_nfields := - 1, res_pgresult := None \<rparr>) \<rparr>)"
      by (rule rinv_clear [OF assms(1) r assms(3)]) (auto simp: Some split: if_splits)
    then show ?thesis using keep
      by (cases "res_autoclear r") (simp_all add: pgresult_clear_def exec r Some d)
  qed
qed

section \<open>Field names\<close>

lemma pg_cstr_to_sym_ok: "env_ok env \<Longrightarrow> \<exists>v. pg_cstr_to_sym env str flags e = Inr v"
  using env_okD(3) by (simp add: pg_cstr_to_sym_def)

lemma init_fnames_loop_ok:
  assumes "env_ok env"
  shows "st_res s self = Some r \<Longrightarrow> i \<le> length (res_fnames r) \<Longrightarrow> i + length names \<le> res_capa r \<Longrightarrow>
    \<exists>vs nf. i + length names \<le> length vs \<and> init_fnames_loop env self flags e i names s =
      (Inr (), s\<lparr> st_res := (st_res s)(self \<mapsto> r\<lparr> res_fnames := vs, res_nfields := nf \<rparr>) \<rparr>)"
proof (induction names arbitrary: s i r)
  case Nil
  then show ?case by (intro exI [of _ "res_fnames r"] exI [of _ "res_nfields r"]) (simp add: oret_def fun_upd_idem)
next
  case (Cons n names)
  obtain v where v: "pg_cstr_to_sym env n flags e = Inr v" using pg_cstr_to_sym_ok [OF assms] by blast
  let ?r = "r\<lparr> res_fnames := take i (res_fnames r) @ [v], res_nfields := int i + 1 \<rparr>"
  let ?s = "s\<lparr> st_res := (st_res s)(self \<mapsto> ?r) \<rparr>"
  have "init_fnames_loop env self flags e i (n # names) s = init_fnames_loop env self flags e (i + 1) names ?s"
    using Cons.prems by (simp add: v set_fname_def obind_def olift_def pgresult_get_this_def upd_this_def)
  moreover have "st_res ?s self = Some ?r" by simp
  ultimately show ?case using Cons.IH [of ?s ?r "i + 1"] Cons.prems by (simp add: fun_upd_def cong: if_cong)
qed

lemma rinv_set_fnames:
  assumes "rinv env E H F s" "st_res s self = Some r" "res_pgresult r = Some a" "st_heap s a = Some d"
    and "nat (PQnfields d) \<le> length vs"
  shows "rinv env E H F (s\<lparr> st_res := (st_res s)(self \<mapsto> r\<lparr> res_fnames := vs, res_nfields := PQnfields d \<rparr>) \<rparr>)"
proof -
  have d: "PQnfields d \<le> int (res_capa r)" and full: "pq_rows d \<noteq> [] \<Longrightarrow> PQnfields d = int (res_capa r) \<and> shape_ok env r"
    using rinv_pgresult [OF assms(1-3)] assms(4) by (metis option.inject)+
  have "names_ok r" using rinv_obj [OF assms(1,2)] by (simp add: obj_ok_def)
  then have "names_ok (r\<lparr> res_fnames := vs, res_nfields := PQnfields d \<rparr>)"
    using d assms(5) by (auto simp: names_ok_def PQnfields_def)
  then have "obj_ok env (st_heap s) (r\<lparr> res_fnames := vs, res_nfields := PQnfields d \<rparr>)"
    using rinv_obj [OF assms(1,2)] full assms(3,4) by (auto simp: obj_ok_def shape_ok_def)
  moreover have "streaming env n (st_heap s) (r\<lparr> res_fnames := vs, res_nfields := PQnfields d \<rparr>)" if "F self = Some n" for n
    using rinv_streaming [OF assms(1) that assms(2)] assms(3,4) by (auto simp: streaming_def shape_ok_def)
  ultimately show ?thesis by (intro rinv_upd [OF assms(1,2)]) simp_all
qed

text \<open>After the initialisation the object is as before but for its names and their number.\<close>

lemma init_fnames_ok:
  assumes "env_ok env" "rinv env E H F s" "st_res s self = Some r" "res_pgresult r = Some a" "st_heap s a = Some d"
    and "res_nfields r = - 1"
  obtains vs where "nat (PQnfields d) \<le> length vs"
    "pgresult_init_fnames env self s =
       (Inr (), s\<lparr> st_res := (st_res s)(self \<mapsto> r\<lparr> res_fnames := vs, res_nfields := PQnfields d \<rparr>) \<rparr>)"
proof -
  have d: "data_ok d" "PQnfields d \<le> int (res_capa r)"
    using rinv_pgresult [OF assms(2-4)] assms(5) by (metis option.inject)+
  then have "0 + length (pq_fnames d) \<le> res_capa r" "nat (PQnfields d) = 0 + length (pq_fnames d)"
    by (simp_all add: data_ok_def PQnfields_def)
  then obtain vs nf where "nat (PQnfields d) \<le> length vs"
    "init_fnames_loop env self (res_flags r) (res_enc_idx r) 0 (pq_fnames d) s =
      (Inr (), s\<lparr> st_res := (st_res s)(self \<mapsto> r\<lparr> res_fnames := vs, res_nfields := nf \<rparr>) \<rparr>)"
    using init_fnames_loop_ok [OF assms(1,3) le0, of "pq_fnames d" "res_flags r" "res_enc_idx r"] by metis
  then show ?thesis
    using assms(3-6) by (intro that) (simp_all add: pgresult_init_fnames_def pgresult_get_this_safe_def obind_def
        pgresult_get_this_def oret_def deref_def upd_this_def)
qed

lemma good_init_fnames:
  assumes "env_ok env" "rinv env E H F s" "self \<in> E"
  shows "good (rinv env E H F) (pgresult_init_fnames env self s)"
proof -
  obtain r where r: "st_res s self = Some r" using rinv_exists [OF assms(2,3)] by blast
  show ?thesis
  proof (cases "res_pgresult r = None \<or> res_nfields r \<noteq> - 1")
    case True
    then show ?thesis using assms(2)
      by (auto simp: pgresult_init_fnames_def pgresult_get_this_safe_def exec r split: option.split)
  next
    case False
    then obtain a where a: "res_pgresult r = Some a" "res_nfields r = - 1" by auto
    obtain d where d: "st_heap s a = Some d" using rinv_pgresult [OF assms(2) r a(1)] by blast
    show ?thesis
      by (rule init_fnames_ok [OF assms(1,2) r a(1) d a(2)]) (simp add: good_def rinv_set_fnames [OF assms(2) r a(1) d])
  qed
qed


text \<open>The hash of the field names: its values are field numbers; with as many keys as names it has all of them.\<close>

lemma rb_hash_aset_new: "\<forall>k' \<in> fst ` set h. \<not> rb_eql k k' \<Longrightarrow> rb_hash_aset k v h = h @ [(k, v)]"
  by (induction k v h rule: rb_hash_aset.induct) auto

lemma rb_hash_aset_old: "\<exists>k' \<in> fst ` set h. rb_eql k k' \<Longrightarrow> length (rb_hash_aset k v h) = length h"
  by (induction k v h rule: rb_hash_aset.induct) auto

lemma rb_hash_aset_values: "snd ` set (rb_hash_aset k v h) \<subseteq> insert v (snd ` set h)"
  by (induction k v h rule: rb_hash_aset.induct) auto

lemma make_field_map_snoc: "make_field_map (names @ [n]) = rb_hash_aset n (int (length names)) (make_field_map names)"
  by (simp add: make_field_map_def enumerate_append_eq)

lemma make_field_map_Nil: "make_field_map [] = []"
  by (simp add: make_field_map_def)

lemma make_field_map_values: "snd ` set (make_field_map names) \<subseteq> {0..<int (length names)}"
proof (induction names rule: rev_induct)
  case (snoc n names)
  then show ?case using rb_hash_aset_values [of n "int (length names)" "make_field_map names"]
    by (force simp: make_field_map_snoc)
qed (simp add: make_field_map_Nil)

lemma make_field_map_all:
  "length (make_field_map names) \<le> length names \<and>
   (length (make_field_map names) = length names \<longrightarrow> snd ` set (make_field_map names) = {0..<int (length names)})"
proof (induction names rule: rev_induct)
  case (snoc n names)
  show ?case
  proof (cases "\<exists>k \<in> fst ` set (make_field_map names). rb_eql n k")
    case True
    then show ?thesis using snoc by (simp add: make_field_map_snoc rb_hash_aset_old)
  next
    case False
    then show ?thesis using snoc
      by (auto simp: make_field_map_snoc rb_hash_aset_new atLeastLessThan_def)
  qed
qed (simp add: make_field_map_Nil)

section \<open>Methods that read a result\<close>

lemma good_get_safe:
  assumes "rinv env E H F s" "self \<in> E"
    and "\<And>r a d. st_res s self = Some r \<Longrightarrow> res_pgresult r = Some a \<Longrightarrow> st_heap s a = Some d \<Longrightarrow> good (rinv env E H F) (f (r, a) s)"
  shows "good (rinv env E H F) (obind (pgresult_get_this_safe self) f s)"
proof -
  obtain r where r: "st_res s self = Some r" using rinv_exists [OF assms(1,2)] by blast
  show ?thesis
  proof (cases "res_pgresult r")
    case None
    then show ?thesis using assms(1) by (simp add: pgresult_get_this_safe_def exec r)
  next
    case (Some a)
    then obtain d where "st_heap s a = Some d" using rinv_pgresult [OF assms(1) r] by blast
    then show ?thesis using assms(3) r Some by (simp add: pgresult_get_this_safe_def exec)
  qed
qed

lemma get_safe_fst: "pgresult_get self = obind (pgresult_get_this_safe self) (\<lambda>(this, a). oret a)"
  by (auto simp: pgresult_get_def pgresult_get_this_safe_def exec fun_eq_iff split: option.split intro!: arg_cong [where f = "\<lambda>g. obind _ g _"])

lemma good_get:
  assumes "rinv env E H F s" "self \<in> E"
    and "\<And>r a d. st_res s self = Some r \<Longrightarrow> res_pgresult r = Some a \<Longrightarrow> st_heap s a = Some d \<Longrightarrow> good (rinv env E H F) (f a s)"
  shows "good (rinv env E H F) (obind (pgresult_get self) f s)"
  using assms(3) by (auto simp: get_safe_fst exec split_def intro!: good_get_safe [OF assms(1,2)])

lemma good_live:
  assumes "rinv env E H F s" "self \<in> E"
    and "\<And>r a d. st_res s self = Some r \<Longrightarrow> res_pgresult r = Some a \<Longrightarrow> st_heap s a = Some d \<Longrightarrow> good (rinv env E H F) (f d s)"
  shows "good (rinv env E H F) (obind (live self) f s)"
  using assms(3) by (auto simp: live_def exec intro!: good_get [OF assms(1,2)])


lemma good_string_value_cstr [exec]:
  assumes "rb_api_ok rb"
  shows "good P (obind (string_value_cstr rb v) f s) \<longleftrightarrow>
    (case rb_StringValue rb v of Inl e \<Rightarrow> P s
     | Inr w \<Rightarrow> if 0 \<in> set (str_bytes w) then P s else good P (f (str_bytes w) s))"
  using rb_api_okD [OF assms] by (auto simp: string_value_cstr_def exec safe_iff split: sum.split)

lemma good_column_attr:
  assumes "rinv env E H F s" "self \<in> E"
  shows "good (rinv env E H F) (column_attr rb msg attr index self s)"
    "good (rinv env E H F) (column_attr2 rb msg attr index self s)"
  using assms by (auto simp: column_attr_def column_attr2_def exec split: sum.split intro!: good_live good_get)

lemma good_rows_loop:
  assumes "env_ok env" "self \<in> E"
  shows "rinv env E H F s \<Longrightarrow> good (rinv env E H F) (rows_loop env self n rows s)"
proof (induction rows arbitrary: s)
  case (Cons r rs)
  show ?case unfolding rows_loop.simps
    by (rule good_obind, rule good_cast_values [OF assms Cons.prems], rule good_obind, rule Cons.IH) (simp_all add: exec)
qed (simp add: exec)

lemma good_make_column:
  assumes "env_ok env" "rinv env E H F s" "self \<in> E"
  shows "good (rinv env E H F) (make_column_result_array env col self s)"
  unfolding make_column_result_array_def
  by (rule good_live [OF assms(2,3)])
    (auto simp: exec assms(2) intro!: good_obind good_cast_values [OF assms(1,3,2)])

text \<open>The names are there, or they are initialised now.\<close>

lemma good_names:
  assumes "env_ok env" "rinv env E H F s" "self \<in> E"
  shows "good (rinv env E H F) ((if res_nfields r = - 1 then pgresult_init_fnames env self else oret ()) s)"
  using good_init_fnames [OF assms] assms(2) by (simp add: exec)

lemma good_aref:
  assumes "env_ok env" "rinv env E H F s" "self \<in> E"
  shows "good (rinv env E H F) (pgresult_aref env index self s)"
proof -
  have row: "good (rinv env E H F) (obind (pgresult_get_this self) (\<lambda>this.
       obind (cast_values env self (row_cells tn (res_nfields this))) (\<lambda>vals.
         oret (fold (\<lambda>(n, v). rb_hash_aset n v) (zip (res_fnames this) vals) []))) s')" if "rinv env E H F s'" for s' tn
    using rinv_exists [OF that assms(3)] by (auto simp: exec intro!: good_obind good_cast_values [OF assms(1,3) that])
  show ?thesis unfolding pgresult_aref_def
    by (rule good_get_safe [OF assms(2,3)])
      (use assms(2) in \<open>auto simp: exec split: sum.split intro!: good_obind row good_init_fnames [OF assms] good_cast_values [OF assms(1,3)]\<close>)
qed

lemma ensure_init_ok:
  assumes "env_ok env" "rinv env E H F s" "self \<in> E" "st_res s self = Some r" "res_pgresult r = Some a"
  obtains r' s' where "ensure_init_for_tuple env self s = (Inr (), s')" "rinv env E H F s'" "st_heap s' = st_heap s"
    "st_res s' self = Some r'" "res_pgresult r' = Some a" "res_field_map r' \<noteq> None"
proof (cases "res_field_map r")
  case (Some m)
  then show ?thesis
    using assms by (intro that [of s r]) (simp_all add: ensure_init_for_tuple_def pgresult_get_this_safe_def
        pgresult_get_this_def obind_def oret_def)
next
  case None
  obtain d where d: "st_heap s a = Some d" using rinv_pgresult [OF assms(2,4,5)] by blast
  have "\<exists>s1 r1. (if res_nfields r = - 1 then pgresult_init_fnames env self else oret ()) s = (Inr (), s1) \<and>
      rinv env E H F s1 \<and> st_heap s1 = st_heap s \<and> st_res s1 self = Some r1 \<and> res_pgresult r1 = Some a \<and> res_nfields r1 \<noteq> - 1"
  proof (cases "res_nfields r = - 1")
    case True
    then show ?thesis
      by (rule_tac init_fnames_ok [OF assms(1,2,4,5) d])
        (auto simp: rinv_set_fnames [OF assms(2,4,5) d] assms(5), simp add: PQnfields_def)
  qed (use assms in \<open>simp add: oret_def\<close>)
  then obtain s1 r1 where s1: "(if res_nfields r = - 1 then pgresult_init_fnames env self else oret ()) s = (Inr (), s1)"
    "rinv env E H F s1" "st_heap s1 = st_heap s" "st_res s1 self = Some r1" "res_pgresult r1 = Some a" "res_nfields r1 \<noteq> - 1"
    by blast
  let ?g = "\<lambda>r. r\<lparr> res_field_map := Some (make_field_map (take (nat (res_nfields r)) (res_fnames r))) \<rparr>"
  have "rinv env E H F (s1\<lparr> st_res := (st_res s1)(self := map_option ?g (st_res s1 self)) \<rparr>)"
    using rinv_obj [OF s1(2,4)]
    by (intro rinv_upd_good [OF s1(2,4)]) (auto simp: obj_ok_def names_ok_def shape_ok_def)
  moreover have "ensure_init_for_tuple env self s = (Inr (), s1\<lparr> st_res := (st_res s1)(self := map_option ?g (st_res s1 self)) \<rparr>)"
    using assms(4,5) None s1(1) by (simp add: ensure_init_for_tuple_def pgresult_get_this_safe_def
        pgresult_get_this_def obind_def oret_def upd_this_def del: fun_upd_apply split: if_splits)
  ultimately show ?thesis
    using s1 by (intro that [of "s1\<lparr> st_res := (st_res s1)(self := map_option ?g (st_res s1 self)) \<rparr>" "?g r1"]) simp_all
qed


section \<open>Making tuples\<close>

lemma st_next_free: "wf_st env s \<Longrightarrow> st_res s (st_next s) = None \<and> st_heap s (st_next s) = None \<and> st_tup s (st_next s) = None"
  unfolding wf_st_def by (metis less_irrefl not_None_eq)

lemma rinv_new_tuple:
  assumes "rinv env E H F s" "tup_ok env (st_res s) t"
  shows "rinv env E H F (s\<lparr> st_next := st_next s + 1, st_tup := (st_tup s)(st_next s \<mapsto> t) \<rparr>)"
proof -
  have "wf_st env s" using assms(1) by (simp add: rinv_def)
  then show ?thesis
    using assms st_next_free [of env s] by (auto simp: rinv_def wf_st_def gc_size_def less_Suc_eq split: if_splits)
qed

lemma good_tuple_new:
  assumes "rinv env E H F s" "st_res s self = Some r" "res_field_map r = Some m" "shape_ok env r"
  shows "good (rinv env E H F) (pg_tuple_new self row s)"
proof -
  have names: "names_ok r" using rinv_obj [OF assms(1,2)] by (simp add: obj_ok_def)
  obtain names where m: "m = make_field_map names" "length names \<le> res_capa r" using assms(3,4) by (auto simp: shape_ok_def)
  have tup: "tup_ok env (st_res s)
      \<lparr> tup_result = Some self, tup_typemap = Some (res_typemap r), tup_field_map = m, tup_row_num = row,
        tup_num_fields = res_nfields r, tup_values = replicate (nat (res_nfields r)) Qundef, tup_field_names = fn \<rparr>"
    if "res_nfields r \<noteq> - 1" "fn = None \<Longrightarrow> res_nfields r = int (length m)"
      "\<And>ns. fn = Some ns \<Longrightarrow> length ns = nat (res_nfields r)" for fn
  proof -
    have n: "res_nfields r = int (res_capa r)" using that(1) assms(4) by (simp add: shape_ok_def)
    have "{0..<res_nfields r} \<subseteq> snd ` set m" if "fn = None"
    proof -
      have "length m = res_capa r" using that n \<open>fn = None \<Longrightarrow> _\<close> by simp
      then show ?thesis using m n make_field_map_all [of names] by (simp add: le_antisym)
    qed
    moreover have "\<forall>(k, i) \<in> set m. 0 \<le> i \<and> i < res_nfields r"
      using make_field_map_values [of names] m n by force
    ultimately show ?thesis using n assms(2,4) that(3) by (simp add: tup_ok_def shape_ok_def)
  qed
  have n: "res_nfields r = - 1 \<or> 0 \<le> res_nfields r \<and> nat (res_nfields r) \<le> length (res_fnames r)"
    using names by (auto simp: names_ok_def)
  show ?thesis
  proof (cases "res_nfields r = int (length m)")
    case True
    have "rinv env E H F (s\<lparr> st_next := st_next s + 1, st_tup := (st_tup s)(st_next s \<mapsto>
        \<lparr> tup_result = Some self, tup_typemap = Some (res_typemap r), tup_field_map = m, tup_row_num = row,
          tup_num_fields = res_nfields r, tup_values = replicate (nat (res_nfields r)) Qundef, tup_field_names = None \<rparr>) \<rparr>)"
      by (intro rinv_new_tuple [OF assms(1) tup]) (use True in simp_all)
    then show ?thesis using True by (simp add: pg_tuple_new_def exec assms(2,3) Let_def) (simp add: good_def)
  next
    case False
    have "rinv env E H F (s\<lparr> st_next := st_next s + 1, st_tup := (st_tup s)(st_next s \<mapsto>
        \<lparr> tup_result = Some self, tup_typemap = Some (res_typemap r), tup_field_map = m, tup_row_num = row,
          tup_num_fields = res_nfields r, tup_values = replicate (nat (res_nfields r)) Qundef,
          tup_field_names = Some (take (nat (res_nfields r)) (res_fnames r)) \<rparr>) \<rparr>)" if "res_nfields r \<noteq> - 1"
      by (rule rinv_new_tuple [OF assms(1) tup]) (use that n in auto)
    then show ?thesis using False n assms(1)
      by (auto simp: pg_tuple_new_def exec assms(2,3) Let_def) (auto simp: good_def)
  qed
qed

lemma good_tuple:
  assumes "env_ok env" "rinv env E H F s" "self \<in> E"
  shows "good (rinv env E H F) (pgresult_tuple env index self s)"
proof -
  have main: "good (rinv env E H F) (obind (ensure_init_for_tuple env self) (\<lambda>_. pg_tuple_new self i) s)"
    if r: "st_res s self = Some r" "res_pgresult r = Some a" "st_heap s a = Some d" "pq_rows d \<noteq> []" for r a d i
  proof (rule ensure_init_ok [OF assms r(1,2)])
    fix r' s'
    assume s': "ensure_init_for_tuple env self s = (Inr (), s')" "rinv env E H F s'" "st_heap s' = st_heap s"
      "st_res s' self = Some r'" "res_pgresult r' = Some a" "res_field_map r' \<noteq> None"
    have "shape_ok env r'" using rinv_obj [OF s'(2,4)] s'(3,5) r(3,4) by (auto simp: obj_ok_def)
    then have "good (rinv env E H F) (pg_tuple_new self i s')" using good_tuple_new [OF s'(2,4)] s'(6) by blast
    then show ?thesis by (simp add: obind_def s'(1))
  qed
  show ?thesis
    unfolding pgresult_tuple_def good_num2int
    using assms(2) by (auto simp: exec PQntuples_def split: sum.split intro!: good_live [OF assms(2,3)] main)
qed

lemma tuple_exists: "pgresult_tuple env index self s = (Inr t, s') \<Longrightarrow> st_tup s' t \<noteq> None"
  by (auto simp: pgresult_tuple_def pg_tuple_new_def obind_def oret_def oerr_def Let_def
      split: prod.splits sum.splits option.splits if_splits)

end
