(* ===== verification/PG_Result_Stream.thy ===== *)
theory PG_Result_Stream
  imports PG_Result_Safety
begin

text \<open>
  Iteration over results and streaming: blocks that keep the invariant are run safely by the
  iterators, also while \<open>stream_each\<close> and its relatives exchange the \<open>PGresult\<close> of the object between
  two turns.
\<close>

section \<open>Iteration\<close>

lemma good_each_row_loop:
  assumes "env_ok env" "self \<in> E" and "\<And>x s. rinv env E H F s \<Longrightarrow> good (rinv env E H F) (block x s)"
  shows "rinv env E H F s \<Longrightarrow> good (rinv env E H F) (each_row_loop env block self n rows s)"
proof (induction rows arbitrary: s)
  case (Cons r rs)
  show ?case unfolding each_row_loop.simps
    by (rule good_obind, rule good_cast_values [OF assms(1,2) Cons.prems], rule good_obind, rule assms(3))
      (simp_all add: Cons.IH)
qed (simp add: exec)

lemma good_yield_hash_loop:
  assumes "env_ok env" "self \<in> E" and "\<And>x s. rinv env E H F s \<Longrightarrow> good (rinv env E H F) (block x s)"
  shows "rinv env E H F s \<Longrightarrow> good (rinv env E H F) (yield_hash_loop env block self rows s)"
proof (induction rows arbitrary: s)
  case (Cons r rs)
  show ?case unfolding yield_hash_loop.simps
    by (rule good_obind, rule good_aref [OF assms(1) Cons.prems assms(2)], rule good_obind, rule assms(3))
      (simp_all add: Cons.IH)
qed (simp add: exec)

lemma good_yield_tuple_loop:
  assumes "env_ok env" "copy \<in> E" and "\<And>t s. rinv env E H F s \<Longrightarrow> st_tup s t \<noteq> None \<Longrightarrow> good (rinv env E H F) (block t s)"
  shows "rinv env E H F s \<Longrightarrow> good (rinv env E H F) (yield_tuple_loop env block copy rows s)"
proof (induction rows arbitrary: s)
  case (Cons r rs)
  show ?case unfolding yield_tuple_loop.simps
  proof (rule good_obind)
    show "good (rinv env E H F) (pgresult_tuple env (RInteger r) copy s)"
      by (rule good_tuple [OF assms(1) Cons.prems assms(2)])
    show "good (rinv env E H F) (obind (block t) (\<lambda>_. yield_tuple_loop env block copy rs) s')"
      if "pgresult_tuple env (RInteger r) copy s = (Inr t, s')" "rinv env E H F s'" for t s'
      by (rule good_obind, rule assms(3) [OF that(2) tuple_exists [OF that(1)]]) (rule Cons.IH)
  qed
qed (simp add: exec)

lemma rinv_pin: "rinv env E H F s \<Longrightarrow> (self, a) \<in> H \<Longrightarrow> \<exists>d. st_heap s a = Some d"
proof -
  assume s: "rinv env E H F s" "(self, a) \<in> H"
  then obtain r where "st_res s self = Some r" "res_pgresult r = Some a" unfolding rinv_def by blast
  then show ?thesis using rinv_pgresult [OF s(1)] by blast
qed

text \<open>\<open>each\<close> and \<open>each_tuple\<close> need more of the block: the object has to keep its \<open>PGresult\<close>.\<close>

lemma good_each_loop:
  assumes "(self, a) \<in> H"
    and "\<And>i s. rinv env E H F s \<Longrightarrow> good (rinv env E H F) (item i s)"
    and "\<And>i x s s'. rinv env E H F s' \<Longrightarrow> item i s = (Inr x, s') \<Longrightarrow> good (rinv env E H F) (block x s')"
  shows "rinv env E H F s \<Longrightarrow> good (rinv env E H F) (each_loop item block a is s)"
proof (induction "is" arbitrary: s)
  case Nil
  then show ?case using rinv_pin [OF Nil assms(1)] by (auto simp: exec)
next
  case (Cons i "is")
  obtain d where d: "st_heap s a = Some d" using rinv_pin [OF Cons.prems assms(1)] by blast
  have "good (rinv env E H F) (obind (item i) (\<lambda>x. obind (block x) (\<lambda>_. each_loop item block a is)) s)"
    by (rule good_obind, rule assms(2) [OF Cons.prems], rule good_obind, rule assms(3)) (simp_all add: Cons.IH)
  then show ?case by (simp add: exec d)
qed

section \<open>Exchange of the PGresult\<close>

lemma rinv_weaken: "rinv env E H F s \<Longrightarrow> E' \<subseteq> E \<Longrightarrow> F' \<subseteq>\<^sub>m F \<Longrightarrow> rinv env E' H F' s"
  unfolding rinv_def map_le_def dom_def by (intro conjI) (blast, blast, blast, force)

text \<open>A \<open>PGresult\<close> that no object has yet.\<close>

lemma rinv_new_pgresult:
  assumes "rinv env E H F s"
  shows "rinv env E H F (s\<lparr> st_next := st_next s + 1, st_heap := (st_heap s)(st_next s := new) \<rparr>)" (is "rinv _ _ _ _ ?s")
    and "st_res s i = Some r \<Longrightarrow> res_pgresult r \<noteq> Some (st_next s)"
proof -
  have wf: "wf_st env s" using assms by (simp add: rinv_def)
  note free = st_next_free [OF wf]
  show old: "res_pgresult x \<noteq> Some (st_next s)" if "st_res s i = Some x" for i x
    using rinv_pgresult [OF assms that, of "st_next s"] free by (metis option.distinct(1))
  have obj: "obj_ok env (st_heap ?s) x" if "st_res s i = Some x" for i x
    using rinv_obj [OF assms that] old [OF that] by (simp add: obj_ok_def)
  have "streaming env n (st_heap ?s) x" if "st_res s i = Some x" "streaming env n (st_heap s) x" for i n x
    using that old [OF that(1)] by (auto simp: streaming_def split: if_splits)
  moreover have "wf_st env ?s"
    unfolding wf_st_def
  proof (intro conjI allI impI)
    show "i < st_next ?s" "obj_ok env (st_heap ?s) x" if "st_res ?s i = Some x" for i x
      using that obj wf by (auto simp: wf_st_def less_Suc_eq)
    show "a < st_next ?s" if "st_heap ?s a = Some d'" for a d'
      using that wf by (auto simp: wf_st_def less_Suc_eq split: if_splits)
    show "i = j" if "st_res ?s i = Some x" "st_res ?s j = Some y" "res_pgresult x = Some a" "res_pgresult y = Some a" for i j x y a
      using that wf unfolding wf_st_def by auto
    show "i < st_next ?s" "tup_ok env (st_res ?s) x" if "st_tup ?s i = Some x" for i x
      using that wf by (auto simp: wf_st_def less_Suc_eq)
    show "st_gc_usage ?s = sum (\<lambda>i. gc_size (st_res ?s i)) {..<st_next ?s}"
      using wf free by (simp add: wf_st_def gc_size_def)
  qed
  ultimately show "rinv env E H F ?s" using assms by (fastforce simp: rinv_def)
qed

lemma rinv_assign:
  assumes "rinv env E H F s" "st_res s self = Some r" "\<And>a. (self, a) \<notin> H"
    and "obj_ok env ((st_heap s)(st_next s \<mapsto> d)) (r\<lparr> res_pgresult := Some (st_next s) \<rparr>)"
    and "\<And>n. F self = Some n \<Longrightarrow> PQnfields d = int n"
  shows "rinv env E H F (s\<lparr> st_next := st_next s + 1, st_heap := (st_heap s)(st_next s \<mapsto> d),
    st_res := (st_res s)(self \<mapsto> r\<lparr> res_pgresult := Some (st_next s) \<rparr>) \<rparr>)" (is "rinv _ _ _ _ ?s")
proof -
  have wf: "wf_st env s" using assms(1) by (simp add: rinv_def)
  note free = st_next_free [OF wf]
  have self: "self < st_next s" using wf assms(2) by (simp add: wf_st_def)
  have old: "res_pgresult x \<noteq> Some (st_next s)" if "st_res s i = Some x" for i x
    using rinv_pgresult [OF assms(1) that, of "st_next s"] free by (metis option.distinct(1))
  have obj: "obj_ok env ((st_heap s)(st_next s \<mapsto> d)) x" if "st_res s i = Some x" for i x
  proof -
    have "obj_ok env (st_heap s) x" using wf that by (simp add: wf_st_def)
    then show ?thesis using old [OF that] by (simp add: obj_ok_def)
  qed
  have tup: "tup_ok env ((st_res s)(self \<mapsto> r\<lparr> res_pgresult := Some (st_next s) \<rparr>)) t" if "tup_ok env (st_res s) t" for t
    using that assms(2) by (auto simp: tup_ok_def split: option.splits)
  have sum: "sum (\<lambda>i. gc_size (((st_res s)(self \<mapsto> r\<lparr> res_pgresult := Some (st_next s) \<rparr>)) i)) {..<st_next s} =
      sum (\<lambda>i. gc_size (st_res s i)) {..<st_next s}"
    using assms(2) by (subst gc_sum_upd [OF self]) (simp add: gc_size_def)
  have "wf_st env ?s"
    unfolding wf_st_def
  proof (intro conjI allI impI)
    show "i < st_next ?s" "obj_ok env (st_heap ?s) x" if "st_res ?s i = Some x" for i x
      using that self assms(4) obj wf by (auto simp: wf_st_def less_Suc_eq split: if_splits)
    show "a < st_next ?s" if "st_heap ?s a = Some d'" for a d'
      using that wf by (auto simp: wf_st_def less_Suc_eq split: if_splits)
    show "i = j" if "st_res ?s i = Some x" "st_res ?s j = Some y" "res_pgresult x = Some a" "res_pgresult y = Some a" for i j x y a
      using that wf old unfolding wf_st_def by (auto split: if_splits)
    show "i < st_next ?s" "tup_ok env (st_res ?s) x" if "st_tup ?s i = Some x" for i x
      using that tup wf by (auto simp: wf_st_def less_Suc_eq)
    show "st_gc_usage ?s = sum (\<lambda>i. gc_size (st_res ?s i)) {..<st_next ?s}"
      using sum wf free self by (simp add: wf_st_def gc_size_def)
  qed
  moreover have "\<exists>x. st_res ?s i = Some x \<and> streaming env n (st_heap ?s) x" if F: "F i = Some n" for i n
  proof -
    obtain x where x: "st_res s i = Some x" "streaming env n (st_heap s) x" using assms(1) F unfolding rinv_def by blast
    then show ?thesis
      using assms(2,5) F old [OF x(1)] by (cases "i = self") (auto simp: streaming_def shape_ok_def)
  qed
  ultimately show ?thesis using assms(1,3) by (fastforce simp: rinv_def)
qed


section \<open>The stream\<close>

abbreviation row_status :: "pg_data \<Rightarrow> bool" where
  "row_status d \<equiv> pq_status d = PGRES_SINGLE_TUPLE \<or> pq_status d = PGRES_TUPLES_CHUNK"

text \<open>
  What single row mode and chunked mode of libpq deliver: rows come in results of their own status;
  every other result is of the same query, or it has no rows and not more fields. An SQLSTATE is
  never empty.
\<close>

definition incoming_ok :: "nat \<Rightarrow> pg_data \<Rightarrow> bool" where
  "incoming_ok n d \<longleftrightarrow> data_ok d \<and> pq_errfields d 67 \<noteq> Some [] \<and>
     (row_status d \<or> PQnfields d = int n \<or> pq_rows d = [] \<and> PQnfields d \<le> int n)"

lemma lookup_error_class_safe: "code \<noteq> Some [] \<Longrightarrow> safe (lookup_error_class errs code)"
  by (auto simp: lookup_error_class_def split: option.split)

lemma good_result_check:
  assumes "st_res s self = Some r" "res_pgresult r = Some a" "st_heap s a = Some d" "pq_errfields d 67 \<noteq> Some []"
    and "P s" "good P (f () s)"
  shows "good P (obind (pg_result_check errs self) f s)"
  using assms lookup_error_class_safe [OF assms(4), of errs]
  by (auto simp: pg_result_check_def exec Let_def safe_iff split: sum.split)

text \<open>The state in which a turn begins: a result with another number of fields is only good for being cleared.\<close>

definition arrived :: "env \<Rightarrow> nat set \<Rightarrow> (nat \<times> nat) set \<Rightarrow> (nat \<Rightarrow> nat option) \<Rightarrow> nat \<Rightarrow> nat \<Rightarrow> nat \<Rightarrow> pg_data \<Rightarrow> rst \<Rightarrow> bool" where
  "arrived env E H F self n a d s \<longleftrightarrow> incoming_ok n d \<and> st_heap s a = Some d \<and>
     (\<exists>r. st_res s self = Some r \<and> res_pgresult r = Some a) \<and>
     (if PQnfields d = int n then rinv env E H F s
      else if row_status d then good (rinv env E H F) (pgresult_clear self s)
      else rinv env E H (F(self := None)) s)"

lemma F_less: "F(self := None) \<subseteq>\<^sub>m F"
  by (auto simp: map_le_def)

lemma good_weaken: "good P out \<Longrightarrow> (\<And>s. P s \<Longrightarrow> Q s) \<Longrightarrow> good Q out"
  by (auto simp: good_def)

lemma good_step:
  assumes "arrived env E H F self n a d s" "self \<in> E" "\<And>a. (self, a) \<notin> H"
    and y: "\<And>s. rinv env E H F s \<Longrightarrow> good (rinv env E H F) (yielder self (PQntuples d) (int n) s)"
    and nx: "\<And>s. rinv env E H F s \<Longrightarrow> good (rinv env E H (F(self := None))) (rest s)"
  shows "good (rinv env E H (F(self := None))) (stream_step errs yielder self (int n) a rest s)"
proof -
  let ?P = "rinv env E H (F(self := None))"
  have weak: "?P s" if "rinv env E H F s" for s using that by (rule rinv_weaken) (auto simp: map_le_def)
  obtain r where r: "st_res s self = Some r" "res_pgresult r = Some a" and d: "st_heap s a = Some d" "incoming_ok n d"
    using assms(1) by (auto simp: arrived_def)
  have clear: "good ?P (pgresult_clear self s)" if "PQnfields d \<noteq> int n"
    using assms(1) that good_weaken [of "rinv env E H F" "pgresult_clear self s" ?P, OF _ weak]
      good_clear [of env E H "F(self := None)" s, OF _ assms(2,3)]
    by (auto simp: arrived_def split: if_splits)
  let ?go_on = "obind (if int n \<noteq> PQnfields d then
                            obind (pgresult_clear self) (\<lambda>_. oerr (Raise (PGClass ''InvalidChangeOfResultFields'')
                              ''number of fields changed in single row mode from %d to %d - this is a sign for intersection with another query''
                              [int n, PQnfields d]))
                          else oret ()) (\<lambda>_.
             obind (yielder self (PQntuples d) (int n)) (\<lambda>clear.
             obind (if clear then pgresult_clear self else oret ()) (\<lambda>_. rest)))"
  have go_on: "good ?P (?go_on s)"
  proof (cases "PQnfields d = int n")
    case True
    have "good ?P (obind (yielder self (PQntuples d) (int n)) (\<lambda>clear.
        obind (if clear then pgresult_clear self else oret ()) (\<lambda>_. rest)) s)"
    proof -
      have inv: "rinv env E H F s" using assms(1) True by (simp add: arrived_def)
      have "good ?P (obind (if clear then pgresult_clear self else oret ()) (\<lambda>_. rest) s1)" if "rinv env E H F s1" for s1 clear
      proof (cases clear)
        case True
        then show ?thesis by simp (rule good_obind2, rule good_clear [OF that assms(2,3)], erule weak, erule nx)
      qed (simp add: exec nx [OF that])
      note k = this
      show ?thesis by (rule good_obind2, rule y [OF inv], erule weak, erule k)
    qed
    then show ?thesis using True by (simp add: exec)
  next
    case False
    show ?thesis using False by (simp add: exec) (rule good_obind, rule clear [OF False], simp add: exec)
  qed
  show ?thesis
  proof (cases "row_status d")
    case True
    then show ?thesis using go_on by (auto simp: stream_step_def exec d Let_def)
  next
    case False
    then have P: "?P s" using assms(1) weak by (auto simp: arrived_def split: if_splits)
    have "good ?P (obind (pg_result_check errs self) (\<lambda>_. ?go_on) s)"
      by (rule good_result_check [OF r d(1)]) (use d(2) in \<open>simp add: incoming_ok_def\<close>, rule P, rule go_on)
    then show ?thesis using False P by (auto simp: stream_step_def exec d(1) Let_def)
  qed
qed


lemma rinv_arrive:
  assumes "rinv env E H F s" "st_res s self = Some r" "F self = Some n" "self \<in> E" "\<And>a. (self, a) \<notin> H" "incoming_ok n d"
  shows "arrived env E H F self n (st_next s) d (s\<lparr> st_next := st_next s + 1, st_heap := (st_heap s)(st_next s \<mapsto> d),
    st_res := (st_res s)(self \<mapsto> r\<lparr> res_pgresult := Some (st_next s) \<rparr>) \<rparr>)" (is "arrived _ _ _ _ _ _ _ _ ?s")
proof -
  let ?r = "r\<lparr> res_pgresult := Some (st_next s) \<rparr>"
  have str: "streaming env n (st_heap s) r" by (rule rinv_streaming [OF assms(1,3,2)])
  have d: "data_ok d" using assms(6) by (simp add: incoming_ok_def)
  have obj: "names_ok r" "res_autoclear r \<Longrightarrow> res_size r = 0" using rinv_obj [OF assms(1,2)] by (auto simp: obj_ok_def)
  consider "PQnfields d = int n" | "PQnfields d \<noteq> int n" "row_status d"
    | "PQnfields d \<noteq> int n" "\<not> row_status d" "pq_rows d = []" "PQnfields d \<le> int n"
    using assms(6) by (auto simp: incoming_ok_def)
  then show ?thesis
  proof cases
    case 1
    have "obj_ok env ((st_heap s)(st_next s \<mapsto> d)) ?r"
      using obj d str 1 by (auto simp: obj_ok_def names_ok_def streaming_def shape_ok_def)
    then have "rinv env E H F ?s" using 1 assms(3) by (intro rinv_assign [OF assms(1,2,5)]) auto
    then show ?thesis using 1 assms(6) by (simp add: arrived_def)
  next
    case 2
    let ?cleared = "r\<lparr> res_size := 0, res_nfields := - 1, res_pgresult := None \<rparr>"
    have clear: "rinv env E H F (s\<lparr> st_next := st_next s + 1, st_heap := (st_heap s)(st_next s := x), st_gc_usage := st_gc_usage s - res_size r,
        st_res := (st_res s)(self \<mapsto> ?cleared) \<rparr>)" for x
      using rinv_new_pgresult(1) [OF rinv_clear [OF assms(1,2,5), of "st_heap s"], of x] by (cases s) simp
    have "good (rinv env E H F) (pgresult_clear self ?s)"
      using assms(2) obj(2) clear [of None] clear [of "Some d"] by (cases "res_autoclear r") (simp_all add: pgresult_clear_def exec)
    then show ?thesis using 2 assms(6) by (simp add: arrived_def)
  next
    case 3
    have "rinv env E H (F(self := None)) s" by (rule rinv_weaken [OF assms(1) subset_refl F_less])
    moreover have "obj_ok env ((st_heap s)(st_next s \<mapsto> d)) ?r"
      using obj d str 3 by (auto simp: obj_ok_def names_ok_def streaming_def shape_ok_def)
    ultimately have "rinv env E H (F(self := None)) ?s" using assms(2,5) by (intro rinv_assign) auto
    then show ?thesis using 3 assms(6) by (simp add: arrived_def)
  qed
qed


lemma good_stream_loop:
  assumes "self \<in> E" "F self = Some n" "\<And>a. (self, a) \<notin> H"
    and y: "\<And>nt s. rinv env E H F s \<Longrightarrow> good (rinv env E H F) (yielder self nt (int n) s)"
  shows "list_all (incoming_ok n) ds \<Longrightarrow> arrived env E H F self n a d s \<Longrightarrow>
    good (rinv env E H (F(self := None))) (stream_loop errs yielder self (int n) ds a s)"
proof (induction ds arbitrary: a d s)
  case Nil
  show ?case unfolding stream_loop.simps
    by (rule good_step [OF Nil.prems(2) assms(1)]) (simp_all add: assms(3) y exec rinv_weaken [OF _ subset_refl F_less])
next
  case (Cons d' ds)
  have arr: "good (rinv env E H (F(self := None)))
      (obind (alloc_pgresult d') (\<lambda>a. obind (upd_this self (\<lambda>r. r\<lparr> res_pgresult := Some a \<rparr>)) (\<lambda>_.
        stream_loop errs yielder self (int n) ds a)) s1)" if s1: "rinv env E H F s1" for s1
  proof -
    obtain r where r: "st_res s1 self = Some r" using rinv_exists [OF s1 assms(1)] by blast
    have "arrived env E H F self n (st_next s1) d' (s1\<lparr> st_next := st_next s1 + 1, st_heap := (st_heap s1)(st_next s1 \<mapsto> d'),
        st_res := (st_res s1)(self \<mapsto> r\<lparr> res_pgresult := Some (st_next s1) \<rparr>) \<rparr>)"
      using Cons.prems(1) by (intro rinv_arrive [OF s1 r assms(2,1,3)]) simp
    then have "good (rinv env E H (F(self := None))) (stream_loop errs yielder self (int n) ds (st_next s1)
        (s1\<lparr> st_next := st_next s1 + 1, st_heap := (st_heap s1)(st_next s1 \<mapsto> d'),
          st_res := (st_res s1)(self \<mapsto> r\<lparr> res_pgresult := Some (st_next s1) \<rparr>) \<rparr>))"
      using Cons.prems(1) by (intro Cons.IH) simp_all
    then show ?thesis using r by (simp add: exec)
  qed
  show ?case unfolding stream_loop.simps
    by (rule good_step [OF Cons.prems(2) assms(1)]) (simp_all add: assms(3) y arr)
qed

text \<open>An object that fits to the results of its stream.\<close>

lemma good_stream_any:
  assumes "rinv env E H F s" "self \<in> E" "F self = Some n" "\<And>a. (self, a) \<notin> H"
    and "list_all (incoming_ok n) ds"
    and "\<And>r a d. st_res s self = Some r \<Longrightarrow> res_pgresult r = Some a \<Longrightarrow> st_heap s a = Some d \<Longrightarrow> pq_errfields d 67 \<noteq> Some []"
    and "\<And>nt s. rinv env E H F s \<Longrightarrow> good (rinv env E H F) (yielder self nt (int n) s)"
  shows "good (rinv env E H (F(self := None))) (pgresult_stream_any errs yielder ds self s)"
proof -
  obtain r where r: "st_res s self = Some r" using rinv_exists [OF assms(1,2)] by blast
  have weak: "rinv env E H (F(self := None)) s" by (rule rinv_weaken [OF assms(1) subset_refl F_less])
  have "good (rinv env E H (F(self := None))) (stream_loop errs yielder self (PQnfields d) ds a s)"
    if a: "res_pgresult r = Some a" and d: "st_heap s a = Some d" for a d
  proof -
    have n: "PQnfields d = int n" using rinv_streaming [OF assms(1,3) r] a d by (simp add: streaming_def)
    moreover have "data_ok d" using rinv_pgresult [OF assms(1) r a] d by (metis option.inject)
    ultimately have "arrived env E H F self n a d s"
      using assms(1,6) r a d by (simp add: arrived_def incoming_ok_def)
    then show ?thesis unfolding n
      by (rule_tac good_stream_loop [where F = F and n = n and d = d]) (simp_all add: assms(2-5,7))
  qed
  moreover have "\<exists>d. st_heap s a = Some d" if "res_pgresult r = Some a" for a
    using rinv_pgresult [OF assms(1) r that] by blast
  ultimately show ?thesis
    using r weak by (cases "res_pgresult r")
      (auto simp: pgresult_stream_any_def check_frozen_def pgresult_get_this_safe_def exec split: option.split)
qed


section \<open>Yielding tuples\<close>

text \<open>The copy that keeps the \<open>PGresult\<close> for the tuples takes it over from the streaming object.\<close>

lemma rinv_copy:
  assumes "rinv env E H F s" "st_res s self = Some r" "F self = Some n" "self \<in> E" "\<And>a. (self, a) \<notin> H"
    and nf: "nf = (if res_nfields r = - 1 then if res_pgresult r = None then 0 else int n else res_nfields r)"
  shows "rinv env (insert (st_next s) E) H F (s\<lparr> st_next := st_next s + 1, st_res := (st_res s)(self \<mapsto> r\<lparr> res_size := 0, res_pgresult := None \<rparr>,
    st_next s \<mapsto> r\<lparr> res_frozen := False, res_capa := nat nf, res_fnames := take (nat nf) (res_fnames r) \<rparr>) \<rparr>)"
    (is "rinv _ ?E _ _ ?s") and "nat nf \<le> res_capa r"
proof -
  let ?c = "r\<lparr> res_frozen := False, res_capa := nat nf, res_fnames := take (nat nf) (res_fnames r) \<rparr>"
  let ?r = "r\<lparr> res_size := 0, res_pgresult := None \<rparr>"
  have wf: "wf_st env s" using assms(1) by (simp add: rinv_def)
  note free = st_next_free [OF wf]
  have self: "self < st_next s" using wf assms(2) by (simp add: wf_st_def)
  have str: "streaming env n (st_heap s) r" by (rule rinv_streaming [OF assms(1,3,2)])
  then show "nat nf \<le> res_capa r" by (auto simp: nf streaming_def shape_ok_def)
  have obj: "obj_ok env (st_heap s) r" by (rule rinv_obj [OF assms(1,2)])
  have "obj_ok env (st_heap s) ?r" using obj by (simp add: obj_ok_def names_ok_def)
  moreover have "obj_ok env (st_heap s) ?c"
  proof (cases "res_pgresult r")
    case None
    then show ?thesis using obj by (auto simp: nf obj_ok_def names_ok_def)
  next
    case (Some a)
    then have "nat nf = res_capa r" using str by (auto simp: nf streaming_def shape_ok_def)
    then show ?thesis using obj Some str by (auto simp: obj_ok_def names_ok_def shape_ok_def streaming_def)
  qed
  moreover have "tup_ok env (st_res ?s) t" if "tup_ok env (st_res s) t" for t
    using that assms(2) free by (auto simp: tup_ok_def split: option.splits)
  moreover have "sum (\<lambda>i. gc_size (st_res ?s i)) {..<st_next s} = sum (\<lambda>i. gc_size (st_res s i)) {..<st_next s} - res_size r"
  proof -
    have "sum (\<lambda>i. gc_size (st_res ?s i)) {..<st_next s} = sum (\<lambda>i. gc_size (((st_res s)(self \<mapsto> ?r)) i)) {..<st_next s}"
      by (rule sum.cong) auto
    then show ?thesis using assms(2) gc_sum_upd [OF self, of "st_res s" "Some ?r"] by (simp add: gc_size_def)
  qed
  moreover have "res_pgresult x \<noteq> res_pgresult r" if "st_res s i = Some x" "i \<noteq> self" "res_pgresult x = Some a" for i x a
    using wf that assms(2) unfolding wf_st_def by (metis (full_types))
  ultimately have "wf_st env ?s"
    unfolding wf_st_def using wf self free
    by (intro conjI allI impI) (fastforce simp: wf_st_def less_Suc_eq gc_size_def split: if_splits)+
  moreover have "\<exists>x. st_res ?s i = Some x \<and> streaming env m (st_heap ?s) x" if F: "F i = Some m" for i m
  proof -
    obtain x where x: "st_res s i = Some x" "streaming env m (st_heap s) x" using assms(1) F unfolding rinv_def by blast
    then show ?thesis using assms(2) free by (cases "i = self") (auto simp: streaming_def shape_ok_def)
  qed
  ultimately show "rinv env ?E H F ?s" using assms(1,2,5) free by (fastforce simp: rinv_def)
qed


lemma good_yield_tuple:
  assumes "env_ok env" "rinv env E H F s" "F self = Some n" "self \<in> E" "\<And>a. (self, a) \<notin> H"
    and block: "\<And>E' t s. E \<subseteq> E' \<Longrightarrow> rinv env E' H F s \<Longrightarrow> st_tup s t \<noteq> None \<Longrightarrow> good (rinv env E' H F) (block t s)"
  shows "good (rinv env E H F) (yield_tuple env block self nt nf s)"
proof -
  obtain r where r: "st_res s self = Some r" using rinv_exists [OF assms(2,4)] by blast
  have str: "streaming env n (st_heap s) r" by (rule rinv_streaming [OF assms(2,3) r])
  define m where "m = (if res_nfields r = - 1 then if res_pgresult r = None then 0 else int n else res_nfields r)"
  let ?c = "r\<lparr> res_frozen := False, res_capa := nat m, res_fnames := take (nat m) (res_fnames r) \<rparr>"
  let ?s = "s\<lparr> st_next := st_next s + 1, st_res := (st_res s)(self \<mapsto> r\<lparr> res_size := 0, res_pgresult := None \<rparr>, st_next s \<mapsto> ?c) \<rparr>"
  let ?t = "s\<lparr> st_next := st_next s + 1, st_res := (st_res s)(self \<mapsto> r\<lparr> res_size := 0 \<rparr>, st_next s \<mapsto> ?c) \<rparr>"
  note copy = rinv_copy [OF assms(2) r assms(3-5) m_def]
  have ne: "self \<noteq> st_next s" using assms(2) r st_next_free [of env s] by (auto simp: rinv_def)
  have nfields: "(if res_nfields r = - 1 then obind (deref_or_null (res_pgresult r)) (\<lambda>d. oret (PQnfields d)) else oret (res_nfields r)) s = (Inr m, s)"
  proof (cases "res_pgresult r")
    case None
    then show ?thesis by (simp add: m_def deref_or_null_def obind_def oret_def null_result_def PQnfields_def)
  next
    case (Some a)
    obtain d where d: "st_heap s a = Some d" using rinv_pgresult [OF assms(2) r Some] by blast
    then have "PQnfields d = int n" using str Some by (simp add: streaming_def)
    then show ?thesis using d Some by (simp add: m_def deref_or_null_def obind_def oret_def deref_def)
  qed
  have cp: "pg_copy_result self s = (Inr (st_next s), ?t)"
    using r nfields copy(2) ne by (simp add: pg_copy_result_def obind_def pgresult_get_this_def upd_this_def fun_upd_twist)
  have loop: "good (rinv env (insert (st_next s) E) H F) (yield_tuple_loop env block (st_next s) rows ?s)" for rows
    by (rule good_yield_tuple_loop [OF assms(1) _ block copy(1)]) auto
  have weak: "rinv env E H F s1" if "rinv env (insert (st_next s) E) H F s1" for s1
    by (rule rinv_weaken [OF that]) auto
  have "yield_tuple env block self nt nf s = obind (yield_tuple_loop env block (st_next s) [0..nt - 1]) (\<lambda>_. oret False) ?s"
    using ne by (simp add: yield_tuple_def obind_def cp upd_this_def fun_upd_twist)
  then show ?thesis
    by simp (rule good_obind2, rule loop [unfolded Suc_eq_plus1 [symmetric]], erule weak, simp add: exec weak)
qed


section \<open>New results\<close>

text \<open>A \<open>PGresult\<close> from libpq and the object made of it: the store stays well-formed, and the object
  is fit for results with the same number of fields.\<close>

definition receive_result :: "env \<Rightarrow> conn_part \<Rightarrow> enc_idx \<Rightarrow> pg_data \<Rightarrow> nat rop" where
  "receive_result env p_conn locale d = obind (alloc_pgresult d) (\<lambda>a. pg_new_result (env_hs env) p_conn locale (Some a))"

lemma rinv_new_object:
  assumes "rinv env E H F s" "obj_ok env (st_heap s) r" "\<And>i x a. st_res s i = Some x \<Longrightarrow> res_pgresult r = Some a \<Longrightarrow> res_pgresult x \<noteq> Some a"
    and "u = st_gc_usage s + res_size r" "shape_ok env r"
    and "\<And>a d. res_pgresult r = Some a \<Longrightarrow> st_heap s a = Some d \<Longrightarrow> PQnfields d = int (res_capa r)"
  shows "rinv env (insert (st_next s) E) H (F(st_next s \<mapsto> res_capa r))
    (s\<lparr> st_next := st_next s + 1, st_res := (st_res s)(st_next s \<mapsto> r), st_gc_usage := u \<rparr>)" (is "rinv _ _ _ _ ?s")
proof -
  have wf: "wf_st env s" using assms(1) by (simp add: rinv_def)
  note free = st_next_free [OF wf]
  have tup: "tup_ok env (st_res ?s) t" if "tup_ok env (st_res s) t" for t
    using that free by (auto simp: tup_ok_def split: option.splits)
  have sum: "sum (\<lambda>i. gc_size (st_res ?s i)) {..<st_next s} = sum (\<lambda>i. gc_size (st_res s i)) {..<st_next s}"
    by (rule sum.cong) auto
  have "wf_st env ?s"
    unfolding wf_st_def
  proof (intro conjI allI impI)
    show "i < st_next ?s" "obj_ok env (st_heap ?s) x" if "st_res ?s i = Some x" for i x
      using that wf assms(2) by (auto simp: wf_st_def less_Suc_eq split: if_splits)
    show "a < st_next ?s" if "st_heap ?s a = Some d'" for a d'
      using that wf by (auto simp: wf_st_def less_Suc_eq)
    show "i = j" if "st_res ?s i = Some x" "st_res ?s j = Some y" "res_pgresult x = Some a" "res_pgresult y = Some a" for i j x y a
      using that wf assms(3) unfolding wf_st_def by (auto split: if_splits)
    show "i < st_next ?s" "tup_ok env (st_res ?s) x" if "st_tup ?s i = Some x" for i x
      using that tup wf by (auto simp: wf_st_def less_Suc_eq)
    show "st_gc_usage ?s = sum (\<lambda>i. gc_size (st_res ?s i)) {..<st_next ?s}"
      using wf sum assms(4) by (simp add: wf_st_def gc_size_def)
  qed
  moreover have "\<exists>x. st_res ?s i = Some x \<and> streaming env n (st_heap ?s) x" if F: "(F(st_next s \<mapsto> res_capa r)) i = Some n" for i n
  proof (cases "i = st_next s")
    case False
    then obtain x where "st_res s i = Some x" "streaming env n (st_heap s) x" using assms(1) F unfolding rinv_def by (simp, blast)
    then show ?thesis using False by simp
  qed (use F assms(5,6) in \<open>auto simp: streaming_def\<close>)
  ultimately show ?thesis using assms(1) free by (fastforce simp: rinv_def)
qed

lemma obj_ok_new:
  assumes "h a = Some d" "data_ok d" "result_ready (env_hs env) (nat (PQnfields d)) tm"
  shows "obj_ok env h \<lparr> res_pgresult = Some a, res_connection = True, res_typemap = tm, res_enc_idx = e,
      res_autoclear = False, res_flags = fl, res_nfields = - 1, res_size = sz, res_field_map = None,
      res_capa = nat (PQnfields d), res_fnames = [], res_frozen = False \<rparr>"
  using assms by (auto simp: obj_ok_def names_ok_def shape_ok_def PQnfields_def)

lemma receive_result_ok:
  assumes "rinv env E H F s" "data_ok d" "decoders_good (env_hs env) (conn_type_map_for_results p_conn)"
    and "receive_result env p_conn locale d s = (Inr self, s')"
  shows "rinv env (insert self E) H (F(self \<mapsto> nat (PQnfields d))) s'"
proof -
  let ?s = "s\<lparr> st_next := st_next s + 1, st_heap := (st_heap s)(st_next s \<mapsto> d) \<rparr>"
  note pg = rinv_new_pgresult(1) [OF assms(1), of "Some d"] rinv_new_pgresult(2) [OF assms(1)]
  obtain tm same tm' where fit: "fit_to_result (env_hs env) (conn_type_map_for_results p_conn) (pgresult.truncate d) = Inr (tm, same, tm')"
    using assms(4) by (auto simp: receive_result_def pg_new_result_def pg_new_result2_def alloc_pgresult_def obind_def
        deref_or_null_def deref_def oret_def upd_this_def olift_def split: sum.splits)
  let ?r = "\<lparr> res_pgresult = Some (st_next s), res_connection = True, res_typemap = tm, res_enc_idx = conn_enc_idx p_conn,
      res_autoclear = False, res_flags = conn_flags p_conn, res_nfields = - 1, res_size = pgresult_approx_size (pgresult.truncate d),
      res_field_map = None, res_capa = nat (PQnfields d), res_fnames = [], res_frozen = False \<rparr>"
  have ready: "result_ready (env_hs env) (nat (PQnfields d)) tm" using fit_to_result_ready [OF fit assms(3)] by simp
  have s': "self = st_next ?s" "s' = ?s\<lparr> st_next := st_next ?s + 1, st_res := (st_res ?s)(st_next ?s \<mapsto> ?r),
      st_gc_usage := st_gc_usage ?s + res_size ?r \<rparr>"
    using assms(4) fit by (auto simp: receive_result_def pg_new_result_def pg_new_result2_def alloc_pgresult_def obind_def
        deref_or_null_def deref_def oret_def upd_this_def olift_def rb_gc_adjust_memory_usage_def Let_def)
  have "rinv env (insert (st_next ?s) E) H (F(st_next ?s \<mapsto> res_capa ?r)) s'"
    unfolding s'(2)
    by (rule rinv_new_object [OF pg(1)]) (use obj_ok_new [OF _ assms(2) ready] pg(2) ready in \<open>auto simp: shape_ok_def PQnfields_def\<close>)
  then show ?thesis by (simp add: s'(1))
qed

end
