(* ===== verification/PG_Result_Methods.thy ===== *)
theory PG_Result_Methods
  imports PG_Result_Stream
begin

text \<open>
  The properties of \<open>PG::Result\<close>: its methods and the streaming methods are memory safe and keep the
  invariant of \<open>PG_Result_Safety\<close>; two ways in which the code does leave that ground, a block that clears
  the result under \<open>each\<close> and a stream that ends with a result of another query; and the samples from
  which the size of a result is estimated.
\<close>

section \<open>The methods of a result\<close>

lemma good_getters:
  assumes "env_ok env" "rinv env E H F s" "self \<in> E"
  shows "good (rinv env E H F) (pgresult_getvalue env i j self s)"
    "good (rinv env E H F) (pgresult_getisnull (env_rb env) i j self s)"
    "good (rinv env E H F) (pgresult_getlength (env_rb env) i j self s)"
    "good (rinv env E H F) (pgresult_fname env i self s)"
  using assms pg_cstr_to_sym_ok [OF assms(1)]
  by (auto simp: pgresult_getvalue_def pgresult_getisnull_def pgresult_getlength_def pgresult_fname_def exec safe_iff
      intro!: good_get_safe good_live good_cast_value split: sum.split) (metis sum.distinct(1))+

lemma good_values:
  assumes "env_ok env" "rinv env E H F s" "self \<in> E"
  shows "good (rinv env E H F) (pgresult_values env self s)"
    "good (rinv env E H F) (pgresult_column_values env i self s)"
    "good (rinv env E H F) (pgresult_field_values env v self s)"
    "good (rinv env E H F) (pgresult_tuple_values env i self s)"
proof -
  show "good (rinv env E H F) (pgresult_values env self s)"
    unfolding pgresult_values_def
    by (rule good_live [OF assms(2,3)], rule good_obind, rule good_rows_loop [OF assms(1,3,2)]) (simp add: exec)
  show "good (rinv env E H F) (pgresult_column_values env i self s)"
    using assms(2) good_make_column [OF assms] by (simp add: pgresult_column_values_def exec split: sum.split)
  show "good (rinv env E H F) (pgresult_field_values env v self s)"
    unfolding pgresult_field_values_def
    by (rule good_get [OF assms(2,3)])
      (simp add: good_string_value_cstr [OF env_okD(1) [OF assms(1)]] exec assms(2) good_make_column [OF assms] Let_def split: sum.split)
  have "good (rinv env E H F) (obind (cast_values env self cells) (\<lambda>vs. oret (RArray vs)) s)" for cells
    by (rule good_obind, rule good_cast_values [OF assms(1,3,2)]) (simp add: exec)
  then show "good (rinv env E H F) (pgresult_tuple_values env i self s)"
    unfolding pgresult_tuple_values_def good_num2int
    using assms(2) by (auto simp: exec intro!: good_live [OF assms(2,3)] split: sum.split)
qed

lemma good_fields:
  assumes "env_ok env" "rinv env E H F s" "self \<in> E"
  shows "good (rinv env E H F) (pgresult_fields env self s)"
proof -
  have fin: "good (rinv env E H F) (obind (pgresult_get_this self) (\<lambda>this. oret (take (nat (res_nfields this)) (res_fnames this))) s1)"
    if "rinv env E H F s1" for s1
    using rinv_exists [OF that assms(3)] that by (auto simp: exec)
  show ?thesis unfolding pgresult_fields_def
    by (rule good_get_safe [OF assms(2,3)]) (simp only: prod.case, rule good_obind, rule good_names [OF assms], rule fin)
qed

lemma good_ensure_init:
  assumes "env_ok env" "rinv env E H F s" "self \<in> E"
  shows "good (rinv env E H F) (ensure_init_for_tuple env self s)"
proof -
  obtain r where r: "st_res s self = Some r" using rinv_exists [OF assms(2,3)] by blast
  show ?thesis
  proof (cases "res_pgresult r")
    case None
    then show ?thesis using assms(2) by (simp add: ensure_init_for_tuple_def pgresult_get_this_safe_def exec r)
  next
    case (Some a)
    show ?thesis by (rule ensure_init_ok [OF assms r Some]) (simp add: good_def)
  qed
qed

lemma rinv_set_flags:
  assumes "rinv env E H F s" "st_res s self = Some r"
  shows "rinv env E H F (s\<lparr> st_res := (st_res s)(self \<mapsto> r\<lparr> res_connection := c, res_flags := fl, res_frozen := fr \<rparr>) \<rparr>)"
  using rinv_obj [OF assms] rinv_upd_good [OF assms, of "\<lambda>r. r\<lparr> res_connection := c, res_flags := fl, res_frozen := fr \<rparr>"] assms(2)
  by (simp add: obj_ok_def names_ok_def shape_ok_def)

lemma good_setters:
  assumes "env_ok env" "rinv env E H F s" "self \<in> E"
  shows "good (rinv env E H F) (pg_result_freeze env self s)"
    "good (rinv env E H F) (pgresult_field_name_type_set v self s)"
proof -
  have "good (rinv env E H F) (upd_this self (\<lambda>r. r\<lparr> res_connection := False, res_frozen := True \<rparr>) s1)" if s1: "rinv env E H F s1" for s1
  proof -
    obtain r where r: "st_res s1 self = Some r" using rinv_exists [OF s1 assms(3)] by blast
    show ?thesis using rinv_set_flags [OF s1 r, where c = False and fl = "res_flags r" and fr = True] r by (simp add: exec)
  qed
  then show "good (rinv env E H F) (pg_result_freeze env self s)"
    unfolding pg_result_freeze_def by (intro good_obind good_ensure_init [OF assms])
  obtain r where r: "st_res s self = Some r" using rinv_exists [OF assms(2,3)] by blast
  show "good (rinv env E H F) (pgresult_field_name_type_set v self s)"
    using assms(2) rinv_set_flags [OF assms(2) r, where c = "res_connection r" and fr = "res_frozen r"] r
    by (simp add: pgresult_field_name_type_set_def check_frozen_def exec)
qed

text \<open>A type map for an object that is not being streamed; its decoders have to be well behaved.\<close>

lemma good_type_map_set:
  assumes "rinv env E H F s" "self \<in> E" "F self = None" "decoders_good (env_hs env) tm"
  shows "good (rinv env E H F) (pgresult_type_map_set env tm self s)"
proof -
  obtain r where r: "st_res s self = Some r" using rinv_exists [OF assms(1,2)] by blast
  have upd: "rinv env E H F (s\<lparr> st_res := (st_res s)(self \<mapsto> r\<lparr> res_typemap := tm' \<rparr>) \<rparr>)"
    if "\<And>a d. res_pgresult r = Some a \<Longrightarrow> st_heap s a = Some d \<Longrightarrow> result_ready (env_hs env) (nat (PQnfields d)) tm'" for tm'
  proof -
    have "obj_ok env (st_heap s) (r\<lparr> res_typemap := tm' \<rparr>)"
      using rinv_obj [OF assms(1) r] that unfolding obj_ok_def names_ok_def shape_ok_def by fastforce
    then show ?thesis using assms(3) by (intro rinv_upd [OF assms(1) r]) simp_all
  qed
  have any: "result_ready (env_hs env) n tm'" if "fit_to_result (env_hs env) tm d = Inr (tm', x)" "\<not> reads_result tm" for d tm' x n
    using that by (induction tm arbitrary: tm' x) (auto simp: rbind_Inr_iff pg_typemap_fit_to_result_def split: if_splits prod.splits)
  have fit: "rinv env E H F (s\<lparr> st_res := (st_res s)(self \<mapsto> r\<lparr> res_typemap := tm' \<rparr>) \<rparr>)"
    if "fit_to_result (env_hs env) tm (pgresult.truncate d) = Inr (tm', x)" "res_pgresult r = Some a" "st_heap s a = Some d" for tm' x a d
  proof (rule upd)
    show "result_ready (env_hs env) (nat (PQnfields d')) tm'" if "res_pgresult r = Some a'" "st_heap s a' = Some d'" for a' d'
      using fit_to_result_ready [OF _ assms(4), of "pgresult.truncate d" tm' "fst x" "snd x"] that
        \<open>fit_to_result _ _ _ = _\<close> \<open>res_pgresult r = Some a\<close> \<open>st_heap s a = Some d\<close> by simp
  qed
  show ?thesis
  proof (cases "reads_result tm")
    case True
    then show ?thesis
      using assms(1) r fit fit_to_result_safe [of "env_hs env" tm]
      by (auto simp: pgresult_type_map_set_def check_frozen_def exec safe_iff split: sum.split intro!: good_live [OF assms(1,2)])
  next
    case False
    then show ?thesis
      using assms(1) r upd any fit_to_result_safe [of "env_hs env" tm]
      by (auto simp: pgresult_type_map_set_def check_frozen_def exec safe_iff split: sum.split)
  qed
qed

section \<open>A sample store\<close>

definition sample_env :: env where
  "sample_env = \<lparr> env_rb = rb_sample, env_tm = tm_sample, env_hs = (\<lambda>_ _. None),
     env_intern = (\<lambda>str e. Inr (RSymbol str)), env_res_status = (\<lambda>_. []) \<rparr>"

definition sample_conn :: conn_part where
  "sample_conn = \<lparr> conn_type_map_for_results = TypeMapAllStrings, conn_enc_idx = 0, conn_flags = 0 \<rparr>"

definition sample_data :: "exec_status \<Rightarrow> bytes list \<Rightarrow> bytes option list list \<Rightarrow> pg_data" where
  "sample_data status names rows = \<lparr> pq_rows = rows, pq_ftypes = map (\<lambda>_. 25) names, pq_fformats = map (\<lambda>_. 0) names,
     pq_fnames = names, pq_status = status, pq_errmsg = [], pq_errfields = (\<lambda>_. None), pq_ftables = map (\<lambda>_. 0) names,
     pq_ftablecols = map (\<lambda>_. 0) names, pq_fmods = map (\<lambda>_. - 1) names, pq_fsizes = map (\<lambda>_. - 1) names,
     pq_paramtypes = [], pq_cmdstatus = [], pq_cmdtuples = [], pq_verbose_errmsg = (\<lambda>_ _. None), pq_oid = 0, pq_binary = False,
     PQfnumber = (\<lambda>_. - 1) \<rparr>"

definition start :: rst where
  "start = \<lparr> st_heap = Map.empty, st_res = Map.empty, st_tup = Map.empty, st_next = 0, st_gc_usage = 0 \<rparr>"

text \<open>A result with the columns \<open>a\<close> and \<open>b\<close> in single row mode; the object is at the address 1.\<close>

abbreviation sample_row :: pg_data where
  "sample_row \<equiv> sample_data PGRES_SINGLE_TUPLE [[97], [98]] [[Some [49], None]]"

definition sample_state :: rst where
  "sample_state = snd (receive_result sample_env sample_conn 0 sample_row start)"

lemma env_ok_sample [simp]: "env_ok sample_env"
  by (simp add: env_ok_def sample_env_def ok_def)

lemma rinv_start: "rinv env {} {} Map.empty start"
  by (simp add: rinv_def wf_st_def start_def)

lemma data_ok_sample [simp]: "data_ok (sample_data st names rows)"
  by (simp add: data_ok_def sample_data_def)

lemma PQ_sample [simp]:
  "PQnfields (sample_data st names rows) = int (length names)" "PQntuples (sample_data st names rows) = int (length rows)"
  "pq_rows (sample_data st names rows) = rows" "pq_status (sample_data st names rows) = st"
  "pq_errfields (sample_data st names rows) c = None" "pq_fnames (sample_data st names rows) = names"
  by (simp_all add: sample_data_def PQnfields_def PQntuples_def)

lemma receive_sample: "receive_result sample_env sample_conn 0 sample_row start = (Inr 1, sample_state)"
  by (simp add: sample_state_def receive_result_def pg_new_result_def pg_new_result2_def alloc_pgresult_def obind_def start_def
      deref_or_null_def deref_def oret_def upd_this_def olift_def rb_gc_adjust_memory_usage_def sample_conn_def Let_def)

lemma rinv_sample: "rinv sample_env {1} {} [1 \<mapsto> 2] sample_state"
  using receive_result_ok [OF rinv_start data_ok_sample _ receive_sample] by (simp add: sample_conn_def numeral_2_eq_2)

lemma sample_state_obj:
  "st_res sample_state 1 = Some r \<Longrightarrow> res_pgresult r = Some a \<Longrightarrow> st_heap sample_state a = Some d \<Longrightarrow> d = sample_row"
  by (auto simp: sample_state_def receive_result_def pg_new_result_def pg_new_result2_def alloc_pgresult_def obind_def start_def
      deref_or_null_def deref_def oret_def upd_this_def olift_def rb_gc_adjust_memory_usage_def sample_conn_def Let_def split: if_splits)

section \<open>Properties\<close>

text \<open>Claim C3. Results and tuples as objects: whatever the state of the store, with results that
  are cleared, frozen, partly streamed or without rows, every method of \<open>PG::Result\<close> that reads
  values, names or numbers, makes a tuple, freezes the object, sets the type of field names or a
  type map or clears the object, runs without an access to freed memory or out of bounds, and it
  leaves a store with the invariant, also when it raises: no object has a freed \<open>PGresult\<close>, no two
  have the same one, names and type maps fit to the number of fields, and the memory published to
  the GC is the sum of what the objects have published.\<close>

theorem result_methods_safe:
  assumes "env_ok env" and "rinv env E H F s" and "self \<in> E"
  shows "good (rinv env E H F) (pgresult_getvalue env i j self s) \<and>
    good (rinv env E H F) (pgresult_getisnull (env_rb env) i j self s) \<and>
    good (rinv env E H F) (pgresult_getlength (env_rb env) i j self s) \<and>
    good (rinv env E H F) (pgresult_fname env i self s) \<and>
    good (rinv env E H F) (pgresult_ftype (env_rb env) i self s) \<and>
    good (rinv env E H F) (pgresult_fmod (env_rb env) i self s) \<and>
    good (rinv env E H F) (pgresult_fields env self s) \<and>
    good (rinv env E H F) (pgresult_aref env i self s) \<and>
    good (rinv env E H F) (pgresult_values env self s) \<and>
    good (rinv env E H F) (pgresult_column_values env i self s) \<and>
    good (rinv env E H F) (pgresult_field_values env i self s) \<and>
    good (rinv env E H F) (pgresult_tuple_values env i self s) \<and>
    good (rinv env E H F) (pgresult_tuple env i self s) \<and>
    good (rinv env E H F) (pg_result_freeze env self s) \<and>
    good (rinv env E H F) (pgresult_field_name_type_set i self s) \<and>
    (F self = None \<and> decoders_good (env_hs env) tm \<longrightarrow> good (rinv env E H F) (pgresult_type_map_set env tm self s)) \<and>
    ((\<forall>a. (self, a) \<notin> H) \<longrightarrow> good (rinv env E H F) (pg_result_clear self s))"
proof (intro conjI impI)
  show "good (rinv env E H F) (pg_result_clear self s)" if "\<forall>a. (self, a) \<notin> H"
    using rinv_exists [OF assms(2,3)] good_clear [OF assms(2,3)] that assms(2)
    by (auto simp: pg_result_clear_def check_frozen_def exec)
qed (use assms in \<open>simp_all add: good_getters good_column_attr pgresult_ftype_def pgresult_fmod_def good_fields good_aref
    good_values good_tuple good_setters good_type_map_set\<close>)

theorem result_methods_safe_witness:
  "good (rinv sample_env {1} {} [1 \<mapsto> 2]) (pgresult_aref sample_env (RInteger 0) 1 sample_state) \<and>
   good (rinv sample_env {1} {} [1 \<mapsto> 2]) (pg_result_clear 1 sample_state)"
  using result_methods_safe [OF env_ok_sample rinv_sample, of 1 "RInteger 0" Qnil] by simp



section \<open>Results of another query\<close>

text \<open>With the all strings type map the cast of a value never raises and changes nothing.\<close>

lemma all_strings_value: "\<exists>v. typecast_result_value rb tm hs TypeMapAllStrings d e t f = Inr (v, TypeMapAllStrings)"
  by (auto simp: pg_tmas_result_value_def pg_text_dec_string_def pg_bin_dec_bytea_def split: option.split)

lemma res_typemap_same: "res_typemap r = tm \<Longrightarrow> r\<lparr> res_typemap := tm \<rparr> = r"
  by (cases r) simp

lemma all_strings_cast:
  assumes "st_res s self = Some r" "res_typemap r = TypeMapAllStrings" "res_pgresult r = Some a" "st_heap s a = Some d"
  shows "\<exists>v. cast_value env self t f s = (Inr v, s)"
proof -
  obtain v where "typecast_result_value (env_rb env) (env_tm env) (env_hs env) TypeMapAllStrings (pgresult.truncate d) (res_enc_idx r) t f =
      Inr (v, TypeMapAllStrings)"
    using all_strings_value by blast
  then show ?thesis
    using assms res_typemap_same [OF assms(2)]
    by (simp add: cast_value_def obind_def pgresult_get_this_def deref_or_null_def deref_def oret_def olift_def upd_this_def fun_upd_idem)
qed

lemma all_strings_casts:
  assumes "st_res s self = Some r" "res_typemap r = TypeMapAllStrings" "res_pgresult r = Some a" "st_heap s a = Some d"
  shows "\<exists>vs. length vs = length cells \<and> cast_values env self cells s = (Inr vs, s)"
proof (induction cells)
  case (Cons c cs)
  then obtain vs where "length vs = length cs" "cast_values env self cs s = (Inr vs, s)" by blast
  moreover obtain v where "cast_value env self (fst c) (snd c) s = (Inr v, s)" using all_strings_cast [OF assms] by blast
  ultimately show ?case by (auto simp: obind_def oret_def)
qed (simp add: oret_def)

lemma all_strings_each_row:
  assumes "st_res s self = Some r" "res_typemap r = TypeMapAllStrings" "res_pgresult r = Some a" "st_heap s a = Some d"
  shows "each_row_loop env (\<lambda>_. oret ()) self n rows s = (Inr (), s)"
proof (induction rows)
  case (Cons x xs)
  obtain vs where "cast_values env self (row_cells x n) s = (Inr vs, s)" using all_strings_casts [OF assms] by blast
  then show ?case using Cons by (simp add: obind_def oret_def)
qed (simp add: oret_def)

text \<open>Too many names for the slots of the object.\<close>

lemma init_fnames_loop_overflow:
  assumes "res_capa r < i + length names"
  shows "st_res s self = Some r \<Longrightarrow> i \<le> res_capa r \<Longrightarrow>
    fst (init_fnames_loop env self 0 e i names s) = Inl MemFault"
  using assms
proof (induction names arbitrary: s i r)
  case (Cons n names)
  have sym: "pg_cstr_to_sym env n 0 e = Inr (RString n e)" by (simp add: pg_cstr_to_sym_def)
  show ?case
  proof (cases "i < res_capa r")
    case True
    let ?r = "r\<lparr> res_fnames := take i (res_fnames r) @ [RString n e], res_nfields := int i + 1 \<rparr>"
    have "fst (init_fnames_loop env self 0 e (i + 1) names (s\<lparr> st_res := (st_res s)(self \<mapsto> ?r) \<rparr>)) = Inl MemFault"
      using Cons.prems True by (intro Cons.IH [where r = ?r]) auto
    then show ?thesis using True Cons.prems
      by (simp add: sym set_fname_def obind_def olift_def pgresult_get_this_def upd_this_def)
  next
    case False
    then show ?thesis using Cons.prems
      by (simp add: sym set_fname_def obind_def olift_def pgresult_get_this_def oerr_def)
  qed
qed simp

text \<open>Claim C33. The size of a result object is fixed by its first \<open>PGresult\<close>, but a stream that ends
  with \<open>PG::InvalidResultStatus\<close> leaves the foreign \<open>PGresult\<close>, one with rows and more columns, in the
  object: the next call of \<open>fields\<close> writes behind the slots that are allocated for the names.\<close>

theorem stream_foreign_result_overflow:
  assumes "st_res s self = Some r" and "res_pgresult r = Some a" and "st_heap s a = Some d"
    and "\<not> res_frozen r" and "res_connection r" and "\<not> res_autoclear r" and "res_flags r = 0"
    and "res_typemap r = TypeMapAllStrings" and "pq_status d = PGRES_SINGLE_TUPLE"
    and "pq_status d' = PGRES_TUPLES_OK" and "PQntuples d' > 0" and "length (pq_fnames d') > res_capa r"
  shows "\<exists>s'. pgresult_stream_each_row errs env (\<lambda>_. oret ()) [d'] self s =
      (Inl (Raise (PGClass ''InvalidResultStatus'') ''PG::Result is not in single row mode'' []), s') \<and>
    fst (pgresult_fields env self s') = Inl MemFault"
proof -
  let ?r = "r\<lparr> res_size := 0, res_nfields := - 1, res_pgresult := Some (st_next s) \<rparr>"
  let ?t = "s\<lparr> st_heap := (st_heap s)(a := None), st_gc_usage := st_gc_usage s - res_size r,
    st_res := (st_res s)(self \<mapsto> r\<lparr> res_size := 0, res_nfields := - 1, res_pgresult := None \<rparr>) \<rparr>"
  let ?s = "?t\<lparr> st_next := st_next s + 1, st_heap := (st_heap s)(a := None, st_next s \<mapsto> d'), st_res := (st_res s)(self \<mapsto> ?r) \<rparr>"
  have y: "yield_array env (\<lambda>_. oret ()) self nt nf s = (Inr True, s)" for nt nf
    unfolding yield_array_def obind_def all_strings_each_row [OF assms(1,8,2,3)] by (simp add: oret_def)
  have clear: "pgresult_clear self s = (Inr (), ?t)"
    using assms by (simp add: pgresult_clear_def PQclear_def rb_gc_adjust_memory_usage_def pgresult_get_this_def obind_def
        deref_def upd_this_def)
  have "pgresult_stream_each_row errs env (\<lambda>_. oret ()) [d'] self s =
      (Inl (Raise (PGClass ''InvalidResultStatus'') ''PG::Result is not in single row mode'' []), ?s)"
    using assms by (simp add: pgresult_stream_each_row_def pgresult_stream_any_def check_frozen_def pgresult_get_this_safe_def
        stream_step_def y [unfolded oret_def, simplified] clear [simplified] alloc_pgresult_def
        pgresult_get_this_def obind_def oret_def oerr_def deref_def upd_this_def Let_def)
  moreover have "fst (init_fnames_loop env self 0 (res_enc_idx r) 0 (pq_fnames d') ?s) = Inl MemFault"
    using assms(12) by (intro init_fnames_loop_overflow [where r = ?r]) simp_all
  then have "fst (pgresult_fields env self ?s) = Inl MemFault"
    using assms(7) by (auto simp: pgresult_fields_def pgresult_init_fnames_def pgresult_get_this_safe_def
        pgresult_get_this_def obind_def oret_def oerr_def deref_def split: prod.split sum.split)
  ultimately show ?thesis by blast
qed

definition sample_result :: t_pg_result where
  "sample_result = \<lparr> res_pgresult = Some 0, res_connection = True, res_typemap = TypeMapAllStrings, res_enc_idx = 0,
     res_autoclear = False, res_flags = 0, res_nfields = - 1, res_size = pgresult_approx_size (pgresult.truncate sample_row),
     res_field_map = None, res_capa = 2, res_fnames = [], res_frozen = False \<rparr>"

lemma sample_state_res: "st_res sample_state 1 = Some sample_result" "st_heap sample_state 0 = Some sample_row"
  by (simp_all add: sample_result_def sample_state_def receive_result_def pg_new_result_def pg_new_result2_def alloc_pgresult_def obind_def
      start_def deref_or_null_def deref_def oret_def upd_this_def olift_def rb_gc_adjust_memory_usage_def sample_conn_def Let_def)

theorem stream_foreign_result_overflow_witness:
  "\<exists>s'. pgresult_stream_each_row \<lparr> err_classes = [], rb_hErrors = [] \<rparr> sample_env (\<lambda>_. oret ())
        [sample_data PGRES_TUPLES_OK [[97], [98], [99]] [[None, None, None]]] 1 sample_state =
      (Inl (Raise (PGClass ''InvalidResultStatus'') ''PG::Result is not in single row mode'' []), s') \<and>
    fst (pgresult_fields sample_env 1 s') = Inl MemFault"
  by (rule stream_foreign_result_overflow [OF sample_state_res(1) _ sample_state_res(2)]) (simp_all add: sample_result_def)

text \<open>\<open>each\<close> keeps a pointer to the \<open>PGresult\<close> and asks it for the number of rows after every
  call of the block: a block that clears the result makes it read freed memory, whatever number of
  rows the result has.\<close>

theorem each_clear_use_after_free:
  assumes "st_res s self = Some r" and "res_pgresult r = Some a" and "st_heap s a = Some d" and "PQntuples d > 0"
    and "\<not> res_autoclear r" and "\<not> res_frozen r" and "res_typemap r = TypeMapAllStrings" and "res_nfields r = PQnfields d"
  shows "fst (pgresult_each env (\<lambda>_. pg_result_clear self) self s) = Inl MemFault"
proof -
  have nf: "res_nfields r \<noteq> - 1" using assms(8) by (simp add: PQnfields_def)
  obtain vs where vs: "cast_values env self (row_cells 0 (res_nfields r)) s = (Inr vs, s)"
    using all_strings_casts [OF assms(1,7,2,3)] by blast
  have aref: "\<exists>h. pgresult_aref env (RInteger 0) self s = (Inr h, s)"
    using assms vs nf by (simp add: pgresult_aref_def pgresult_get_this_safe_def pgresult_get_this_def num2int_def obind_def
        oret_def olift_def deref_def int_in_def)
  have rows: "[0..PQntuples d - 1] = 0 # [1..PQntuples d - 1]" using assms(4) by (simp add: upto_rec1)
  have freed: "fst (each_loop item block a is s') = Inl MemFault" if "st_heap s' a = None"
    for item :: "int \<Rightarrow> 'x rop" and block :: "'x \<Rightarrow> unit rop" and "is" s'
    using that by (cases "is") (simp_all add: obind_def deref_def)
  obtain s' where "pg_result_clear self s = (Inr (), s')" "st_heap s' a = None"
    using assms by (simp add: pg_result_clear_def check_frozen_def pgresult_clear_def PQclear_def rb_gc_adjust_memory_usage_def
        pgresult_get_this_def obind_def oret_def deref_def upd_this_def)
  then show ?thesis
    using assms(1-3) aref freed by (auto simp: pgresult_each_def pgresult_get_def pgresult_get_this_def obind_def oret_def deref_def rows)
qed

theorem each_clear_use_after_free_witness:
  "fst (pgresult_each sample_env (\<lambda>_. pg_result_clear 1) 1
     (sample_state\<lparr> st_res := [1 \<mapsto> sample_result\<lparr> res_nfields := 2, res_fnames := [RString [97] 0, RString [98] 0] \<rparr>] \<rparr>)) = Inl MemFault"
  by (rule each_clear_use_after_free [where a = 0 and d = sample_row
      and r = "sample_result\<lparr> res_nfields := 2, res_fnames := [RString [97] 0, RString [98] 0] \<rparr>"])
    (simp_all add: sample_state_res sample_result_def)

section \<open>The approximate size\<close>

lemma takeWhile_length_le:
  assumes "i < length xs" "\<not> P (xs ! i)"
  shows "length (takeWhile P xs) \<le> i"
proof (rule ccontr)
  assume "\<not> ?thesis"
  then have i: "i < length (takeWhile P xs)" by simp
  have "xs ! i \<in> set (takeWhile P xs)" using nth_mem [OF i] by (simp only: takeWhile_nth [OF i])
  from set_takeWhileD [OF this] show False using assms(2) by simp
qed

lemma bit_above:
  fixes x :: int
  assumes "2 ^ j \<le> x" "x < 2 ^ n"
  shows "\<exists>k. j \<le> k \<and> k < n \<and> bit x k"
proof -
  have "drop_bit j x \<noteq> 0" using assms(1) pos_imp_zdiv_pos_iff [of "2 ^ j" x] by (simp add: drop_bit_eq_div)
  then obtain m where m: "bit (drop_bit j x) m" by (metis bit_eqI bit_0_eq bot_apply bot_bool_def)
  then have "bit x (j + m)" by (simp add: bit_drop_bit_eq)
  moreover from this have "j + m < n"
    using assms by (metis bit_take_bit_iff take_bit_int_eq_self order_trans zero_le_numeral zero_le_power)
  ultimately show ?thesis by (intro exI [of _ "j + m"]) simp
qed

lemma clz32_le:
  assumes "2 ^ j \<le> x" "x < 2 ^ 32"
  shows "clz32 (word_of_int x) \<le> 31 - int j"
proof -
  obtain k where k: "j \<le> k" "k < 32" "bit x k" using bit_above [OF assms] by blast
  have "length (takeWhile (\<lambda>i. \<not> bit (word_of_int x :: 32 word) i) (rev [0..<32])) \<le> 31 - k"
    using k by (intro takeWhile_length_le) (simp_all add: rev_nth bit_word_of_int_iff)
  then show ?thesis using k(1,2) by (simp add: clz32_def)
qed

lemma clz32_ge:
  assumes "0 < x"
  shows "32 - x \<le> clz32 (word_of_int x)"
proof (cases "x < 32")
  case True
  have "\<not> bit (word_of_int x :: 32 word) (rev [0..<32] ! i)" if i: "i < 32 - nat x" for i
  proof -
    have "x < 2 ^ (31 - i)"
    proof -
      have "nat x < 2 ^ nat x" by simp
      also have "\<dots> \<le> 2 ^ (31 - i)" using i by (intro power_increasing) auto
      finally show ?thesis using assms by (metis int_nat_eq less_imp_le nat_less_iff of_nat_numeral of_nat_power)
    qed
    then have "\<not> bit x (31 - i)" using assms by (metis bit_take_bit_iff less_imp_le less_irrefl take_bit_int_eq_self)
    then show ?thesis using i by (simp add: rev_nth bit_word_of_int_iff)
  qed
  then have "32 - nat x \<le> length (takeWhile (\<lambda>i. \<not> bit (word_of_int x :: 32 word) i) (rev [0..<32]))"
    by (intro length_takeWhile_less_P_nth) simp_all
  then show ?thesis using assms True by (simp add: clz32_def)
qed (simp add: clz32_def)

lemma num_samples_bounds:
  assumes "0 < num_fields" "num_fields < 2 ^ 31" "0 < num_tuples" "num_tuples < 2 ^ 31"
  shows "0 < num_samples num_fields num_tuples" "num_samples num_fields num_tuples \<le> num_fields * num_tuples"
proof -
  define a where "a = (if num_fields < 9 then num_fields else 39 - clz32 (word_of_int (num_fields - 8)))"
  define b where "b = (if num_tuples < 8 then 1 else 30 - clz32 (word_of_int num_tuples))"
  have a: "0 < a" "a \<le> num_fields"
    using assms(1,2) clz32_ge [of "num_fields - 8"] clz32_le [of 0 "num_fields - 8"] by (auto simp: a_def)
  have b: "0 < b" "b \<le> num_tuples"
    using assms(3,4) clz32_ge [of num_tuples] clz32_le [of 3 num_tuples] by (auto simp: b_def)
  have "num_samples num_fields num_tuples = a * b" by (simp add: num_samples_def a_def b_def)
  then show "0 < num_samples num_fields num_tuples" "num_samples num_fields num_tuples \<le> num_fields * num_tuples"
    using a b by (auto intro: mult_mono)
qed

lemma div_in_range:
  fixes pos f t :: int
  assumes "0 \<le> pos" "pos < f * t" "0 < f"
  shows "0 \<le> pos div f \<and> pos div f < t"
proof -
  have "f * (pos div f) \<le> pos" using assms(3) mult_div_mod_eq [of f pos] pos_mod_sign [of f pos] by linarith
  then have "f * (pos div f) < f * t" using assms(2) by linarith
  then show ?thesis using assms by (simp add: pos_imp_zdiv_nonneg_iff)
qed

text \<open>\<open>pgresult_approx_size\<close> estimates the size of a result from some of its values: for every
  number of rows and columns the number of samples is positive, so that the division by it is
  defined, and at most the number of values; as many fields are looked at, and all of them are fields
  of the result.\<close>

theorem approx_size_samples:
  assumes "0 < num_fields" and "num_fields < 2 ^ 31" and "0 < num_tuples" and "num_tuples < 2 ^ 31"
  shows "0 < num_samples num_fields num_tuples \<and> num_samples num_fields num_tuples \<le> num_fields * num_tuples \<and>
    int (length (sample_fields num_fields num_tuples)) = num_samples num_fields num_tuples \<and>
    (\<forall>(tuple, field) \<in> set (sample_fields num_fields num_tuples).
       0 \<le> tuple \<and> tuple < num_tuples \<and> 0 \<le> field \<and> field < num_fields)"
proof (intro conjI)
  define n where "n = num_samples num_fields num_tuples"
  note n = num_samples_bounds [OF assms, folded n_def]
  show "0 < num_samples num_fields num_tuples" "num_samples num_fields num_tuples \<le> num_fields * num_tuples"
    using n by (simp_all add: n_def)
  show "int (length (sample_fields num_fields num_tuples)) = num_samples num_fields num_tuples"
    using n(1) by (simp add: sample_fields_def Let_def n_def)
  have pos: "0 \<le> pos div num_fields" "pos div num_fields < num_tuples" "0 \<le> pos mod num_fields" "pos mod num_fields < num_fields"
    if "0 \<le> pos" "pos < n" for pos
    using that n assms(1) div_in_range [of pos num_fields num_tuples] by simp_all
  have half: "pos < n" if "pos \<le> (n + 1) div 2 - 1 \<or> pos \<le> n div 2 - 1" for pos
    using that n(1) by linarith
  show "\<forall>(tuple, field) \<in> set (sample_fields num_fields num_tuples).
       0 \<le> tuple \<and> tuple < num_tuples \<and> 0 \<le> field \<and> field < num_fields"
  proof (clarify, goal_cases)
    case (1 tuple field)
    then obtain pos where "0 \<le> pos" "pos < n" and x: "(tuple, field) = (pos div num_fields, pos mod num_fields) \<or>
        (tuple, field) = (num_tuples - 1 - pos div num_fields, num_fields - 1 - pos mod num_fields)"
      unfolding sample_fields_def Let_def n_def [symmetric] using half by auto
    with pos [of pos] show ?case by auto
  qed
qed

theorem approx_size_samples_witness:
  "0 < num_samples 3 20 \<and> num_samples 3 20 \<le> 60 \<and> int (length (sample_fields 3 20)) = num_samples 3 20"
  using approx_size_samples [of 3 20] by simp

end
