(* ===== verification/PG_Tuple.thy ===== *)
theory PG_Tuple
  imports PG_Result_Methods
begin

text \<open>
  \<open>ext/pg_tuple.c\<close>: the rows of a result as objects that convert their values on demand. A tuple keeps
  a reference to its result and the type map of its creation until all values are materialized.
  \<open>pg_tuple_new\<close> is in \<open>PG_Result\<close>. The address of a tuple without entry in the store is an allocated
  tuple whose struct is not there yet.
\<close>

section \<open>Operations\<close>

definition pg_tuple_get_this :: "nat \<Rightarrow> t_pg_tuple rop" where
  "pg_tuple_get_this self = (\<lambda>s. (case st_tup s self of
     None \<Rightarrow> Inl (Raise TypeError ''tuple is empty'' []) | Some t \<Rightarrow> Inr t, s))"

definition upd_tuple :: "nat \<Rightarrow> (t_pg_tuple \<Rightarrow> t_pg_tuple) \<Rightarrow> unit rop" where
  "upd_tuple self f = (\<lambda>s. (Inr (), s\<lparr> st_tup := (st_tup s)(self := map_option f (st_tup s self)) \<rparr>))"

text \<open>
  \<open>RTYPEDDATA_DATA\<close> of nil, the type map of a detached tuple, and an index outside of \<open>values\<close> are no
  memory of the tuple. The struct of an object is read without a check for NULL.
\<close>

definition pg_tuple_data :: "nat \<Rightarrow> t_pg_tuple rop" where
  "pg_tuple_data self = (\<lambda>s. (case st_tup s self of None \<Rightarrow> Inl MemFault | Some t \<Rightarrow> Inr t, s))"

definition pg_tuple_materialize_field :: "env \<Rightarrow> nat \<Rightarrow> int \<Rightarrow> rvalue rop" where
  "pg_tuple_materialize_field env self col =
     obind (pg_tuple_data self) (\<lambda>this.
       if col < 0 \<or> col \<ge> int (length (tup_values this)) then oerr MemFault
       else if tup_values this ! nat col = Qundef then
         (case (tup_typemap this, tup_result this) of
            (Some typemap, Some result) \<Rightarrow>
              obind (pgresult_get result) (\<lambda>a.
              obind (pgresult_get_this result) (\<lambda>p_result.
              obind (deref a) (\<lambda>d.
              obind (olift (typecast_result_value (env_rb env) (env_tm env) (env_hs env) typemap (pgresult.truncate d)
                  (res_enc_idx p_result) (tup_row_num this) col)) (\<lambda>(v, typemap).
              obind (upd_tuple self (\<lambda>t. t\<lparr> tup_typemap := Some typemap, tup_values := (tup_values t)[nat col := v] \<rparr>)) (\<lambda>_.
                oret v)))))
          | _ \<Rightarrow> oerr MemFault)
       else oret (tup_values this ! nat col))"

definition pg_tuple_detach :: "nat \<Rightarrow> unit rop" where
  "pg_tuple_detach self = upd_tuple self (\<lambda>t. t\<lparr> tup_result := None, tup_typemap := None, tup_row_num := - 1 \<rparr>)"

primrec materialize_fields :: "env \<Rightarrow> nat \<Rightarrow> int list \<Rightarrow> unit rop" where
  "materialize_fields env self [] = oret ()"
| "materialize_fields env self (i # is) =
     obind (pg_tuple_materialize_field env self i) (\<lambda>_. materialize_fields env self is)"

definition pg_tuple_materialize :: "env \<Rightarrow> nat \<Rightarrow> unit rop" where
  "pg_tuple_materialize env self =
     obind (pg_tuple_data self) (\<lambda>this.
     obind (materialize_fields env self [0..tup_num_fields this - 1]) (\<lambda>_. pg_tuple_detach self))"

text \<open>
  The field number of a key: an Integer counts from the end when it is negative, everything else is
  looked up in the field map; \<open>None\<close> is no such field, with the number that the message shows.
\<close>

definition tuple_key :: "rb_api \<Rightarrow> t_pg_tuple \<Rightarrow> rvalue \<Rightarrow> (int + int option) res" where
  "tuple_key rb this key =
     (case key of
        RInteger n \<Rightarrow>
          rbind (num2 32 (rb_dbl2int rb) key) (\<lambda>field_num.
            let field_num = (if field_num < 0 then tup_num_fields this + field_num else field_num) in
            Inr (if field_num < 0 \<or> field_num \<ge> tup_num_fields this then Inr (Some field_num) else Inl field_num))
      | _ \<Rightarrow>
          (case rb_hash_lookup (tup_field_map this) key of
             None \<Rightarrow> Inr (Inr None)
           | Some index \<Rightarrow> Inr (Inl index)))"

definition pg_tuple_fetch :: "env \<Rightarrow> rvalue list \<Rightarrow> (rvalue \<Rightarrow> rvalue rop) option \<Rightarrow> nat \<Rightarrow> rvalue rop" where
  "pg_tuple_fetch env argv block self =
     obind (pg_tuple_get_this self) (\<lambda>this.
       if length argv < 1 \<or> length argv > 2 then oerr (Raise ArgError ''wrong number of arguments'' [int (length argv)])
       else
         let key = argv ! 0 in
         obind (olift (tuple_key (env_rb env) this key)) (\<lambda>f.
           case f of
             Inl field_num \<Rightarrow> pg_tuple_materialize_field env self field_num
           | Inr e \<Rightarrow>
               (case block of
                  Some b \<Rightarrow> b key
                | None \<Rightarrow>
                    if length argv = 1 then
                      oerr (case e of Some n \<Rightarrow> Raise IndexError ''Index %d is out of range'' [n]
                                    | None \<Rightarrow> Raise KeyError ''column not found'' [])
                    else oret (argv ! 1))))"

definition pg_tuple_aref :: "env \<Rightarrow> rvalue \<Rightarrow> nat \<Rightarrow> rvalue rop" where
  "pg_tuple_aref env key self =
     obind (pg_tuple_get_this self) (\<lambda>this.
     obind (olift (tuple_key (env_rb env) this key)) (\<lambda>f.
       case f of Inl field_num \<Rightarrow> pg_tuple_materialize_field env self field_num | Inr _ \<Rightarrow> oret Qnil))"

text \<open>The loops of \<open>each\<close> and \<open>each_value\<close> over pairs of what is yielded first and the field number.\<close>

primrec tuple_each_loop :: "env \<Rightarrow> ('k \<Rightarrow> rvalue \<Rightarrow> unit rop) \<Rightarrow> nat \<Rightarrow> ('k \<times> int) list \<Rightarrow> unit rop" where
  "tuple_each_loop env block self [] = oret ()"
| "tuple_each_loop env block self (ki # kis) =
     obind (pg_tuple_materialize_field env self (snd ki)) (\<lambda>value.
     obind (block (fst ki) value) (\<lambda>_. tuple_each_loop env block self kis))"

definition pg_tuple_each :: "env \<Rightarrow> (rvalue \<Rightarrow> rvalue \<Rightarrow> unit rop) \<Rightarrow> nat \<Rightarrow> unit rop" where
  "pg_tuple_each env block self =
     obind (pg_tuple_get_this self) (\<lambda>this.
     obind (case tup_field_names this of
              None \<Rightarrow> tuple_each_loop env block self (tup_field_map this)
            | Some field_names \<Rightarrow> tuple_each_loop env block self (zip field_names [0..tup_num_fields this - 1]))
       (\<lambda>_. pg_tuple_detach self))"

definition pg_tuple_each_value :: "env \<Rightarrow> (rvalue \<Rightarrow> unit rop) \<Rightarrow> nat \<Rightarrow> unit rop" where
  "pg_tuple_each_value env block self =
     obind (pg_tuple_get_this self) (\<lambda>this.
     obind (tuple_each_loop env (\<lambda>_. block) self (map (\<lambda>i. ((), i)) [0..tup_num_fields this - 1])) (\<lambda>_. pg_tuple_detach self))"

definition pg_tuple_values :: "env \<Rightarrow> nat \<Rightarrow> rvalue rop" where
  "pg_tuple_values env self =
     obind (pg_tuple_get_this self) (\<lambda>_.
     obind (pg_tuple_materialize env self) (\<lambda>_.
     obind (pg_tuple_data self) (\<lambda>this. oret (RArray (tup_values this)))))"

definition pg_tuple_field_map :: "nat \<Rightarrow> (rvalue \<times> int) list rop" where
  "pg_tuple_field_map self = obind (pg_tuple_get_this self) (\<lambda>this. oret (tup_field_map this))"

definition pg_tuple_field_names :: "nat \<Rightarrow> rvalue rop" where
  "pg_tuple_field_names self = obind (pg_tuple_get_this self) (\<lambda>this.
     oret (case tup_field_names this of None \<Rightarrow> Qfalse | Some names \<Rightarrow> RArray names))"

definition pg_tuple_length :: "nat \<Rightarrow> rvalue rop" where
  "pg_tuple_length self = obind (pg_tuple_get_this self) (\<lambda>this. oret (RInteger (tup_num_fields this)))"

definition pg_tuple_index :: "rvalue \<Rightarrow> nat \<Rightarrow> rvalue rop" where
  "pg_tuple_index key self = obind (pg_tuple_get_this self) (\<lambda>this.
     oret (case rb_hash_lookup (tup_field_map this) key of None \<Rightarrow> Qnil | Some i \<Rightarrow> RInteger i))"

definition pg_tuple_dump :: "env \<Rightarrow> nat \<Rightarrow> rvalue rop" where
  "pg_tuple_dump env self =
     obind (pg_tuple_get_this self) (\<lambda>_.
     obind (pg_tuple_materialize env self) (\<lambda>_.
     obind (pg_tuple_data self) (\<lambda>this.
       oret (RArray [RArray (case tup_field_names this of None \<Rightarrow> map fst (tup_field_map this) | Some names \<Rightarrow> names),
         RArray (tup_values this)]))))"

abbreviation wrong_array :: rb_exc where
  "wrong_array \<equiv> Raise TypeError ''wrong argument type (expected Array)'' []"

definition pg_tuple_load :: "bool \<Rightarrow> rvalue \<Rightarrow> nat \<Rightarrow> unit rop" where
  "pg_tuple_load self_frozen a self = (\<lambda>s.
     if self_frozen then (Inl frozen_error, s)
     else if st_tup s self \<noteq> None then (Inl (Raise TypeError ''tuple is not empty'' []), s)
     else (case a of
         RArray as \<Rightarrow>
           if length as \<noteq> 2 then (Inl (Raise TypeError ''expected an array of 2 elements'' []), s)
           else (case (as ! 0, as ! 1) of
               (RArray field_names, RArray vals) \<Rightarrow>
                 let num_fields = int (length vals) in
                 if int (length field_names) \<noteq> num_fields
                 then (Inl (Raise TypeError ''different number of fields and values'' []), s)
                 else
                   let field_map = make_field_map field_names;
                       dup_names = (num_fields \<noteq> int (length field_map))
                   in if Qundef \<in> set vals
                      then (Inl (Raise TypeError ''field %d is not materialized'' [int (length (takeWhile (\<lambda>v. v \<noteq> Qundef) vals))]), s)
                      else (Inr (), s\<lparr> st_tup := (st_tup s)(self \<mapsto>
                        \<lparr> tup_result = None, tup_typemap = None, tup_field_map = field_map, tup_row_num = - 1,
                          tup_num_fields = num_fields, tup_values = vals,
                          tup_field_names = (if dup_names then Some field_names else None) \<rparr>) \<rparr>)
             | _ \<Rightarrow> (Inl wrong_array, s))
       | _ \<Rightarrow> (Inl wrong_array, s)))"


section \<open>Safety\<close>

lemma good_tuple_steps [exec]:
  "good P (obind (pg_tuple_get_this self) f s) \<longleftrightarrow> (case st_tup s self of None \<Rightarrow> P s | Some t \<Rightarrow> good P (f t s))"
  "good P (obind (pg_tuple_data self) g s) \<longleftrightarrow> (case st_tup s self of None \<Rightarrow> False | Some t \<Rightarrow> good P (g t s))"
  "good P (upd_tuple self u s) \<longleftrightarrow> P (s\<lparr> st_tup := (st_tup s)(self := map_option u (st_tup s self)) \<rparr>)"
  by (auto simp: good_def obind_def pg_tuple_get_this_def pg_tuple_data_def upd_tuple_def split: option.split)

lemma rinv_tup: "rinv env E H F s \<Longrightarrow> st_tup s t = Some x \<Longrightarrow> tup_ok env (st_res s) x"
  by (simp add: rinv_def wf_st_def)

lemma rinv_upd_tuple:
  assumes "rinv env E H F s" "st_tup s t = Some x" "tup_ok env (st_res s) x'"
  shows "rinv env E H F (s\<lparr> st_tup := (st_tup s)(t \<mapsto> x') \<rparr>)"
  using assms by (auto simp: rinv_def wf_st_def split: if_splits)

text \<open>The tuple \<open>t\<close> has \<open>n\<close> fields, and those in \<open>D\<close> are materialized.\<close>

definition tinv :: "env \<Rightarrow> nat set \<Rightarrow> (nat \<times> nat) set \<Rightarrow> (nat \<Rightarrow> nat option) \<Rightarrow> nat \<Rightarrow> int \<Rightarrow> int set \<Rightarrow> rst \<Rightarrow> bool" where
  "tinv env E H F t n D s \<longleftrightarrow> rinv env E H F s \<and>
     (\<exists>x. st_tup s t = Some x \<and> tup_num_fields x = n \<and> (\<forall>i\<in>D. 0 \<le> i \<and> i < n \<longrightarrow> tup_values x ! nat i \<noteq> Qundef))"

lemma tinvE:
  assumes "tinv env E H F t n D s"
  obtains x where "rinv env E H F s" "st_tup s t = Some x" "tup_num_fields x = n" "tup_ok env (st_res s) x"
    "\<And>i. i \<in> D \<Longrightarrow> 0 \<le> i \<Longrightarrow> i < n \<Longrightarrow> tup_values x ! nat i \<noteq> Qundef"
  using assms by (auto simp: tinv_def rinv_def wf_st_def)

lemma materialize_field_ok:
  assumes "env_ok env" "tinv env E H F t n D s" "0 \<le> i" "i < n"
  shows "good (tinv env E H F t n D) (pg_tuple_materialize_field env t i s)"
    "pg_tuple_materialize_field env t i s = (Inr v, s') \<Longrightarrow> tinv env E H F t n (insert i D) s'"
proof -
  obtain x where inv: "rinv env E H F s" and x: "st_tup s t = Some x" "tup_num_fields x = n" "tup_ok env (st_res s) x"
    and D: "\<And>i. i \<in> D \<Longrightarrow> 0 \<le> i \<Longrightarrow> i < n \<Longrightarrow> tup_values x ! nat i \<noteq> Qundef"
    using tinvE [OF assms(2)] by blast
  have len: "i < int (length (tup_values x))" "nat i < length (tup_values x)" using x(2,3) assms(3,4) by (auto simp: tup_ok_def)
  have "good (tinv env E H F t n D) (pg_tuple_materialize_field env t i s) \<and>
    (pg_tuple_materialize_field env t i s = (Inr v, s') \<longrightarrow> tinv env E H F t n (insert i D) s')"
  proof (cases "tup_values x ! nat i = Qundef")
    case False
    then have "pg_tuple_materialize_field env t i s = (Inr (tup_values x ! nat i), s)"
      using len assms(3) by (simp add: pg_tuple_materialize_field_def obind_def pg_tuple_data_def x(1) oret_def)
    moreover have "tinv env E H F t n (insert i D) s" using False inv x D by (auto simp: tinv_def)
    ultimately show ?thesis using assms(2) by (auto simp: good_def)
  next
    case True
    have "tup_result x \<noteq> None" using x(3) len(2) True nth_mem [OF len(2)] by (auto simp: tup_ok_def split: option.splits)
    then obtain j r tm where r: "tup_result x = Some j" "st_res s j = Some r" "tup_typemap x = Some tm"
      "result_ready (env_hs env) (res_capa r) tm" using x(3) by (auto simp: tup_ok_def)
    show ?thesis
    proof (cases "res_pgresult r")
      case None
      then have "pg_tuple_materialize_field env t i s = (Inl cleared_error, s)"
        using len assms(3) True r
        by (simp add: pg_tuple_materialize_field_def obind_def pg_tuple_data_def x(1) pgresult_get_def pgresult_get_this_def oerr_def)
      then show ?thesis using assms(2) by (simp add: good_def)
    next
      case (Some a)
      obtain d where d: "st_heap s a = Some d" using rinv_pgresult [OF inv r(2) Some] by blast
      define c where "c = typecast_result_value (env_rb env) (env_tm env) (env_hs env) tm (pgresult.truncate d) (res_enc_idx r) (tup_row_num x) i"
      have safe: "safe c" unfolding c_def by (rule cast_safe [OF assms(1) inv r(2) Some d r(4)])
      have run: "pg_tuple_materialize_field env t i s = (case c of Inl e \<Rightarrow> (Inl e, s) | Inr (w, tm') \<Rightarrow>
          (Inr w, s\<lparr> st_tup := (st_tup s)(t \<mapsto> x\<lparr> tup_typemap := Some tm', tup_values := (tup_values x)[nat i := w] \<rparr>) \<rparr>))"
        using len assms(3) True r Some d x(1)
        by (simp add: pg_tuple_materialize_field_def obind_def pg_tuple_data_def pgresult_get_def pgresult_get_this_def oret_def
            deref_def olift_def upd_tuple_def c_def split: sum.split prod.split)
      show ?thesis
      proof (cases c)
        case (Inl e)
        then show ?thesis using run safe assms(2) by (auto simp: good_def safe_iff)
      next
        case (Inr wt)
        obtain w tm' where wt: "c = Inr (w, tm')" using Inr by (cases wt) auto
        let ?x = "x\<lparr> tup_typemap := Some tm', tup_values := (tup_values x)[nat i := w] \<rparr>"
        have w: "w \<noteq> Qundef"
          using result_value_defined [OF env_okD(1) [OF assms(1)] env_okD(2) [OF assms(1)] r(4)] wt by (auto simp: c_def)
        have "result_ready (env_hs env) (res_capa r) tm'" using result_value_ready [OF _ r(4)] wt by (auto simp: c_def)
        then have "tup_ok env (st_res s) ?x" using x(3) r by (simp add: tup_ok_def)
        then have "rinv env E H F (s\<lparr> st_tup := (st_tup s)(t \<mapsto> ?x) \<rparr>)" by (rule rinv_upd_tuple [OF inv x(1)])
        then have "tinv env E H F t n (insert i D) (s\<lparr> st_tup := (st_tup s)(t \<mapsto> ?x) \<rparr>)"
          using D w len x(2) assms(3) by (auto simp: tinv_def nth_list_update)
        then show ?thesis using run wt by (auto simp: good_def tinv_def)
      qed
    qed
  qed
  then show "good (tinv env E H F t n D) (pg_tuple_materialize_field env t i s)"
    "pg_tuple_materialize_field env t i s = (Inr v, s') \<Longrightarrow> tinv env E H F t n (insert i D) s'" by auto
qed


lemma tinv_mono: "tinv env E H F t n D s \<Longrightarrow> D' \<subseteq> D \<Longrightarrow> tinv env E H F t n D' s"
  by (auto simp: tinv_def)

text \<open>Blocks of tuple methods keep the tuple and what is materialized.\<close>

definition tblock_ok :: "env \<Rightarrow> nat set \<Rightarrow> (nat \<times> nat) set \<Rightarrow> (nat \<Rightarrow> nat option) \<Rightarrow> nat \<Rightarrow> int \<Rightarrow> 'a rop \<Rightarrow> bool" where
  "tblock_ok env E H F t n m \<longleftrightarrow> (\<forall>D s. tinv env E H F t n D s \<longrightarrow> good (tinv env E H F t n D) (m s))"

lemma tuple_each_loop_ok:
  assumes "env_ok env" "\<And>k v. tblock_ok env E H F t n (block k v)"
  shows "tinv env E H F t n D s \<Longrightarrow> \<forall>i \<in> snd ` set kis. 0 \<le> i \<and> i < n \<Longrightarrow>
    good (tinv env E H F t n D) (tuple_each_loop env block t kis s) \<and>
    (\<forall>u s'. tuple_each_loop env block t kis s = (Inr u, s') \<longrightarrow> tinv env E H F t n (D \<union> snd ` set kis) s')"
proof (induction kis arbitrary: s D)
  case (Cons ki kis)
  let ?I = "tinv env E H F t n"
  have i: "0 \<le> snd ki" "snd ki < n" using Cons.prems(2) by auto
  note m = materialize_field_ok [OF assms(1) Cons.prems(1) i]
  have blk: "good (?I (insert (snd ki) D)) (block (fst ki) v s1)" if "?I (insert (snd ki) D) s1" for v s1
    using assms(2) that by (simp add: tblock_ok_def)
  have rest: "good (?I (insert (snd ki) D)) (tuple_each_loop env block t kis s2)"
    "tuple_each_loop env block t kis s2 = (Inr u, s') \<Longrightarrow> ?I (insert (snd ki) D \<union> snd ` set kis) s'"
    if "?I (insert (snd ki) D) s2" for s2 u s'
    using Cons.IH [OF that] Cons.prems(2) by auto
  have mono: "?I D s1" if "?I (insert (snd ki) D) s1" for s1 by (rule tinv_mono [OF that]) auto
  show ?case
  proof (cases "pg_tuple_materialize_field env t (snd ki) s")
    case (Pair r s1)
    show ?thesis
    proof (cases r)
      case (Inl e)
      then show ?thesis using m(1) Pair by (simp add: good_def obind_def safe_iff)
    next
      case (Inr v)
      then have s1: "?I (insert (snd ki) D) s1" using m(2) Pair by blast
      obtain r2 s2 where b: "block (fst ki) v s1 = (r2, s2)" by fastforce
      have s2: "?I (insert (snd ki) D) s2" "safe r2" using blk [OF s1, of v] b by (auto simp: good_def)
      show ?thesis
      proof (cases r2)
        case (Inl e)
        then show ?thesis using s2 Inr Pair b mono by (simp add: good_def obind_def safe_iff)
      next
        case (Inr w)
        then have "tuple_each_loop env block t (ki # kis) s = tuple_each_loop env block t kis s2"
          using Pair b \<open>r = Inr v\<close> by (simp add: obind_def)
        then show ?thesis using rest [OF s2(1)] mono by (auto simp: good_def)
      qed
    qed
  qed
qed (simp add: oret_def good_def)

lemma materialize_fields_each: "materialize_fields env t is = tuple_each_loop env (\<lambda>_ _. oret ()) t (map (\<lambda>i. ((), i)) is)"
  by (induction "is") (simp_all add: exec)

lemma good_detach:
  assumes "tinv env E H F t n D s" "{0..<n} \<subseteq> D"
  shows "good (tinv env E H F t n D) (pg_tuple_detach t s)"
proof -
  obtain x where inv: "rinv env E H F s" and x: "st_tup s t = Some x" "tup_num_fields x = n" "tup_ok env (st_res s) x"
    and D: "\<And>i. i \<in> D \<Longrightarrow> 0 \<le> i \<Longrightarrow> i < n \<Longrightarrow> tup_values x ! nat i \<noteq> Qundef"
    using tinvE [OF assms(1)] by blast
  have "Qundef \<notin> set (tup_values x)"
  proof
    assume "Qundef \<in> set (tup_values x)"
    then obtain i where "i < length (tup_values x)" "tup_values x ! i = Qundef" by (auto simp: in_set_conv_nth)
    moreover from this have "int i < n" using x(2,3) by (auto simp: tup_ok_def)
    moreover from this have "int i \<in> D" using assms(2) by auto
    ultimately show False using D [of "int i"] by simp
  qed
  then have "tup_ok env (st_res s) (x\<lparr> tup_result := None, tup_typemap := None, tup_row_num := - 1 \<rparr>)"
    using x(3) by (simp add: tup_ok_def)
  from rinv_upd_tuple [OF inv x(1) this] show ?thesis
    using x D by (auto simp: pg_tuple_detach_def exec tinv_def)
qed

lemma good_each_detach:
  assumes "env_ok env" "\<And>k v. tblock_ok env E H F t n (block k v)" "tinv env E H F t n D s" "snd ` set kis = {0..<n}"
  shows "good (tinv env E H F t n D) (obind (tuple_each_loop env block t kis) (\<lambda>_. pg_tuple_detach t) s)"
proof -
  note loop = tuple_each_loop_ok [OF assms(1-3), of kis]
  show ?thesis
  proof (rule good_obind)
    show "good (tinv env E H F t n D) (tuple_each_loop env block t kis s)" using loop assms(4) by simp
    fix u s' assume "tuple_each_loop env block t kis s = (Inr u, s')" "tinv env E H F t n D s'"
    then have "tinv env E H F t n (D \<union> {0..<n}) s'" using loop assms(4) by simp
    then have "good (tinv env E H F t n (D \<union> {0..<n})) (pg_tuple_detach t s')" by (rule good_detach) auto
    then show "good (tinv env E H F t n D) (pg_tuple_detach t s')" by (rule good_weaken) (erule tinv_mono, blast)
  qed
qed


lemma good_materialize:
  assumes "env_ok env" "tinv env E H F t n D s"
  shows "good (tinv env E H F t n D) (pg_tuple_materialize env t s)"
proof -
  obtain x where x: "st_tup s t = Some x" "tup_num_fields x = n" using tinvE [OF assms(2)] by blast
  have "snd ` set (map (\<lambda>i. ((), i)) [0..n - 1]) = {0..<n}" by force
  then show ?thesis
    using good_each_detach [OF assms(1) _ assms(2), of "\<lambda>_ _. oret ()" "map (\<lambda>i. ((), i)) [0..n - 1]"]
    by (simp add: pg_tuple_materialize_def exec x materialize_fields_each tblock_ok_def)
qed

lemma tuple_key_ok:
  assumes "tup_ok env res x"
  shows "safe (tuple_key rb x key)" "tuple_key rb x key = Inr (Inl i) \<Longrightarrow> 0 \<le> i \<and> i < tup_num_fields x"
proof -
  have map: "0 \<le> j \<and> j < tup_num_fields x" if "rb_hash_lookup (tup_field_map x) k = Some j" for k j
  proof -
    from that obtain k' where "find (\<lambda>(k', _). rb_eql k k') (tup_field_map x) = Some (k', j)" by (auto simp: rb_hash_lookup_def)
    then have "(k', j) \<in> set (tup_field_map x)" by (metis (no_types, lifting) find_Some_iff nth_mem)
    then show ?thesis using assms by (auto simp: tup_ok_def)
  qed
  show "safe (tuple_key rb x key)" using safe_num2 by (auto simp: tuple_key_def Let_def intro!: safe_rbind split: rvalue.split option.split)
  show "0 \<le> i \<and> i < tup_num_fields x" if "tuple_key rb x key = Inr (Inl i)"
    using that map by (auto simp: tuple_key_def Let_def rbind_Inr_iff split: rvalue.splits option.splits if_splits)
qed

section \<open>Properties\<close>

text \<open>Claim C19. The methods of a tuple are memory safe in every state of its result: as long as fields
  are missing the result is asked, and a result that was cleared raises; a tuple is detached from its
  result only when every field is there, so that a detached tuple never needs it again. A block may
  use the tuple and the result itself.\<close>

theorem tuple_methods_safe:
  assumes "env_ok env" and "tinv env E H F t n D s"
    and "\<And>k v. tblock_ok env E H F t n (block k v)" and "\<And>v. tblock_ok env E H F t n (value_block v)"
    and "\<And>b key. fetch_block = Some b \<Longrightarrow> tblock_ok env E H F t n (b key)"
  shows "good (tinv env E H F t n D) (pg_tuple_aref env key t s) \<and>
    good (tinv env E H F t n D) (pg_tuple_fetch env argv fetch_block t s) \<and>
    good (tinv env E H F t n D) (pg_tuple_each env block t s) \<and>
    good (tinv env E H F t n D) (pg_tuple_each_value env value_block t s) \<and>
    good (tinv env E H F t n D) (pg_tuple_values env t s) \<and>
    good (tinv env E H F t n D) (pg_tuple_dump env t s)"
proof -
  obtain x where x: "st_tup s t = Some x" "tup_num_fields x = n" "tup_ok env (st_res s) x" using tinvE [OF assms(2)] by blast
  note key = tuple_key_ok [OF x(3)]
  have field: "good (tinv env E H F t n D) (pg_tuple_materialize_field env t i s)" if "tuple_key (env_rb env) x k = Inr (Inl i)" for i k
    using materialize_field_ok(1) [OF assms(1,2)] key(2) [OF that] x(2) by blast
  have after: "good (tinv env E H F t n D) (obind (pg_tuple_materialize env t) (\<lambda>_. obind (pg_tuple_data t) (\<lambda>y. oret (f y))) s)" for f :: "t_pg_tuple \<Rightarrow> rvalue"
    by (rule good_obind, rule good_materialize [OF assms(1,2)]) (auto simp: exec tinv_def)
  have "good (tinv env E H F t n D) (pg_tuple_aref env key t s)"
    using key(1) [of "env_rb env" key] field assms(2)
    by (auto simp: pg_tuple_aref_def exec x(1) safe_iff split: sum.split)
  moreover have "good (tinv env E H F t n D) (pg_tuple_fetch env argv fetch_block t s)"
    using key(1) [of "env_rb env" "argv ! 0"] field assms(2,5)
    by (auto simp: pg_tuple_fetch_def exec x(1) safe_iff tblock_ok_def Let_def split: sum.split option.split)
  moreover have "good (tinv env E H F t n D) (pg_tuple_each env block t s)"
  proof (cases "tup_field_names x")
    case None
    then have "snd ` set (tup_field_map x) = {0..<n}" using x(2,3) by (force simp: tup_ok_def)
    then show ?thesis using good_each_detach [OF assms(1,3,2)] None by (simp add: pg_tuple_each_def exec x(1))
  next
    case (Some names)
    then have "map snd (zip names [0..n - 1]) = [0..n - 1]" using x(2,3) by (auto simp: tup_ok_def)
    then have "snd ` set (zip names [0..n - 1]) = {0..<n}" by (metis list.set_map set_upto atLeastLessThanPlusOne_atLeastAtMost_int diff_add_cancel)
    then show ?thesis using good_each_detach [OF assms(1,3,2)] Some x(2) by (simp add: pg_tuple_each_def exec x(1))
  qed
  moreover have "snd ` set (map (\<lambda>i. ((), i)) [0..n - 1]) = {0..<n}" by force
  then have "good (tinv env E H F t n D) (pg_tuple_each_value env value_block t s)"
    using good_each_detach [OF assms(1) _ assms(2), of "\<lambda>_. value_block" "map (\<lambda>i. ((), i)) [0..n - 1]"] assms(4) by (simp add: pg_tuple_each_value_def exec x)
  moreover have "good (tinv env E H F t n D) (pg_tuple_values env t s)" "good (tinv env E H F t n D) (pg_tuple_dump env t s)"
    using after by (simp_all add: pg_tuple_values_def pg_tuple_dump_def exec x(1))
  ultimately show ?thesis by blast
qed


section \<open>The values of a tuple\<close>

text \<open>The values of a list of fields, with the type map threaded through the casts.\<close>

primrec casts :: "env \<Rightarrow> pgresult \<Rightarrow> enc_idx \<Rightarrow> typemap \<Rightarrow> (int \<times> int) list \<Rightarrow> (rvalue list \<times> typemap) res" where
  "casts env d e tm [] = Inr ([], tm)"
| "casts env d e tm (c # cs) =
     rbind (typecast_result_value (env_rb env) (env_tm env) (env_hs env) tm d e (fst c) (snd c)) (\<lambda>(v, tm).
     rbind (casts env d e tm cs) (\<lambda>(vs, tm). Inr (v # vs, tm)))"

lemma cast_values_casts:
  assumes "res_pgresult r = Some a" "st_heap s a = Some d"
  shows "st_res s self = Some r \<Longrightarrow> fst (cast_values env self cells s) =
    rbind (casts env (pgresult.truncate d) (res_enc_idx r) (res_typemap r) cells) (\<lambda>(vs, _). Inr vs)"
  using assms
proof (induction cells arbitrary: s r)
  case (Cons c cs)
  show ?case
  proof (cases "typecast_result_value (env_rb env) (env_tm env) (env_hs env) (res_typemap r) (pgresult.truncate d) (res_enc_idx r) (fst c) (snd c)")
    case (Inl e)
    then show ?thesis using Cons.prems
      by (simp add: cast_value_def obind_def pgresult_get_this_def deref_or_null_def deref_def oret_def olift_def)
  next
    case (Inr vt)
    obtain v tm where vt: "vt = (v, tm)" by fastforce
    let ?s = "s\<lparr> st_res := (st_res s)(self \<mapsto> r\<lparr> res_typemap := tm \<rparr>) \<rparr>"
    have "cast_value env self (fst c) (snd c) s = (Inr v, ?s)"
      using Cons.prems Inr vt
      by (simp add: cast_value_def obind_def pgresult_get_this_def deref_or_null_def deref_def oret_def olift_def upd_this_def)
    moreover have "fst (cast_values env self cs ?s) =
        rbind (casts env (pgresult.truncate d) (res_enc_idx r) tm cs) (\<lambda>(vs, _). Inr vs)"
      using Cons.IH [of ?s "r\<lparr> res_typemap := tm \<rparr>"] Cons.prems by simp
    ultimately show ?thesis using Inr vt
      by (cases "cast_values env self cs ?s"; cases "fst (cast_values env self cs ?s)"; cases "casts env (pgresult.truncate d) (res_enc_idx r) tm cs")
        (auto simp: obind_def oret_def split: prod.splits)
  qed
qed (simp add: oret_def)

text \<open>Materializing the fields from the first that is missing on.\<close>

lemma materialize_fields_casts:
  assumes "tup_result x = Some i" "st_res s i = Some r" "res_pgresult r = Some a" "st_heap s a = Some d"
  shows "st_tup s t = Some x \<Longrightarrow> tup_typemap x = Some tm \<Longrightarrow> tup_values x = vs @ replicate m Qundef \<Longrightarrow>
    (case casts env (pgresult.truncate d) (res_enc_idx r) tm (map (\<lambda>f. (tup_row_num x, f)) [int (length vs)..int (length vs + m) - 1]) of
       Inl e \<Rightarrow> fst (materialize_fields env t [int (length vs)..int (length vs + m) - 1] s) = Inl e
     | Inr (ws, tm') \<Rightarrow> length ws = m \<and> materialize_fields env t [int (length vs)..int (length vs + m) - 1] s =
         (Inr (), s\<lparr> st_tup := (st_tup s)(t \<mapsto> x\<lparr> tup_typemap := Some tm', tup_values := vs @ ws \<rparr>) \<rparr>))"
  using assms
proof (induction m arbitrary: s x vs tm)
  case 0
  have "x\<lparr> tup_typemap := Some tm, tup_values := vs \<rparr> = x" using 0 by (cases x) simp
  then show ?case using 0 by (simp add: oret_def fun_upd_idem)
next
  case (Suc m)
  let ?k = "int (length vs)" let ?n = "int (length vs + Suc m) - 1"
  have l: "[?k..?n] = ?k # [?k + 1..?n]" by (simp add: upto_rec1)
  have mat: "pg_tuple_materialize_field env t ?k s =
      (case typecast_result_value (env_rb env) (env_tm env) (env_hs env) tm (pgresult.truncate d) (res_enc_idx r) (tup_row_num x) ?k of
         Inl e \<Rightarrow> (Inl e, s) | Inr (w, tm') \<Rightarrow>
          (Inr w, s\<lparr> st_tup := (st_tup s)(t \<mapsto> x\<lparr> tup_typemap := Some tm', tup_values := vs @ w # replicate m Qundef \<rparr>) \<rparr>))"
    using Suc.prems by (simp add: pg_tuple_materialize_field_def obind_def pg_tuple_data_def pgresult_get_def pgresult_get_this_def
        oret_def deref_def olift_def upd_tuple_def nth_append list_update_append split: sum.split prod.split)
  show ?case
  proof (cases "typecast_result_value (env_rb env) (env_tm env) (env_hs env) tm (pgresult.truncate d) (res_enc_idx r) (tup_row_num x) ?k")
    case (Inl e)
    then show ?thesis unfolding l using mat by (simp add: obind_def)
  next
    case (Inr wt)
    obtain w tm' where wt: "wt = (w, tm')" by fastforce
    let ?x = "x\<lparr> tup_typemap := Some tm', tup_values := (vs @ [w]) @ replicate m Qundef \<rparr>"
    let ?s = "s\<lparr> st_tup := (st_tup s)(t \<mapsto> ?x) \<rparr>"
    have run: "materialize_fields env t (?k # [?k + 1..?n]) s = materialize_fields env t [?k + 1..?n] ?s"
      using mat Inr wt by (simp add: obind_def)
    have ix: "[int (length (vs @ [w]))..int (length (vs @ [w]) + m) - 1] = [?k + 1..?n]" by (simp add: algebra_simps)
    have IH: "case casts env (pgresult.truncate d) (res_enc_idx r) tm' (map (\<lambda>f. (tup_row_num x, f)) [?k + 1..?n]) of
       Inl e \<Rightarrow> fst (materialize_fields env t [?k + 1..?n] ?s) = Inl e
     | Inr (ws, tm2) \<Rightarrow> length ws = m \<and> materialize_fields env t [?k + 1..?n] ?s =
         (Inr (), ?s\<lparr> st_tup := (st_tup ?s)(t \<mapsto> ?x\<lparr> tup_typemap := Some tm2, tup_values := (vs @ [w]) @ ws \<rparr>) \<rparr>)"
      using Suc.IH [of ?s ?x tm' "vs @ [w]"] Suc.prems unfolding ix by simp
    show ?thesis
    proof (cases "casts env (pgresult.truncate d) (res_enc_idx r) tm' (map (\<lambda>f. (tup_row_num x, f)) [?k + 1..?n])")
      case (Inl e)
      then show ?thesis unfolding l run using Inr wt IH by simp
    next
      case inr: (Inr p)
      obtain ws tm2 where p: "p = (ws, tm2)" by fastforce
      have "length ws = m" "materialize_fields env t [?k + 1..?n] ?s =
          (Inr (), s\<lparr> st_tup := (st_tup s)(t \<mapsto> x\<lparr> tup_typemap := Some tm2, tup_values := vs @ w # ws \<rparr>) \<rparr>)"
        using IH inr p by simp_all
      then show ?thesis unfolding l run using Inr wt inr p by simp
    qed
  qed
qed


text \<open>What the initialisation of the names leaves of the object.\<close>

lemma init_fnames_loop_frame:
  "init_fnames_loop env self flags e i names s = (Inr u, s') \<Longrightarrow> st_res s self = Some r \<Longrightarrow>
    \<exists>vs nf. s' = s\<lparr> st_res := (st_res s)(self \<mapsto> r\<lparr> res_fnames := vs, res_nfields := nf \<rparr>) \<rparr>"
proof (induction names arbitrary: s i r)
  case Nil
  then show ?case by (intro exI [of _ "res_fnames r"] exI [of _ "res_nfields r"]) (simp add: oret_def fun_upd_idem)
next
  case (Cons n names)
  obtain v where v: "pg_cstr_to_sym env n flags e = Inr v"
    using Cons.prems(1) by (cases "pg_cstr_to_sym env n flags e") (simp_all add: obind_def olift_def)
  let ?r = "r\<lparr> res_fnames := take i (res_fnames r) @ [v], res_nfields := int i + 1 \<rparr>"
  have "init_fnames_loop env self flags e (i + 1) names (s\<lparr> st_res := (st_res s)(self \<mapsto> ?r) \<rparr>) = (Inr u, s')"
    using Cons.prems by (cases "i < res_capa r") (simp_all add: v set_fname_def obind_def olift_def pgresult_get_this_def upd_this_def oerr_def)
  from Cons.IH [OF this, of ?r] show ?case by (simp add: fun_upd_def cong: if_cong)
qed

lemma ensure_init_frame:
  assumes "ensure_init_for_tuple env self s = (Inr u, s')" "st_res s self = Some r" "res_pgresult r = Some a" "st_heap s a = Some d"
  shows "\<exists>vs nf m. s' = s\<lparr> st_res := (st_res s)(self \<mapsto> r\<lparr> res_fnames := vs, res_nfields := nf, res_field_map := m \<rparr>) \<rparr> \<and>
    m = (if res_field_map r = None then Some (make_field_map (take (nat nf) vs)) else res_field_map r)"
proof (cases "res_field_map r")
  case (Some m)
  have "r\<lparr> res_field_map := Some m \<rparr> = r" using Some by (cases r) simp
  then show ?thesis
    using assms Some by (intro exI [of _ "res_fnames r"] exI [of _ "res_nfields r"] exI [of _ "res_field_map r"])
      (simp add: ensure_init_for_tuple_def pgresult_get_this_safe_def pgresult_get_this_def obind_def oret_def fun_upd_idem)
next
  case None
  have "\<exists>vs nf s1. (if res_nfields r = - 1 then pgresult_init_fnames env self else oret ()) s = (Inr (), s1) \<and>
      s1 = s\<lparr> st_res := (st_res s)(self \<mapsto> r\<lparr> res_fnames := vs, res_nfields := nf \<rparr>) \<rparr>"
  proof (cases "res_nfields r = - 1")
    case True
    obtain w s2 where w: "init_fnames_loop env self (res_flags r) (res_enc_idx r) 0 (pq_fnames d) s = (w, s2)" by fastforce
    have init: "pgresult_init_fnames env self s = obind (init_fnames_loop env self (res_flags r) (res_enc_idx r) 0 (pq_fnames d)) (\<lambda>_.
           upd_this self (\<lambda>r. r\<lparr> res_nfields := PQnfields d \<rparr>)) s"
      using True assms(2-4) by (simp add: pgresult_init_fnames_def pgresult_get_this_safe_def pgresult_get_this_def obind_def oret_def deref_def)
    have "\<exists>x. w = Inr x"
      using assms None True w by (cases w) (simp_all add: ensure_init_for_tuple_def pgresult_get_this_safe_def pgresult_get_this_def obind_def oret_def init)
    then obtain vs nf where s2: "s2 = s\<lparr> st_res := (st_res s)(self \<mapsto> r\<lparr> res_fnames := vs, res_nfields := nf \<rparr>) \<rparr>" "w = Inr ()"
      using init_fnames_loop_frame [OF _ assms(2)] w by (metis (full_types) old.unit.exhaust)
    show ?thesis using True w s2 by (intro exI [of _ vs] exI [of _ "PQnfields d"]) (simp add: init obind_def upd_this_def)
  next
    case False
    then show ?thesis using assms(2) by (intro exI [of _ "res_fnames r"] exI [of _ "res_nfields r"]) (simp add: oret_def fun_upd_idem)
  qed
  then obtain vs nf where s1: "(if res_nfields r = - 1 then pgresult_init_fnames env self else oret ()) s =
      (Inr (), s\<lparr> st_res := (st_res s)(self \<mapsto> r\<lparr> res_fnames := vs, res_nfields := nf \<rparr>) \<rparr>)" by blast
  show ?thesis
    using assms(1-3) None s1 by (intro exI [of _ vs] exI [of _ nf])
      (auto simp: ensure_init_for_tuple_def pgresult_get_this_safe_def pgresult_get_this_def obind_def oret_def upd_this_def split: if_splits)
qed


text \<open>A tuple that was just made; without an older field map its names are those of the result.\<close>

lemma fresh_tuple:
  assumes "env_ok env" "rinv env E H F s" "self \<in> E" "pgresult_tuple env (RInteger i) self s = (Inr t, s')"
  obtains r vs m a d where "st_res s self = Some r" "res_pgresult r = Some a" "st_heap s a = Some d"
    "int_in 32 i" "0 \<le> i" "i < PQntuples d"
    "st_res s' self = Some (r\<lparr> res_fnames := vs, res_nfields := PQnfields d, res_field_map := Some m \<rparr>)" "st_heap s' a = Some d"
    "st_tup s' t = Some \<lparr> tup_result = Some self, tup_typemap = Some (res_typemap r), tup_field_map = m, tup_row_num = i,
       tup_num_fields = PQnfields d, tup_values = replicate (nat (PQnfields d)) Qundef,
       tup_field_names = (if PQnfields d \<noteq> int (length m) then Some (take (nat (PQnfields d)) vs) else None) \<rparr>"
    "nat (PQnfields d) \<le> length vs" "res_field_map r = None \<Longrightarrow> m = make_field_map (take (nat (PQnfields d)) vs)"
proof -
  obtain r where r: "st_res s self = Some r" using rinv_exists [OF assms(2,3)] by blast
  obtain a where a: "res_pgresult r = Some a"
    using assms(4) r by (cases "res_pgresult r")
      (auto simp: pgresult_tuple_def num2int_def live_def pgresult_get_def pgresult_get_this_def obind_def olift_def oerr_def split: sum.splits)
  obtain d where d: "st_heap s a = Some d" using rinv_pgresult [OF assms(2) r a] by blast
  have i: "int_in 32 i" "0 \<le> i" "i < PQntuples d" and run: "obind (ensure_init_for_tuple env self) (\<lambda>_. pg_tuple_new self i) s = (Inr t, s')"
    using assms(4) r a d by (auto simp: pgresult_tuple_def num2int_def live_def pgresult_get_def pgresult_get_this_def obind_def olift_def
        oerr_def oret_def deref_def split: sum.splits if_splits)
  obtain s1 where s1: "ensure_init_for_tuple env self s = (Inr (), s1)" "pg_tuple_new self i s1 = (Inr t, s')"
    using run by (auto simp: obind_def split: prod.splits sum.splits)
  obtain vs nf m where s1eq: "s1 = s\<lparr> st_res := (st_res s)(self \<mapsto> r\<lparr> res_fnames := vs, res_nfields := nf, res_field_map := m \<rparr>) \<rparr>"
    and m: "m = (if res_field_map r = None then Some (make_field_map (take (nat nf) vs)) else res_field_map r)"
    using ensure_init_frame [OF s1(1) r a d] by blast
  let ?r = "r\<lparr> res_fnames := vs, res_nfields := nf, res_field_map := m \<rparr>"
  have inv: "rinv env E H F s1" using good_ensure_init [OF assms(1-3)] s1(1) by (simp add: good_def)
  have r1: "st_res s1 self = Some ?r" "st_heap s1 a = Some d" using d by (simp_all add: s1eq)
  have "pq_rows d \<noteq> []" using i by (auto simp: PQntuples_def)
  then have shape: "PQnfields d = int (res_capa r)" "shape_ok env ?r" and names: "names_ok ?r"
    using rinv_obj [OF inv r1(1)] r1(2) a by (auto simp: obj_ok_def)
  obtain m' where m': "m = Some m'" using m by (cases "res_field_map r") auto
  have nf: "nf = PQnfields d"
    using s1(2) shape r1(1) m' by (auto simp: pg_tuple_new_def obind_def pgresult_get_this_def Let_def oerr_def shape_ok_def)
  have len: "nat nf \<le> length vs" using names nf by (auto simp: names_ok_def)
  show thesis
  proof (rule that [OF r a d i])
    show "st_res s' self = Some (r\<lparr> res_fnames := vs, res_nfields := PQnfields d, res_field_map := Some m' \<rparr>)" "st_heap s' a = Some d"
      "st_tup s' t = Some \<lparr> tup_result = Some self, tup_typemap = Some (res_typemap r), tup_field_map = m', tup_row_num = i,
       tup_num_fields = PQnfields d, tup_values = replicate (nat (PQnfields d)) Qundef,
       tup_field_names = (if PQnfields d \<noteq> int (length m') then Some (take (nat (PQnfields d)) vs) else None) \<rparr>"
      using s1(2) r1 m' nf len by (auto simp: pg_tuple_new_def obind_def pgresult_get_this_def Let_def oerr_def oret_def split: if_splits)
    show "nat (PQnfields d) \<le> length vs" using len nf by simp
    show "m' = make_field_map (take (nat (PQnfields d)) vs)" if "res_field_map r = None" using m m' nf that by simp
  qed
qed


lemma materialize_nothing:
  assumes "st_tup s t = Some x" "Qundef \<notin> set (tup_values x)"
  shows "\<forall>i \<in> set is. 0 \<le> i \<and> i < int (length (tup_values x)) \<Longrightarrow> materialize_fields env t is s = (Inr (), s)"
proof (induction "is")
  case (Cons i "is")
  then have "tup_values x ! nat i \<noteq> Qundef" using assms(2) by (metis list.set_intros(1) nth_mem nat_less_iff)
  then show ?case using Cons assms(1) by (auto simp: pg_tuple_materialize_field_def obind_def pg_tuple_data_def oret_def)
qed (simp add: oret_def)

text \<open>A detached tuple gives its values and stays as it is.\<close>

lemma detached_values:
  assumes "st_tup s t = Some x" "tup_result x = None" "tup_typemap x = None" "tup_row_num x = - 1" "Qundef \<notin> set (tup_values x)"
    and "int (length (tup_values x)) = tup_num_fields x"
  shows "pg_tuple_values env t s = (Inr (RArray (tup_values x)), s)"
proof -
  have "materialize_fields env t [0..tup_num_fields x - 1] s = (Inr (), s)"
    using assms(6) by (intro materialize_nothing [OF assms(1,5)]) auto
  moreover have "x\<lparr> tup_result := None, tup_typemap := None, tup_row_num := - 1 \<rparr> = x" using assms(2-4) by (cases x) simp
  ultimately show ?thesis using assms(1)
    by (simp add: pg_tuple_values_def pg_tuple_materialize_def pg_tuple_detach_def obind_def pg_tuple_get_this_def pg_tuple_data_def
        upd_tuple_def oret_def fun_upd_idem)
qed

lemma materialize_fresh:
  assumes "env_ok env" "rinv env E H F s" "st_tup s t = Some x" "tup_result x = Some i" "st_res s i = Some r" "res_pgresult r = Some a"
    and "st_heap s a = Some d" "tup_typemap x = Some tm" "tup_num_fields x = PQnfields d" "tup_values x = replicate (nat (PQnfields d)) Qundef"
  shows "case casts env (pgresult.truncate d) (res_enc_idx r) tm (row_cells (tup_row_num x) (PQnfields d)) of
      Inl e \<Rightarrow> fst (pg_tuple_materialize env t s) = Inl e
    | Inr (ws, tm') \<Rightarrow> length ws = nat (PQnfields d) \<and> Qundef \<notin> set ws \<and> pg_tuple_materialize env t s = (Inr (), s\<lparr> st_tup := (st_tup s)
        (t \<mapsto> x\<lparr> tup_values := ws, tup_result := None, tup_typemap := None, tup_row_num := - 1 \<rparr>) \<rparr>)"
proof -
  let ?n = "PQnfields d"
  have n: "0 \<le> ?n" by (simp add: PQnfields_def)
  have "tinv env E H F t ?n {} s" using assms by (simp add: tinv_def)
  note good = good_materialize [OF assms(1) this]
  note m = materialize_fields_casts [OF assms(4-7,3,8), of "[]" "nat ?n" env, simplified]
  show ?thesis
  proof (cases "casts env (pgresult.truncate d) (res_enc_idx r) tm (row_cells (tup_row_num x) ?n)")
    case (Inl e)
    then show ?thesis using m assms(3,9,10) n
      by (auto simp: row_cells_def pg_tuple_materialize_def obind_def pg_tuple_data_def split: prod.splits sum.splits)
  next
    case (Inr p)
    obtain ws tm' where p: "p = (ws, tm')" by fastforce
    have run: "length ws = nat ?n" "pg_tuple_materialize env t s = (Inr (), s\<lparr> st_tup := (st_tup s)
        (t \<mapsto> x\<lparr> tup_values := ws, tup_result := None, tup_typemap := None, tup_row_num := - 1 \<rparr>) \<rparr>)"
      using m Inr p assms(3,9,10) n
      by (auto simp: row_cells_def pg_tuple_materialize_def obind_def pg_tuple_data_def pg_tuple_detach_def upd_tuple_def)
    then have "tup_ok env (st_res s) (x\<lparr> tup_values := ws, tup_result := None, tup_typemap := None, tup_row_num := - 1 \<rparr>)"
      using good by (auto simp: good_def tinv_def dest: rinv_tup)
    then show ?thesis using run Inr p by (simp add: tup_ok_def)
  qed
qed

text \<open>Claim C14. \<open>res.tuple(i).values\<close> is \<open>res.tuple_values(i)\<close>, also where that raises, whatever type map the
  result has. From then on the tuple is independent: it gives the same values in every state in which
  the tuple itself is unchanged, whether its result was cleared, freed or streamed on.\<close>

theorem tuple_values_of_result:
  assumes "env_ok env" and "rinv env E H F s" and "self \<in> E" and "pgresult_tuple env (RInteger i) self s = (Inr t, s')"
  shows "fst (pg_tuple_values env t s') = fst (pgresult_tuple_values env (RInteger i) self s) \<and>
    (\<forall>v s1 s2. pg_tuple_values env t s' = (Inr v, s1) \<longrightarrow> st_tup s2 t = st_tup s1 t \<longrightarrow> pg_tuple_values env t s2 = (Inr v, s2))"
proof -
  have inv: "rinv env E H F s'" using good_tuple [OF assms(1-3), of "RInteger i"] assms(4) by (simp add: good_def)
  show ?thesis
  proof (rule fresh_tuple [OF assms])
    fix r :: t_pg_result and vs m a and d :: pg_data
    let ?x = "\<lparr> tup_result = Some self, tup_typemap = Some (res_typemap r), tup_field_map = m, tup_row_num = i,
       tup_num_fields = PQnfields d, tup_values = replicate (nat (PQnfields d)) Qundef,
       tup_field_names = (if PQnfields d \<noteq> int (length m) then Some (take (nat (PQnfields d)) vs) else None) \<rparr>"
    assume r: "st_res s self = Some r" "res_pgresult r = Some a" "st_heap s a = Some d" and i: "int_in 32 i" "0 \<le> i" "i < PQntuples d"
      and s': "st_res s' self = Some (r\<lparr> res_fnames := vs, res_nfields := PQnfields d, res_field_map := Some m \<rparr>)" "st_heap s' a = Some d"
      "st_tup s' t = Some ?x"
    let ?c = "casts env (pgresult.truncate d) (res_enc_idx r) (res_typemap r) (row_cells i (PQnfields d))"
    have mat: "case ?c of Inl e \<Rightarrow> fst (pg_tuple_materialize env t s') = Inl e
      | Inr (ws, tm') \<Rightarrow> length ws = nat (PQnfields d) \<and> Qundef \<notin> set ws \<and> pg_tuple_materialize env t s' = (Inr (), s'\<lparr> st_tup := (st_tup s')
        (t \<mapsto> ?x\<lparr> tup_values := ws, tup_result := None, tup_typemap := None, tup_row_num := - 1 \<rparr>) \<rparr>)"
      using materialize_fresh [OF assms(1) inv s'(3) _ s'(1), of a d "res_typemap r"] r(2) s'(2) by simp
    have "fst (cast_values env self (row_cells i (PQnfields d)) s) = rbind ?c (\<lambda>(vs, _). Inr vs)"
      by (rule cast_values_casts [OF r(2,3,1)])
    then have res: "fst (pgresult_tuple_values env (RInteger i) self s) = rbind ?c (\<lambda>(vs, _). Inr (RArray vs))"
      using r i by (cases ?c) (auto simp: pgresult_tuple_values_def num2int_def live_def pgresult_get_def pgresult_get_this_def obind_def
          olift_def oret_def deref_def split: prod.splits sum.splits)
    show ?thesis
    proof (cases ?c)
      case (Inl e)
      then show ?thesis using mat res s'(3)
        by (auto simp: pg_tuple_values_def obind_def pg_tuple_get_this_def split: prod.splits sum.splits)
    next
      case (Inr p)
      obtain ws tm' where p: "p = (ws, tm')" by fastforce
      let ?y = "?x\<lparr> tup_values := ws, tup_result := None, tup_typemap := None, tup_row_num := - 1 \<rparr>"
      have ws: "length ws = nat (PQnfields d)" "Qundef \<notin> set ws" and m: "pg_tuple_materialize env t s' = (Inr (), s'\<lparr> st_tup := (st_tup s')(t \<mapsto> ?y) \<rparr>)"
        using mat Inr p by simp_all
      have v: "pg_tuple_values env t s' = (Inr (RArray ws), s'\<lparr> st_tup := (st_tup s')(t \<mapsto> ?y) \<rparr>)"
        using m s'(3) by (simp add: pg_tuple_values_def obind_def pg_tuple_get_this_def pg_tuple_data_def oret_def)
      have "pg_tuple_values env t s2 = (Inr (RArray ws), s2)" if "st_tup s2 t = Some ?y" for s2
        using detached_values [OF that] ws by (simp add: PQnfields_def)
      then show ?thesis using v res Inr p by auto
    qed
  qed
qed


section \<open>Marshaling\<close>

lemma make_field_map_zip:
  "length (make_field_map names) = length names \<Longrightarrow> make_field_map names = zip names [0..int (length names) - 1]"
proof (induction names rule: rev_induct)
  case (snoc n names)
  have le: "length (make_field_map names) \<le> length names" using make_field_map_all by blast
  have new: "\<forall>k \<in> fst ` set (make_field_map names). \<not> rb_eql n k"
    using snoc.prems le rb_hash_aset_old by (fastforce simp: make_field_map_snoc)
  then have "length (make_field_map names) = length names" using snoc.prems by (simp add: make_field_map_snoc rb_hash_aset_new)
  moreover have "[0..int (length names)] = [0..int (length names) - 1] @ [int (length names)]" by (simp add: upto_rec2)
  ultimately show ?case using snoc.IH new by (simp add: make_field_map_snoc rb_hash_aset_new)
qed (simp add: make_field_map_Nil)

text \<open>\<open>marshal_dump\<close> and \<open>marshal_load\<close>: a tuple of a result whose field map it was the first to
  need, dumped and loaded into an empty tuple, gives a tuple with the same values, field map and
  field names, with unique names as well as with equal ones, where the names are kept as an Array.\<close>

theorem tuple_dump_load:
  assumes "env_ok env" and "rinv env E H F s" and "self \<in> E" and "st_res s self = Some r" and "res_field_map r = None"
    and "pgresult_tuple env (RInteger i) self s = (Inr t, s1)" and "pg_tuple_dump env t s1 = (Inr a, s2)" and "st_tup s2 u = None"
  shows "\<exists>x s3. st_tup s2 t = Some x \<and> pg_tuple_load False a u s2 = (Inr (), s3) \<and> st_tup s3 u = Some x \<and> st_tup s3 t = Some x"
proof (rule fresh_tuple [OF assms(1-3,6)])
  fix r' :: t_pg_result and vs m b and d :: pg_data
  let ?n = "PQnfields d"
  let ?x = "\<lparr> tup_result = Some self, tup_typemap = Some (res_typemap r'), tup_field_map = m, tup_row_num = i,
       tup_num_fields = ?n, tup_values = replicate (nat ?n) Qundef,
       tup_field_names = (if ?n \<noteq> int (length m) then Some (take (nat ?n) vs) else None) \<rparr>"
  assume r: "st_res s self = Some r'" "res_pgresult r' = Some b" "st_heap s b = Some d"
    and s1: "st_res s1 self = Some (r'\<lparr> res_fnames := vs, res_nfields := ?n, res_field_map := Some m \<rparr>)" "st_heap s1 b = Some d"
    "st_tup s1 t = Some ?x" and len: "nat ?n \<le> length vs" and m0: "res_field_map r' = None \<Longrightarrow> m = make_field_map (take (nat ?n) vs)"
  define names where "names = take (nat ?n) vs"
  have names: "m = make_field_map names" "length names = nat ?n" "int (length names) = ?n"
    using m0 r(1) assms(4,5) len by (auto simp: names_def PQnfields_def)
  have inv: "rinv env E H F s1" using good_tuple [OF assms(1-3), of "RInteger i"] assms(6) by (simp add: good_def)
  let ?c = "casts env (pgresult.truncate d) (res_enc_idx r') (res_typemap r') (row_cells i ?n)"
  have mat: "case ?c of Inl e \<Rightarrow> fst (pg_tuple_materialize env t s1) = Inl e
    | Inr (ws, tm') \<Rightarrow> length ws = nat ?n \<and> Qundef \<notin> set ws \<and> pg_tuple_materialize env t s1 = (Inr (), s1\<lparr> st_tup := (st_tup s1)
      (t \<mapsto> ?x\<lparr> tup_values := ws, tup_result := None, tup_typemap := None, tup_row_num := - 1 \<rparr>) \<rparr>)"
    using materialize_fresh [OF assms(1) inv s1(3) _ s1(1), of b d "res_typemap r'"] r(2) s1(2) by simp
  obtain ws tm' where c: "?c = Inr (ws, tm')"
    using assms(7) mat s1(3) by (cases ?c) (auto simp: pg_tuple_dump_def obind_def pg_tuple_get_this_def split: prod.splits sum.splits)
  let ?y = "?x\<lparr> tup_values := ws, tup_result := None, tup_typemap := None, tup_row_num := - 1 \<rparr>"
  have ws: "length ws = nat ?n" "Qundef \<notin> set ws" and ma: "pg_tuple_materialize env t s1 = (Inr (), s1\<lparr> st_tup := (st_tup s1)(t \<mapsto> ?y) \<rparr>)"
    using mat c by simp_all
  have keys: "map fst m = names" if "?n = int (length m)"
  proof -
    have z: "m = zip names [0..int (length names) - 1]" using make_field_map_zip [of names] names that by simp
    show ?thesis unfolding z by simp
  qed
  have a: "a = RArray [RArray names, RArray ws]" and s2: "s2 = s1\<lparr> st_tup := (st_tup s1)(t \<mapsto> ?y) \<rparr>"
    using assms(7) ma s1(3) keys by (auto simp: pg_tuple_dump_def obind_def pg_tuple_get_this_def pg_tuple_data_def oret_def names_def)
  have "u \<noteq> t" using assms(8) s2 by auto
  then show ?thesis
    using assms(8) ws names by (intro exI [of _ ?y]) (auto simp: a s2 pg_tuple_load_def Let_def names_def)
qed


section \<open>Examples\<close>

text \<open>The tuple of the sample row, at the address 2.\<close>

definition sample_tuple_state :: rst where
  "sample_tuple_state = snd (pgresult_tuple sample_env (RInteger 0) 1 sample_state)"

lemmas run_defs = pgresult_tuple_def num2int_def live_def pgresult_get_def pgresult_get_this_def obind_def olift_def oerr_def oret_def
  deref_def ensure_init_for_tuple_def pgresult_init_fnames_def pgresult_get_this_safe_def set_fname_def upd_this_def pg_tuple_new_def
  pg_cstr_to_sym_def make_field_map_def

lemma sample_tuple: "pgresult_tuple sample_env (RInteger 0) 1 sample_state = (Inr 2, sample_tuple_state)"
proof -
  have "st_next sample_state = 2"
    by (simp add: sample_state_def receive_result_def pg_new_result_def pg_new_result2_def alloc_pgresult_def obind_def start_def
      deref_or_null_def deref_def oret_def upd_this_def olift_def rb_gc_adjust_memory_usage_def sample_conn_def Let_def)
  then have "fst (pgresult_tuple sample_env (RInteger 0) 1 sample_state) = Inr 2"
    using sample_state_res by (simp add: run_defs sample_result_def int_in_def Let_def)
  then show ?thesis by (simp add: sample_tuple_state_def prod_eq_iff)
qed


lemma sample_tuple_state_tup:
  "st_tup sample_tuple_state = [2 \<mapsto> \<lparr> tup_result = Some 1, tup_typemap = Some TypeMapAllStrings,
     tup_field_map = [(RString [97] 0, 0), (RString [98] 0, 1)], tup_row_num = 0, tup_num_fields = 2,
     tup_values = [Qundef, Qundef], tup_field_names = None \<rparr>]"
  "st_heap sample_tuple_state 0 = Some sample_row"
  "st_res sample_tuple_state 1 = Some (sample_result\<lparr> res_fnames := [RString [97] 0, RString [98] 0], res_nfields := 2,
     res_field_map := Some [(RString [97] 0, 0), (RString [98] 0, 1)] \<rparr>)"
proof -
  have n: "st_next sample_state = 2" "st_tup sample_state = Map.empty"
    by (simp_all add: sample_state_def receive_result_def pg_new_result_def pg_new_result2_def alloc_pgresult_def obind_def start_def
      deref_or_null_def deref_def oret_def upd_this_def olift_def rb_gc_adjust_memory_usage_def sample_conn_def Let_def)
  show "st_tup sample_tuple_state = [2 \<mapsto> \<lparr> tup_result = Some 1, tup_typemap = Some TypeMapAllStrings,
     tup_field_map = [(RString [97] 0, 0), (RString [98] 0, 1)], tup_row_num = 0, tup_num_fields = 2,
     tup_values = [Qundef, Qundef], tup_field_names = None \<rparr>]"
    "st_heap sample_tuple_state 0 = Some sample_row"
    "st_res sample_tuple_state 1 = Some (sample_result\<lparr> res_fnames := [RString [97] 0, RString [98] 0], res_nfields := 2,
     res_field_map := Some [(RString [97] 0, 0), (RString [98] 0, 1)] \<rparr>)"
    using sample_state_res n
    by (simp_all add: sample_tuple_state_def run_defs sample_result_def int_in_def Let_def numeral_2_eq_2)
qed

lemma tinv_sample: "tinv sample_env {1} {} [1 \<mapsto> 2] 2 2 {} sample_tuple_state"
  using good_tuple [OF env_ok_sample rinv_sample, of 1 "RInteger 0"] sample_tuple
  by (simp add: tinv_def good_def sample_tuple_state_tup)

theorem tuple_methods_safe_witness:
  "good (tinv sample_env {1} {} [1 \<mapsto> 2] 2 2 {}) (pg_tuple_each sample_env (\<lambda>_ _. oret ()) 2 sample_tuple_state)"
  using tuple_methods_safe [OF env_ok_sample tinv_sample, of "\<lambda>_ _. oret ()" "\<lambda>_. oret ()" None] by (simp add: tblock_ok_def exec)

theorem tuple_values_of_result_witness:
  "fst (pg_tuple_values sample_env 2 sample_tuple_state) = fst (pgresult_tuple_values sample_env (RInteger 0) 1 sample_state)"
  using tuple_values_of_result [OF env_ok_sample rinv_sample _ sample_tuple] by simp

lemma sample_dump: "\<exists>a s. pg_tuple_dump sample_env 2 sample_tuple_state = (Inr a, s) \<and> st_tup s 7 = None"
proof -
  have "[0..1] = [0, 1 :: int]" by (simp add: upto_rec1)
  then show ?thesis
    using sample_tuple_state_tup
    by (simp add: pg_tuple_dump_def pg_tuple_materialize_def pg_tuple_get_this_def pg_tuple_data_def pg_tuple_materialize_field_def
        pg_tuple_detach_def upd_tuple_def obind_def oret_def olift_def pgresult_get_def pgresult_get_this_def deref_def sample_result_def
        pg_tmas_result_value_def pg_text_dec_string_def PQfield_def PQfformat_def PQntuples_def PQnfields_def
        pgresult.defs sample_data_def)
qed

theorem tuple_dump_load_witness:
  "\<exists>a s x s'. pg_tuple_dump sample_env 2 sample_tuple_state = (Inr a, s) \<and> pg_tuple_load False a 7 s = (Inr (), s') \<and>
     st_tup s 2 = Some x \<and> st_tup s' 7 = Some x"
proof -
  obtain a s where d: "pg_tuple_dump sample_env 2 sample_tuple_state = (Inr a, s)" "st_tup s 7 = None" using sample_dump by blast
  then show ?thesis
    using tuple_dump_load [OF env_ok_sample rinv_sample _ sample_state_res(1) _ sample_tuple d] by (auto simp: sample_result_def)
qed

end
