(* ===== verification/PG_Query_Params.thy ===== *)
theory PG_Query_Params
  imports PG_Tuple
begin

text \<open>
  The query parameters of \<open>ext/pg_connection.c\<close>: \<open>alloc_query_params\<close> and the functions around it. The
  parameters are encoded into one memory pool on the stack as long as they fit, and into chunks of
  the heap otherwise; the four arrays that libpq gets live at the head of the same pool. The
  model has the pool, the chunks and pointers into them, and a store outside of the current buffer or
  into the arrays is a \<open>MemFault\<close>.
\<close>

section \<open>The memory of the parameters\<close>

definition QUERYDATA_BUFFER_SIZE :: nat where "QUERYDATA_BUFFER_SIZE = 4000"

text \<open>A buffer is the pool or the n-th chunk that was allocated; a parameter is NULL, the bytes of a Ruby
  String or a position in a buffer.\<close>

datatype buf = Memory_pool | Typecast_buf nat
datatype param_ptr = NULL_ptr | String_ptr rvalue | Buf_ptr buf nat

text \<open>
  \<open>struct query_params_data\<close>; \<open>qp_heap_pool\<close> is the size of the pool on the heap where the arrays are too big for the
  stack, and a length is \<open>None\<close> as long as it is not set.
\<close>

record query_params_data =
  qp_enc_idx :: enc_idx
  qp_with_types :: bool
  qp_params :: rvalue
  qp_typemap :: typemap
  qp_heap_pool :: "nat option"
  qp_values :: "param_ptr list"
  qp_lengths :: "int option list"
  qp_formats :: "int list"
  qp_types :: "oid list"
  qp_gc_array :: "rvalue list option"
  qp_typecast_heap_chain :: "bytes list option"
  qp_memory_pool :: bytes

text \<open>The size of the arrays: \<open>char *\<close> has 8 bytes, \<open>int\<close> and \<open>Oid\<close> 4 each.\<close>

definition required_pool_size :: "bool \<Rightarrow> nat \<Rightarrow> nat" where
  "required_pool_size with_types nParams = nParams * (8 + 4 + 4 + (if with_types then 4 else 0))"

definition pool_len :: "query_params_data \<Rightarrow> nat" where
  "pool_len qp = (case qp_heap_pool qp of None \<Rightarrow> QUERYDATA_BUFFER_SIZE | Some n \<Rightarrow> n)"

definition buf_bytes :: "query_params_data \<Rightarrow> buf \<Rightarrow> bytes" where
  "buf_bytes qp b = (case b of
      Memory_pool \<Rightarrow> qp_memory_pool qp
    | Typecast_buf k \<Rightarrow> (case qp_typecast_heap_chain qp of None \<Rightarrow> [] | Some cs \<Rightarrow> if k < length cs then cs ! k else []))"

definition overwrite :: "nat \<Rightarrow> 'a list \<Rightarrow> 'a list \<Rightarrow> 'a list" where
  "overwrite off bs xs = take off xs @ bs @ drop (off + length bs) xs"

text \<open>Stores into the arrays, which follow each other in their pool.\<close>

definition store_value :: "nat \<Rightarrow> param_ptr \<Rightarrow> query_params_data \<Rightarrow> query_params_data res" where
  "store_value i v qp =
     (if 8 * (i + 1) \<le> pool_len qp then Inr (qp\<lparr> qp_values := (qp_values qp)[i := v] \<rparr>) else Inl MemFault)"

definition store_length :: "nat \<Rightarrow> int \<Rightarrow> query_params_data \<Rightarrow> query_params_data res" where
  "store_length i len qp =
     (if 8 * length (qp_values qp) + 4 * (i + 1) \<le> pool_len qp
      then Inr (qp\<lparr> qp_lengths := (qp_lengths qp)[i := Some len] \<rparr>) else Inl MemFault)"

definition store_format :: "nat \<Rightarrow> int \<Rightarrow> query_params_data \<Rightarrow> query_params_data res" where
  "store_format i format qp =
     (if 12 * length (qp_values qp) + 4 * (i + 1) \<le> pool_len qp
      then Inr (qp\<lparr> qp_formats := (qp_formats qp)[i := format] \<rparr>) else Inl MemFault)"

definition store_type :: "nat \<Rightarrow> oid \<Rightarrow> query_params_data \<Rightarrow> query_params_data res" where
  "store_type i t qp =
     (if \<not> qp_with_types qp then Inr qp
      else if 16 * length (qp_values qp) + 4 * (i + 1) \<le> pool_len qp
      then Inr (qp\<lparr> qp_types := (qp_types qp)[i := t] \<rparr>) else Inl MemFault)"

text \<open>Stores of encoded bytes; on the stack the arrays are in front of them.\<close>

definition store_buf :: "buf \<Rightarrow> nat \<Rightarrow> bytes \<Rightarrow> query_params_data \<Rightarrow> query_params_data res" where
  "store_buf b off bs qp =
     (if off + length bs > length (buf_bytes qp b) then Inl MemFault
      else case b of
        Memory_pool \<Rightarrow>
          if qp_heap_pool qp = None \<and> off < required_pool_size (qp_with_types qp) (length (qp_values qp)) then Inl MemFault
          else Inr (qp\<lparr> qp_memory_pool := overwrite off bs (qp_memory_pool qp) \<rparr>)
      | Typecast_buf k \<Rightarrow>
          Inr (qp\<lparr> qp_typecast_heap_chain := map_option (\<lambda>cs. cs[k := overwrite off bs (cs ! k)]) (qp_typecast_heap_chain qp) \<rparr>))"

text \<open>\<open>alloc_typecast_buf\<close>: a new chunk of the given size, put into the chain.\<close>

definition alloc_typecast_buf :: "nat \<Rightarrow> query_params_data \<Rightarrow> (buf \<times> nat) \<times> query_params_data" where
  "alloc_typecast_buf len qp =
     (case qp_typecast_heap_chain qp of
        None \<Rightarrow> ((Typecast_buf 0, 0), qp\<lparr> qp_typecast_heap_chain := Some [replicate len 0] \<rparr>)
      | Some cs \<Rightarrow> ((Typecast_buf (length cs), 0), qp\<lparr> qp_typecast_heap_chain := Some (cs @ [replicate len 0]) \<rparr>))"

section \<open>Encoding of the parameters\<close>

definition StringValueCStr :: "rb_api \<Rightarrow> rvalue \<Rightarrow> rvalue res" where
  "StringValueCStr rb v =
     rbind (rb_StringValue rb v) (\<lambda>s. if 0 \<in> set (str_bytes s) then Inl null_byte_error else Inr s)"

definition RSTRING_LENINT :: "rvalue \<Rightarrow> int res" where
  "RSTRING_LENINT s =
     (if length (str_bytes s) < 2 ^ 31 then Inr (int (length (str_bytes s)))
      else Inl (Raise RangeError ''integer %ld too big to convert to int'' [int (length (str_bytes s))]))"

text \<open>The argument that is a type map, nil or another object, and the Hashes among the Ruby values: the
  value that the Hash has for a Symbol.\<close>

datatype typemap_arg = Typemap_nil | Typemap_arg typemap | Typemap_other

type_synonym rb_hashes = "rvalue \<Rightarrow> (string \<Rightarrow> rvalue res) option"

definition pgconn_query_assign_typemap :: "typemap \<Rightarrow> typemap_arg \<Rightarrow> query_params_data \<Rightarrow> query_params_data res" where
  "pgconn_query_assign_typemap type_map_for_queries arg qp =
     (case arg of
        Typemap_nil \<Rightarrow> Inr (qp\<lparr> qp_typemap := type_map_for_queries \<rparr>)
      | Typemap_arg t \<Rightarrow> Inr (qp\<lparr> qp_typemap := t \<rparr>)
      | Typemap_other \<Rightarrow> Inl (Raise TypeError ''wrong argument type (expected PG::TypeMap)'' []))"

text \<open>The coder, the format, the OID and the value of a parameter.\<close>

definition param_conv :: "rb_api \<Rightarrow> tm_api \<Rightarrow> rb_hashes \<Rightarrow> nat \<Rightarrow> rvalue \<Rightarrow> query_params_data
    \<Rightarrow> (t_pg_coder option \<times> rvalue \<times> query_params_data) res" where
  "param_conv rb tm hash i param_value qp =
     rbind (store_format i 0 qp) (\<lambda>qp.
     rbind (store_type i 0 qp) (\<lambda>qp.
     rbind (typecast_query_param tm (qp_typemap qp) param_value (int i)) (\<lambda>(conv, typemap).
       let qp = qp\<lparr> qp_typemap := typemap \<rparr> in
       case conv of
         Some c \<Rightarrow>
           rbind (store_format i (coder_format c) qp) (\<lambda>qp.
           rbind (store_type i (coder_oid c) qp) (\<lambda>qp. Inr (conv, param_value, qp)))
       | None \<Rightarrow>
           (case hash param_value of
              Some aref \<Rightarrow>
                rbind (aref ''format'') (\<lambda>format_value.
                rbind (if format_value \<noteq> Qnil
                       then rbind (num2 32 (rb_dbl2int rb) format_value) (\<lambda>f. store_format i f qp) else Inr qp) (\<lambda>qp.
                rbind (if qp_with_types qp
                       then rbind (aref ''type'') (\<lambda>type_value.
                         if type_value \<noteq> Qnil
                         then rbind (num2uint (rb_dbl2int rb) type_value) (\<lambda>t. store_type i t qp) else Inr qp)
                       else Inr qp) (\<lambda>qp.
                rbind (aref ''value'') (\<lambda>param_value. Inr (conv, param_value, qp)))))
            | None \<Rightarrow> Inr (conv, param_value, qp)))))"

text \<open>A String that is not the parameter itself is kept for the garbage collector.\<close>

definition gc_push :: "rvalue \<Rightarrow> rvalue \<Rightarrow> query_params_data \<Rightarrow> query_params_data" where
  "gc_push intermediate param_value qp =
     (if intermediate \<noteq> param_value
      then qp\<lparr> qp_gc_array := Some ((case qp_gc_array qp of None \<Rightarrow> [] | Some vs \<Rightarrow> vs) @ [intermediate]) \<rparr> else qp)"

type_synonym cursor = "(buf \<times> nat) \<times> nat"

definition param_store :: "rb_api \<Rightarrow> nat \<Rightarrow> t_pg_coder option \<Rightarrow> rvalue \<Rightarrow> cursor \<Rightarrow> query_params_data
    \<Rightarrow> (cursor \<times> query_params_data) res" where
  "param_store rb i conv param_value = (\<lambda>(typecast_buf, required) qp.
     if param_value = Qnil then
       rbind (store_value i NULL_ptr qp) (\<lambda>qp.
       rbind (store_length i 0 qp) (\<lambda>qp. Inr ((typecast_buf, required), qp)))
     else
       rbind (pg_coder_enc_func rb conv param_value False Qnil (qp_enc_idx qp)) (\<lambda>(len, _, intermediate).
         if len = - 1 then
           rbind (if qp_formats qp ! i = 0 then StringValueCStr rb intermediate else Inr intermediate) (\<lambda>intermediate.
             if \<not> is_str intermediate then Inl MemFault
             else
               let qp = gc_push intermediate param_value qp in
               rbind (store_value i (String_ptr intermediate) qp) (\<lambda>qp.
               rbind (RSTRING_LENINT intermediate) (\<lambda>l.
               rbind (store_length i l qp) (\<lambda>qp. Inr ((typecast_buf, required), qp)))))
         else
           let ((b, off), qp) = (if QUERYDATA_BUFFER_SIZE < required + nat len + 1
                                 then alloc_typecast_buf (nat len + 1) qp else (typecast_buf, qp)) in
           rbind (pg_coder_enc_func rb conv param_value True intermediate (qp_enc_idx qp)) (\<lambda>(len, bs, _).
           rbind (store_buf b off bs qp) (\<lambda>qp.
           rbind (store_value i (Buf_ptr b off) qp) (\<lambda>qp.
             if qp_formats qp ! i = 0 then
               rbind (store_buf b (off + nat len) [0] qp) (\<lambda>qp.
                 Inr (((b, off + (nat len + 1)), required + (nat len + 1)), qp))
             else
               rbind (store_length i len qp) (\<lambda>qp.
                 Inr (((b, off + nat len), required + nat len), qp)))))))"

primrec query_params_loop :: "rb_api \<Rightarrow> tm_api \<Rightarrow> rb_hashes \<Rightarrow> nat \<Rightarrow> rvalue list \<Rightarrow> cursor \<Rightarrow> query_params_data
    \<Rightarrow> query_params_data res" where
  "query_params_loop rb tm hash i [] cur qp = Inr qp"
| "query_params_loop rb tm hash i (p # ps) cur qp =
     rbind (param_conv rb tm hash i p qp) (\<lambda>(conv, v, qp).
     rbind (param_store rb i conv v cur qp) (\<lambda>(cur, qp).
       query_params_loop rb tm hash (i + 1) ps cur qp))"

definition alloc_query_params :: "rb_api \<Rightarrow> tm_api \<Rightarrow> rb_hashes \<Rightarrow> query_params_data \<Rightarrow> (nat \<times> query_params_data) res" where
  "alloc_query_params rb tm hash qp =
     (case qp_params qp of
        RArray ps \<Rightarrow>
          rbind (fit_to_query tm (qp_typemap qp) (qp_params qp)) (\<lambda>_.
            let nParams = length ps;
                required = required_pool_size (qp_with_types qp) nParams;
                (heap_pool, required) = (if QUERYDATA_BUFFER_SIZE < required then (Some required, 0) else (None, required));
                qp = qp\<lparr> qp_heap_pool := heap_pool, qp_values := replicate nParams NULL_ptr,
                  qp_lengths := replicate nParams None, qp_formats := replicate nParams 0,
                  qp_types := replicate nParams 0, qp_gc_array := None, qp_typecast_heap_chain := None \<rparr>
            in rbind (query_params_loop rb tm hash 0 ps ((Memory_pool, required), required) qp) (\<lambda>qp.
                 Inr (nParams, qp)))
      | _ \<Rightarrow> Inl (Raise TypeError ''wrong argument type (expected Array)'' []))"

text \<open>The struct on the stack of a query method, before \<open>alloc_query_params\<close>.\<close>

definition query_params_init :: "enc_idx \<Rightarrow> bool \<Rightarrow> rvalue \<Rightarrow> query_params_data" where
  "query_params_init enc_idx with_types params =
     \<lparr> qp_enc_idx = enc_idx, qp_with_types = with_types, qp_params = params, qp_typemap = TypeMapAllStrings,
       qp_heap_pool = None, qp_values = [], qp_lengths = [], qp_formats = [], qp_types = [], qp_gc_array = None,
       qp_typecast_heap_chain = None, qp_memory_pool = replicate QUERYDATA_BUFFER_SIZE 0 \<rparr>"

section \<open>What libpq reads\<close>

text \<open>
  libpq reads a parameter in text format up to its NUL and ignores the length, and as many bytes as the length
  says in binary format.
\<close>

definition read_param :: "int \<Rightarrow> int option \<Rightarrow> bytes \<Rightarrow> bytes res" where
  "read_param format len mem =
     (if format = 0 then if 0 \<in> set mem then Inr (takeWhile (\<lambda>c. c \<noteq> 0) mem) else Inl MemFault
      else case len of
        None \<Rightarrow> Inl MemFault
      | Some n \<Rightarrow> if nat n \<le> length mem then Inr (take (nat n) mem) else Inl MemFault)"

definition libpq_param :: "query_params_data \<Rightarrow> nat \<Rightarrow> (int \<times> oid \<times> bytes option) res" where
  "libpq_param qp i =
     rbind (case qp_values qp ! i of
        NULL_ptr \<Rightarrow> Inr None
      | String_ptr s \<Rightarrow> rbind (read_param (qp_formats qp ! i) (qp_lengths qp ! i) (str_bytes s @ [0])) (\<lambda>bs. Inr (Some bs))
      | Buf_ptr b off \<Rightarrow> rbind (read_param (qp_formats qp ! i) (qp_lengths qp ! i) (drop off (buf_bytes qp b))) (\<lambda>bs. Inr (Some bs)))
       (\<lambda>v. Inr (qp_formats qp ! i, qp_types qp ! i, v))"

primrec map_res :: "('a \<Rightarrow> 'b res) \<Rightarrow> 'a list \<Rightarrow> 'b list res" where
  "map_res f [] = Inr []"
| "map_res f (x # xs) = rbind (f x) (\<lambda>y. rbind (map_res f xs) (\<lambda>ys. Inr (y # ys)))"

section \<open>The parameters without memory\<close>

definition param_choice :: "rb_api \<Rightarrow> rb_hashes \<Rightarrow> bool \<Rightarrow> t_pg_coder option \<Rightarrow> rvalue \<Rightarrow> (int \<times> oid \<times> rvalue) res" where
  "param_choice rb hash with_types conv v =
     (case conv of
        Some c \<Rightarrow> Inr (coder_format c, if with_types then coder_oid c else 0, v)
      | None \<Rightarrow>
          (case hash v of
             None \<Rightarrow> Inr (0, 0, v)
           | Some aref \<Rightarrow>
               rbind (aref ''format'') (\<lambda>fv.
               rbind (if fv = Qnil then Inr 0 else num2 32 (rb_dbl2int rb) fv) (\<lambda>f.
               rbind (if with_types then rbind (aref ''type'') (\<lambda>tv. if tv = Qnil then Inr 0 else num2uint (rb_dbl2int rb) tv)
                      else Inr 0) (\<lambda>t.
               rbind (aref ''value'') (\<lambda>v. Inr (f, t, v)))))))"

definition param_text :: "rb_api \<Rightarrow> enc_idx \<Rightarrow> t_pg_coder option \<Rightarrow> int \<Rightarrow> rvalue \<Rightarrow> bytes option res" where
  "param_text rb e conv format v =
     (if v = Qnil then Inr None
      else rbind (pg_coder_enc_func rb conv v False Qnil e) (\<lambda>(n, _, im).
        if n = - 1 then
          rbind (if format = 0 then StringValueCStr rb im else Inr im) (\<lambda>s.
          rbind (RSTRING_LENINT s) (\<lambda>_. Inr (Some (str_bytes s))))
        else rbind (pg_coder_enc_func rb conv v True im e) (\<lambda>(k, bs, _).
          Inr (Some (if format = 0 then takeWhile (\<lambda>c. c \<noteq> 0) bs else bs)))))"

primrec query_params_spec :: "rb_api \<Rightarrow> tm_api \<Rightarrow> rb_hashes \<Rightarrow> bool \<Rightarrow> enc_idx \<Rightarrow> typemap \<Rightarrow> nat \<Rightarrow> rvalue list
    \<Rightarrow> (int \<times> oid \<times> bytes option) list res" where
  "query_params_spec rb tm hash with_types e T i [] = Inr []"
| "query_params_spec rb tm hash with_types e T i (p # ps) =
     rbind (typecast_query_param tm T p (int i)) (\<lambda>(conv, T).
     rbind (param_choice rb hash with_types conv p) (\<lambda>(format, t, v).
     rbind (param_text rb e conv format v) (\<lambda>text.
     rbind (query_params_spec rb tm hash with_types e T (i + 1) ps) (\<lambda>r. Inr ((format, t, text) # r)))))"

section \<open>The invariant of the loop\<close>

lemma length_overwrite [simp]: "off + length bs \<le> length xs \<Longrightarrow> length (overwrite off bs xs) = length xs"
  by (simp add: overwrite_def)

lemma take_overwrite: "n \<le> off \<Longrightarrow> off + length bs \<le> length xs \<Longrightarrow> take n (overwrite off bs xs) = take n xs"
  by (simp add: overwrite_def min_absorb1)

lemma drop_overwrite: "off + length bs \<le> length xs \<Longrightarrow> drop off (overwrite off bs xs) = bs @ drop (off + length bs) xs"
  by (simp add: overwrite_def)

definition valid_buf :: "query_params_data \<Rightarrow> buf \<Rightarrow> bool" where
  "valid_buf qp b \<longleftrightarrow> (case b of
      Memory_pool \<Rightarrow> True
    | Typecast_buf k \<Rightarrow> (case qp_typecast_heap_chain qp of None \<Rightarrow> False | Some cs \<Rightarrow> k < length cs))"

text \<open>The arrays have a slot for each parameter and fit into their pool.\<close>

definition qp_wf :: "query_params_data \<Rightarrow> bool" where
  "qp_wf qp \<longleftrightarrow>
     (let n = length (qp_values qp) in
      length (qp_lengths qp) = n \<and> length (qp_formats qp) = n \<and> length (qp_types qp) = n \<and>
      (\<not> qp_with_types qp \<longrightarrow> qp_types qp = replicate n 0) \<and>
      length (qp_memory_pool qp) = QUERYDATA_BUFFER_SIZE \<and> required_pool_size (qp_with_types qp) n \<le> pool_len qp)"

text \<open>The room behind the cursor is at least what the size computed so far leaves of the pool.\<close>

definition cur_ok :: "cursor \<Rightarrow> query_params_data \<Rightarrow> bool" where
  "cur_ok = (\<lambda>((b, off), required) qp.
     valid_buf qp b \<and> off \<le> length (buf_bytes qp b) \<and>
     QUERYDATA_BUFFER_SIZE + off \<le> required + length (buf_bytes qp b) \<and>
     (b = Memory_pool \<and> qp_heap_pool qp = None \<longrightarrow> required_pool_size (qp_with_types qp) (length (qp_values qp)) \<le> off))"

text \<open>The part of a buffer that the following parameters do not touch.\<close>

definition kept :: "cursor \<Rightarrow> query_params_data \<Rightarrow> buf \<Rightarrow> nat" where
  "kept = (\<lambda>((b, off), _) qp b'. if b' = b then off else length (buf_bytes qp b'))"

definition settled :: "cursor \<Rightarrow> query_params_data \<Rightarrow> nat \<Rightarrow> bool" where
  "settled cur qp j \<longleftrightarrow> (case qp_values qp ! j of
      Buf_ptr b o' \<Rightarrow> valid_buf qp b \<and>
        (\<exists>m. o' + m \<le> kept cur qp b \<and> kept cur qp b \<le> length (buf_bytes qp b) \<and>
           (if qp_formats qp ! j = 0 then 0 \<in> set (take m (drop o' (buf_bytes qp b)))
            else (\<exists>n. qp_lengths qp ! j = Some n \<and> nat n \<le> m)))
    | _ \<Rightarrow> True)"

definition same_param :: "query_params_data \<Rightarrow> query_params_data \<Rightarrow> nat \<Rightarrow> bool" where
  "same_param qp qp' j \<longleftrightarrow> qp_values qp' ! j = qp_values qp ! j \<and> qp_lengths qp' ! j = qp_lengths qp ! j \<and>
     qp_formats qp' ! j = qp_formats qp ! j \<and> qp_types qp' ! j = qp_types qp ! j"

text \<open>From one state of the loop to a later one.\<close>

definition extends :: "cursor \<Rightarrow> query_params_data \<Rightarrow> cursor \<Rightarrow> query_params_data \<Rightarrow> bool" where
  "extends cur qp cur' qp' \<longleftrightarrow> (\<forall>b. valid_buf qp b \<longrightarrow>
     valid_buf qp' b \<and> length (buf_bytes qp' b) = length (buf_bytes qp b) \<and>
     kept cur qp b \<le> kept cur' qp' b \<and> kept cur' qp' b \<le> length (buf_bytes qp b) \<and>
     take (kept cur qp b) (buf_bytes qp' b) = take (kept cur qp b) (buf_bytes qp b))"

lemma extends_refl:
  assumes "cur_ok cur qp"
  shows "extends cur qp cur qp"
  using assms unfolding extends_def by (cases cur) (auto simp: cur_ok_def kept_def split: if_splits)

lemma read_param_prefix:
  assumes eq: "take m xs = take m ys"
    and "if format = 0 then 0 \<in> set (take m xs) else \<exists>n. len = Some n \<and> nat n \<le> m"
    and "m \<le> length xs" "m \<le> length ys"
  shows "read_param format len xs = read_param format len ys"
proof (cases "format = 0")
  case True
  then have z: "0 \<in> set (take m xs)" "0 \<in> set (take m ys)" using assms(1,2) by auto
  have tw: "takeWhile (\<lambda>c. c \<noteq> 0) zs = takeWhile (\<lambda>c. c \<noteq> 0) (take m zs)" if "0 \<in> set (take m zs)" for zs :: bytes
    using that takeWhile_append1 [of 0 "take m zs" "\<lambda>c. c \<noteq> 0" "drop m zs"] by (simp del: takeWhile_append)
  have "0 \<in> set xs" "0 \<in> set ys" using z by (auto dest: in_set_takeD)
  with True tw [OF z(1)] tw [OF z(2)] eq show ?thesis unfolding read_param_def by (simp only: if_True refl)
next
  case False
  then obtain n where "len = Some n" "nat n \<le> m" using assms(2) by auto
  moreover from this(2) have "take (nat n) xs = take (nat n) ys" using eq by (metis min.absorb1 take_take)
  ultimately show ?thesis using False assms(3,4) by (simp add: read_param_def)
qed

lemma settled_extends:
  assumes "settled cur qp j" and "extends cur qp cur' qp'" and "same_param qp qp' j"
  shows "settled cur' qp' j" and "libpq_param qp' j = libpq_param qp j"
proof -
  have "settled cur' qp' j \<and> libpq_param qp' j = libpq_param qp j"
  proof (cases "qp_values qp ! j")
    case (Buf_ptr b o')
    let ?k = "kept cur qp b" and ?x = "buf_bytes qp b" and ?y = "buf_bytes qp' b"
    obtain m where v: "valid_buf qp b" and m: "o' + m \<le> ?k" "?k \<le> length ?x"
      and z: "if qp_formats qp ! j = 0 then 0 \<in> set (take m (drop o' ?x)) else (\<exists>n. qp_lengths qp ! j = Some n \<and> nat n \<le> m)"
      using assms(1) by (auto simp: settled_def Buf_ptr)
    have e: "valid_buf qp' b" "length ?y = length ?x" "?k \<le> kept cur' qp' b" "kept cur' qp' b \<le> length ?x"
      "take ?k ?y = take ?k ?x"
      using assms(2) v by (auto simp: extends_def)
    have t: "take m (drop o' ?y) = take m (drop o' ?x)"
      using arg_cong [OF e(5), of "\<lambda>zs. take m (drop o' zs)"] m(1) by (simp add: take_drop min_absorb1)
    have "read_param (qp_formats qp ! j) (qp_lengths qp ! j) (drop o' ?y) =
          read_param (qp_formats qp ! j) (qp_lengths qp ! j) (drop o' ?x)"
      by (rule read_param_prefix [of m]) (use t z m e(2) in auto)
    moreover have "settled cur' qp' j"
      using assms(3) Buf_ptr e m z t by (auto simp: settled_def same_param_def intro!: exI [of _ m] split: if_splits)
    ultimately show ?thesis using assms(3) Buf_ptr by (simp add: libpq_param_def same_param_def)
  qed (use assms(3) in \<open>simp_all add: settled_def libpq_param_def same_param_def\<close>)
  then show "settled cur' qp' j" and "libpq_param qp' j = libpq_param qp j" by blast+
qed

lemma same_param_trans: "same_param qp qp' j \<Longrightarrow> same_param qp' qp'' j \<Longrightarrow> same_param qp qp'' j"
  by (simp add: same_param_def)

section \<open>The stores stay inside\<close>

lemma stores_ok:
  assumes "qp_wf qp" "i < length (qp_values qp)"
  shows "store_value i v qp = Inr (qp\<lparr> qp_values := (qp_values qp)[i := v] \<rparr>)"
    and "store_length i l qp = Inr (qp\<lparr> qp_lengths := (qp_lengths qp)[i := Some l] \<rparr>)"
    and "store_format i f qp = Inr (qp\<lparr> qp_formats := (qp_formats qp)[i := f] \<rparr>)"
    and "store_type i t qp = Inr (if qp_with_types qp then qp\<lparr> qp_types := (qp_types qp)[i := t] \<rparr> else qp)"
  using assms
  by (auto simp: qp_wf_def Let_def store_value_def store_length_def store_format_def store_type_def required_pool_size_def
      split: if_splits)

lemma store_buf_ok:
  assumes "qp_wf qp" "valid_buf qp b" "off + length bs \<le> length (buf_bytes qp b)"
    and "b = Memory_pool \<and> qp_heap_pool qp = None \<longrightarrow> required_pool_size (qp_with_types qp) (length (qp_values qp)) \<le> off"
  obtains qp' where "store_buf b off bs qp = Inr qp'"
    and "buf_bytes qp' b = overwrite off bs (buf_bytes qp b)"
    and "\<And>b'. b' \<noteq> b \<Longrightarrow> buf_bytes qp' b' = buf_bytes qp b'" and "\<And>b'. valid_buf qp' b' = valid_buf qp b'"
    and "qp_values qp' = qp_values qp" "qp_lengths qp' = qp_lengths qp" "qp_formats qp' = qp_formats qp"
      "qp_types qp' = qp_types qp" "qp_typemap qp' = qp_typemap qp" "qp_enc_idx qp' = qp_enc_idx qp"
      "qp_with_types qp' = qp_with_types qp" "qp_heap_pool qp' = qp_heap_pool qp" "qp_wf qp'"
proof (cases b)
  case Memory_pool
  show thesis
    by (rule that [of "qp\<lparr> qp_memory_pool := overwrite off bs (qp_memory_pool qp) \<rparr>"])
      (use assms Memory_pool in \<open>auto simp: store_buf_def buf_bytes_def valid_buf_def qp_wf_def Let_def pool_len_def
        split: buf.splits option.splits\<close>)
next
  case (Typecast_buf k)
  show thesis
    by (rule that [of "qp\<lparr> qp_typecast_heap_chain := map_option (\<lambda>cs. cs[k := overwrite off bs (cs ! k)]) (qp_typecast_heap_chain qp) \<rparr>"])
      (use assms Typecast_buf in \<open>auto simp: store_buf_def buf_bytes_def valid_buf_def qp_wf_def Let_def pool_len_def
        nth_list_update split: buf.splits option.splits\<close>)
qed

lemma param_conv_ok:
  assumes "qp_wf qp" "i < length (qp_values qp)"
  shows "param_conv rb tm hash i p qp =
    rbind (typecast_query_param tm (qp_typemap qp) p (int i)) (\<lambda>(conv, T).
    rbind (param_choice rb hash (qp_with_types qp) conv p) (\<lambda>(f, t, v).
      Inr (conv, v, qp\<lparr> qp_typemap := T, qp_formats := (qp_formats qp)[i := f], qp_types := (qp_types qp)[i := t] \<rparr>)))"
proof -
  have rep: "\<not> qp_with_types qp \<Longrightarrow> (qp_types qp)[i := 0] = qp_types qp"
    using assms by (auto simp: qp_wf_def Let_def nth_list_update intro!: nth_equalityI)
  have a: "12 * length (qp_values qp) + 4 * (i + 1) \<le> pool_len qp"
    "qp_with_types qp \<Longrightarrow> 16 * length (qp_values qp) + 4 * (i + 1) \<le> pool_len qp"
    using assms by (auto simp: qp_wf_def Let_def required_pool_size_def split: if_splits)
  show ?thesis
  proof (cases "typecast_query_param tm (qp_typemap qp) p (int i)")
    case (Inr r)
    obtain conv T where r: "r = (conv, T)" by (cases r)
    note defs = param_conv_def param_choice_def store_format_def store_type_def pool_len_def Let_def rbind_assoc
    show ?thesis
    proof (cases "conv = None \<and> hash p \<noteq> None")
      case False
      with a rep Inr [unfolded r] show ?thesis
        by (cases conv; cases "hash p"; cases "qp_with_types qp"; cases qp) (simp_all add: defs)
    next
      case True
      then obtain aref where h: "conv = None" "hash p = Some aref" by auto
      with a rep Inr [unfolded r] show ?thesis
        by (cases "aref ''format''"; cases "aref ''type''"; cases "aref ''value''"; cases "qp_with_types qp"; cases qp)
          (simp_all add: defs)
    qed
  qed (use a rep in \<open>auto simp: param_conv_def store_format_def store_type_def pool_len_def\<close>)
qed

section \<open>One parameter\<close>

definition step :: "nat \<Rightarrow> cursor \<Rightarrow> query_params_data \<Rightarrow> cursor \<Rightarrow> query_params_data \<Rightarrow> bool" where
  "step i cur qp cur' qp' \<longleftrightarrow>
     qp_wf qp' \<and> cur_ok cur' qp' \<and> extends cur qp cur' qp' \<and>
     length (qp_values qp') = length (qp_values qp) \<and> qp_typemap qp' = qp_typemap qp \<and> qp_enc_idx qp' = qp_enc_idx qp \<and>
     qp_with_types qp' = qp_with_types qp \<and> qp_formats qp' = qp_formats qp \<and> qp_types qp' = qp_types qp \<and>
     (\<forall>j. j \<noteq> i \<longrightarrow> same_param qp qp' j)"

lemma buf_updates [simp]:
  "buf_bytes (qp\<lparr> qp_values := x \<rparr>) = buf_bytes qp" "buf_bytes (qp\<lparr> qp_lengths := y \<rparr>) = buf_bytes qp"
  "buf_bytes (qp\<lparr> qp_gc_array := z \<rparr>) = buf_bytes qp"
  "valid_buf (qp\<lparr> qp_values := x \<rparr>) = valid_buf qp" "valid_buf (qp\<lparr> qp_lengths := y \<rparr>) = valid_buf qp"
  "valid_buf (qp\<lparr> qp_gc_array := z \<rparr>) = valid_buf qp"
  "kept cur (qp\<lparr> qp_values := x \<rparr>) = kept cur qp" "kept cur (qp\<lparr> qp_lengths := y \<rparr>) = kept cur qp"
  "kept cur (qp\<lparr> qp_gc_array := z \<rparr>) = kept cur qp"
  by (auto simp: buf_bytes_def valid_buf_def kept_def fun_eq_iff split: buf.splits prod.splits)

lemma wf_updates [simp]:
  "length x = length (qp_values qp) \<Longrightarrow> qp_wf (qp\<lparr> qp_values := x \<rparr>) = qp_wf qp"
  "length y = length (qp_lengths qp) \<Longrightarrow> qp_wf (qp\<lparr> qp_lengths := y \<rparr>) = qp_wf qp"
  "qp_wf (qp\<lparr> qp_gc_array := z \<rparr>) = qp_wf qp"
  by (auto simp: qp_wf_def Let_def pool_len_def)

lemma cur_updates [simp]:
  "length x = length (qp_values qp) \<Longrightarrow> cur_ok cur (qp\<lparr> qp_values := x \<rparr>) = cur_ok cur qp"
  "cur_ok cur (qp\<lparr> qp_lengths := y \<rparr>) = cur_ok cur qp"
  "cur_ok cur (qp\<lparr> qp_gc_array := z \<rparr>) = cur_ok cur qp"
  by (auto simp: cur_ok_def split: prod.splits)

text \<open>A new value and length at the slot of the parameter.\<close>

lemma step_slot:
  assumes "step i cur qp cur' qp1" and "qp' = qp1\<lparr> qp_values := (qp_values qp1)[i := v], qp_lengths := l \<rparr>"
    and "length l = length (qp_lengths qp1)" and "\<And>j. j \<noteq> i \<Longrightarrow> l ! j = qp_lengths qp1 ! j"
  shows "step i cur qp cur' qp'"
  using assms by (auto simp: step_def extends_def same_param_def nth_list_update)

lemma step_refl: "qp_wf qp \<Longrightarrow> cur_ok cur qp \<Longrightarrow> step i cur qp cur qp"
  by (simp add: step_def extends_refl same_param_def)

lemma step_gc_push: "step i cur qp cur' qp1 \<Longrightarrow> step i cur qp cur' (gc_push s v qp1)"
  by (auto simp: gc_push_def step_def extends_def same_param_def)

lemma gc_push_fields [simp]:
  "qp_values (gc_push s v qp) = qp_values qp" "qp_lengths (gc_push s v qp) = qp_lengths qp"
  "qp_formats (gc_push s v qp) = qp_formats qp" "qp_types (gc_push s v qp) = qp_types qp"
  "qp_wf (gc_push s v qp) = qp_wf qp" "qp_enc_idx (gc_push s v qp) = qp_enc_idx qp"
  by (simp_all add: gc_push_def)

text \<open>The room for the encoded bytes: the rest of the current buffer or a new chunk.\<close>

lemma room:
  assumes "qp_wf qp" "cur_ok (tb, required) qp"
    and "(if QUERYDATA_BUFFER_SIZE < required + n + 1 then alloc_typecast_buf (n + 1) qp else (tb, qp)) = ((b, off), qp1)"
  shows "step i (tb, required) qp ((b, off), required) qp1" and "off + n + 1 \<le> length (buf_bytes qp1 b)"
    and "qp_values qp1 = qp_values qp" "qp_lengths qp1 = qp_lengths qp" "qp_heap_pool qp1 = qp_heap_pool qp"
proof -
  have "step i (tb, required) qp ((b, off), required) qp1 \<and> off + n + 1 \<le> length (buf_bytes qp1 b) \<and>
    qp_values qp1 = qp_values qp \<and> qp_lengths qp1 = qp_lengths qp \<and> qp_heap_pool qp1 = qp_heap_pool qp"
  proof (cases "QUERYDATA_BUFFER_SIZE < required + n + 1")
    case False
    then have "tb = (b, off)" "qp1 = qp" using assms(3) by auto
    with False assms show ?thesis by (auto simp: step_refl cur_ok_def)
  next
    case True
    let ?cs = "case qp_typecast_heap_chain qp of None \<Rightarrow> [] | Some cs \<Rightarrow> cs"
    have r: "b = Typecast_buf (length ?cs)" "off = 0"
      "qp1 = qp\<lparr> qp_typecast_heap_chain := Some (?cs @ [replicate (n + 1) 0]) \<rparr>"
      using True assms(3) by (auto simp: alloc_typecast_buf_def split: option.splits)
    have bb: "valid_buf qp b' \<Longrightarrow> valid_buf qp1 b' \<and> buf_bytes qp1 b' = buf_bytes qp b' \<and> b' \<noteq> b" for b'
      by (auto simp: r valid_buf_def buf_bytes_def nth_append split: buf.splits option.splits)
    have new: "valid_buf qp1 b" "buf_bytes qp1 b = replicate (n + 1) 0"
      by (simp_all add: r valid_buf_def buf_bytes_def nth_append)
    have "extends (tb, required) qp ((b, off), required) qp1"
      unfolding extends_def
    proof (intro allI impI)
      fix b' assume v: "valid_buf qp b'"
      have "kept (tb, required) qp b' \<le> length (buf_bytes qp b')" using assms(2) by (auto simp: kept_def cur_ok_def split: prod.splits)
      with bb [OF v] show "valid_buf qp1 b' \<and> length (buf_bytes qp1 b') = length (buf_bytes qp b') \<and>
         kept (tb, required) qp b' \<le> kept ((b, off), required) qp1 b' \<and>
         kept ((b, off), required) qp1 b' \<le> length (buf_bytes qp b') \<and>
         take (kept (tb, required) qp b') (buf_bytes qp1 b') = take (kept (tb, required) qp b') (buf_bytes qp b')"
        by (simp add: kept_def)
    qed
    moreover have "qp_wf qp1" using assms(1) by (simp add: r qp_wf_def Let_def pool_len_def)
    moreover have "cur_ok ((b, off), required) qp1" using new True by (simp add: cur_ok_def r(1,2))
    ultimately show ?thesis using new r(3) by (simp add: step_def same_param_def r(2))
  qed
  then show "step i (tb, required) qp ((b, off), required) qp1" and "off + n + 1 \<le> length (buf_bytes qp1 b)"
    and "qp_values qp1 = qp_values qp" "qp_lengths qp1 = qp_lengths qp" "qp_heap_pool qp1 = qp_heap_pool qp" by blast+
qed

text \<open>Bytes stored at the cursor move it.\<close>

lemma store_step:
  assumes s: "step i cur qp ((b, off), required) qp1" and fits: "off + length bs \<le> length (buf_bytes qp1 b)"
  obtains qp2 where "store_buf b off bs qp1 = Inr qp2" and "step i cur qp ((b, off + length bs), required + length bs) qp2"
    and "drop off (buf_bytes qp2 b) = bs @ drop (off + length bs) (buf_bytes qp1 b)"
    and "take off (buf_bytes qp2 b) = take off (buf_bytes qp1 b)"
    and "length (buf_bytes qp2 b) = length (buf_bytes qp1 b)" "valid_buf qp2 b"
    and "qp_values qp2 = qp_values qp1" "qp_lengths qp2 = qp_lengths qp1"
proof -
  have wf: "qp_wf qp1" and cur: "cur_ok ((b, off), required) qp1" using s by (auto simp: step_def)
  then have v: "valid_buf qp1 b" and mp: "b = Memory_pool \<and> qp_heap_pool qp1 = None \<longrightarrow>
      required_pool_size (qp_with_types qp1) (length (qp_values qp1)) \<le> off" by (auto simp: cur_ok_def)
  obtain qp2 where q: "store_buf b off bs qp1 = Inr qp2"
    "buf_bytes qp2 b = overwrite off bs (buf_bytes qp1 b)"
    "\<And>b'. b' \<noteq> b \<Longrightarrow> buf_bytes qp2 b' = buf_bytes qp1 b'" "\<And>b'. valid_buf qp2 b' = valid_buf qp1 b'"
    "qp_values qp2 = qp_values qp1" "qp_lengths qp2 = qp_lengths qp1" "qp_formats qp2 = qp_formats qp1"
    "qp_types qp2 = qp_types qp1" "qp_typemap qp2 = qp_typemap qp1" "qp_enc_idx qp2 = qp_enc_idx qp1"
    "qp_with_types qp2 = qp_with_types qp1" "qp_heap_pool qp2 = qp_heap_pool qp1" "qp_wf qp2"
    by (rule store_buf_ok [OF wf v fits mp]) blast
  have len: "length (buf_bytes qp2 b') = length (buf_bytes qp1 b')" for b'
    using q(2,3) fits by (cases "b' = b") auto
  have cur2: "cur_ok ((b, off + length bs), required + length bs) qp2"
    using cur fits mp by (auto simp: cur_ok_def len q)
  have "extends cur qp ((b, off + length bs), required + length bs) qp2"
    unfolding extends_def
  proof (intro allI impI)
    fix b' assume "valid_buf qp b'"
    then have e: "valid_buf qp1 b'" "length (buf_bytes qp1 b') = length (buf_bytes qp b')"
      "kept cur qp b' \<le> kept ((b, off), required) qp1 b'" "kept ((b, off), required) qp1 b' \<le> length (buf_bytes qp b')"
      "take (kept cur qp b') (buf_bytes qp1 b') = take (kept cur qp b') (buf_bytes qp b')"
      using s by (auto simp: step_def extends_def)
    show "valid_buf qp2 b' \<and> length (buf_bytes qp2 b') = length (buf_bytes qp b') \<and>
         kept cur qp b' \<le> kept ((b, off + length bs), required + length bs) qp2 b' \<and>
         kept ((b, off + length bs), required + length bs) qp2 b' \<le> length (buf_bytes qp b') \<and>
         take (kept cur qp b') (buf_bytes qp2 b') = take (kept cur qp b') (buf_bytes qp b')"
    proof (cases "b' = b")
      case True
      with e fits show ?thesis by (auto simp: kept_def len q take_overwrite)
    next
      case False
      with e show ?thesis by (auto simp: kept_def len q)
    qed
  qed
  then have "step i cur qp ((b, off + length bs), required + length bs) qp2"
    using s q cur2 by (auto simp: step_def same_param_def)
  then show thesis
    using that [OF q(1)] q fits v len by (simp add: drop_overwrite take_overwrite)
qed

definition stored :: "nat \<Rightarrow> cursor \<Rightarrow> query_params_data \<Rightarrow> bytes option \<Rightarrow> (cursor \<times> query_params_data) res \<Rightarrow> bool" where
  "stored i cur qp text r \<longleftrightarrow> (\<exists>cur' qp'. r = Inr (cur', qp') \<and> step i cur qp cur' qp' \<and> settled cur' qp' i \<and>
     libpq_param qp' i = Inr (qp_formats qp ! i, qp_types qp ! i, text))"

lemma StringValueCStr_str:
  "rb_api_ok rb \<Longrightarrow> StringValueCStr rb v = Inr s \<Longrightarrow> is_str s \<and> 0 \<notin> set (str_bytes s)"
  by (auto simp: StringValueCStr_def rbind_Inr_iff dest: rb_api_okD split: if_splits)

lemma takeWhile_no_nul: "0 \<notin> set bs \<Longrightarrow> takeWhile (\<lambda>c. c \<noteq> 0) (bs @ 0 # r) = (bs :: bytes)"
  by (induction bs) auto

lemma takeWhile_to_nul: "takeWhile (\<lambda>c. c \<noteq> 0) (bs @ 0 # r) = takeWhile (\<lambda>c. c \<noteq> 0) (bs :: bytes)"
  by (induction bs) auto

lemma store_string:
  assumes "qp_wf qp" "i < length (qp_values qp)" "cur_ok cur qp" "is_str s"
    and "qp_formats qp ! i = 0 \<longrightarrow> 0 \<notin> set (str_bytes s)"
    and "r = rbind (store_value i (String_ptr s) (gc_push s v qp)) (\<lambda>qp.
             rbind (RSTRING_LENINT s) (\<lambda>l. rbind (store_length i l qp) (\<lambda>qp. Inr (cur, qp))))"
  shows "case RSTRING_LENINT s of Inl e \<Rightarrow> r = Inl e | Inr _ \<Rightarrow> stored i cur qp (Some (str_bytes s)) r"
proof (cases "RSTRING_LENINT s")
  case (Inl e)
  then show ?thesis using assms stores_ok(1) [of "gc_push s v qp" i] by simp
next
  case (Inr l)
  let ?g = "gc_push s v qp"
  let ?q = "?g\<lparr> qp_values := (qp_values ?g)[i := String_ptr s], qp_lengths := (qp_lengths ?g)[i := Some l] \<rparr>"
  have li: "i < length (qp_lengths qp)" using assms(1,2) by (simp add: qp_wf_def Let_def)
  have "r = Inr (cur, ?q)"
    using assms(1,2,6) Inr stores_ok(1) [of ?g i] stores_ok(2) [of "?g\<lparr> qp_values := (qp_values ?g)[i := String_ptr s] \<rparr>" i] by simp
  moreover have "step i cur qp cur ?q"
    by (rule step_slot [OF step_gc_push [OF step_refl] refl]) (use assms in auto)
  moreover have "settled cur ?q i" using assms(2) by (simp add: settled_def)
  moreover have "l = int (length (str_bytes s))" using Inr by (simp add: RSTRING_LENINT_def split: if_splits)
  ultimately show ?thesis using Inr assms(2,5) li
    by (auto simp: stored_def libpq_param_def read_param_def takeWhile_no_nul)
qed

lemma store_bytes:
  assumes "qp_wf qp" "i < length (qp_values qp)" "cur_ok (tb, required) qp" "length bs \<le> n"
    and "(if QUERYDATA_BUFFER_SIZE < required + n + 1 then alloc_typecast_buf (n + 1) qp else (tb, qp)) = ((b, off), qp1)"
    and "r = rbind (store_buf b off bs qp1) (\<lambda>qp.
             rbind (store_value i (Buf_ptr b off) qp) (\<lambda>qp.
               if qp_formats qp ! i = 0 then
                 rbind (store_buf b (off + length bs) [0] qp) (\<lambda>qp.
                   Inr (((b, off + (length bs + 1)), required + (length bs + 1)), qp))
               else
                 rbind (store_length i (int (length bs)) qp) (\<lambda>qp.
                   Inr (((b, off + length bs), required + length bs), qp))))"
  shows "stored i (tb, required) qp (Some (if qp_formats qp ! i = 0 then takeWhile (\<lambda>c. c \<noteq> 0) bs else bs)) r"
proof -
  note rm = room(1) [OF assms(1,3,5), of i] room(2) [OF assms(1,3,5)]
  have "off + length bs \<le> length (buf_bytes qp1 b)" using rm(2) assms(4) by simp
  from store_step [OF rm(1) this] obtain qp2 where q2: "store_buf b off bs qp1 = Inr qp2"
    "step i (tb, required) qp ((b, off + length bs), required + length bs) qp2"
    "drop off (buf_bytes qp2 b) = bs @ drop (off + length bs) (buf_bytes qp1 b)"
    "take off (buf_bytes qp2 b) = take off (buf_bytes qp1 b)"
    "length (buf_bytes qp2 b) = length (buf_bytes qp1 b)" "valid_buf qp2 b"
    "qp_values qp2 = qp_values qp1" "qp_lengths qp2 = qp_lengths qp1" by blast
  let ?q = "qp2\<lparr> qp_values := (qp_values qp2)[i := Buf_ptr b off] \<rparr>"
  have q: "qp_wf qp2" "length (qp_values qp2) = length (qp_values qp)" "qp_formats qp2 = qp_formats qp"
    "qp_types qp2 = qp_types qp" "length (qp_lengths qp2) = length (qp_values qp)"
    using q2(2) by (auto simp: step_def qp_wf_def Let_def)
  have sv: "store_value i (Buf_ptr b off) qp2 = Inr ?q" using stores_ok(1) q assms(2) by simp
  have step3: "step i (tb, required) qp ((b, off + length bs), required + length bs) ?q"
    by (rule step_slot [OF q2(2), where v = "Buf_ptr b off" and l = "qp_lengths qp2"]) simp_all
  show ?thesis
  proof (cases "qp_formats qp ! i = 0")
    case True
    have "off + length bs + length [0 :: byte] \<le> length (buf_bytes ?q b)" using rm(2) assms(4) q2(5) by simp
    from store_step [OF step3 this] obtain qp4 where q4: "store_buf b (off + length bs) [0] ?q = Inr qp4"
      "step i (tb, required) qp ((b, off + length bs + length [0 :: byte]), required + length bs + length [0 :: byte]) qp4"
      "drop (off + length bs) (buf_bytes qp4 b) = [0] @ drop (off + length bs + length [0 :: byte]) (buf_bytes ?q b)"
      "take (off + length bs) (buf_bytes qp4 b) = take (off + length bs) (buf_bytes ?q b)"
      "length (buf_bytes qp4 b) = length (buf_bytes ?q b)" "valid_buf qp4 b"
      "qp_values qp4 = qp_values ?q" "qp_lengths qp4 = qp_lengths ?q" by blast
    have mem: "drop off (buf_bytes qp4 b) = bs @ 0 # drop (off + length bs + 1) (buf_bytes qp2 b)"
    proof -
      have "drop off (buf_bytes qp4 b) = drop off (take (off + length bs) (buf_bytes qp4 b) @ drop (off + length bs) (buf_bytes qp4 b))"
        by simp
      also have "\<dots> = drop off (take (off + length bs) (buf_bytes qp2 b)) @ 0 # drop (off + length bs + 1) (buf_bytes qp2 b)"
        unfolding q4(3,4) using rm(2) assms(4) q2(5) by simp
      also have "drop off (take (off + length bs) (buf_bytes qp2 b)) = take (length bs) (drop off (buf_bytes qp2 b))"
        by (simp add: take_drop add.commute)
      also have "\<dots> = bs" by (simp add: q2(3))
      finally show ?thesis .
    qed
    have f4: "qp_formats qp4 = qp_formats qp" "qp_types qp4 = qp_types qp" using q4(2) by (auto simp: step_def)
    have "length (buf_bytes qp4 b) = length (buf_bytes qp1 b)" using q4(5) q2(5) by simp
    then have "settled ((b, off + (length bs + 1)), required + (length bs + 1)) qp4 i"
      using q4(6,7) assms(2) q True rm(2) assms(4) mem f4
      by (auto simp: settled_def kept_def intro!: exI [of _ "length bs + 1"])
    moreover have "libpq_param qp4 i = Inr (qp_formats qp ! i, qp_types qp ! i, Some (takeWhile (\<lambda>c. c \<noteq> 0) bs))"
      using q4(7) assms(2) q True mem f4 by (simp add: libpq_param_def read_param_def takeWhile_to_nul)
    ultimately show ?thesis using q2(1) sv q4(1,2) q True assms(6) by (simp add: stored_def add.assoc)
  next
    case False
    let ?q4 = "?q\<lparr> qp_lengths := (qp_lengths ?q)[i := Some (int (length bs))] \<rparr>"
    have "store_length i (int (length bs)) ?q = Inr ?q4" using stores_ok(2) [of ?q i] q assms(2) by simp
    moreover have "step i (tb, required) qp ((b, off + length bs), required + length bs) ?q4"
      by (rule step_slot [OF q2(2), where v = "Buf_ptr b off" and l = "(qp_lengths ?q)[i := Some (int (length bs))]"]) simp_all
    moreover have "settled ((b, off + length bs), required + length bs) ?q4 i"
      using q q2(5,6) assms(2,4) False rm(2) by (auto simp: settled_def kept_def intro!: exI [of _ "length bs"])
    moreover have "libpq_param ?q4 i = Inr (qp_formats qp ! i, qp_types qp ! i, Some bs)"
      using q q2(3,5) assms(2,4) rm(2) False by (simp add: libpq_param_def read_param_def)
    ultimately show ?thesis using q2(1) sv q False assms(6) by (simp add: stored_def)
  qed
qed

lemma param_store_ok:
  assumes rb: "rb_api_ok rb" and tp: "two_pass (pg_coder_enc_func rb conv)"
    and wf: "qp_wf qp" "i < length (qp_values qp)" "cur_ok cur qp"
  shows "case param_text rb (qp_enc_idx qp) conv (qp_formats qp ! i) v of
      Inl e \<Rightarrow> param_store rb i conv v cur qp = Inl e
    | Inr text \<Rightarrow> stored i cur qp text (param_store rb i conv v cur qp)"
proof -
  obtain tb required where cur: "cur = (tb, required)" by (cases cur)
  let ?enc = "pg_coder_enc_func rb conv"
  consider "v = Qnil" | e where "v \<noteq> Qnil" "?enc v False Qnil (qp_enc_idx qp) = Inl e"
    | n bs im where "v \<noteq> Qnil" "?enc v False Qnil (qp_enc_idx qp) = Inr (n, bs, im)"
    by (cases "?enc v False Qnil (qp_enc_idx qp)") auto
  then show ?thesis
  proof cases
    case 1
    let ?q = "qp\<lparr> qp_values := (qp_values qp)[i := NULL_ptr], qp_lengths := (qp_lengths qp)[i := Some 0] \<rparr>"
    have "param_store rb i conv v cur qp = Inr (cur, ?q)"
      using 1 wf stores_ok(1) [of qp i] stores_ok(2) [of "qp\<lparr> qp_values := (qp_values qp)[i := NULL_ptr] \<rparr>" i]
      by (simp add: param_store_def cur)
    moreover have "step i cur qp cur ?q" by (rule step_slot [OF step_refl refl]) (use wf in auto)
    ultimately show ?thesis using 1 wf(2) by (simp add: param_text_def stored_def settled_def libpq_param_def)
  next
    case 2
    then show ?thesis by (simp add: param_text_def param_store_def cur)
  next
    case 3
    show ?thesis
    proof (cases "n = - 1")
      case True
      let ?s = "if qp_formats qp ! i = 0 then StringValueCStr rb im else Inr im"
      show ?thesis
      proof (cases ?s)
        case (Inl e)
        with 3 True show ?thesis by (simp add: param_text_def param_store_def cur)
      next
        case (Inr s)
        have "is_str im" using two_pass.first_out [OF tp 3(2)] True by auto
        then have s: "is_str s" "qp_formats qp ! i = 0 \<longrightarrow> 0 \<notin> set (str_bytes s)"
          using Inr StringValueCStr_str [OF rb] by (auto split: if_splits)
        have "case RSTRING_LENINT s of Inl e \<Rightarrow> param_store rb i conv v cur qp = Inl e
            | Inr _ \<Rightarrow> stored i cur qp (Some (str_bytes s)) (param_store rb i conv v cur qp)"
          by (rule store_string [OF wf s]) (use 3 True Inr s in \<open>simp add: param_store_def cur\<close>)
        then show ?thesis using 3 True Inr by (cases "RSTRING_LENINT s") (simp_all add: param_text_def)
      qed
    next
      case False
      obtain b off qp1 where al: "(if QUERYDATA_BUFFER_SIZE < required + nat n + 1 then alloc_typecast_buf (nat n + 1) qp else (tb, qp))
          = ((b, off), qp1)" by (metis surj_pair)
      have "qp_enc_idx qp1 = qp_enc_idx qp" using room(1) [OF wf(1) wf(3) [unfolded cur] al] by (simp add: step_def)
      then have ps: "param_store rb i conv v cur qp =
          rbind (?enc v True im (qp_enc_idx qp)) (\<lambda>(len, bs, _).
           rbind (store_buf b off bs qp1) (\<lambda>qp.
           rbind (store_value i (Buf_ptr b off) qp) (\<lambda>qp.
             if qp_formats qp ! i = 0 then
               rbind (store_buf b (off + nat len) [0] qp) (\<lambda>qp.
                 Inr (((b, off + (nat len + 1)), required + (nat len + 1)), qp))
             else
               rbind (store_length i len qp) (\<lambda>qp.
                 Inr (((b, off + nat len), required + nat len), qp)))))"
        using 3 False al by (simp add: param_store_def cur)
      show ?thesis
      proof (cases "?enc v True im (qp_enc_idx qp)")
        case (Inl e)
        with 3 False ps show ?thesis by (simp add: param_text_def)
      next
        case (Inr r)
        obtain k bs' im' where r: "r = (k, bs', im')" by (cases r)
        have k: "k = int (length bs')" "k \<le> n"
          using two_pass.second_call(2) [OF tp 3(2) False Inr [unfolded r]] by auto
        then have le: "length bs' \<le> nat n" by linarith
        have "stored i (tb, required) qp (Some (if qp_formats qp ! i = 0 then takeWhile (\<lambda>c. c \<noteq> 0) bs' else bs'))
            (param_store rb i conv v cur qp)"
          by (rule store_bytes [OF wf(1,2) wf(3) [unfolded cur] le al]) (use ps Inr r k in \<open>simp cong: if_cong\<close>)
        then show ?thesis using 3 False Inr r by (simp add: param_text_def cur)
      qed
    qed
  qed
qed

section \<open>All parameters\<close>

lemma loop_ok:
  assumes rb: "rb_api_ok rb" and tm: "answers_good tm"
  shows "qp_wf qp \<Longrightarrow> cur_ok cur qp \<Longrightarrow> i + length ps = length (qp_values qp) \<Longrightarrow> \<forall>j<i. settled cur qp j \<Longrightarrow>
    encoders_good (qp_typemap qp) \<Longrightarrow>
    case query_params_spec rb tm hash (qp_with_types qp) (qp_enc_idx qp) (qp_typemap qp) i ps of
      Inl e \<Rightarrow> query_params_loop rb tm hash i ps cur qp = Inl e
    | Inr r \<Rightarrow> (\<exists>qp'. query_params_loop rb tm hash i ps cur qp = Inr qp' \<and>
        map_res (libpq_param qp') [i..<length (qp_values qp)] = Inr r \<and> (\<forall>j<i. libpq_param qp' j = libpq_param qp j) \<and>
        encoders_good (qp_typemap qp'))"
proof (induction ps arbitrary: i cur qp)
  case (Cons p ps)
  let ?spec = "query_params_spec rb tm hash (qp_with_types qp) (qp_enc_idx qp)"
  have i: "i < length (qp_values qp)" using Cons.prems(3) by simp
  note pc = param_conv_ok [OF Cons.prems(1) i, of rb tm hash p]
  show ?case
  proof (cases "typecast_query_param tm (qp_typemap qp) p (int i)")
    case (Inl e)
    with pc show ?thesis by simp
  next
    case (Inr r)
    obtain conv T where r: "r = (conv, T)" by (cases r)
    have good: "good_coder conv" "encoders_good T" using query_param_good [OF tm Inr [unfolded r] Cons.prems(5)] by auto
    show ?thesis
    proof (cases "param_choice rb hash (qp_with_types qp) conv p")
      case (Inl e)
      with pc Inr r show ?thesis by simp
    next
      case (Inr x)
      obtain f t v where x: "x = (f, t, v)" by (cases x)
      let ?q = "qp\<lparr> qp_typemap := T, qp_formats := (qp_formats qp)[i := f], qp_types := (qp_types qp)[i := t] \<rparr>"
      note tc = \<open>typecast_query_param tm (qp_typemap qp) p (int i) = Inr r\<close> [unfolded r]
      have t0: "\<not> qp_with_types qp \<longrightarrow> t = 0"
        using Inr x by (auto simp: param_choice_def rbind_Inr_iff split: option.splits if_splits)
      have bufs: "buf_bytes ?q = buf_bytes qp" "valid_buf ?q = valid_buf qp" "kept cur ?q = kept cur qp"
        by (auto simp: buf_bytes_def valid_buf_def kept_def fun_eq_iff split: buf.splits prod.splits)
      have wfq: "qp_wf ?q" using Cons.prems(1) t0 i
        by (auto simp: qp_wf_def Let_def pool_len_def intro!: nth_equalityI simp: nth_list_update)
      have curq: "cur_ok cur ?q" using Cons.prems(2) by (auto simp: cur_ok_def bufs split: prod.splits)
      have sq: "settled cur ?q j \<and> libpq_param ?q j = libpq_param qp j" if "j < i" for j
      proof -
        have "same_param qp ?q j" using that by (simp add: same_param_def)
        moreover have "extends cur qp cur ?q" using extends_refl [OF Cons.prems(2)] by (simp add: extends_def bufs)
        moreover have "settled cur qp j" using that Cons.prems(4) by simp
        ultimately show ?thesis using settled_extends by blast
      qed
      have iq: "i < length (qp_values ?q)" using i by simp
      have fti: "qp_formats ?q ! i = f" "qp_types ?q ! i = t" using Cons.prems(1) i by (auto simp: qp_wf_def Let_def)
      note st = param_store_ok [OF rb two_pass_enc_func [OF rb good(1)] wfq iq curq, of v, unfolded fti]
      have lp: "query_params_loop rb tm hash i (p # ps) cur qp = rbind (param_store rb i conv v cur ?q) (\<lambda>(cur, qp).
          query_params_loop rb tm hash (i + 1) ps cur qp)"
        using pc Inr x tc by simp
      show ?thesis
      proof (cases "param_text rb (qp_enc_idx qp) conv f v")
        case (Inl e)
        with st lp tc Inr x show ?thesis by simp
      next
        case (Inr tx)
        with st obtain cur' qp' where s: "param_store rb i conv v cur ?q = Inr (cur', qp')" "step i cur ?q cur' qp'"
          "settled cur' qp' i" "libpq_param qp' i = Inr (f, t, tx)"
          unfolding stored_def fti by auto
        have q': "qp_wf qp'" "cur_ok cur' qp'" "length (qp_values qp') = length (qp_values qp)" "qp_typemap qp' = T"
          "qp_enc_idx qp' = qp_enc_idx qp" "qp_with_types qp' = qp_with_types qp" "extends cur ?q cur' qp'"
          "\<And>j. j \<noteq> i \<Longrightarrow> same_param ?q qp' j"
          using s(2) by (auto simp: step_def)
        have old: "settled cur' qp' j \<and> libpq_param qp' j = libpq_param qp j" if "j < i" for j
          using settled_extends [OF conjunct1 [OF sq [OF that]] q'(7) q'(8)] sq [OF that] that by simp
        have all: "\<forall>j<i + 1. settled cur' qp' j" using old s(3) by (auto simp: less_Suc_eq)
        have IH: "case ?spec T (i + 1) ps of
            Inl e \<Rightarrow> query_params_loop rb tm hash (i + 1) ps cur' qp' = Inl e
          | Inr r \<Rightarrow> (\<exists>qp''. query_params_loop rb tm hash (i + 1) ps cur' qp' = Inr qp'' \<and>
              map_res (libpq_param qp'') [i + 1..<length (qp_values qp)] = Inr r \<and>
              (\<forall>j<i + 1. libpq_param qp'' j = libpq_param qp' j) \<and> encoders_good (qp_typemap qp''))"
          using Cons.IH [OF q'(1,2) _ all, unfolded q'] Cons.prems(3) good(2) by simp
        have spec: "?spec (qp_typemap qp) i (p # ps) = rbind (?spec T (i + 1) ps) (\<lambda>r. Inr ((f, t, tx) # r))"
          using tc \<open>param_choice rb hash (qp_with_types qp) conv p = Inr x\<close> x Inr by simp
        show ?thesis
        proof (cases "?spec T (i + 1) ps")
          case (Inl e)
          with IH spec lp s(1) show ?thesis by simp
        next
          case (Inr r')
          with IH obtain qp'' where q'': "query_params_loop rb tm hash (i + 1) ps cur' qp' = Inr qp''"
            "map_res (libpq_param qp'') [i + 1..<length (qp_values qp)] = Inr r'"
            "\<forall>j<i + 1. libpq_param qp'' j = libpq_param qp' j" "encoders_good (qp_typemap qp'')" by auto
          have "map_res (libpq_param qp'') [i..<length (qp_values qp)] = Inr ((f, t, tx) # r')"
            using q''(2,3) s(4) i by (simp add: upt_conv_Cons)
          with q''(1,3,4) spec lp s(1) Inr old show ?thesis by simp
        qed
      qed
    qed
  qed
qed simp

lemma alloc_query_params_spec:
  assumes "rb_api_ok rb" "answers_good tm" "encoders_good (qp_typemap qp)" "qp_params qp = RArray ps"
    and "length (qp_memory_pool qp) = QUERYDATA_BUFFER_SIZE"
  shows "rbind (alloc_query_params rb tm hash qp) (\<lambda>(n, qp'). map_res (libpq_param qp') [0..<n]) =
    rbind (fit_to_query tm (qp_typemap qp) (qp_params qp)) (\<lambda>_.
      query_params_spec rb tm hash (qp_with_types qp) (qp_enc_idx qp) (qp_typemap qp) 0 ps) \<and>
    (\<forall>n qp'. alloc_query_params rb tm hash qp = Inr (n, qp') \<longrightarrow> encoders_good (qp_typemap qp'))"
proof (cases "fit_to_query tm (qp_typemap qp) (qp_params qp)")
  case (Inr u)
  let ?n = "length ps"
  let ?req = "required_pool_size (qp_with_types qp) ?n"
  obtain hp r0 where hp: "(if QUERYDATA_BUFFER_SIZE < ?req then (Some ?req, 0) else (None, ?req)) = (hp, r0)"
    by (metis surj_pair)
  let ?q = "qp\<lparr> qp_heap_pool := hp, qp_values := replicate ?n NULL_ptr,
                  qp_lengths := replicate ?n None, qp_formats := replicate ?n 0,
                  qp_types := replicate ?n 0, qp_gc_array := None, qp_typecast_heap_chain := None \<rparr>"
  have al: "alloc_query_params rb tm hash qp =
      rbind (query_params_loop rb tm hash 0 ps ((Memory_pool, r0), r0) ?q) (\<lambda>qp. Inr (?n, qp))"
    using Inr assms(4) hp by (simp add: alloc_query_params_def Let_def)
  have "qp_wf ?q" using assms(5) hp by (auto simp: qp_wf_def Let_def pool_len_def split: if_splits)
  moreover have "cur_ok ((Memory_pool, r0), r0) ?q"
    using assms(5) hp by (auto simp: cur_ok_def valid_buf_def buf_bytes_def split: if_splits)
  ultimately have "case query_params_spec rb tm hash (qp_with_types qp) (qp_enc_idx qp) (qp_typemap qp) 0 ps of
      Inl e \<Rightarrow> query_params_loop rb tm hash 0 ps ((Memory_pool, r0), r0) ?q = Inl e
    | Inr r \<Rightarrow> (\<exists>qp'. query_params_loop rb tm hash 0 ps ((Memory_pool, r0), r0) ?q = Inr qp' \<and>
        map_res (libpq_param qp') [0..<?n] = Inr r \<and> encoders_good (qp_typemap qp'))"
    using loop_ok [OF assms(1,2), of ?q "((Memory_pool, r0), r0)" 0 ps hash] assms(3)
    by (simp split: sum.splits)
  then show ?thesis using Inr al
    by (cases "query_params_spec rb tm hash (qp_with_types qp) (qp_enc_idx qp) (qp_typemap qp) 0 ps") auto
qed (use assms(4) in \<open>simp add: alloc_query_params_def\<close>)

definition hashes_safe :: "rb_hashes \<Rightarrow> bool" where
  "hashes_safe hash \<longleftrightarrow> (\<forall>v aref k. hash v = Some aref \<longrightarrow> safe (aref k))"

lemma param_choice_safe: "hashes_safe hash \<Longrightarrow> safe (param_choice rb hash w conv v)"
  by (auto simp: param_choice_def hashes_safe_def num2uint_def intro!: safe_rbind safe_num2 split: option.split rvalue.split)

lemma param_text_safe:
  assumes rb: "rb_api_ok rb" and tp: "two_pass (pg_coder_enc_func rb conv)"
  shows "safe (param_text rb e conv f v)"
proof -
  have *: "safe (rbind (if f = 0 then StringValueCStr rb im else Inr im) (\<lambda>s. rbind (RSTRING_LENINT s) (\<lambda>_. Inr (Some (str_bytes s)))))"
    for im
    by (auto simp: StringValueCStr_def RSTRING_LENINT_def intro!: safe_rbind rb_api_okD(4) [OF rb])
  have "safe (case r of (n, _, im) \<Rightarrow> if n = - 1
      then rbind (if f = 0 then StringValueCStr rb im else Inr im) (\<lambda>s. rbind (RSTRING_LENINT s) (\<lambda>_. Inr (Some (str_bytes s))))
      else rbind (pg_coder_enc_func rb conv v True im e) (\<lambda>(k, bs, _). Inr (Some (if f = 0 then takeWhile (\<lambda>c. c \<noteq> 0) bs else bs))))"
    if "pg_coder_enc_func rb conv v False Qnil e = Inr r" for r
  proof -
    obtain n bs im where "r = (n, bs, im)" by (cases r)
    then show ?thesis using that two_pass.second_call(1) [OF tp, of v Qnil e n bs im] *
      by (auto intro!: safe_rbind split: prod.splits)
  qed
  then show ?thesis unfolding param_text_def by (auto intro!: safe_rbind two_pass.first_safe [OF tp])
qed

lemma query_params_spec_safe:
  assumes rb: "rb_api_ok rb" and tm: "tm_api_ok tm" "answers_good tm" and hash: "hashes_safe hash"
  shows "columns_fit n T \<Longrightarrow> encoders_good T \<Longrightarrow> i + length ps \<le> n \<Longrightarrow> safe (query_params_spec rb tm hash w e T i ps)"
proof (induction ps arbitrary: i T)
  case (Cons p ps)
  have tc: "safe (typecast_query_param tm T p (int i))" using Cons.prems by (intro query_param_safe [OF tm(1)]) auto
  show ?case unfolding query_params_spec.simps
  proof (rule safe_rbind [OF tc])
    fix x assume x: "typecast_query_param tm T p (int i) = Inr x"
    obtain conv T' where x': "x = (conv, T')" by (cases x)
    have g: "columns_fit n T'" "good_coder conv" "encoders_good T'"
      using query_param_columns x x' Cons.prems(1) query_param_good [OF tm(2) x [unfolded x'] Cons.prems(2)] by blast+
    have "safe (query_params_spec rb tm hash w e T' (i + 1) ps)" using Cons.IH [OF g(1,3)] Cons.prems(3) by simp
    then show "safe (case x of (conv, T) \<Rightarrow> rbind (param_choice rb hash w conv p) (\<lambda>(format, t, v).
       rbind (param_text rb e conv format v) (\<lambda>text. rbind (query_params_spec rb tm hash w e T (i + 1) ps)
         (\<lambda>r. Inr ((format, t, text) # r)))))"
      using param_text_safe [OF rb two_pass_enc_func [OF rb g(2)]] param_choice_safe [OF hash]
      by (auto simp: x' intro!: safe_rbind)
  qed
qed simp

section \<open>Properties\<close>

text \<open>Claim C2. The parameters of a query arrive at libpq as their coders encode them. Whatever the number and
  the sizes of the parameters, \<open>alloc_query_params\<close> never stores outside of the stack pool, the heap pool and the
  chunks it allocates, nor into the arrays at the head of the pool; and what libpq reads through the arrays of pointers,
  lengths, formats and types afterwards is, for each parameter, the format, OID and text of its coder (or of
  the Hash it is given as), and no later parameter overwrites an earlier one. An exception is the
  first one that a type map or coder raises.\<close>

theorem query_params_delivered:
  assumes "rb_api_ok rb" and "tm_api_ok tm" and "answers_good tm" and "hashes_safe hash"
    and "encoders_good (qp_typemap qp)" and "qp_params qp = RArray ps"
    and "length (qp_memory_pool qp) = QUERYDATA_BUFFER_SIZE"
  shows "safe (alloc_query_params rb tm hash qp) \<and>
    rbind (alloc_query_params rb tm hash qp) (\<lambda>(n, qp'). map_res (libpq_param qp') [0..<n]) =
    rbind (fit_to_query tm (qp_typemap qp) (qp_params qp)) (\<lambda>_.
      query_params_spec rb tm hash (qp_with_types qp) (qp_enc_idx qp) (qp_typemap qp) 0 ps)"
proof -
  note eq = conjunct1 [OF alloc_query_params_spec [OF assms(1,3,5,6,7), of hash]]
  have "safe (query_params_spec rb tm hash (qp_with_types qp) (qp_enc_idx qp) (qp_typemap qp) 0 ps)"
    if "fit_to_query tm (qp_typemap qp) (qp_params qp) = Inr ()"
    using fit_to_query_columns that assms(6) by (intro query_params_spec_safe [OF assms(1-4)]) (auto simp: assms(5))
  then have "safe (rbind (alloc_query_params rb tm hash qp) (\<lambda>(n, qp'). map_res (libpq_param qp') [0..<n]))"
    unfolding eq using fit_to_query_safe [OF assms(2)] by (auto intro!: safe_rbind)
  then have "safe (alloc_query_params rb tm hash qp)" by (auto simp: safe_iff)
  with eq show ?thesis by blast
qed

definition sample_int4_enc :: t_pg_coder where
  "sample_int4_enc = (pg_simple_encoder_allocate Qnil (Some (\<lambda>_. pg_bin_enc_int4 rb_sample)))\<lparr> coder_format := 1, coder_oid := 23 \<rparr>"

definition sample_hash :: rb_hashes where
  "sample_hash v = (if v = RObject 7 then Some (\<lambda>k. Inr (if k = ''value'' then RString (lit ''xyz'') 0
     else if k = ''type'' then RInteger 25 else Qnil)) else None)"

definition sample_params :: query_params_data where
  "sample_params = (query_params_init 0 True (RArray [RInteger 258, RString (lit ''ab'') 0, Qnil, RObject 7]))
     \<lparr> qp_typemap := TypeMapByColumn [Some sample_int4_enc, None, None, None] TypeMapAllStrings \<rparr>"

lemma good_sample_int4_enc: "good_coder (Some sample_int4_enc)"
  by (auto simp: good_coder_def sample_int4_enc_def rb_sample.bin_int4.two_pass_axioms)

theorem query_params_delivered_witness:
  "safe (alloc_query_params rb_sample tm_sample sample_hash sample_params) \<and>
   rbind (alloc_query_params rb_sample tm_sample sample_hash sample_params) (\<lambda>(n, qp'). map_res (libpq_param qp') [0..<n]) =
     Inr [(1, 23, Some [0, 0, 1, 2]), (0, 0, Some (lit ''ab'')), (0, 0, None), (0, 25, Some (lit ''xyz''))]"
proof -
  have p: "qp_params sample_params = RArray [RInteger 258, RString (lit ''ab'') 0, Qnil, RObject 7]"
    "qp_typemap sample_params = TypeMapByColumn [Some sample_int4_enc, None, None, None] TypeMapAllStrings"
    "qp_with_types sample_params" "qp_enc_idx sample_params = 0" "length (qp_memory_pool sample_params) = QUERYDATA_BUFFER_SIZE"
    by (simp_all add: sample_params_def query_params_init_def)
  have h: "hashes_safe sample_hash" by (auto simp: hashes_safe_def sample_hash_def)
  have g: "encoders_good (qp_typemap sample_params)" using good_sample_int4_enc by (simp add: p)
  show ?thesis
    using query_params_delivered [OF rb_api_ok_sample tm_api_ok_sample answers_good_sample h g p(1,5)]
    by (simp add: p pg_tmbc_fit_to_query_def tmbc_conv_def param_choice_def param_text_def sample_int4_enc_def pg_bin_enc_int4_def
        pg_obj_to_i_def write_nbo32_def pg_coder_enc_func_def pg_coder_enc_to_s_def sample_hash_def
        rb_sample_def StringValueCStr_def RSTRING_LENINT_def num2uint_def int_in_def)
qed

end
