(* ===== verification/PG_Connection.thy ===== *)
theory PG_Connection
  imports PG_Query_Params
begin

text \<open>
  \<open>ext/pg_connection.c\<close>: the state of a \<open>PG::Connection\<close>, opening, resetting and finishing it, and the methods that ask
  libpq about it. libpq, the server and the sockets are a world that the model does not look into: a libpq
  function maps the world to its answer and the next world. A method may raise, and a loop that
  waits for the server may never return: the outcome of a method is \<open>None\<close> then.
\<close>

section \<open>State\<close>

text \<open>\<open>t_pg_connection\<close>; a \<open>PGconn\<close> is an address. The procs of the notice receivers are \<open>nil\<close> or an object,
  and the C functions that libpq calls by default are known by a number.\<close>

record t_pg_connection =
  pc_pgconn :: "nat option"
  pc_socket_io :: rvalue
  pc_default_notice_receiver :: "nat option"
  pc_default_notice_processor :: "nat option"
  pc_notice_receiver :: rvalue
  pc_notice_processor :: rvalue
  pc_type_map_for_queries :: typemap
  pc_type_map_for_results :: typemap
  pc_trace_stream :: rvalue
  pc_encoder_for_put_copy_data :: "t_pg_coder option"
  pc_decoder_for_get_copy_data :: "t_pg_coder option"
  pc_enc_idx :: enc_idx
  pc_flags :: int
  pc_flush_data :: bool
  pc_ruby_sd :: int

text \<open>
  The store of a connection object: its struct and whether the object is frozen, the addresses of the
  \<open>PGconn\<close>s that are not finished, the number of blocks of C memory that the methods have allocated and not
  freed, the results, and the world.
\<close>

record 'w cst =
  cs_this :: t_pg_connection
  cs_frozen :: bool
  cs_live :: "nat set"
  cs_next :: nat
  cs_blocks :: int
  cs_rst :: rst
  cs_world :: 'w

type_synonym ('w, 'a) cop = "'w cst \<Rightarrow> ('a res \<times> 'w cst) option"

definition cret :: "'a \<Rightarrow> ('w, 'a) cop" where
  "cret x = (\<lambda>s. Some (Inr x, s))"

definition cerr :: "rb_exc \<Rightarrow> ('w, 'a) cop" where
  "cerr e = (\<lambda>s. Some (Inl e, s))"

definition clift :: "'a res \<Rightarrow> ('w, 'a) cop" where
  "clift r = (\<lambda>s. Some (r, s))"

definition cbind :: "('w, 'a) cop \<Rightarrow> ('a \<Rightarrow> ('w, 'b) cop) \<Rightarrow> ('w, 'b) cop" where
  "cbind m f = (\<lambda>s. case m s of None \<Rightarrow> None | Some (Inl e, s') \<Rightarrow> Some (Inl e, s') | Some (Inr x, s') \<Rightarrow> f x s')"

text \<open>A method of the results, run in the store of the connection.\<close>

definition on_results :: "'a rop \<Rightarrow> ('w, 'a) cop" where
  "on_results m = (\<lambda>s. let (r, t) = m (cs_rst s) in Some (r, s\<lparr> cs_rst := t \<rparr>))"

lemma cbind_mono [partial_function_mono]:
  fixes B :: "('x \<Rightarrow> 'y option) \<Rightarrow> ('w, 'a) cop" and C :: "'a \<Rightarrow> ('x \<Rightarrow> 'y option) \<Rightarrow> ('w, 'b) cop"
  assumes "mono_option (\<lambda>f. B f s)" and "\<And>y s'. mono_option (\<lambda>f. C y f s')"
  shows "mono_option (\<lambda>f. cbind (B f) (\<lambda>y. C y f) s)"
  unfolding monotone_def
proof (intro allI impI)
  fix x y :: "'x \<Rightarrow> 'y option" assume le: "option.le_fun x y"
  have B: "option_ord (B x s) (B y s)" using assms(1) le unfolding monotone_def by blast
  have C: "option_ord (C v x s') (C v y s')" for v s' using assms(2) [of v s'] le unfolding monotone_def by blast
  show "option_ord (cbind (B x) (\<lambda>v. C v x) s) (cbind (B y) (\<lambda>v. C v y) s)"
  proof (cases "B x s")
    case (Some r)
    then have "B y s = Some r" using B by (simp add: flat_ord_def)
    then show ?thesis using Some C by (cases r; cases "fst r") (simp_all add: cbind_def flat_ord_def)
  qed (simp add: cbind_def flat_ord_def)
qed

lemma cif_mono [partial_function_mono]:
  assumes "mono_option (\<lambda>f. B f s)" "mono_option (\<lambda>f. C f s)"
  shows "mono_option (\<lambda>f. (if b then B f else C f) s)"
  using assms by (cases b) simp_all

lemma ccase_option_mono [partial_function_mono]:
  assumes "mono_option (\<lambda>f. B f s)" "\<And>y. mono_option (\<lambda>f. C y f s)"
  shows "mono_option (\<lambda>f. (case x of None \<Rightarrow> B f | Some y \<Rightarrow> C y f) s)"
  using assms by (cases x) simp_all

text \<open>\<open>rb_ensure(m, c)\<close> runs the second function also after an exception of the first.\<close>

definition rb_ensure :: "('w, 'a) cop \<Rightarrow> ('w, unit) cop \<Rightarrow> ('w, 'a) cop" where
  "rb_ensure m c = (\<lambda>s. case m s of None \<Rightarrow> None
     | Some (r, s') \<Rightarrow> (case c s' of None \<Rightarrow> None | Some (Inl e, s'') \<Rightarrow> Some (Inl e, s'') | Some (Inr _, s'') \<Rightarrow> Some (r, s'')))"

text \<open>\<open>rb_rescue\<close> turns an exception into a value; an abort or a memory fault is none.\<close>

definition rb_rescue :: "('w, 'a) cop \<Rightarrow> 'a \<Rightarrow> ('w, 'a) cop" where
  "rb_rescue m x = (\<lambda>s. case m s of Some (Inl (Raise c msg args), s') \<Rightarrow> Some (Inr x, s') | r \<Rightarrow> r)"

section \<open>Access to the connection\<close>

abbreviation conn_error :: "string \<Rightarrow> string \<Rightarrow> rb_exc" where
  "conn_error klass msg \<equiv> Raise (PGClass klass) msg []"

definition pg_raise_conn_error :: "rb_class \<Rightarrow> string \<Rightarrow> ('w, 'a) cop" where
  "pg_raise_conn_error klass format = cerr (Raise klass format [])"

abbreviation closed_error :: rb_exc where
  "closed_error \<equiv> Raise (PGClass ''ConnectionBad'') ''connection is closed'' []"

definition pg_get_connection :: "('w, t_pg_connection) cop" where
  "pg_get_connection = (\<lambda>s. Some (Inr (cs_this s), s))"

definition upd_conn :: "(t_pg_connection \<Rightarrow> t_pg_connection) \<Rightarrow> ('w, unit) cop" where
  "upd_conn f = (\<lambda>s. Some (Inr (), s\<lparr> cs_this := f (cs_this s) \<rparr>))"

definition rb_check_frozen :: "('w, unit) cop" where
  "rb_check_frozen = (\<lambda>s. Some (if cs_frozen s then Inl frozen_error else Inr (), s))"

definition pg_get_pgconn :: "('w, nat) cop" where
  "pg_get_pgconn = cbind pg_get_connection (\<lambda>this. case pc_pgconn this of
      None \<Rightarrow> pg_raise_conn_error (PGClass ''ConnectionBad'') ''connection is closed'' | Some conn \<Rightarrow> cret conn)"

definition pg_get_connection_safe :: "('w, t_pg_connection \<times> nat) cop" where
  "pg_get_connection_safe = cbind pg_get_connection (\<lambda>this. cbind rb_check_frozen (\<lambda>_. case pc_pgconn this of
      None \<Rightarrow> pg_raise_conn_error (PGClass ''ConnectionBad'') ''connection is closed'' | Some conn \<Rightarrow> cret (this, conn)))"

text \<open>A call of a libpq function with a \<open>PGconn\<close>: one that is finished must not be touched any more.\<close>

definition pq :: "nat \<Rightarrow> ('w \<Rightarrow> 'a \<times> 'w) \<Rightarrow> ('w, 'a) cop" where
  "pq conn f = (\<lambda>s. if conn \<in> cs_live s then let (x, w) = f (cs_world s) in Some (Inr x, s\<lparr> cs_world := w \<rparr>)
     else Some (Inl MemFault, s))"

definition pq_get :: "nat \<Rightarrow> ('w \<Rightarrow> 'a) \<Rightarrow> ('w, 'a) cop" where
  "pq_get conn f = pq conn (\<lambda>w. (f w, w))"

text \<open>A call that needs no \<open>PGconn\<close>, and C memory that is allocated and freed by hand.\<close>

definition world :: "('w \<Rightarrow> 'a res \<times> 'w) \<Rightarrow> ('w, 'a) cop" where
  "world f = (\<lambda>s. let (x, w) = f (cs_world s) in Some (x, s\<lparr> cs_world := w \<rparr>))"

definition malloc :: "('w, unit) cop" where
  "malloc = (\<lambda>s. Some (Inr (), s\<lparr> cs_blocks := cs_blocks s + 1 \<rparr>))"

definition free :: "('w, unit) cop" where
  "free = (\<lambda>s. Some (Inr (), s\<lparr> cs_blocks := cs_blocks s - 1 \<rparr>))"

definition rb_str_new2 :: "bytes option \<Rightarrow> rvalue" where
  "rb_str_new2 p = (case p of None \<Rightarrow> Qnil | Some b \<Rightarrow> RString b rb_ascii8bit_encindex)"

section \<open>The part of libpq for opening and asking a connection\<close>

text \<open>\<open>pq_io_close\<close> is \<open>IO#close\<close> of the socket object, \<open>pq_for_fd\<close> is \<open>BasicSocket.for_fd\<close> with \<open>autoclose=false\<close>, both
  of Ruby; \<open>parse_connect_args\<close> is Ruby code of the library.\<close>

record conninfo_option =
  ci_keyword :: bytes
  ci_envvar :: "bytes option"
  ci_compiled :: "bytes option"
  ci_val :: "bytes option"
  ci_label :: "bytes option"
  ci_dispchar :: "bytes option"
  ci_dispsize :: int

record 'w libpq_conn =
  parse_connect_args :: "rvalue list \<Rightarrow> rvalue res"
  pq_io_close :: "rvalue \<Rightarrow> 'w \<Rightarrow> unit res \<times> 'w"
  pq_for_fd :: "int \<Rightarrow> 'w \<Rightarrow> rvalue res \<times> 'w"
  PQconnectdb :: "bytes \<Rightarrow> 'w \<Rightarrow> bool \<times> 'w"
  PQconnectStart :: "bytes \<Rightarrow> 'w \<Rightarrow> bool \<times> 'w"
  PQping :: "bytes \<Rightarrow> 'w \<Rightarrow> int \<times> 'w"
  PQfinish :: "'w \<Rightarrow> 'w"
  PQconnectPoll :: "'w \<Rightarrow> int \<times> 'w"
  PQreset :: "'w \<Rightarrow> 'w"
  PQresetStart :: "'w \<Rightarrow> int \<times> 'w"
  PQresetPoll :: "'w \<Rightarrow> int \<times> 'w"
  PQconndefaults :: "'w \<Rightarrow> conninfo_option list option"
  PQconninfoParse :: "bytes \<Rightarrow> bytes + conninfo_option list option"
  PQconninfo :: "'w \<Rightarrow> conninfo_option list option"
  PQencryptPasswordConn :: "bytes \<Rightarrow> bytes \<Rightarrow> bytes option \<Rightarrow> 'w \<Rightarrow> bytes option \<times> 'w"
  PQencryptPassword :: "bytes \<Rightarrow> bytes \<Rightarrow> bytes option"
  PQdb :: "'w \<Rightarrow> bytes option"
  PQuser :: "'w \<Rightarrow> bytes option"
  PQpass :: "'w \<Rightarrow> bytes option"
  PQhost :: "'w \<Rightarrow> bytes option"
  PQhostaddr :: "'w \<Rightarrow> bytes option"
  PQport :: "'w \<Rightarrow> bytes option"
  PQoptions :: "'w \<Rightarrow> bytes option"
  PQstatus :: "'w \<Rightarrow> int"
  PQtransactionStatus :: "'w \<Rightarrow> int"
  PQparameterStatus :: "bytes \<Rightarrow> 'w \<Rightarrow> bytes option"
  PQprotocolVersion :: "'w \<Rightarrow> int"
  PQserverVersion :: "'w \<Rightarrow> int"
  PQerrorMessage :: "'w \<Rightarrow> bytes option"
  PQsocket :: "'w \<Rightarrow> int"
  PQbackendPID :: "'w \<Rightarrow> int"
  PQconnectionNeedsPassword :: "'w \<Rightarrow> bool"
  PQconnectionUsedPassword :: "'w \<Rightarrow> bool"
  PQsslInUse :: "'w \<Rightarrow> bool"
  PQsslAttribute :: "bytes \<Rightarrow> 'w \<Rightarrow> bytes option"
  PQsslAttributeNames :: "'w \<Rightarrow> bytes list"

section \<open>Socket objects\<close>

definition pg_unwrap_socket_io :: "('w, 'z) libpq_conn_scheme \<Rightarrow> rvalue \<Rightarrow> ('w, unit) cop" where
  "pg_unwrap_socket_io lq socket_io =
     cbind (if socket_io \<noteq> Qnil \<and> socket_io \<noteq> Qfalse then world (pq_io_close lq socket_io) else cret ()) (\<lambda>_.
       upd_conn (\<lambda>c. c\<lparr> pc_socket_io := Qnil \<rparr>))"

definition pgconn_close_socket_io :: "('w, 'z) libpq_conn_scheme \<Rightarrow> ('w, unit) cop" where
  "pgconn_close_socket_io lq = cbind pg_get_connection (\<lambda>this. pg_unwrap_socket_io lq (pc_socket_io this))"

definition pg_wrap_socket_io :: "('w, 'z) libpq_conn_scheme \<Rightarrow> int \<Rightarrow> ('w, rvalue) cop" where
  "pg_wrap_socket_io lq sd =
     cbind (upd_conn (\<lambda>c. c\<lparr> pc_ruby_sd := sd \<rparr>)) (\<lambda>_.
     cbind (world (pq_for_fd lq sd)) (\<lambda>socket_io.
     cbind (upd_conn (\<lambda>c. c\<lparr> pc_socket_io := socket_io \<rparr>)) (\<lambda>_. cret socket_io)))"

definition pgconn_socket_io :: "('w, 'z) libpq_conn_scheme \<Rightarrow> ('w, rvalue) cop" where
  "pgconn_socket_io lq =
     cbind pg_get_connection_safe (\<lambda>(this, conn).
       if pc_socket_io this = Qnil \<or> pc_socket_io this = Qfalse then
         cbind (pq_get conn (PQsocket lq)) (\<lambda>sd.
           if sd < 0 then pg_raise_conn_error (PGClass ''ConnectionBad'') ''PQsocket() can't get socket descriptor''
           else pg_wrap_socket_io lq sd)
       else cret (pc_socket_io this))"

section \<open>Opening and closing\<close>

abbreviation CONNECTION_BAD :: int where "CONNECTION_BAD \<equiv> 1"

text \<open>\<open>this->pgconn = gvl_PQconnect...(conninfo)\<close>: a new \<open>PGconn\<close>, or NULL where libpq has no memory for it.\<close>

definition assign_pgconn :: "('w \<Rightarrow> bool \<times> 'w) \<Rightarrow> ('w, nat option) cop" where
  "assign_pgconn f = (\<lambda>s. let (made, w) = f (cs_world s) in
     if made then Some (Inr (Some (cs_next s)), s\<lparr> cs_this := (cs_this s)\<lparr> pc_pgconn := Some (cs_next s) \<rparr>,
       cs_live := insert (cs_next s) (cs_live s), cs_next := cs_next s + 1, cs_world := w \<rparr>)
     else Some (Inr None, s\<lparr> cs_this := (cs_this s)\<lparr> pc_pgconn := None \<rparr>, cs_world := w \<rparr>))"

text \<open>\<open>PQfinish\<close>, which does nothing with NULL.\<close>

definition finish_pgconn :: "('w, 'z) libpq_conn_scheme \<Rightarrow> nat option \<Rightarrow> ('w, unit) cop" where
  "finish_pgconn lq conn = (case conn of
      None \<Rightarrow> cret ()
    | Some a \<Rightarrow> cbind (pq a (\<lambda>w. ((), PQfinish lq w))) (\<lambda>_ s. Some (Inr (), s\<lparr> cs_live := cs_live s - {a} \<rparr>)))"

definition connection_allocated :: t_pg_connection where
  "connection_allocated =
     \<lparr> pc_pgconn = None, pc_socket_io = Qnil, pc_default_notice_receiver = None, pc_default_notice_processor = None,
       pc_notice_receiver = Qnil, pc_notice_processor = Qnil, pc_type_map_for_queries = TypeMapAllStrings,
       pc_type_map_for_results = TypeMapAllStrings, pc_trace_stream = Qnil, pc_encoder_for_put_copy_data = None,
       pc_decoder_for_get_copy_data = None, pc_enc_idx = 0, pc_flags = 0, pc_flush_data = False, pc_ruby_sd = 0 \<rparr>"

definition pgconn_s_allocate :: "('w, unit) cop" where
  "pgconn_s_allocate = (\<lambda>s. Some (Inr (), s\<lparr> cs_this := connection_allocated, cs_frozen := False \<rparr>))"

definition pgconn_finish :: "('w, 'z) libpq_conn_scheme \<Rightarrow> ('w, rvalue) cop" where
  "pgconn_finish lq =
     cbind pg_get_connection_safe (\<lambda>(this, conn).
     cbind (pgconn_close_socket_io lq) (\<lambda>_.
     cbind (finish_pgconn lq (Some conn)) (\<lambda>_.
     cbind (upd_conn (\<lambda>c. c\<lparr> pc_pgconn := None \<rparr>)) (\<lambda>_. cret Qnil))))"

definition pgconn_gc_free :: "('w, 'z) libpq_conn_scheme \<Rightarrow> ('w, unit) cop" where
  "pgconn_gc_free lq = cbind pg_get_connection (\<lambda>this. finish_pgconn lq (pc_pgconn this))"

definition pgconn_finished_p :: "('w, rvalue) cop" where
  "pgconn_finished_p = cbind pg_get_connection (\<lambda>this. cret (if pc_pgconn this = None then Qtrue else Qfalse))"

text \<open>The connection string and the connection it opens, up to the check of its status.\<close>

definition start_connection :: "rb_api \<Rightarrow> ('w, 'z) libpq_conn_scheme \<Rightarrow> (bytes \<Rightarrow> 'w \<Rightarrow> bool \<times> 'w) \<Rightarrow> string \<Rightarrow> rvalue
    \<Rightarrow> ('w, nat) cop" where
  "start_connection rb lq connect no_memory conninfo =
     cbind (clift (StringValueCStr rb conninfo)) (\<lambda>str.
     cbind (assign_pgconn (connect (str_bytes str))) (\<lambda>r. case r of
         None \<Rightarrow> cerr (Raise PGError no_memory [])
       | Some conn \<Rightarrow>
           cbind (pq_get conn (PQstatus lq)) (\<lambda>status.
             if status = CONNECTION_BAD then pg_raise_conn_error (PGClass ''ConnectionBad'') ''%s'' else cret conn)))"

text \<open>The value of a method that was called with a block, which gets the connection, is that of the block.\<close>

definition yield_conn :: "('w, 'z) libpq_conn_scheme \<Rightarrow> ('w, rvalue) cop option \<Rightarrow> ('w, rvalue) cop" where
  "yield_conn lq block = (case block of
      Some b \<Rightarrow> rb_ensure b (cbind (pgconn_finish lq) (\<lambda>_. cret ()))
    | None \<Rightarrow> cret (RObject 0))"

definition pgconn_s_connect_start :: "rb_api \<Rightarrow> ('w, 'z) libpq_conn_scheme \<Rightarrow> ('w, rvalue) cop option \<Rightarrow> rvalue list
    \<Rightarrow> ('w, rvalue) cop" where
  "pgconn_s_connect_start rb lq block argv =
     cbind pgconn_s_allocate (\<lambda>_.
     cbind (clift (parse_connect_args lq argv)) (\<lambda>conninfo.
     cbind (start_connection rb lq (PQconnectStart lq) ''PQconnectStart() unable to allocate PGconn structure'' conninfo) (\<lambda>_.
       yield_conn lq block)))"

definition pgconn_s_sync_ping :: "rb_api \<Rightarrow> ('w, 'z) libpq_conn_scheme \<Rightarrow> rvalue list \<Rightarrow> ('w, rvalue) cop" where
  "pgconn_s_sync_ping rb lq argv =
     cbind (clift (parse_connect_args lq argv)) (\<lambda>conninfo.
     cbind (clift (StringValueCStr rb conninfo)) (\<lambda>str.
     cbind (world (\<lambda>w. let (ping, w) = PQping lq (str_bytes str) w in (Inr ping, w))) (\<lambda>ping. cret (RInteger ping))))"

definition pgconn_connect_poll :: "('w, 'z) libpq_conn_scheme \<Rightarrow> ('w, rvalue) cop" where
  "pgconn_connect_poll lq =
     cbind (pgconn_close_socket_io lq) (\<lambda>_.
     cbind pg_get_pgconn (\<lambda>conn. cbind (pq conn (PQconnectPoll lq)) (\<lambda>status. cret (RInteger status))))"

definition pgconn_sync_reset :: "('w, 'z) libpq_conn_scheme \<Rightarrow> ('w, unit) cop" where
  "pgconn_sync_reset lq =
     cbind (pgconn_close_socket_io lq) (\<lambda>_. cbind pg_get_pgconn (\<lambda>conn. pq conn (\<lambda>w. ((), PQreset lq w))))"

definition pgconn_reset_start2 :: "rb_api \<Rightarrow> ('w, 'z) libpq_conn_scheme \<Rightarrow> rvalue \<Rightarrow> ('w, rvalue) cop" where
  "pgconn_reset_start2 rb lq conninfo =
     cbind (clift (StringValueCStr rb conninfo)) (\<lambda>str.
     cbind (pgconn_close_socket_io lq) (\<lambda>_.
     cbind pg_get_connection (\<lambda>this.
     cbind (finish_pgconn lq (pc_pgconn this)) (\<lambda>_.
     cbind (upd_conn (\<lambda>c. c\<lparr> pc_pgconn := None \<rparr>)) (\<lambda>_.
     cbind (start_connection rb lq (PQconnectStart lq) ''PQconnectStart() unable to allocate PGconn structure'' str) (\<lambda>_.
       cret Qnil))))))"

definition pgconn_reset_start :: "('w, 'z) libpq_conn_scheme \<Rightarrow> ('w, rvalue) cop" where
  "pgconn_reset_start lq =
     cbind (pgconn_close_socket_io lq) (\<lambda>_.
     cbind pg_get_pgconn (\<lambda>conn.
     cbind (pq conn (PQresetStart lq)) (\<lambda>r.
       if r = 0 then pg_raise_conn_error (PGClass ''UnableToSend'') ''reset has failed'' else cret Qnil)))"

definition pgconn_reset_poll :: "('w, 'z) libpq_conn_scheme \<Rightarrow> ('w, rvalue) cop" where
  "pgconn_reset_poll lq =
     cbind (pgconn_close_socket_io lq) (\<lambda>_.
     cbind pg_get_pgconn (\<lambda>conn. cbind (pq conn (PQresetPoll lq)) (\<lambda>status. cret (RInteger status))))"

section \<open>Connection options\<close>

text \<open>An Array of Hashes, each with the keys whose value is not NULL.\<close>

definition conninfo_hash :: "conninfo_option \<Rightarrow> (string \<times> rvalue) list" where
  "conninfo_hash o' =
     (let opt = (\<lambda>k v. case v of None \<Rightarrow> [] | Some b \<Rightarrow> [(k, RString b rb_ascii8bit_encindex)]) in
      opt ''keyword'' (Some (ci_keyword o')) @ opt ''envvar'' (ci_envvar o') @ opt ''compiled'' (ci_compiled o') @
      opt ''val'' (ci_val o') @ opt ''label'' (ci_label o') @ opt ''dispchar'' (ci_dispchar o') @
      [(''dispsize'', RInteger (ci_dispsize o'))])"

definition pgconn_make_conninfo_array :: "conninfo_option list option \<Rightarrow> (string \<times> rvalue) list list option" where
  "pgconn_make_conninfo_array options = map_option (map conninfo_hash) options"

definition pgconn_s_conndefaults :: "('w, 'z) libpq_conn_scheme \<Rightarrow> ('w, (string \<times> rvalue) list list option) cop" where
  "pgconn_s_conndefaults lq =
     cbind malloc (\<lambda>_. cbind (world (\<lambda>w. (Inr (PQconndefaults lq w), w))) (\<lambda>options.
       let array = pgconn_make_conninfo_array options in cbind free (\<lambda>_. cret array)))"

definition pgconn_s_conninfo_parse :: "rb_api \<Rightarrow> ('w, 'z) libpq_conn_scheme \<Rightarrow> rvalue \<Rightarrow> ('w, (string \<times> rvalue) list list option) cop" where
  "pgconn_s_conninfo_parse rb lq conninfo =
     cbind (clift (StringValueCStr rb conninfo)) (\<lambda>str. case PQconninfoParse lq (str_bytes str) of
         Inl errmsg \<Rightarrow> cbind malloc (\<lambda>_. cbind free (\<lambda>_. cerr (Raise PGError ''%PRIsVALUE'' [])))
       | Inr options \<Rightarrow> cbind malloc (\<lambda>_.
           let array = pgconn_make_conninfo_array options in cbind free (\<lambda>_. cret array)))"

definition pgconn_conninfo :: "('w, 'z) libpq_conn_scheme \<Rightarrow> ('w, (string \<times> rvalue) list list option) cop" where
  "pgconn_conninfo lq =
     cbind pg_get_pgconn (\<lambda>conn. cbind malloc (\<lambda>_. cbind (pq_get conn (PQconninfo lq)) (\<lambda>options.
       let array = pgconn_make_conninfo_array options in cbind free (\<lambda>_. cret array))))"

section \<open>Passwords\<close>

definition check_string :: "rvalue \<Rightarrow> ('w, unit) cop" where
  "check_string v = (if is_str v then cret () else cerr (Raise TypeError ''wrong argument type (expected String)'' []))"

definition cstr :: "rb_api \<Rightarrow> rvalue \<Rightarrow> ('w, bytes) cop" where
  "cstr rb v = cbind (clift (StringValueCStr rb v)) (\<lambda>s. cret (str_bytes s))"

definition pgconn_sync_encrypt_password :: "rb_api \<Rightarrow> ('w, 'z) libpq_conn_scheme \<Rightarrow> rvalue \<Rightarrow> rvalue \<Rightarrow> rvalue \<Rightarrow> ('w, rvalue) cop" where
  "pgconn_sync_encrypt_password rb lq password username algorithm =
     cbind pg_get_pgconn (\<lambda>conn.
     cbind (check_string password) (\<lambda>_.
     cbind (check_string username) (\<lambda>_.
     cbind (cstr rb password) (\<lambda>p.
     cbind (cstr rb username) (\<lambda>u.
     cbind (if algorithm \<noteq> Qnil \<and> algorithm \<noteq> Qfalse then cbind (cstr rb algorithm) (\<lambda>a. cret (Some a)) else cret None) (\<lambda>a.
     cbind (pq conn (PQencryptPasswordConn lq p u a)) (\<lambda>encrypted. case encrypted of
         Some e \<Rightarrow> cbind malloc (\<lambda>_. cbind free (\<lambda>_. cret (RString e rb_ascii8bit_encindex)))
       | None \<Rightarrow> pg_raise_conn_error PGError ''%s'')))))))"

definition pgconn_s_encrypt_password :: "rb_api \<Rightarrow> ('w, 'z) libpq_conn_scheme \<Rightarrow> rvalue \<Rightarrow> rvalue \<Rightarrow> ('w, rvalue) cop" where
  "pgconn_s_encrypt_password rb lq password username =
     cbind (check_string password) (\<lambda>_.
     cbind (check_string username) (\<lambda>_.
     cbind (cstr rb password) (\<lambda>p.
     cbind (cstr rb username) (\<lambda>u. case PQencryptPassword lq p u of
         Some e \<Rightarrow> cbind malloc (\<lambda>_. cbind free (\<lambda>_. cret (RString e rb_ascii8bit_encindex)))
       | None \<Rightarrow> cerr (Raise ArgError ''NULL pointer given'' [])))))"

section \<open>Status\<close>

definition conn_string :: "('w \<Rightarrow> bytes option) \<Rightarrow> ('w, rvalue) cop" where
  "conn_string f = cbind pg_get_pgconn (\<lambda>conn. cbind (pq_get conn f) (\<lambda>p. cret (rb_str_new2 p)))"

definition conn_int :: "('w \<Rightarrow> int) \<Rightarrow> ('w, rvalue) cop" where
  "conn_int f = cbind pg_get_pgconn (\<lambda>conn. cbind (pq_get conn f) (\<lambda>n. cret (RInteger n)))"

definition conn_bool :: "('w \<Rightarrow> bool) \<Rightarrow> ('w, rvalue) cop" where
  "conn_bool f = cbind pg_get_pgconn (\<lambda>conn. cbind (pq_get conn f) (\<lambda>b. cret (if b then Qtrue else Qfalse)))"

definition pgconn_db where "pgconn_db lq = conn_string (PQdb lq)"
definition pgconn_user where "pgconn_user lq = conn_string (PQuser lq)"
definition pgconn_pass where "pgconn_pass lq = conn_string (PQpass lq)"
definition pgconn_host where "pgconn_host lq = conn_string (PQhost lq)"
definition pgconn_hostaddr where "pgconn_hostaddr lq = conn_string (PQhostaddr lq)"
definition pgconn_options where "pgconn_options lq = conn_string (PQoptions lq)"
definition pgconn_error_message where "pgconn_error_message lq = conn_string (PQerrorMessage lq)"

definition pgconn_tty :: "('w, rvalue) cop" where
  "pgconn_tty = cret (RString [] rb_ascii8bit_encindex)"

definition DEF_PGPORT :: int where "DEF_PGPORT = 5432"

text \<open>\<open>atoi\<close> is \<open>strtol\<close> with base 10.\<close>

definition pgconn_port :: "('w, 'z) libpq_conn_scheme \<Rightarrow> ('w, rvalue) cop" where
  "pgconn_port lq =
     cbind pg_get_pgconn (\<lambda>conn. cbind (pq_get conn (PQport lq)) (\<lambda>port. cret (RInteger (case port of
         None \<Rightarrow> DEF_PGPORT | Some p \<Rightarrow> if p = [] then DEF_PGPORT else strtol10 p))))"

definition pgconn_status where "pgconn_status lq = conn_int (PQstatus lq)"
definition pgconn_transaction_status where "pgconn_transaction_status lq = conn_int (PQtransactionStatus lq)"
definition pgconn_backend_pid where "pgconn_backend_pid lq = conn_int (PQbackendPID lq)"
definition pgconn_connection_needs_password where "pgconn_connection_needs_password lq = conn_bool (PQconnectionNeedsPassword lq)"
definition pgconn_connection_used_password where "pgconn_connection_used_password lq = conn_bool (PQconnectionUsedPassword lq)"
definition pgconn_ssl_in_use where "pgconn_ssl_in_use lq = conn_bool (PQsslInUse lq)"

definition pgconn_parameter_status :: "rb_api \<Rightarrow> ('w, 'z) libpq_conn_scheme \<Rightarrow> rvalue \<Rightarrow> ('w, rvalue) cop" where
  "pgconn_parameter_status rb lq param_name =
     cbind pg_get_pgconn (\<lambda>conn. cbind (cstr rb param_name) (\<lambda>p.
     cbind (pq_get conn (PQparameterStatus lq p)) (\<lambda>ret. cret (rb_str_new2 ret))))"

text \<open>A version of zero says that libpq has no answer.\<close>

definition conn_version :: "('w \<Rightarrow> int) \<Rightarrow> string \<Rightarrow> ('w, rvalue) cop" where
  "conn_version f msg =
     cbind pg_get_pgconn (\<lambda>conn. cbind (pq_get conn f) (\<lambda>v.
       if v = 0 then pg_raise_conn_error (PGClass ''ConnectionBad'') msg else cret (RInteger v)))"

definition pgconn_protocol_version where
  "pgconn_protocol_version lq = conn_version (PQprotocolVersion lq) ''PQprotocolVersion() can't get protocol version''"

definition pgconn_server_version where
  "pgconn_server_version lq = conn_version (PQserverVersion lq) ''PQserverVersion() can't get server version''"

definition pgconn_socket :: "('w, 'z) libpq_conn_scheme \<Rightarrow> ('w, rvalue) cop" where
  "pgconn_socket lq =
     cbind pg_get_pgconn (\<lambda>conn. cbind (pq_get conn (PQsocket lq)) (\<lambda>sd.
       if sd < 0 then pg_raise_conn_error (PGClass ''ConnectionBad'') ''PQsocket() can't get socket descriptor''
       else cret (RInteger sd)))"

definition pgconn_ssl_attribute :: "rb_api \<Rightarrow> ('w, 'z) libpq_conn_scheme \<Rightarrow> rvalue \<Rightarrow> ('w, rvalue) cop" where
  "pgconn_ssl_attribute rb lq attribute_name =
     cbind pg_get_pgconn (\<lambda>conn. cbind (cstr rb attribute_name) (\<lambda>a.
     cbind (pq_get conn (PQsslAttribute lq a)) (\<lambda>p. cret (rb_str_new2 p))))"

definition pgconn_ssl_attribute_names :: "('w, 'z) libpq_conn_scheme \<Rightarrow> ('w, rvalue) cop" where
  "pgconn_ssl_attribute_names lq =
     cbind pg_get_pgconn (\<lambda>conn. cbind (pq_get conn (PQsslAttributeNames lq)) (\<lambda>names.
       cret (RArray (map (\<lambda>n. RString n rb_ascii8bit_encindex) names))))"

section \<open>Type maps and coders\<close>

abbreviation wrong_type :: "string \<Rightarrow> rb_exc" where
  "wrong_type expected \<equiv> Raise TypeError (''wrong argument type (expected '' @ expected @ '')'') []"

text \<open>The setters and getters do not look at the \<open>PGconn\<close>.\<close>

definition pgconn_type_map_for_queries_set :: "typemap_arg \<Rightarrow> ('w, unit) cop" where
  "pgconn_type_map_for_queries_set arg =
     cbind rb_check_frozen (\<lambda>_. case arg of
         Typemap_arg t \<Rightarrow> upd_conn (\<lambda>c. c\<lparr> pc_type_map_for_queries := t \<rparr>)
       | _ \<Rightarrow> cerr (wrong_type ''PG::TypeMap''))"

definition pgconn_type_map_for_queries_get :: "('w, typemap) cop" where
  "pgconn_type_map_for_queries_get = cbind pg_get_connection (\<lambda>this. cret (pc_type_map_for_queries this))"

definition pgconn_type_map_for_results_set :: "typemap_arg \<Rightarrow> ('w, unit) cop" where
  "pgconn_type_map_for_results_set arg =
     cbind rb_check_frozen (\<lambda>_. case arg of
         Typemap_arg t \<Rightarrow> upd_conn (\<lambda>c. c\<lparr> pc_type_map_for_results := t \<rparr>)
       | _ \<Rightarrow> cerr (wrong_type ''PG::TypeMap''))"

definition pgconn_type_map_for_results_get :: "('w, typemap) cop" where
  "pgconn_type_map_for_results_get = cbind pg_get_connection (\<lambda>this. cret (pc_type_map_for_results this))"

definition pgconn_encoder_for_put_copy_data_set :: "elem_arg \<Rightarrow> ('w, unit) cop" where
  "pgconn_encoder_for_put_copy_data_set encoder =
     cbind rb_check_frozen (\<lambda>_. case encoder of
         Elem_nil \<Rightarrow> upd_conn (\<lambda>c. c\<lparr> pc_encoder_for_put_copy_data := None \<rparr>)
       | Elem_coder co \<Rightarrow> upd_conn (\<lambda>c. c\<lparr> pc_encoder_for_put_copy_data := Some co \<rparr>)
       | Elem_other \<Rightarrow> cerr (wrong_type ''PG::Coder''))"

definition pgconn_encoder_for_put_copy_data_get :: "('w, t_pg_coder option) cop" where
  "pgconn_encoder_for_put_copy_data_get = cbind pg_get_connection (\<lambda>this. cret (pc_encoder_for_put_copy_data this))"

definition pgconn_decoder_for_get_copy_data_set :: "elem_arg \<Rightarrow> ('w, unit) cop" where
  "pgconn_decoder_for_get_copy_data_set decoder =
     cbind rb_check_frozen (\<lambda>_. case decoder of
         Elem_nil \<Rightarrow> upd_conn (\<lambda>c. c\<lparr> pc_decoder_for_get_copy_data := None \<rparr>)
       | Elem_coder co \<Rightarrow> upd_conn (\<lambda>c. c\<lparr> pc_decoder_for_get_copy_data := Some co \<rparr>)
       | Elem_other \<Rightarrow> cerr (wrong_type ''PG::Coder''))"

definition pgconn_decoder_for_get_copy_data_get :: "('w, t_pg_coder option) cop" where
  "pgconn_decoder_for_get_copy_data_get = cbind pg_get_connection (\<lambda>this. cret (pc_decoder_for_get_copy_data this))"

text \<open>The flag is reset before the argument is looked at.\<close>

definition pgconn_field_name_type_set :: "rvalue \<Rightarrow> ('w, unit) cop" where
  "pgconn_field_name_type_set name_type =
     cbind rb_check_frozen (\<lambda>_.
     cbind (upd_conn (\<lambda>c. c\<lparr> pc_flags := pc_flags c AND NOT PG_RESULT_FIELD_NAMES_MASK \<rparr>)) (\<lambda>_.
       if name_type = RSymbol (lit ''symbol'') then upd_conn (\<lambda>c. c\<lparr> pc_flags := pc_flags c OR PG_RESULT_FIELD_NAMES_SYMBOL \<rparr>)
       else if name_type = RSymbol (lit ''string'') then cret ()
       else cerr (Raise ArgError ''invalid argument'' [])))"

definition pgconn_field_name_type_get :: "('w, rvalue) cop" where
  "pgconn_field_name_type_get =
     cbind pg_get_connection (\<lambda>this.
       cret (RSymbol (if pc_flags this AND PG_RESULT_FIELD_NAMES_SYMBOL \<noteq> 0 then lit ''symbol'' else lit ''string'')))"

definition pgconn_flush_data_set :: "rvalue \<Rightarrow> ('w, unit) cop" where
  "pgconn_flush_data_set enabled =
     cbind rb_check_frozen (\<lambda>_. upd_conn (\<lambda>c. c\<lparr> pc_flush_data := (enabled \<noteq> Qnil \<and> enabled \<noteq> Qfalse) \<rparr>))"

end
