(* ===== verification/PG_Conn_Query.thy ===== *)
theory PG_Conn_Query
  imports PG_Connection
begin

text \<open>
  \<open>ext/pg_connection.c\<close>: queries, with their parameters, results, COPY data and notifications, in the blocking and the
  asynchronous form. The asynchronous methods wait for the socket in loops; these are partial functions.
\<close>

section \<open>The part of libpq for queries\<close>

text \<open>
  A query parameter is given by its format, OID and value. \<open>rb_io_wait\<close>, the clock, the conversion of a timeout to
  microseconds and the index of the locale's encoding are of Ruby and the system; \<open>rb_io_wait\<close> answers \<open>None\<close> after the
  timeout.
\<close>

type_synonym pq_arg = "int \<times> oid \<times> bytes option"

record pg_notify =
  nf_relname :: bytes
  nf_be_pid :: int
  nf_extra :: bytes

record 'w libpq_query = "'w libpq_conn" +
  rb_io_wait :: "int \<Rightarrow> int option \<Rightarrow> 'w \<Rightarrow> int option res \<times> 'w"
  gettimeofday :: "'w \<Rightarrow> int \<times> 'w"
  num2usec :: "rvalue \<Rightarrow> int res"
  rb_locale_encindex :: enc_idx
  PQexec :: "bytes \<Rightarrow> 'w \<Rightarrow> pg_data option \<times> 'w"
  PQexecParams :: "bytes \<Rightarrow> pq_arg list \<Rightarrow> int \<Rightarrow> 'w \<Rightarrow> pg_data option \<times> 'w"
  PQprepare :: "bytes \<Rightarrow> bytes \<Rightarrow> oid list \<Rightarrow> 'w \<Rightarrow> pg_data option \<times> 'w"
  PQexecPrepared :: "bytes \<Rightarrow> pq_arg list \<Rightarrow> int \<Rightarrow> 'w \<Rightarrow> pg_data option \<times> 'w"
  PQdescribePrepared :: "bytes option \<Rightarrow> 'w \<Rightarrow> pg_data option \<times> 'w"
  PQdescribePortal :: "bytes option \<Rightarrow> 'w \<Rightarrow> pg_data option \<times> 'w"
  PQclosePrepared :: "bytes option \<Rightarrow> 'w \<Rightarrow> pg_data option \<times> 'w"
  PQclosePortal :: "bytes option \<Rightarrow> 'w \<Rightarrow> pg_data option \<times> 'w"
  PQmakeEmptyPGresult :: "int \<Rightarrow> 'w \<Rightarrow> pg_data option"
  PQsetSingleRowMode :: "'w \<Rightarrow> int \<times> 'w"
  PQsetChunkedRowsMode :: "int \<Rightarrow> 'w \<Rightarrow> int \<times> 'w"
  PQsendQuery :: "bytes \<Rightarrow> 'w \<Rightarrow> int \<times> 'w"
  PQsendQueryParams :: "bytes \<Rightarrow> pq_arg list \<Rightarrow> int \<Rightarrow> 'w \<Rightarrow> int \<times> 'w"
  PQsendPrepare :: "bytes \<Rightarrow> bytes \<Rightarrow> oid list \<Rightarrow> 'w \<Rightarrow> int \<times> 'w"
  PQsendQueryPrepared :: "bytes \<Rightarrow> pq_arg list \<Rightarrow> int \<Rightarrow> 'w \<Rightarrow> int \<times> 'w"
  PQsendDescribePrepared :: "bytes option \<Rightarrow> 'w \<Rightarrow> int \<times> 'w"
  PQsendDescribePortal :: "bytes option \<Rightarrow> 'w \<Rightarrow> int \<times> 'w"
  PQsendClosePrepared :: "bytes option \<Rightarrow> 'w \<Rightarrow> int \<times> 'w"
  PQsendClosePortal :: "bytes option \<Rightarrow> 'w \<Rightarrow> int \<times> 'w"
  PQgetResult :: "'w \<Rightarrow> pg_data option \<times> 'w"
  PQconsumeInput :: "'w \<Rightarrow> int \<times> 'w"
  PQisBusy :: "'w \<Rightarrow> bool \<times> 'w"
  PQsetnonblocking :: "int \<Rightarrow> 'w \<Rightarrow> int \<times> 'w"
  PQisnonblocking :: "'w \<Rightarrow> int"
  PQflush :: "'w \<Rightarrow> int \<times> 'w"
  PQnotifies :: "'w \<Rightarrow> pg_notify option \<times> 'w"
  PQputCopyData :: "bytes \<Rightarrow> 'w \<Rightarrow> int \<times> 'w"
  PQputCopyEnd :: "bytes option \<Rightarrow> 'w \<Rightarrow> int \<times> 'w"
  PQgetCopyData :: "bool \<Rightarrow> 'w \<Rightarrow> (int \<times> bytes) \<times> 'w"

section \<open>Arguments and results\<close>

definition pg_cstr_enc :: "rb_api \<Rightarrow> rvalue \<Rightarrow> enc_idx \<Rightarrow> bytes res" where
  "pg_cstr_enc rb str enc_idx =
     rbind (StringValueCStr rb str) (\<lambda>s.
       if ENCODING_GET s = enc_idx then Inr (str_bytes s)
       else rbind (rb_str_export_to_enc rb s enc_idx) (\<lambda>t. rbind (StringValueCStr rb t) (\<lambda>t. Inr (str_bytes t))))"

text \<open>The first three arguments of a query method and the fourth one, which is a type map.\<close>

type_synonym query_args = "rvalue list \<times> typemap_arg option"

definition argc_of :: "query_args \<Rightarrow> nat" where
  "argc_of = (\<lambda>(argv, tm). length argv + (case tm of None \<Rightarrow> 0 | Some _ \<Rightarrow> 1))"

definition arg :: "rvalue list \<Rightarrow> nat \<Rightarrow> rvalue" where
  "arg argv n = (if n < length argv then argv ! n else Qnil)"

definition rb_scan_args :: "nat \<Rightarrow> nat \<Rightarrow> nat \<Rightarrow> ('w, unit) cop" where
  "rb_scan_args least most argc =
     (if least \<le> argc \<and> argc \<le> most then cret ()
      else cerr (Raise ArgError ''wrong number of arguments (given %d, expected %d..%d)'' [int argc, int least, int most]))"

definition conn_of :: "t_pg_connection \<Rightarrow> conn_part" where
  "conn_of this = \<lparr> conn_type_map_for_results = pc_type_map_for_results this, conn_enc_idx = pc_enc_idx this,
     conn_flags = pc_flags this \<rparr>"

text \<open>\<open>pg_new_result(result, self)\<close>, where libpq has just made the result or returned NULL.\<close>

definition new_result :: "env \<Rightarrow> ('w, 'z) libpq_query_scheme \<Rightarrow> pg_data option \<Rightarrow> ('w, nat) cop" where
  "new_result env lq result =
     cbind pg_get_connection (\<lambda>this. on_results (case result of
         None \<Rightarrow> pg_new_result (env_hs env) (conn_of this) (rb_locale_encindex lq) None
       | Some d \<Rightarrow> receive_result env (conn_of this) (rb_locale_encindex lq) d))"

type_synonym 'w result_block = "(nat \<Rightarrow> ('w, rvalue) cop) option"

definition yield_result :: "'w result_block \<Rightarrow> nat \<Rightarrow> ('w, rvalue) cop" where
  "yield_result block rb_pgresult = (case block of
      Some b \<Rightarrow> rb_ensure (b rb_pgresult) (on_results (pg_result_clear rb_pgresult))
    | None \<Rightarrow> cret (RObject rb_pgresult))"

definition checked_result :: "env \<Rightarrow> errors \<Rightarrow> ('w, 'z) libpq_query_scheme \<Rightarrow> pg_data option \<Rightarrow> ('w, nat) cop" where
  "checked_result env errs lq result =
     cbind (new_result env lq result) (\<lambda>rb_pgresult.
     cbind (on_results (pg_result_check errs rb_pgresult)) (\<lambda>_. cret rb_pgresult))"

text \<open>The parameters as libpq reads them. The type map of the connection is used in place, so its caches are
  kept.\<close>

definition query_params :: "env \<Rightarrow> rb_hashes \<Rightarrow> t_pg_connection \<Rightarrow> bool \<Rightarrow> rvalue \<Rightarrow> typemap_arg option \<Rightarrow> rvalue
    \<Rightarrow> ('w, pq_arg list \<times> int) cop" where
  "query_params env hash this with_types params typemap in_res_fmt =
     cbind (clift (pgconn_query_assign_typemap (pc_type_map_for_queries this) (case typemap of None \<Rightarrow> Typemap_nil | Some t \<Rightarrow> t)
       (query_params_init (pc_enc_idx this) with_types params))) (\<lambda>paramsData.
     cbind (if in_res_fmt = Qnil then cret 0 else clift (num2 32 (rb_dbl2int (env_rb env)) in_res_fmt)) (\<lambda>resultFormat.
     cbind (clift (alloc_query_params (env_rb env) (env_tm env) hash paramsData)) (\<lambda>(nParams, paramsData).
     cbind (if typemap = None \<or> typemap = Some Typemap_nil
            then upd_conn (\<lambda>c. c\<lparr> pc_type_map_for_queries := qp_typemap paramsData \<rparr>) else cret ()) (\<lambda>_.
     cbind (clift (map_res (libpq_param paramsData) [0..<nParams])) (\<lambda>args. cret (args, resultFormat))))))"

section \<open>Blocking queries\<close>

definition exec_command :: "env \<Rightarrow> errors \<Rightarrow> ('w, 'z) libpq_query_scheme \<Rightarrow> 'w result_block \<Rightarrow> rvalue \<Rightarrow> ('w, rvalue) cop" where
  "exec_command env errs lq block query_str =
     cbind pg_get_connection_safe (\<lambda>(this, conn).
     cbind (clift (pg_cstr_enc (env_rb env) query_str (pc_enc_idx this))) (\<lambda>query.
     cbind (pq conn (PQexec lq query)) (\<lambda>result.
     cbind (checked_result env errs lq result) (yield_result block))))"

definition pgconn_sync_exec_params :: "env \<Rightarrow> errors \<Rightarrow> rb_hashes \<Rightarrow> ('w, 'z) libpq_query_scheme \<Rightarrow> 'w result_block \<Rightarrow> query_args
    \<Rightarrow> ('w, rvalue) cop" where
  "pgconn_sync_exec_params env errs hash lq block = (\<lambda>(argv, typemap).
     cbind pg_get_connection_safe (\<lambda>(this, conn).
     cbind (rb_scan_args 1 4 (argc_of (argv, typemap))) (\<lambda>_.
       if arg argv 1 = Qnil then exec_command env errs lq block (arg argv 0)
       else
         cbind (query_params env hash this True (arg argv 1) typemap (arg argv 2)) (\<lambda>(args, resultFormat).
         cbind (clift (pg_cstr_enc (env_rb env) (arg argv 0) (pc_enc_idx this))) (\<lambda>command.
         cbind (pq conn (PQexecParams lq command args resultFormat)) (\<lambda>result.
         cbind (checked_result env errs lq result) (yield_result block)))))))"

definition plain_query :: "query_args \<Rightarrow> bool" where
  "plain_query a = (let argc = argc_of a in argc = 1 \<or> 2 \<le> argc \<and> argc \<le> 4 \<and> arg (fst a) 1 = Qnil)"

definition pgconn_sync_exec :: "env \<Rightarrow> errors \<Rightarrow> rb_hashes \<Rightarrow> ('w, 'z) libpq_query_scheme \<Rightarrow> 'w result_block \<Rightarrow> query_args
    \<Rightarrow> ('w, rvalue) cop" where
  "pgconn_sync_exec env errs hash lq block a =
     cbind pg_get_connection_safe (\<lambda>_.
       if plain_query a then exec_command env errs lq block (arg (fst a) 0)
       else pgconn_sync_exec_params env errs hash lq block a)"

text \<open>The array of OIDs is allocated before and freed after the conversion of the types, which may raise.\<close>

definition param_types :: "rb_api \<Rightarrow> rvalue \<Rightarrow> (oid list \<Rightarrow> ('w, 'a) cop) \<Rightarrow> ('w, 'a) cop" where
  "param_types rb in_paramtypes call = (case in_paramtypes of
      Qnil \<Rightarrow> call []
    | RArray ts \<Rightarrow>
        cbind malloc (\<lambda>_.
        cbind (clift (map_res (\<lambda>param. if param = Qnil then Inr 0 else num2uint (rb_dbl2int rb) param) ts)) (\<lambda>paramTypes.
        cbind (call paramTypes) (\<lambda>r. cbind free (\<lambda>_. cret r))))
    | _ \<Rightarrow> cerr (wrong_type ''Array''))"

definition pgconn_sync_prepare :: "env \<Rightarrow> errors \<Rightarrow> ('w, 'z) libpq_query_scheme \<Rightarrow> rvalue list \<Rightarrow> ('w, rvalue) cop" where
  "pgconn_sync_prepare env errs lq argv =
     cbind pg_get_connection_safe (\<lambda>(this, conn).
     cbind (rb_scan_args 2 3 (length argv)) (\<lambda>_.
     cbind (clift (pg_cstr_enc (env_rb env) (arg argv 0) (pc_enc_idx this))) (\<lambda>name_cstr.
     cbind (clift (pg_cstr_enc (env_rb env) (arg argv 1) (pc_enc_idx this))) (\<lambda>command_cstr.
     cbind (param_types (env_rb env) (arg argv 2) (\<lambda>paramTypes. pq conn (PQprepare lq name_cstr command_cstr paramTypes))) (\<lambda>result.
     cbind (checked_result env errs lq result) (\<lambda>rb_pgresult. cret (RObject rb_pgresult)))))))"

definition prepared_params :: "rvalue \<Rightarrow> rvalue" where
  "prepared_params params = (if params = Qnil then RArray [] else params)"

definition pgconn_sync_exec_prepared :: "env \<Rightarrow> errors \<Rightarrow> rb_hashes \<Rightarrow> ('w, 'z) libpq_query_scheme \<Rightarrow> 'w result_block \<Rightarrow> query_args
    \<Rightarrow> ('w, rvalue) cop" where
  "pgconn_sync_exec_prepared env errs hash lq block = (\<lambda>(argv, typemap).
     cbind pg_get_connection_safe (\<lambda>(this, conn).
     cbind (rb_scan_args 1 4 (argc_of (argv, typemap))) (\<lambda>_.
     cbind (query_params env hash this False (prepared_params (arg argv 1)) typemap (arg argv 2)) (\<lambda>(args, resultFormat).
     cbind (clift (pg_cstr_enc (env_rb env) (arg argv 0) (pc_enc_idx this))) (\<lambda>name.
     cbind (pq conn (PQexecPrepared lq name args resultFormat)) (\<lambda>result.
     cbind (checked_result env errs lq result) (yield_result block)))))))"

definition statement_name :: "rb_api \<Rightarrow> t_pg_connection \<Rightarrow> rvalue \<Rightarrow> bytes option res" where
  "statement_name rb this name =
     (if name = Qnil then Inr None else rbind (pg_cstr_enc rb name (pc_enc_idx this)) (\<lambda>n. Inr (Some n)))"

definition pgconn_sync_describe_close_prepared_portal ::
    "env \<Rightarrow> errors \<Rightarrow> ('w, 'z) libpq_query_scheme \<Rightarrow> (bytes option \<Rightarrow> 'w \<Rightarrow> pg_data option \<times> 'w) \<Rightarrow> rvalue \<Rightarrow> ('w, rvalue) cop" where
  "pgconn_sync_describe_close_prepared_portal env errs lq func name =
     cbind pg_get_connection_safe (\<lambda>(this, conn).
     cbind (clift (statement_name (env_rb env) this name)) (\<lambda>stmt.
     cbind (pq conn (func stmt)) (\<lambda>result.
     cbind (checked_result env errs lq result) (\<lambda>rb_pgresult. cret (RObject rb_pgresult)))))"

definition pgconn_sync_describe_prepared where
  "pgconn_sync_describe_prepared env errs lq = pgconn_sync_describe_close_prepared_portal env errs lq (PQdescribePrepared lq)"
definition pgconn_sync_describe_portal where
  "pgconn_sync_describe_portal env errs lq = pgconn_sync_describe_close_prepared_portal env errs lq (PQdescribePortal lq)"
definition pgconn_sync_close_prepared where
  "pgconn_sync_close_prepared env errs lq = pgconn_sync_describe_close_prepared_portal env errs lq (PQclosePrepared lq)"
definition pgconn_sync_close_portal where
  "pgconn_sync_close_portal env errs lq = pgconn_sync_describe_close_prepared_portal env errs lq (PQclosePortal lq)"

definition pgconn_make_empty_pgresult :: "env \<Rightarrow> errors \<Rightarrow> ('w, 'z) libpq_query_scheme \<Rightarrow> rvalue \<Rightarrow> ('w, rvalue) cop" where
  "pgconn_make_empty_pgresult env errs lq status =
     cbind pg_get_pgconn (\<lambda>conn.
     cbind (clift (num2 32 (rb_dbl2int (env_rb env)) status)) (\<lambda>st.
     cbind (pq_get conn (PQmakeEmptyPGresult lq st)) (\<lambda>result.
     cbind (checked_result env errs lq result) (\<lambda>rb_pgresult. cret (RObject rb_pgresult)))))"

definition pgconn_sync_get_result :: "env \<Rightarrow> ('w, 'z) libpq_query_scheme \<Rightarrow> 'w result_block \<Rightarrow> ('w, rvalue) cop" where
  "pgconn_sync_get_result env lq block =
     cbind pg_get_pgconn (\<lambda>conn.
     cbind (pq conn (PQgetResult lq)) (\<lambda>result. case result of
         None \<Rightarrow> cret Qnil
       | Some d \<Rightarrow> cbind (new_result env lq (Some d)) (yield_result block)))"

section \<open>Modes and flushing\<close>

definition pgconn_set_single_row_mode :: "('w, 'z) libpq_query_scheme \<Rightarrow> ('w, unit) cop" where
  "pgconn_set_single_row_mode lq =
     cbind pg_get_pgconn (\<lambda>conn. cbind rb_check_frozen (\<lambda>_. cbind (pq conn (PQsetSingleRowMode lq)) (\<lambda>r.
       if r = 0 then pg_raise_conn_error PGError ''PQsetSingleRowMode %s'' else cret ())))"

definition pgconn_set_chunked_rows_mode :: "rb_api \<Rightarrow> ('w, 'z) libpq_query_scheme \<Rightarrow> rvalue \<Rightarrow> ('w, unit) cop" where
  "pgconn_set_chunked_rows_mode rb lq chunk_size =
     cbind pg_get_pgconn (\<lambda>conn. cbind rb_check_frozen (\<lambda>_. cbind (clift (num2 32 (rb_dbl2int rb) chunk_size)) (\<lambda>n.
     cbind (pq conn (PQsetChunkedRowsMode lq n)) (\<lambda>r.
       if r = 0 then pg_raise_conn_error PGError ''PQsetChunkedRowsMode %s'' else cret ()))))"

definition pgconn_consume_input :: "('w, 'z) libpq_query_scheme \<Rightarrow> ('w, rvalue) cop" where
  "pgconn_consume_input lq =
     cbind pg_get_pgconn (\<lambda>conn. cbind (pq conn (PQconsumeInput lq)) (\<lambda>r.
       if r = 0 then cbind (pgconn_close_socket_io lq) (\<lambda>_. pg_raise_conn_error (PGClass ''ConnectionBad'') ''%s'')
       else cret Qnil))"

definition pgconn_is_busy :: "('w, 'z) libpq_query_scheme \<Rightarrow> ('w, rvalue) cop" where
  "pgconn_is_busy lq =
     cbind pg_get_pgconn (\<lambda>conn. cbind (pq conn (PQisBusy lq)) (\<lambda>b. cret (if b then Qtrue else Qfalse)))"

definition pgconn_sync_setnonblocking :: "('w, 'z) libpq_query_scheme \<Rightarrow> rvalue \<Rightarrow> ('w, rvalue) cop" where
  "pgconn_sync_setnonblocking lq state =
     cbind pg_get_pgconn (\<lambda>conn. cbind rb_check_frozen (\<lambda>_.
       if state \<noteq> Qtrue \<and> state \<noteq> Qfalse then cerr (Raise ArgError ''Boolean value expected'' [])
       else cbind (pq conn (PQsetnonblocking lq (if state = Qtrue then 1 else 0))) (\<lambda>r.
         if r = - 1 then pg_raise_conn_error PGError ''%s'' else cret Qnil)))"

definition pgconn_sync_isnonblocking :: "('w, 'z) libpq_query_scheme \<Rightarrow> ('w, rvalue) cop" where
  "pgconn_sync_isnonblocking lq = conn_bool (\<lambda>w. PQisnonblocking lq w \<noteq> 0)"

definition pgconn_sync_flush :: "('w, 'z) libpq_query_scheme \<Rightarrow> ('w, rvalue) cop" where
  "pgconn_sync_flush lq =
     cbind pg_get_pgconn (\<lambda>conn. cbind (pq conn (PQflush lq)) (\<lambda>ret.
       if ret = - 1 then pg_raise_conn_error PGError ''%s'' else cret (if ret \<noteq> 0 then Qfalse else Qtrue)))"

section \<open>Waiting for the socket\<close>

definition PG_RUBY_IO_READABLE :: int where "PG_RUBY_IO_READABLE = 1"
definition PG_RUBY_IO_WRITABLE :: int where "PG_RUBY_IO_WRITABLE = 4"

definition io_wait :: "('w, 'z) libpq_query_scheme \<Rightarrow> int \<Rightarrow> int option \<Rightarrow> ('w, int option) cop" where
  "io_wait lq events timeout = world (rb_io_wait lq events timeout)"

text \<open>\<open>RB_NUM2INT(pg_rb_io_wait(...))\<close> without a timeout.\<close>

definition io_wait_events :: "('w, 'z) libpq_query_scheme \<Rightarrow> int \<Rightarrow> ('w, int) cop" where
  "io_wait_events lq events =
     cbind (io_wait lq events None) (\<lambda>r. case r of
         None \<Rightarrow> cerr (Raise TypeError ''no implicit conversion of false into Integer'' [])
       | Some ev \<Rightarrow> cret ev)"

partial_function (option) pgconn_async_flush ::
    "('w, 'z) libpq_query_scheme \<Rightarrow> 'w cst \<Rightarrow> (rvalue res \<times> 'w cst) option" where
  "pgconn_async_flush lq s =
     cbind (pgconn_sync_flush lq) (\<lambda>r.
       if r = Qfalse then
         cbind (pgconn_socket_io lq) (\<lambda>socket_io.
         cbind (io_wait_events lq (PG_RUBY_IO_READABLE OR PG_RUBY_IO_WRITABLE)) (\<lambda>events.
         cbind (if events AND PG_RUBY_IO_READABLE \<noteq> 0 then pgconn_consume_input lq else cret Qnil) (\<lambda>_.
           pgconn_async_flush lq)))
       else cret Qtrue) s"

definition pgconn_wait_for_flush :: "('w, 'z) libpq_query_scheme \<Rightarrow> ('w, rvalue) cop" where
  "pgconn_wait_for_flush lq =
     cbind pg_get_connection_safe (\<lambda>(this, conn). if \<not> pc_flush_data this then cret Qnil else pgconn_async_flush lq)"

text \<open>The time is in microseconds. The loop ends with NULL at the timeout.\<close>

definition wait_time :: "('w, 'z) libpq_query_scheme \<Rightarrow> int option \<Rightarrow> ('w, int option) cop" where
  "wait_time lq aborttime = (case aborttime of
      None \<Rightarrow> cret None
    | Some t \<Rightarrow> cbind (world (\<lambda>w. let (now, w) = gettimeofday lq w in (Inr now, w))) (\<lambda>currtime. cret (Some (t - currtime))))"

partial_function (option) wait_socket_readable_loop ::
    "('w, 'z) libpq_query_scheme \<Rightarrow> nat \<Rightarrow> int option \<Rightarrow> (nat \<Rightarrow> ('w, 'a option) cop) \<Rightarrow> 'w cst \<Rightarrow> ('a option res \<times> 'w cst) option" where
  "wait_socket_readable_loop lq conn aborttime is_readable s =
     cbind (is_readable conn) (\<lambda>retval. case retval of
         Some r \<Rightarrow> cret (Some r)
       | None \<Rightarrow>
           cbind (wait_time lq aborttime) (\<lambda>waittime.
             if waittime = None \<or> the waittime \<ge> 0 then
               cbind (pgconn_async_flush lq) (\<lambda>_.
               cbind (is_readable conn) (\<lambda>retval. case retval of
                   Some r \<Rightarrow> cret (Some r)
                 | None \<Rightarrow>
                     cbind (pgconn_socket_io lq) (\<lambda>socket_io.
                     cbind (io_wait lq PG_RUBY_IO_READABLE waittime) (\<lambda>ret. case ret of
                         None \<Rightarrow> cret None
                       | Some _ \<Rightarrow>
                           cbind (pq conn (PQconsumeInput lq)) (\<lambda>c.
                             if c = 0 then
                               cbind (pgconn_close_socket_io lq) (\<lambda>_.
                                 pg_raise_conn_error (PGClass ''ConnectionBad'') ''PQconsumeInput() %s'')
                             else wait_socket_readable_loop lq conn aborttime is_readable)))))
             else cret None)) s"

definition wait_socket_readable ::
    "('w, 'z) libpq_query_scheme \<Rightarrow> int option \<Rightarrow> (nat \<Rightarrow> ('w, 'a option) cop) \<Rightarrow> ('w, 'a option) cop" where
  "wait_socket_readable lq ptimeout is_readable =
     cbind pg_get_pgconn (\<lambda>conn.
     cbind (case ptimeout of
         None \<Rightarrow> cret None
       | Some t \<Rightarrow> cbind (world (\<lambda>w. let (now, w) = gettimeofday lq w in (Inr now, w))) (\<lambda>currtime. cret (Some (currtime + t)))) (\<lambda>aborttime.
       wait_socket_readable_loop lq conn aborttime is_readable))"

definition notify_readable :: "('w, 'z) libpq_query_scheme \<Rightarrow> nat \<Rightarrow> ('w, pg_notify option) cop" where
  "notify_readable lq conn = pq conn (PQnotifies lq)"

definition get_result_readable :: "('w, 'z) libpq_query_scheme \<Rightarrow> nat \<Rightarrow> ('w, unit option) cop" where
  "get_result_readable lq conn = cbind (pq conn (PQisBusy lq)) (\<lambda>b. cret (if b then None else Some ()))"

definition pgconn_block :: "('w, 'z) libpq_query_scheme \<Rightarrow> rvalue list \<Rightarrow> ('w, rvalue) cop" where
  "pgconn_block lq argv =
     cbind (rb_scan_args 0 1 (length argv)) (\<lambda>_.
     cbind (if length argv = 1 then cbind (clift (num2usec lq (arg argv 0))) (\<lambda>t. cret (Some t)) else cret None) (\<lambda>ptimeout.
     cbind (wait_socket_readable lq ptimeout (get_result_readable lq)) (\<lambda>ret.
       cret (if ret = None then Qfalse else Qtrue))))"

section \<open>Notifications\<close>

text \<open>A notification is a block of libpq's memory.\<close>

definition pgconn_notifies :: "('w, 'z) libpq_query_scheme \<Rightarrow> ('w, (string \<times> rvalue) list option) cop" where
  "pgconn_notifies lq =
     cbind pg_get_connection_safe (\<lambda>(this, conn).
     cbind (pq conn (PQnotifies lq)) (\<lambda>notification. case notification of
         None \<Rightarrow> cret None
       | Some n \<Rightarrow>
           cbind malloc (\<lambda>_.
           cbind free (\<lambda>_. cret (Some [(''relname'', RString (nf_relname n) (pc_enc_idx this)), (''be_pid'', RInteger (nf_be_pid n)),
               (''extra'', RString (nf_extra n) (pc_enc_idx this))])))))"

definition pgconn_wait_for_notify ::
    "('w, 'z) libpq_query_scheme \<Rightarrow> (rvalue \<Rightarrow> rvalue \<Rightarrow> rvalue \<Rightarrow> ('w, unit) cop) option \<Rightarrow> rvalue list \<Rightarrow> ('w, rvalue) cop" where
  "pgconn_wait_for_notify lq block argv =
     cbind pg_get_connection_safe (\<lambda>(this, conn).
     cbind (rb_scan_args 0 1 (length argv)) (\<lambda>_.
     cbind (if arg argv 0 \<noteq> Qnil \<and> arg argv 0 \<noteq> Qfalse
            then cbind (clift (num2usec lq (arg argv 0))) (\<lambda>t. cret (Some t)) else cret None) (\<lambda>ptimeout.
     cbind (wait_socket_readable lq ptimeout (notify_readable lq)) (\<lambda>pnotification. case pnotification of
         None \<Rightarrow> cret Qnil
       | Some n \<Rightarrow>
           cbind malloc (\<lambda>_.
           let relname = RString (nf_relname n) (pc_enc_idx this); be_pid = RInteger (nf_be_pid n);
               extra = (if nf_extra n \<noteq> [] then RString (nf_extra n) (pc_enc_idx this) else Qnil) in
           cbind free (\<lambda>_.
           cbind (case block of None \<Rightarrow> cret () | Some b \<Rightarrow> b relname be_pid extra) (\<lambda>_. cret relname)))))))"

section \<open>Sending queries\<close>

definition send_command :: "env \<Rightarrow> ('w, 'z) libpq_query_scheme \<Rightarrow> rvalue \<Rightarrow> ('w, rvalue) cop" where
  "send_command env lq query_str =
     cbind pg_get_connection_safe (\<lambda>(this, conn).
     cbind (clift (pg_cstr_enc (env_rb env) query_str (pc_enc_idx this))) (\<lambda>query.
     cbind (pq conn (PQsendQuery lq query)) (\<lambda>r.
       if r = 0 then pg_raise_conn_error (PGClass ''UnableToSend'') ''PQsendQuery %s''
       else cbind (pgconn_wait_for_flush lq) (\<lambda>_. cret Qnil))))"

definition pgconn_send_query_params :: "env \<Rightarrow> rb_hashes \<Rightarrow> ('w, 'z) libpq_query_scheme \<Rightarrow> query_args \<Rightarrow> ('w, rvalue) cop" where
  "pgconn_send_query_params env hash lq = (\<lambda>(argv, typemap).
     cbind pg_get_connection_safe (\<lambda>(this, conn).
     cbind (rb_scan_args 2 4 (argc_of (argv, typemap))) (\<lambda>_.
     cbind (query_params env hash this True (arg argv 1) typemap (arg argv 2)) (\<lambda>(args, resultFormat).
     cbind (clift (pg_cstr_enc (env_rb env) (arg argv 0) (pc_enc_idx this))) (\<lambda>command.
     cbind (pq conn (PQsendQueryParams lq command args resultFormat)) (\<lambda>r.
       if r = 0 then pg_raise_conn_error (PGClass ''UnableToSend'') ''PQsendQueryParams %s''
       else cbind (pgconn_wait_for_flush lq) (\<lambda>_. cret Qnil)))))))"

definition pgconn_send_query :: "env \<Rightarrow> rb_hashes \<Rightarrow> ('w, 'z) libpq_query_scheme \<Rightarrow> query_args \<Rightarrow> ('w, rvalue) cop" where
  "pgconn_send_query env hash lq a =
     cbind pg_get_connection_safe (\<lambda>_.
       if plain_query a then send_command env lq (arg (fst a) 0) else pgconn_send_query_params env hash lq a)"

definition pgconn_send_prepare :: "env \<Rightarrow> ('w, 'z) libpq_query_scheme \<Rightarrow> rvalue list \<Rightarrow> ('w, rvalue) cop" where
  "pgconn_send_prepare env lq argv =
     cbind pg_get_connection_safe (\<lambda>(this, conn).
     cbind (rb_scan_args 2 3 (length argv)) (\<lambda>_.
     cbind (clift (pg_cstr_enc (env_rb env) (arg argv 0) (pc_enc_idx this))) (\<lambda>name_cstr.
     cbind (clift (pg_cstr_enc (env_rb env) (arg argv 1) (pc_enc_idx this))) (\<lambda>command_cstr.
     cbind (param_types (env_rb env) (arg argv 2) (\<lambda>paramTypes. pq conn (PQsendPrepare lq name_cstr command_cstr paramTypes))) (\<lambda>r.
       if r = 0 then pg_raise_conn_error (PGClass ''UnableToSend'') ''PQsendPrepare %s''
       else cbind (pgconn_wait_for_flush lq) (\<lambda>_. cret Qnil))))))"

definition pgconn_send_query_prepared :: "env \<Rightarrow> rb_hashes \<Rightarrow> ('w, 'z) libpq_query_scheme \<Rightarrow> query_args \<Rightarrow> ('w, rvalue) cop" where
  "pgconn_send_query_prepared env hash lq = (\<lambda>(argv, typemap).
     cbind pg_get_connection_safe (\<lambda>(this, conn).
     cbind (rb_scan_args 1 4 (argc_of (argv, typemap))) (\<lambda>_.
     cbind (query_params env hash this False (prepared_params (arg argv 1)) typemap (arg argv 2)) (\<lambda>(args, resultFormat).
     cbind (clift (pg_cstr_enc (env_rb env) (arg argv 0) (pc_enc_idx this))) (\<lambda>name.
     cbind (pq conn (PQsendQueryPrepared lq name args resultFormat)) (\<lambda>r.
       if r = 0 then pg_raise_conn_error (PGClass ''UnableToSend'') ''PQsendQueryPrepared %s''
       else cbind (pgconn_wait_for_flush lq) (\<lambda>_. cret Qnil)))))))"

definition pgconn_send_describe_close_prepared_portal ::
    "env \<Rightarrow> ('w, 'z) libpq_query_scheme \<Rightarrow> (bytes option \<Rightarrow> 'w \<Rightarrow> int \<times> 'w) \<Rightarrow> string \<Rightarrow> rvalue \<Rightarrow> ('w, rvalue) cop" where
  "pgconn_send_describe_close_prepared_portal env lq func funame name =
     cbind pg_get_connection_safe (\<lambda>(this, conn).
     cbind (clift (statement_name (env_rb env) this name)) (\<lambda>stmt.
     cbind (pq conn (func stmt)) (\<lambda>r.
       if r = 0 then pg_raise_conn_error (PGClass ''UnableToSend'') ''%s %s''
       else cbind (pgconn_wait_for_flush lq) (\<lambda>_. cret Qnil))))"

definition pgconn_send_describe_prepared where
  "pgconn_send_describe_prepared env lq =
     pgconn_send_describe_close_prepared_portal env lq (PQsendDescribePrepared lq) ''PQsendDescribePrepared''"
definition pgconn_send_describe_portal where
  "pgconn_send_describe_portal env lq =
     pgconn_send_describe_close_prepared_portal env lq (PQsendDescribePortal lq) ''PQsendDescribePortal''"
definition pgconn_send_close_prepared where
  "pgconn_send_close_prepared env lq =
     pgconn_send_describe_close_prepared_portal env lq (PQsendClosePrepared lq) ''PQsendClosePrepared''"
definition pgconn_send_close_portal where
  "pgconn_send_close_portal env lq =
     pgconn_send_describe_close_prepared_portal env lq (PQsendClosePortal lq) ''PQsendClosePortal''"

section \<open>Results of queries that were sent\<close>

text \<open>\<open>PQgetResult\<close> and \<open>PQclear\<close> of a result that no object has.\<close>

definition get_pgresult :: "('w, 'z) libpq_query_scheme \<Rightarrow> nat \<Rightarrow> ('w, (nat \<times> exec_status) option) cop" where
  "get_pgresult lq conn =
     cbind (pq conn (PQgetResult lq)) (\<lambda>cur. case cur of
         None \<Rightarrow> cret None
       | Some d \<Rightarrow> cbind (on_results (alloc_pgresult d)) (\<lambda>a. cret (Some (a, pq_status d))))"

definition clear_pgresult :: "nat option \<Rightarrow> ('w, unit) cop" where
  "clear_pgresult p = (case p of None \<Rightarrow> cret () | Some a \<Rightarrow> on_results (PQclear a))"

definition copy_status :: "exec_status \<Rightarrow> bool" where
  "copy_status st \<longleftrightarrow> st = PGRES_COPY_OUT \<or> st = PGRES_COPY_IN \<or> st = PGRES_COPY_BOTH"

partial_function (option) last_result_loop ::
    "('w, 'z) libpq_query_scheme \<Rightarrow> ('w, unit) cop \<Rightarrow> nat \<Rightarrow> nat option \<Rightarrow> 'w cst \<Rightarrow> (nat option res \<times> 'w cst) option" where
  "last_result_loop lq wait conn prev s =
     cbind wait (\<lambda>_.
     cbind (get_pgresult lq conn) (\<lambda>cur. case cur of
         None \<Rightarrow> cret prev
       | Some c \<Rightarrow>
           cbind (clear_pgresult prev) (\<lambda>_.
             if copy_status (snd c) then cret (Some (fst c)) else last_result_loop lq wait conn (Some (fst c))))) s"

definition last_result :: "env \<Rightarrow> errors \<Rightarrow> ('w, 'z) libpq_query_scheme \<Rightarrow> nat option \<Rightarrow> ('w, rvalue) cop" where
  "last_result env errs lq prev = (case prev of
      None \<Rightarrow> cret Qnil
    | Some a \<Rightarrow>
        cbind pg_get_connection (\<lambda>this.
        cbind (on_results (pg_new_result (env_hs env) (conn_of this) (rb_locale_encindex lq) (Some a))) (\<lambda>rb_pgresult.
        cbind (on_results (pg_result_check errs rb_pgresult)) (\<lambda>_. cret (RObject rb_pgresult)))))"

definition pgconn_sync_get_last_result :: "env \<Rightarrow> errors \<Rightarrow> ('w, 'z) libpq_query_scheme \<Rightarrow> ('w, rvalue) cop" where
  "pgconn_sync_get_last_result env errs lq =
     cbind pg_get_pgconn (\<lambda>conn. cbind (last_result_loop lq (cret ()) conn None) (last_result env errs lq))"

definition wait_result :: "('w, 'z) libpq_query_scheme \<Rightarrow> ('w, unit) cop" where
  "wait_result lq = cbind (wait_socket_readable lq None (get_result_readable lq)) (\<lambda>_. cret ())"

definition pgconn_async_get_last_result :: "env \<Rightarrow> errors \<Rightarrow> ('w, 'z) libpq_query_scheme \<Rightarrow> ('w, rvalue) cop" where
  "pgconn_async_get_last_result env errs lq =
     cbind pg_get_pgconn (\<lambda>conn. cbind (last_result_loop lq (wait_result lq) conn None) (last_result env errs lq))"

section \<open>Discarding results\<close>

text \<open>The values of \<open>PQTRANS_IDLE\<close>, \<open>PQTRANS_INTRANS\<close> and \<open>PQTRANS_INERROR\<close>. The loops answer whether they came to
  their end or to the label \<open>error\<close>.\<close>

definition trans_idle :: "int \<Rightarrow> bool" where
  "trans_idle st \<longleftrightarrow> st = 0 \<or> st = 2 \<or> st = 3"

definition consume :: "('w, 'z) libpq_query_scheme \<Rightarrow> nat \<Rightarrow> ('w, bool) cop" where
  "consume lq conn = cbind (pq conn (PQconsumeInput lq)) (\<lambda>r. cret (r \<noteq> 0))"

partial_function (option) discard_busy ::
    "('w, 'z) libpq_query_scheme \<Rightarrow> nat \<Rightarrow> 'w cst \<Rightarrow> (bool res \<times> 'w cst) option" where
  "discard_busy lq conn s =
     cbind (pq conn (PQisBusy lq)) (\<lambda>busy.
       if \<not> busy then cret True
       else
         cbind (pq conn (PQflush lq)) (\<lambda>f.
           if f = 1 then
             cbind (io_wait_events lq (PG_RUBY_IO_READABLE OR PG_RUBY_IO_WRITABLE)) (\<lambda>events.
             cbind (if events AND PG_RUBY_IO_READABLE \<noteq> 0 then consume lq conn else cret True) (\<lambda>go_on.
               if go_on then discard_busy lq conn else cret False))
           else if f = 0 then
             cbind (io_wait lq PG_RUBY_IO_READABLE None) (\<lambda>_.
             cbind (consume lq conn) (\<lambda>go_on. if go_on then discard_busy lq conn else cret False))
           else cret False)) s"

partial_function (option) discard_copy_in ::
    "('w, 'z) libpq_query_scheme \<Rightarrow> nat \<Rightarrow> 'w cst \<Rightarrow> (unit res \<times> 'w cst) option" where
  "discard_copy_in lq conn s =
     cbind (pq conn (PQputCopyEnd lq (Some (lit ''COPY terminated by new query or discard_results'')))) (\<lambda>r.
       if r = 0 then cbind (pgconn_async_flush lq) (\<lambda>_. discard_copy_in lq conn) else cret ()) s"

partial_function (option) discard_copy_out ::
    "('w, 'z) libpq_query_scheme \<Rightarrow> nat \<Rightarrow> 'w cst \<Rightarrow> (bool res \<times> 'w cst) option" where
  "discard_copy_out lq conn s =
     cbind (pq conn (PQgetCopyData lq True)) (\<lambda>r.
       if fst r = 0 then
         cbind (io_wait lq PG_RUBY_IO_READABLE None) (\<lambda>_.
         cbind (consume lq conn) (\<lambda>go_on. if go_on then discard_copy_out lq conn else cret False))
       else if fst r > 0 then cbind malloc (\<lambda>_. cbind free (\<lambda>_. discard_copy_out lq conn))
       else cret True) s"

partial_function (option) discard_loop ::
    "('w, 'z) libpq_query_scheme \<Rightarrow> nat \<Rightarrow> 'w cst \<Rightarrow> (bool res \<times> 'w cst) option" where
  "discard_loop lq conn s =
     cbind (discard_busy lq conn) (\<lambda>go_on.
       if \<not> go_on then cret False
       else
         cbind (get_pgresult lq conn) (\<lambda>cur. case cur of
             None \<Rightarrow> cret True
           | Some c \<Rightarrow>
               cbind (clear_pgresult (Some (fst c))) (\<lambda>_.
               cbind (if snd c = PGRES_COPY_IN then discard_copy_in lq conn else cret ()) (\<lambda>_.
               cbind (if snd c = PGRES_COPY_OUT then discard_copy_out lq conn else cret True) (\<lambda>go_on.
                 if go_on then discard_loop lq conn else cret False))))) s"

definition pgconn_discard_results :: "('w, 'z) libpq_query_scheme \<Rightarrow> ('w, rvalue) cop" where
  "pgconn_discard_results lq =
     cbind pg_get_pgconn (\<lambda>conn.
     cbind (pq_get conn (PQtransactionStatus lq)) (\<lambda>st.
       if trans_idle st then cret Qnil
       else
         cbind (pgconn_socket_io lq) (\<lambda>socket_io.
         cbind (discard_loop lq conn) (\<lambda>go_on.
           if go_on then cret Qtrue else cbind (pgconn_close_socket_io lq) (\<lambda>_. cret Qfalse)))))"

section \<open>Asynchronous queries\<close>

text \<open>The result may also be nil; the block gets it and \<open>pg_result_clear\<close> is called with it then, too.\<close>

definition yield_last :: "'w result_block \<Rightarrow> (rvalue \<Rightarrow> ('w, rvalue) cop) \<Rightarrow> rvalue \<Rightarrow> ('w, rvalue) cop" where
  "yield_last block nil_block rb_pgresult = (case block of
      None \<Rightarrow> cret rb_pgresult
    | Some b \<Rightarrow> (case rb_pgresult of
          RObject r \<Rightarrow> yield_result block r
        | v \<Rightarrow> rb_ensure (nil_block v) (cerr (wrong_type ''PG::Result''))))"

definition async_query :: "env \<Rightarrow> errors \<Rightarrow> ('w, 'z) libpq_query_scheme \<Rightarrow> 'w result_block \<Rightarrow> (rvalue \<Rightarrow> ('w, rvalue) cop)
    \<Rightarrow> ('w, rvalue) cop \<Rightarrow> ('w, rvalue) cop" where
  "async_query env errs lq block nil_block send =
     cbind (pgconn_discard_results lq) (\<lambda>_.
     cbind send (\<lambda>_.
     cbind (pgconn_async_get_last_result env errs lq) (yield_last block nil_block)))"

definition pgconn_async_exec where
  "pgconn_async_exec env errs hash lq block nil_block a = async_query env errs lq block nil_block (pgconn_send_query env hash lq a)"

definition pgconn_async_exec_params where
  "pgconn_async_exec_params env errs hash lq block nil_block a =
     async_query env errs lq block nil_block
       (if plain_query a then pgconn_send_query env hash lq a else pgconn_send_query_params env hash lq a)"

definition pgconn_async_prepare where
  "pgconn_async_prepare env errs lq block nil_block argv = async_query env errs lq block nil_block (pgconn_send_prepare env lq argv)"

definition pgconn_async_exec_prepared where
  "pgconn_async_exec_prepared env errs hash lq block nil_block a =
     async_query env errs lq block nil_block (pgconn_send_query_prepared env hash lq a)"

definition pgconn_async_describe_close_prepared_potral where
  "pgconn_async_describe_close_prepared_potral env errs lq block nil_block func name =
     async_query env errs lq block nil_block (func env lq name)"

definition pgconn_async_describe_portal where
  "pgconn_async_describe_portal env errs lq block nil_block =
     pgconn_async_describe_close_prepared_potral env errs lq block nil_block pgconn_send_describe_portal"
definition pgconn_async_describe_prepared where
  "pgconn_async_describe_prepared env errs lq block nil_block =
     pgconn_async_describe_close_prepared_potral env errs lq block nil_block pgconn_send_describe_prepared"
definition pgconn_async_close_prepared where
  "pgconn_async_close_prepared env errs lq block nil_block =
     pgconn_async_describe_close_prepared_potral env errs lq block nil_block pgconn_send_close_prepared"
definition pgconn_async_close_portal where
  "pgconn_async_close_portal env errs lq block nil_block =
     pgconn_async_describe_close_prepared_potral env errs lq block nil_block pgconn_send_close_portal"

section \<open>COPY\<close>

definition coder_arg :: "t_pg_coder option \<Rightarrow> elem_arg \<Rightarrow> ('w, t_pg_coder option) cop" where
  "coder_arg dflt coder = (case coder of
      Elem_nil \<Rightarrow> cret dflt
    | Elem_coder c \<Rightarrow> cret (Some c)
    | Elem_other \<Rightarrow> cerr (wrong_type ''PG::Coder''))"

definition encode_copy_data :: "rb_api \<Rightarrow> t_pg_coder \<Rightarrow> rvalue \<Rightarrow> enc_idx \<Rightarrow> rvalue res" where
  "encode_copy_data rb p_coder value enc_idx =
     rbind (pg_coder_enc_func rb (Some p_coder) value False Qnil enc_idx) (\<lambda>(len, _, intermediate).
       if len = - 1 then Inr intermediate
       else rbind (pg_coder_enc_func rb (Some p_coder) value True intermediate enc_idx) (\<lambda>(len2, bs, _).
         if int (length bs) > len then Inl MemFault
         else if len2 > len then Inl Rb_bug
         else Inr (RString (take (nat len2) bs) rb_ascii8bit_encindex)))"

definition pgconn_sync_put_copy_data :: "rb_api \<Rightarrow> ('w, 'z) libpq_query_scheme \<Rightarrow> rvalue \<Rightarrow> elem_arg \<Rightarrow> ('w, rvalue) cop" where
  "pgconn_sync_put_copy_data rb lq value encoder =
     cbind pg_get_connection_safe (\<lambda>(this, conn).
     cbind (coder_arg (pc_encoder_for_put_copy_data this) encoder) (\<lambda>p_coder.
     cbind (clift (case p_coder of None \<Rightarrow> Inr value | Some c \<Rightarrow> encode_copy_data rb c value (pc_enc_idx this))) (\<lambda>buffer.
     cbind (check_string buffer) (\<lambda>_.
     cbind (clift (RSTRING_LENINT buffer)) (\<lambda>_.
     cbind (pq conn (PQputCopyData lq (str_bytes buffer))) (\<lambda>ret.
       if ret = - 1 then pg_raise_conn_error PGError ''%s'' else cret (if ret \<noteq> 0 then Qtrue else Qfalse)))))))"

definition pgconn_sync_put_copy_end :: "rb_api \<Rightarrow> ('w, 'z) libpq_query_scheme \<Rightarrow> rvalue list \<Rightarrow> ('w, rvalue) cop" where
  "pgconn_sync_put_copy_end rb lq argv =
     cbind pg_get_connection_safe (\<lambda>(this, conn).
     cbind (rb_scan_args 0 1 (length argv)) (\<lambda>_.
     cbind (if argv = [] then cret None else cbind (clift (pg_cstr_enc rb (arg argv 0) (pc_enc_idx this))) (\<lambda>m. cret (Some m))) (\<lambda>error_message.
     cbind (pq conn (PQputCopyEnd lq error_message)) (\<lambda>ret.
       if ret = - 1 then pg_raise_conn_error PGError ''%s'' else cret (if ret \<noteq> 0 then Qtrue else Qfalse)))))"

text \<open>The buffer with the row is memory of libpq that the method frees after decoding.\<close>

definition pgconn_sync_get_copy_data :: "rb_api \<Rightarrow> ('w, 'z) libpq_query_scheme \<Rightarrow> rvalue \<Rightarrow> elem_arg \<Rightarrow> ('w, rvalue) cop" where
  "pgconn_sync_get_copy_data rb lq async_in decoder =
     cbind pg_get_connection_safe (\<lambda>(this, conn).
     cbind (coder_arg (pc_decoder_for_get_copy_data this) decoder) (\<lambda>p_coder.
     cbind (pq conn (PQgetCopyData lq (async_in \<noteq> Qnil \<and> async_in \<noteq> Qfalse))) (\<lambda>(ret, buffer).
       if ret = - 2 then pg_raise_conn_error PGError ''%s''
       else if ret = - 1 then cret Qnil
       else if ret = 0 then cret Qfalse
       else
         cbind malloc (\<lambda>_.
         cbind (clift (case p_coder of
             Some c \<Rightarrow> pg_coder_dec_func rb (Some c) (coder_format c \<noteq> 0) (take (nat ret) buffer) 0 0 (pc_enc_idx this)
           | None \<Rightarrow> Inr (RString (take (nat ret) buffer) rb_ascii8bit_encindex))) (\<lambda>result.
         cbind free (\<lambda>_. cret result))))))"

end
