(* ===== verification/PG_Conn_Misc.thy ===== *)
theory PG_Conn_Misc
  imports PG_Conn_Query
begin

text \<open>
  \<open>ext/pg_connection.c\<close>, continued: escaping, client encodings with the table of \<open>ext/pg.c\<close>, notices, the pipeline mode
  and large objects.
\<close>

section \<open>The rest of libpq\<close>

text \<open>
  \<open>rb_enc_find\<close>, \<open>rb_enc_name\<close>, the conversion of an argument to an encoding and the default internal encoding are of
  Ruby; NULL is \<open>None\<close>. A notice receiver is a C function, known by a number, with
  \<open>gvl_notice_receiver_proxy\<close> and \<open>gvl_notice_processor_proxy\<close> for the ones of the extension.
\<close>

record 'w libpq = "'w libpq_query" +
  rb_enc_find :: "bytes \<Rightarrow> enc_idx option"
  rb_enc_name :: "enc_idx \<Rightarrow> bytes"
  rb_to_encoding :: "rvalue \<Rightarrow> enc_idx res"
  rb_default_internal_encoding :: "enc_idx option"
  PQescapeStringConn :: "bytes \<Rightarrow> 'w \<Rightarrow> bytes \<times> bool"
  PQescapeString :: "bytes \<Rightarrow> bytes"
  PQescapeByteaConn :: "bytes \<Rightarrow> 'w \<Rightarrow> bytes"
  PQescapeBytea :: "bytes \<Rightarrow> bytes"
  PQescapeLiteral :: "bytes \<Rightarrow> 'w \<Rightarrow> bytes option"
  PQescapeIdentifier :: "bytes \<Rightarrow> 'w \<Rightarrow> bytes option"
  PQsetErrorVerbosity :: "int \<Rightarrow> 'w \<Rightarrow> int \<times> 'w"
  PQsetErrorContextVisibility :: "int \<Rightarrow> 'w \<Rightarrow> int \<times> 'w"
  PQclientEncoding :: "'w \<Rightarrow> int"
  pg_encoding_to_char :: "int \<Rightarrow> bytes"
  PQsetClientEncoding :: "bytes \<Rightarrow> 'w \<Rightarrow> int \<times> 'w"
  gvl_notice_receiver_proxy :: nat
  gvl_notice_processor_proxy :: nat
  PQsetNoticeReceiver :: "nat option \<Rightarrow> 'w \<Rightarrow> nat \<times> 'w"
  PQsetNoticeProcessor :: "nat option \<Rightarrow> 'w \<Rightarrow> nat \<times> 'w"
  PQpipelineStatus :: "'w \<Rightarrow> int"
  PQenterPipelineMode :: "'w \<Rightarrow> int \<times> 'w"
  PQexitPipelineMode :: "'w \<Rightarrow> int \<times> 'w"
  PQpipelineSync :: "'w \<Rightarrow> int \<times> 'w"
  PQsendPipelineSync :: "'w \<Rightarrow> int \<times> 'w"
  PQsendFlushRequest :: "'w \<Rightarrow> int \<times> 'w"
  lo_creat :: "int \<Rightarrow> 'w \<Rightarrow> oid \<times> 'w"
  lo_create :: "oid \<Rightarrow> 'w \<Rightarrow> oid \<times> 'w"
  lo_import :: "bytes \<Rightarrow> 'w \<Rightarrow> oid \<times> 'w"
  lo_export :: "oid \<Rightarrow> bytes \<Rightarrow> 'w \<Rightarrow> int \<times> 'w"
  lo_open :: "oid \<Rightarrow> int \<Rightarrow> 'w \<Rightarrow> int \<times> 'w"
  lo_write :: "int \<Rightarrow> bytes \<Rightarrow> 'w \<Rightarrow> int \<times> 'w"
  lo_read :: "int \<Rightarrow> int \<Rightarrow> 'w \<Rightarrow> (int \<times> bytes) \<times> 'w"
  lo_lseek :: "int \<Rightarrow> int \<Rightarrow> int \<Rightarrow> 'w \<Rightarrow> int \<times> 'w"
  lo_tell :: "int \<Rightarrow> 'w \<Rightarrow> int \<times> 'w"
  lo_truncate :: "int \<Rightarrow> int \<Rightarrow> 'w \<Rightarrow> int \<times> 'w"
  lo_close :: "int \<Rightarrow> 'w \<Rightarrow> int \<times> 'w"
  lo_unlink :: "oid \<Rightarrow> 'w \<Rightarrow> int \<times> 'w"

section \<open>Escaping\<close>

text \<open>The String to escape, transcoded to the encoding of the connection.\<close>

definition string_in_enc :: "rb_api \<Rightarrow> rvalue \<Rightarrow> enc_idx \<Rightarrow> rvalue res" where
  "string_in_enc rb string enc_idx =
     rbind (StringValueCStr rb string) (\<lambda>s. if ENCODING_GET s \<noteq> enc_idx then rb_str_export_to_enc rb s enc_idx else Inr s)"

text \<open>The output has room for twice the length of the input and the NUL.\<close>

definition fill_string :: "bytes \<Rightarrow> nat \<Rightarrow> enc_idx \<Rightarrow> ('w, rvalue) cop" where
  "fill_string bs bufsize enc_idx = (if length bs < bufsize then cret (RString bs enc_idx) else cerr MemFault)"

definition pgconn_s_escape :: "rb_api \<Rightarrow> ('w, 'z) libpq_scheme \<Rightarrow> bool \<Rightarrow> rvalue \<Rightarrow> ('w, rvalue) cop" where
  "pgconn_s_escape rb lq singleton string =
     cbind (clift (StringValueCStr rb string)) (\<lambda>s.
     cbind (if singleton then cret (ENCODING_GET s) else cbind pg_get_connection (\<lambda>this. cret (pc_enc_idx this))) (\<lambda>enc_idx.
     cbind (clift (string_in_enc rb s enc_idx)) (\<lambda>s.
       let bufsize = length (str_bytes s) * 2 + 1 in
       if \<not> singleton then
         cbind pg_get_pgconn (\<lambda>conn.
         cbind (pq_get conn (PQescapeStringConn lq (str_bytes s))) (\<lambda>(bs, error).
           if length bs \<ge> bufsize then cerr MemFault
           else if error then pg_raise_conn_error PGError ''%s''
           else fill_string bs bufsize enc_idx))
       else fill_string (PQescapeString lq (str_bytes s)) bufsize enc_idx)))"

text \<open>The result of libpq is a block of its memory.\<close>

definition pgconn_s_escape_bytea :: "('w, 'z) libpq_scheme \<Rightarrow> bool \<Rightarrow> rvalue \<Rightarrow> ('w, rvalue) cop" where
  "pgconn_s_escape_bytea lq singleton str =
     cbind (check_string str) (\<lambda>_.
     cbind (if \<not> singleton then cbind pg_get_pgconn (\<lambda>conn. pq_get conn (PQescapeByteaConn lq (str_bytes str)))
            else cret (PQescapeBytea lq (str_bytes str))) (\<lambda>to.
     cbind malloc (\<lambda>_. cbind free (\<lambda>_. cret (RString to rb_ascii8bit_encindex)))))"

definition pgconn_s_unescape_bytea :: "rb_api \<Rightarrow> rvalue \<Rightarrow> ('w, rvalue) cop" where
  "pgconn_s_unescape_bytea rb str =
     cbind (check_string str) (\<lambda>_.
     cbind (clift (StringValueCStr rb str)) (\<lambda>s. case PQunescapeBytea rb (str_bytes s) of
         Some to \<Rightarrow> cbind malloc (\<lambda>_. cbind free (\<lambda>_. cret (RString to rb_ascii8bit_encindex)))
       | None \<Rightarrow> cerr (Raise NoMemError ''failed to allocate memory'' [])))"

text \<open>\<open>pgconn_escape_literal\<close> and \<open>pgconn_escape_identifier\<close> differ in the libpq function.\<close>

definition escape_with :: "rb_api \<Rightarrow> (bytes \<Rightarrow> 'w \<Rightarrow> bytes option) \<Rightarrow> rvalue \<Rightarrow> ('w, rvalue) cop" where
  "escape_with rb f string =
     cbind pg_get_connection_safe (\<lambda>(this, conn).
     cbind (clift (string_in_enc rb string (pc_enc_idx this))) (\<lambda>s.
     cbind (pq_get conn (f (str_bytes s))) (\<lambda>escaped. case escaped of
         None \<Rightarrow> pg_raise_conn_error PGError ''%s''
       | Some e \<Rightarrow> cbind malloc (\<lambda>_. cbind free (\<lambda>_. cret (RString e (pc_enc_idx this)))))))"

definition pgconn_escape_literal where "pgconn_escape_literal rb lq = escape_with rb (PQescapeLiteral lq)"
definition pgconn_escape_identifier where "pgconn_escape_identifier rb lq = escape_with rb (PQescapeIdentifier lq)"

definition pgconn_s_quote_ident :: "rb_api \<Rightarrow> bool \<Rightarrow> rvalue \<Rightarrow> ('w, rvalue) cop" where
  "pgconn_s_quote_ident rb singleton str_or_array =
     cbind (if \<not> singleton then cbind pg_get_connection (\<lambda>this. cret (pc_enc_idx this))
            else cret (if is_str str_or_array then ENCODING_GET str_or_array else rb_ascii8bit_encindex)) (\<lambda>enc_idx.
     cbind (clift (pg_text_enc_identifier rb str_or_array False Qundef enc_idx)) (\<lambda>(len, bs, ret). cret ret))"

section \<open>Encodings\<close>

text \<open>The table of \<open>pg.c\<close>.\<close>

definition enc_names :: "(string \<times> string) list" where
  "enc_names =
     [(''UTF8'', ''UTF-8''), (''BIG5'', ''Big5''), (''EUC_CN'', ''GB2312''), (''EUC_JP'', ''EUC-JP''),
      (''EUC_JIS_2004'', ''EUC-JP''), (''EUC_KR'', ''EUC-KR''), (''EUC_TW'', ''EUC-TW''), (''GB18030'', ''GB18030''),
      (''GBK'', ''GBK''), (''ISO_8859_5'', ''ISO-8859-5''), (''ISO_8859_6'', ''ISO-8859-6''),
      (''ISO_8859_7'', ''ISO-8859-7''), (''ISO_8859_8'', ''ISO-8859-8''), (''KOI8'', ''KOI8-R''), (''KOI8R'', ''KOI8-R''),
      (''KOI8U'', ''KOI8-U''), (''LATIN1'', ''ISO-8859-1''), (''LATIN2'', ''ISO-8859-2''), (''LATIN3'', ''ISO-8859-3''),
      (''LATIN4'', ''ISO-8859-4''), (''LATIN5'', ''ISO-8859-9''), (''LATIN6'', ''ISO-8859-10''),
      (''LATIN7'', ''ISO-8859-13''), (''LATIN8'', ''ISO-8859-14''), (''LATIN9'', ''ISO-8859-15''),
      (''LATIN10'', ''ISO-8859-16''), (''MULE_INTERNAL'', ''Emacs-Mule''), (''SJIS'', ''Windows-31J''),
      (''SHIFT_JIS_2004'', ''Windows-31J''), (''UHC'', ''CP949''), (''WIN866'', ''IBM866''), (''WIN874'', ''Windows-874''),
      (''WIN1250'', ''Windows-1250''), (''WIN1251'', ''Windows-1251''), (''WIN1252'', ''Windows-1252''),
      (''WIN1253'', ''Windows-1253''), (''WIN1254'', ''Windows-1254''), (''WIN1255'', ''Windows-1255''),
      (''WIN1256'', ''Windows-1256''), (''WIN1257'', ''Windows-1257''), (''WIN1258'', ''Windows-1258'')]"

definition pg_enc_pg2ruby_mapping :: "(bytes \<times> bytes) list" where
  "pg_enc_pg2ruby_mapping = map (\<lambda>(p, r). (lit p, lit r)) enc_names"

text \<open>The first entry with the name of PostgreSQL; \<open>strcmp\<close> with NULL is undefined.\<close>

definition pg_get_pg_encname_as_rb_encoding :: "(bytes \<Rightarrow> enc_idx option) \<Rightarrow> bytes option \<Rightarrow> enc_idx option res" where
  "pg_get_pg_encname_as_rb_encoding enc_find pg_encname = (case pg_encname of
      None \<Rightarrow> Inl MemFault
    | Some n \<Rightarrow> Inr (case map_of pg_enc_pg2ruby_mapping n of Some r \<Rightarrow> enc_find r | None \<Rightarrow> Some rb_ascii8bit_encindex))"

definition pg_get_pg_encoding_as_rb_encoding :: "('w, 'z) libpq_scheme \<Rightarrow> int \<Rightarrow> enc_idx option res" where
  "pg_get_pg_encoding_as_rb_encoding lq enc_id =
     pg_get_pg_encname_as_rb_encoding (rb_enc_find lq) (Some (pg_encoding_to_char lq enc_id))"

definition pg_conn_enc_get :: "('w, 'z) libpq_scheme \<Rightarrow> nat \<Rightarrow> ('w, enc_idx option) cop" where
  "pg_conn_enc_get lq conn =
     cbind (pq_get conn (PQclientEncoding lq)) (\<lambda>enc_id. clift (pg_get_pg_encoding_as_rb_encoding lq enc_id))"

text \<open>The loop runs over the whole table, so the last entry with the name of Ruby counts.\<close>

fun last_pg_name :: "('n \<times> 'n) list \<Rightarrow> 'n \<Rightarrow> 'n option \<Rightarrow> 'n option" where
  "last_pg_name [] rb_encname encname = encname"
| "last_pg_name ((p, r) # t) rb_encname encname = last_pg_name t rb_encname (if rb_encname = r then Some p else encname)"

definition pg_get_rb_encoding_as_pg_encoding :: "bytes \<Rightarrow> bytes" where
  "pg_get_rb_encoding_as_pg_encoding rb_encname =
     (case last_pg_name pg_enc_pg2ruby_mapping rb_encname None of None \<Rightarrow> lit ''SQL_ASCII'' | Some n \<Rightarrow> n)"

definition pgconn_get_client_encoding :: "('w, 'z) libpq_scheme \<Rightarrow> ('w, rvalue) cop" where
  "pgconn_get_client_encoding lq =
     cbind pg_get_pgconn (\<lambda>conn. cbind (pq_get conn (PQclientEncoding lq)) (\<lambda>id'.
       cret (RString (pg_encoding_to_char lq id') rb_ascii8bit_encindex)))"

text \<open>\<open>rb_enc_to_index(NULL)\<close> is 0.\<close>

definition PG_ENC_IDX_BITS :: nat where "PG_ENC_IDX_BITS = 28"

definition pgconn_set_internal_encoding_index :: "('w, 'z) libpq_scheme \<Rightarrow> ('w, unit) cop" where
  "pgconn_set_internal_encoding_index lq =
     cbind pg_get_connection_safe (\<lambda>(this, conn).
     cbind (pg_conn_enc_get lq conn) (\<lambda>enc.
       let enc_idx = (case enc of None \<Rightarrow> 0 | Some e \<Rightarrow> e) in
       if enc_idx \<ge> 2 ^ (PG_ENC_IDX_BITS - 1) then cerr (Raise ArgError ''unsupported encoding index %d'' [int enc_idx])
       else upd_conn (\<lambda>c. c\<lparr> pc_enc_idx := enc_idx \<rparr>)))"

definition pgconn_sync_set_client_encoding :: "rb_api \<Rightarrow> ('w, 'z) libpq_scheme \<Rightarrow> rvalue \<Rightarrow> ('w, rvalue) cop" where
  "pgconn_sync_set_client_encoding rb lq str =
     cbind pg_get_pgconn (\<lambda>conn.
     cbind rb_check_frozen (\<lambda>_.
     cbind (check_string str) (\<lambda>_.
     cbind (cstr rb str) (\<lambda>name.
     cbind (pq conn (PQsetClientEncoding lq name)) (\<lambda>r.
       if r = - 1 then pg_raise_conn_error PGError ''%s''
       else cbind (pgconn_set_internal_encoding_index lq) (\<lambda>_. cret Qnil))))))"

definition pgconn_internal_encoding :: "rb_api \<Rightarrow> ('w, 'z) libpq_scheme \<Rightarrow> ('w, rvalue) cop" where
  "pgconn_internal_encoding rb lq =
     cbind pg_get_pgconn (\<lambda>conn.
     cbind (pg_conn_enc_get lq conn) (\<lambda>enc.
       cret (case enc of None \<Rightarrow> Qnil | Some e \<Rightarrow> rb_enc_from_encoding rb e)))"

definition pgconn_external_encoding :: "rb_api \<Rightarrow> ('w, 'z) libpq_scheme \<Rightarrow> ('w, rvalue) cop" where
  "pgconn_external_encoding rb lq =
     cbind pg_get_connection_safe (\<lambda>(this, conn).
     cbind (pq_get conn (PQparameterStatus lq (lit ''server_encoding''))) (\<lambda>pg_encname.
     cbind (clift (pg_get_pg_encname_as_rb_encoding (rb_enc_find lq) pg_encname)) (\<lambda>enc.
       cret (case enc of None \<Rightarrow> Qnil | Some e \<Rightarrow> rb_enc_from_encoding rb e))))"

definition is_JOHAB :: "rvalue \<Rightarrow> bool" where
  "is_JOHAB enc \<longleftrightarrow> is_str enc \<and> map ascii_lower (str_bytes enc) = lit ''johab''"

definition pgconn_internal_encoding_set :: "rb_api \<Rightarrow> ('w, 'z) libpq_scheme \<Rightarrow> rvalue \<Rightarrow> ('w, rvalue) cop" where
  "pgconn_internal_encoding_set rb lq enc =
     cbind rb_check_frozen (\<lambda>_.
       if enc = Qnil then cbind (pgconn_sync_set_client_encoding rb lq (RString (lit ''SQL_ASCII'') rb_ascii8bit_encindex)) (\<lambda>_. cret enc)
       else if is_JOHAB enc then cbind (pgconn_sync_set_client_encoding rb lq (RString (lit ''JOHAB'') rb_ascii8bit_encindex)) (\<lambda>_. cret enc)
       else
         cbind (clift (rb_to_encoding lq enc)) (\<lambda>rbenc.
         cbind pg_get_pgconn (\<lambda>conn.
         cbind (pq conn (PQsetClientEncoding lq (pg_get_rb_encoding_as_pg_encoding (rb_enc_name lq rbenc)))) (\<lambda>r.
           if r = - 1 then
             cbind (pgconn_external_encoding rb lq) (\<lambda>_.
               cerr (Raise EncCompatError ''incompatible character encodings: %s and %s'' []))
           else cbind (pgconn_set_internal_encoding_index lq) (\<lambda>_. cret enc)))))"

text \<open>The name is put into the command as it is.\<close>

definition pgconn_async_set_client_encoding :: "env \<Rightarrow> errors \<Rightarrow> rb_hashes \<Rightarrow> ('w, 'z) libpq_scheme \<Rightarrow> rvalue \<Rightarrow> ('w, rvalue) cop" where
  "pgconn_async_set_client_encoding env errs hash lq encname =
     cbind rb_check_frozen (\<lambda>_.
     cbind (check_string encname) (\<lambda>_.
       let query = RString (lit ''set client_encoding to '' @ [c_squote] @ str_bytes encname @ [c_squote]) rb_ascii8bit_encindex in
       cbind (pgconn_async_exec env errs hash lq None (\<lambda>_. cret Qnil) ([query], None)) (\<lambda>_.
       cbind (pgconn_set_internal_encoding_index lq) (\<lambda>_. cret Qnil))))"

definition pgconn_set_client_encoding_async :: "env \<Rightarrow> errors \<Rightarrow> rb_hashes \<Rightarrow> ('w, 'z) libpq_scheme \<Rightarrow> rvalue \<Rightarrow> ('w, int) cop" where
  "pgconn_set_client_encoding_async env errs hash lq encname =
     rb_rescue (cbind (pgconn_async_set_client_encoding env errs hash lq encname) (\<lambda>_. cret 0)) 1"

definition pgconn_set_default_encoding :: "env \<Rightarrow> errors \<Rightarrow> rb_hashes \<Rightarrow> ('w, 'z) libpq_scheme \<Rightarrow> ('w, rvalue) cop" where
  "pgconn_set_default_encoding env errs hash lq =
     cbind pg_get_pgconn (\<lambda>conn.
     cbind rb_check_frozen (\<lambda>_. case rb_default_internal_encoding lq of
         Some rb_enc \<Rightarrow>
           cbind (pg_conn_enc_get lq conn) (\<lambda>conn_encoding.
           cbind (if conn_encoding \<noteq> Some rb_enc
                  then pgconn_set_client_encoding_async env errs hash lq
                    (RString (pg_get_rb_encoding_as_pg_encoding (rb_enc_name lq rb_enc)) rb_ascii8bit_encindex)
                  else cret 0) (\<lambda>_.
           cbind (pgconn_set_internal_encoding_index lq) (\<lambda>_. cret (rb_enc_from_encoding (env_rb env) rb_enc))))
       | None \<Rightarrow> cbind (pgconn_set_internal_encoding_index lq) (\<lambda>_. cret Qnil)))"

definition pgconn_s_sync_connect :: "env \<Rightarrow> errors \<Rightarrow> rb_hashes \<Rightarrow> ('w, 'z) libpq_scheme \<Rightarrow> ('w, rvalue) cop option \<Rightarrow> rvalue list
    \<Rightarrow> ('w, rvalue) cop" where
  "pgconn_s_sync_connect env errs hash lq block argv =
     cbind pgconn_s_allocate (\<lambda>_.
     cbind (clift (parse_connect_args lq argv)) (\<lambda>conninfo.
     cbind (start_connection (env_rb env) lq (PQconnectdb lq) ''PQconnectdb() unable to allocate PGconn structure'' conninfo) (\<lambda>_.
     cbind (pgconn_set_default_encoding env errs hash lq) (\<lambda>_. yield_conn lq block))))"

section \<open>Notices\<close>

definition pgconn_set_notice_receiver :: "('w, 'z) libpq_scheme \<Rightarrow> rvalue option \<Rightarrow> ('w, rvalue) cop" where
  "pgconn_set_notice_receiver lq block =
     cbind pg_get_connection_safe (\<lambda>(this, conn).
     cbind (case pc_default_notice_receiver this of
         None \<Rightarrow> cbind (pq conn (PQsetNoticeReceiver lq None)) (\<lambda>f.
           cbind (upd_conn (\<lambda>c. c\<lparr> pc_default_notice_receiver := Some f \<rparr>)) (\<lambda>_. cret f))
       | Some f \<Rightarrow> cret f) (\<lambda>default_receiver.
     cbind (pq conn (PQsetNoticeReceiver lq (Some (if block = None then default_receiver else gvl_notice_receiver_proxy lq)))) (\<lambda>_.
     cbind (upd_conn (\<lambda>c. c\<lparr> pc_notice_receiver := (case block of None \<Rightarrow> Qnil | Some p \<Rightarrow> p) \<rparr>)) (\<lambda>_.
       cret (pc_notice_receiver this)))))"

definition pgconn_set_notice_processor :: "('w, 'z) libpq_scheme \<Rightarrow> rvalue option \<Rightarrow> ('w, rvalue) cop" where
  "pgconn_set_notice_processor lq block =
     cbind pg_get_connection_safe (\<lambda>(this, conn).
     cbind (case pc_default_notice_processor this of
         None \<Rightarrow> cbind (pq conn (PQsetNoticeProcessor lq None)) (\<lambda>f.
           cbind (upd_conn (\<lambda>c. c\<lparr> pc_default_notice_processor := Some f \<rparr>)) (\<lambda>_. cret f))
       | Some f \<Rightarrow> cret f) (\<lambda>default_processor.
     cbind (pq conn (PQsetNoticeProcessor lq (Some (if block = None then default_processor else gvl_notice_processor_proxy lq)))) (\<lambda>_.
     cbind (upd_conn (\<lambda>c. c\<lparr> pc_notice_processor := (case block of None \<Rightarrow> Qnil | Some p \<Rightarrow> p) \<rparr>)) (\<lambda>_.
       cret (pc_notice_processor this)))))"

text \<open>The callbacks of libpq; \<open>call\<close> is the method of the proc. The \<open>PGresult\<close> belongs to libpq.\<close>

definition notice_receiver_proxy :: "env \<Rightarrow> ('w, 'z) libpq_query_scheme \<Rightarrow> (rvalue \<Rightarrow> nat \<Rightarrow> ('w, unit) cop) \<Rightarrow> nat \<Rightarrow> ('w, unit) cop" where
  "notice_receiver_proxy env lq call pgresult =
     cbind pg_get_connection (\<lambda>this.
       if pc_notice_receiver this \<noteq> Qnil then
         cbind (on_results (pg_new_result_autoclear (env_hs env) (conn_of this) (rb_locale_encindex lq) (Some pgresult))) (\<lambda>result.
         cbind (call (pc_notice_receiver this) result) (\<lambda>_. on_results (pg_result_clear result)))
       else cret ())"

definition notice_processor_proxy :: "(rvalue \<Rightarrow> rvalue \<Rightarrow> ('w, unit) cop) \<Rightarrow> bytes \<Rightarrow> ('w, unit) cop" where
  "notice_processor_proxy call message =
     cbind pg_get_connection (\<lambda>this.
       if pc_notice_processor this \<noteq> Qnil then call (pc_notice_processor this) (RString message (pc_enc_idx this)) else cret ())"

text \<open>A notice as libpq reports it: its result lives for the time of the call.\<close>

definition libpq_notice :: "env \<Rightarrow> ('w, 'z) libpq_query_scheme \<Rightarrow> (rvalue \<Rightarrow> nat \<Rightarrow> ('w, unit) cop) \<Rightarrow> pg_data \<Rightarrow> ('w, unit) cop" where
  "libpq_notice env lq call d =
     cbind (on_results (alloc_pgresult d)) (\<lambda>a.
     cbind (notice_receiver_proxy env lq call a) (\<lambda>_. on_results (PQclear a)))"

definition pgconn_set_error_verbosity :: "rb_api \<Rightarrow> ('w, 'z) libpq_scheme \<Rightarrow> rvalue \<Rightarrow> ('w, rvalue) cop" where
  "pgconn_set_error_verbosity rb lq in_verbosity =
     cbind pg_get_pgconn (\<lambda>conn. cbind (clift (num2 32 (rb_dbl2int rb) in_verbosity)) (\<lambda>v.
     cbind (pq conn (PQsetErrorVerbosity lq v)) (\<lambda>r. cret (RInteger r))))"

definition pgconn_set_error_context_visibility :: "rb_api \<Rightarrow> ('w, 'z) libpq_scheme \<Rightarrow> rvalue \<Rightarrow> ('w, rvalue) cop" where
  "pgconn_set_error_context_visibility rb lq in_context_visibility =
     cbind pg_get_pgconn (\<lambda>conn. cbind (clift (num2 32 (rb_dbl2int rb) in_context_visibility)) (\<lambda>v.
     cbind (pq conn (PQsetErrorContextVisibility lq v)) (\<lambda>r. cret (RInteger r))))"

section \<open>Pipeline mode\<close>

definition pgconn_pipeline_status where "pgconn_pipeline_status lq = conn_int (PQpipelineStatus lq)"

definition pipeline_call :: "('w \<Rightarrow> int \<times> 'w) \<Rightarrow> ('w, rvalue) cop" where
  "pipeline_call f =
     cbind pg_get_pgconn (\<lambda>conn. cbind (pq conn f) (\<lambda>res. if res \<noteq> 1 then pg_raise_conn_error PGError ''%s'' else cret Qnil))"

definition pgconn_enter_pipeline_mode where "pgconn_enter_pipeline_mode lq = pipeline_call (PQenterPipelineMode lq)"
definition pgconn_exit_pipeline_mode where "pgconn_exit_pipeline_mode lq = pipeline_call (PQexitPipelineMode lq)"
definition pgconn_sync_pipeline_sync where "pgconn_sync_pipeline_sync lq = pipeline_call (PQpipelineSync lq)"
definition pgconn_send_pipeline_sync where "pgconn_send_pipeline_sync lq = pipeline_call (PQsendPipelineSync lq)"
definition pgconn_send_flush_request where "pgconn_send_flush_request lq = pipeline_call (PQsendFlushRequest lq)"

section \<open>Large objects\<close>

text \<open>\<open>BLOCKING_BEGIN\<close> and \<open>BLOCKING_END\<close> around a call; an exception in between leaves the connection blocking.\<close>

definition blocking :: "('w, 'z) libpq_query_scheme \<Rightarrow> nat \<Rightarrow> ('w, 'a) cop \<Rightarrow> ('w, 'a) cop" where
  "blocking lq conn m =
     cbind (pq_get conn (PQisnonblocking lq)) (\<lambda>old_nonblocking.
     cbind (pq conn (PQsetnonblocking lq 0)) (\<lambda>_.
     cbind m (\<lambda>r.
     cbind (pq conn (PQsetnonblocking lq old_nonblocking)) (\<lambda>_. cret r))))"

abbreviation INV_READ :: int where "INV_READ \<equiv> 262144"

definition num2int_c :: "rb_api \<Rightarrow> rvalue \<Rightarrow> ('w, int) cop" where
  "num2int_c rb v = clift (num2 32 (rb_dbl2int rb) v)"

definition pgconn_locreat :: "rb_api \<Rightarrow> ('w, 'z) libpq_scheme \<Rightarrow> rvalue list \<Rightarrow> ('w, rvalue) cop" where
  "pgconn_locreat rb lq argv =
     cbind pg_get_pgconn (\<lambda>conn.
     cbind (rb_scan_args 0 1 (length argv)) (\<lambda>_.
     cbind (if argv = [] then cret INV_READ else num2int_c rb (arg argv 0)) (\<lambda>mode.
     cbind (blocking lq conn (pq conn (lo_creat lq mode))) (\<lambda>lo_oid.
       if lo_oid = 0 then pg_raise_conn_error PGError ''lo_creat failed'' else cret (RInteger (uint lo_oid))))))"

definition pgconn_locreate :: "rb_api \<Rightarrow> ('w, 'z) libpq_scheme \<Rightarrow> rvalue \<Rightarrow> ('w, rvalue) cop" where
  "pgconn_locreate rb lq in_lo_oid =
     cbind pg_get_pgconn (\<lambda>conn.
     cbind (clift (num2uint (rb_dbl2int rb) in_lo_oid)) (\<lambda>lo_oid.
     cbind (pq conn (lo_create lq lo_oid)) (\<lambda>ret.
       if ret = 0 then pg_raise_conn_error PGError ''lo_create failed'' else cret (RInteger (uint ret)))))"

definition pgconn_loimport :: "rb_api \<Rightarrow> ('w, 'z) libpq_scheme \<Rightarrow> rvalue \<Rightarrow> ('w, rvalue) cop" where
  "pgconn_loimport rb lq filename =
     cbind pg_get_pgconn (\<lambda>conn.
     cbind (check_string filename) (\<lambda>_.
     cbind (blocking lq conn (cbind (cstr rb filename) (\<lambda>f. pq conn (lo_import lq f)))) (\<lambda>lo_oid.
       if lo_oid = 0 then pg_raise_conn_error PGError ''%s'' else cret (RInteger (uint lo_oid)))))"

definition pgconn_loexport :: "rb_api \<Rightarrow> ('w, 'z) libpq_scheme \<Rightarrow> rvalue \<Rightarrow> rvalue \<Rightarrow> ('w, rvalue) cop" where
  "pgconn_loexport rb lq lo_oid filename =
     cbind pg_get_pgconn (\<lambda>conn.
     cbind (check_string filename) (\<lambda>_.
     cbind (clift (num2uint (rb_dbl2int rb) lo_oid)) (\<lambda>oid'.
     cbind (blocking lq conn (cbind (cstr rb filename) (\<lambda>f. pq conn (lo_export lq oid' f)))) (\<lambda>ret.
       if ret < 0 then pg_raise_conn_error PGError ''%s'' else cret Qnil))))"

definition pgconn_loopen :: "rb_api \<Rightarrow> ('w, 'z) libpq_scheme \<Rightarrow> rvalue list \<Rightarrow> ('w, rvalue) cop" where
  "pgconn_loopen rb lq argv =
     cbind pg_get_pgconn (\<lambda>conn.
     cbind (rb_scan_args 1 2 (length argv)) (\<lambda>_.
     cbind (clift (num2uint (rb_dbl2int rb) (arg argv 0))) (\<lambda>lo_oid.
     cbind (if arg argv 1 = Qnil then cret INV_READ else num2int_c rb (arg argv 1)) (\<lambda>mode.
     cbind (blocking lq conn (pq conn (lo_open lq lo_oid mode))) (\<lambda>fd.
       if fd < 0 then pg_raise_conn_error PGError ''can't open large object: %s'' else cret (RInteger fd))))))"

definition pgconn_lowrite :: "rb_api \<Rightarrow> ('w, 'z) libpq_scheme \<Rightarrow> rvalue \<Rightarrow> rvalue \<Rightarrow> ('w, rvalue) cop" where
  "pgconn_lowrite rb lq in_lo_desc buffer =
     cbind pg_get_pgconn (\<lambda>conn.
     cbind (num2int_c rb in_lo_desc) (\<lambda>fd.
     cbind (check_string buffer) (\<lambda>_.
     cbind (blocking lq conn (pq conn (lo_write lq fd (str_bytes buffer)))) (\<lambda>n.
       if n < 0 then pg_raise_conn_error PGError ''lo_write failed: %s'' else cret (RInteger n)))))"

text \<open>\<open>ALLOC_N(char, len)\<close> has to have room for what \<open>lo_read\<close> stores.\<close>

definition pgconn_loread :: "rb_api \<Rightarrow> ('w, 'z) libpq_scheme \<Rightarrow> rvalue \<Rightarrow> rvalue \<Rightarrow> ('w, rvalue) cop" where
  "pgconn_loread rb lq in_lo_desc in_len =
     cbind pg_get_pgconn (\<lambda>conn.
     cbind (num2int_c rb in_len) (\<lambda>len.
     cbind (num2int_c rb in_lo_desc) (\<lambda>lo_desc.
       if len < 0 then cerr (Raise PGError ''negative length %d given'' [len])
       else
         cbind malloc (\<lambda>_.
         cbind (blocking lq conn (pq conn (lo_read lq lo_desc len))) (\<lambda>(ret, buffer).
           if int (length buffer) > len then cerr MemFault
           else if ret < 0 then pg_raise_conn_error PGError ''lo_read failed''
           else if ret = 0 then cbind free (\<lambda>_. cret Qnil)
           else cbind free (\<lambda>_. cret (RString (take (nat ret) buffer) rb_ascii8bit_encindex)))))))"

definition pgconn_lolseek :: "rb_api \<Rightarrow> ('w, 'z) libpq_scheme \<Rightarrow> rvalue \<Rightarrow> rvalue \<Rightarrow> rvalue \<Rightarrow> ('w, rvalue) cop" where
  "pgconn_lolseek rb lq in_lo_desc offset whence =
     cbind pg_get_pgconn (\<lambda>conn.
     cbind (num2int_c rb in_lo_desc) (\<lambda>lo_desc.
     cbind (blocking lq conn (cbind (num2int_c rb offset) (\<lambda>o'. cbind (num2int_c rb whence) (\<lambda>w'.
         pq conn (lo_lseek lq lo_desc o' w'))))) (\<lambda>ret.
       if ret < 0 then pg_raise_conn_error PGError ''lo_lseek failed'' else cret (RInteger ret))))"

definition pgconn_lotell :: "rb_api \<Rightarrow> ('w, 'z) libpq_scheme \<Rightarrow> rvalue \<Rightarrow> ('w, rvalue) cop" where
  "pgconn_lotell rb lq in_lo_desc =
     cbind pg_get_pgconn (\<lambda>conn.
     cbind (num2int_c rb in_lo_desc) (\<lambda>lo_desc.
     cbind (blocking lq conn (pq conn (lo_tell lq lo_desc))) (\<lambda>position.
       if position < 0 then pg_raise_conn_error PGError ''lo_tell failed'' else cret (RInteger position))))"

text \<open>The length becomes a \<open>size_t\<close>.\<close>

definition pgconn_lotruncate :: "rb_api \<Rightarrow> ('w, 'z) libpq_scheme \<Rightarrow> rvalue \<Rightarrow> rvalue \<Rightarrow> ('w, rvalue) cop" where
  "pgconn_lotruncate rb lq in_lo_desc in_len =
     cbind pg_get_pgconn (\<lambda>conn.
     cbind (num2int_c rb in_lo_desc) (\<lambda>lo_desc.
     cbind (num2int_c rb in_len) (\<lambda>len.
     cbind (blocking lq conn (pq conn (lo_truncate lq lo_desc (len mod 2 ^ 64)))) (\<lambda>ret.
       if ret < 0 then pg_raise_conn_error PGError ''lo_truncate failed'' else cret Qnil))))"

definition pgconn_loclose :: "rb_api \<Rightarrow> ('w, 'z) libpq_scheme \<Rightarrow> rvalue \<Rightarrow> ('w, rvalue) cop" where
  "pgconn_loclose rb lq in_lo_desc =
     cbind pg_get_pgconn (\<lambda>conn.
     cbind (num2int_c rb in_lo_desc) (\<lambda>lo_desc.
     cbind (blocking lq conn (pq conn (lo_close lq lo_desc))) (\<lambda>ret.
       if ret < 0 then pg_raise_conn_error PGError ''lo_close failed'' else cret Qnil)))"

definition pgconn_lounlink :: "rb_api \<Rightarrow> ('w, 'z) libpq_scheme \<Rightarrow> rvalue \<Rightarrow> ('w, rvalue) cop" where
  "pgconn_lounlink rb lq in_oid =
     cbind pg_get_pgconn (\<lambda>conn.
     cbind (clift (num2uint (rb_dbl2int rb) in_oid)) (\<lambda>oid'.
     cbind (blocking lq conn (pq conn (lo_unlink lq oid'))) (\<lambda>ret.
       if ret < 0 then pg_raise_conn_error PGError ''lo_unlink failed'' else cret Qnil)))"

end
