(* ===== verification/PG_Conn_Invariant.thy ===== *)
theory PG_Conn_Invariant
  imports PG_Conn_Misc
begin

text \<open>
  The methods of \<open>PG::Connection\<close> keep the invariant of the connection and its results and never touch a
  \<open>PGconn\<close> that is finished, a result that is cleared or memory that is not theirs. A method that waits for
  the server may not return; what it has done by then is not looked at.
\<close>

named_theorems keeping

section \<open>Keeping an invariant\<close>

definition cgood :: "('w cst \<Rightarrow> bool) \<Rightarrow> ('a res \<times> 'w cst) option \<Rightarrow> bool" where
  "cgood J out \<longleftrightarrow> (case out of None \<Rightarrow> True | Some (r, s) \<Rightarrow> safe r \<and> J s)"

definition keeps :: "('w cst \<Rightarrow> bool) \<Rightarrow> ('w, 'a) cop \<Rightarrow> bool" where
  "keeps J m \<longleftrightarrow> (\<forall>s. J s \<longrightarrow> cgood J (m s))"

lemma keepsI: "(\<And>s. J s \<Longrightarrow> cgood J (m s)) \<Longrightarrow> keeps J m"
  by (simp add: keeps_def)

lemma keepsD: "keeps J m \<Longrightarrow> J s \<Longrightarrow> cgood J (m s)"
  by (simp add: keeps_def)

lemma cgood_cbind:
  assumes "cgood J (m s)" "\<And>x s'. m s = Some (Inr x, s') \<Longrightarrow> J s' \<Longrightarrow> cgood J (f x s')"
  shows "cgood J (cbind m f s)"
  using assms by (auto simp: cgood_def cbind_def safe_iff split: option.splits sum.splits)

lemma keeps_cbind [keeping]: "keeps J m \<Longrightarrow> (\<And>x. keeps J (f x)) \<Longrightarrow> keeps J (cbind m f)"
  by (auto simp: keeps_def intro: cgood_cbind)

lemma keeps_case [keeping]:
  "(\<And>a b. x = (a, b) \<Longrightarrow> keeps J (g a b)) \<Longrightarrow> keeps J (case x of (a, b) \<Rightarrow> g a b)"
  "(b \<Longrightarrow> keeps J m) \<Longrightarrow> (\<not> b \<Longrightarrow> keeps J n) \<Longrightarrow> keeps J (if b then m else n)"
  "(y = None \<Longrightarrow> keeps J m) \<Longrightarrow> (\<And>a. y = Some a \<Longrightarrow> keeps J (h a)) \<Longrightarrow> keeps J (case y of None \<Rightarrow> m | Some a \<Rightarrow> h a)"
  "keeps J (k z) \<Longrightarrow> keeps J (Let z k)"
  by (auto split: prod.split option.split)

lemma keeps_basic [keeping]:
  "keeps J (cret x)"
  "safe (Inl e :: unit res) \<Longrightarrow> keeps J (cerr e)"
  "safe r \<Longrightarrow> keeps J (clift r)"
  "keeps J pg_get_connection"
  "keeps J (rb_scan_args l m n)"
  "keeps J rb_check_frozen"
  "keeps J (pg_raise_conn_error k msg)"
  "keeps J (check_string v)"
  by (auto simp: keeps_def cgood_def cret_def cerr_def clift_def pg_get_connection_def rb_scan_args_def rb_check_frozen_def
      pg_raise_conn_error_def check_string_def safe_iff)

lemma keeps_ensure [keeping]:
  assumes "keeps J m" "keeps J c"
  shows "keeps J (rb_ensure m c)"
proof (rule keepsI)
  fix s assume s: "J s"
  show "cgood J (rb_ensure m c s)"
  proof (cases "m s")
    case (Some out)
    then have "safe (fst out)" "J (snd out)" using keepsD [OF assms(1) s] by (auto simp: cgood_def split: prod.splits)
    moreover have "cgood J (c (snd out))" using keepsD [OF assms(2)] calculation(2) .
    ultimately show ?thesis using Some
      by (cases out) (auto simp: rb_ensure_def cgood_def safe_iff split: option.split sum.split)
  qed (simp add: rb_ensure_def cgood_def)
qed

lemma keeps_rescue [keeping]: "keeps J m \<Longrightarrow> keeps J (rb_rescue m x)"
  by (auto simp: keeps_def cgood_def rb_rescue_def split: option.split sum.split rb_exc.split)

text \<open>The parts of the store that an invariant may leave open.\<close>

locale store_invariant =
  fixes J :: "'w cst \<Rightarrow> bool"
  assumes world_free: "J s \<Longrightarrow> J (s\<lparr> cs_world := w \<rparr>)"
    and blocks_free: "J s \<Longrightarrow> J (s\<lparr> cs_blocks := n \<rparr>)"
    and socket_free: "J s \<Longrightarrow> J (s\<lparr> cs_this := (cs_this s)\<lparr> pc_socket_io := v \<rparr> \<rparr>)"
    and sd_free: "J s \<Longrightarrow> J (s\<lparr> cs_this := (cs_this s)\<lparr> pc_ruby_sd := d \<rparr> \<rparr>)"
begin

lemma keeps_world: "(\<And>w. safe (fst (f w))) \<Longrightarrow> keeps J (world f)"
  by (auto simp: keeps_def cgood_def world_def Let_def world_free split: prod.split) (metis fst_conv)

lemma keeps_blocks: "keeps J malloc" "keeps J free"
  by (simp_all add: keeps_def cgood_def malloc_def free_def blocks_free)

lemma keeps_pq: "(\<And>s. J s \<Longrightarrow> c \<in> cs_live s) \<Longrightarrow> keeps J (pq c f)" "(\<And>s. J s \<Longrightarrow> c \<in> cs_live s) \<Longrightarrow> keeps J (pq_get c g)"
  by (auto simp: keeps_def cgood_def pq_def pq_get_def Let_def world_free split: prod.split)

lemma keeps_close_socket:
  assumes "\<And>v w. safe (fst (pq_io_close lq v w))"
  shows "keeps J (pgconn_close_socket_io lq)"
proof -
  have "keeps J (upd_conn (\<lambda>c. c\<lparr> pc_socket_io := Qnil \<rparr>))" by (simp add: keeps_def cgood_def upd_conn_def socket_free)
  then show ?thesis unfolding pgconn_close_socket_io_def pg_unwrap_socket_io_def by (intro keeping keeps_world assms)
qed

lemma keeps_wrap_socket:
  assumes "\<And>d w. safe (fst (pq_for_fd lq d w))"
  shows "keeps J (pg_wrap_socket_io lq sd)"
proof -
  have "keeps J (upd_conn (\<lambda>c. c\<lparr> pc_socket_io := v \<rparr>))" "keeps J (upd_conn (\<lambda>c. c\<lparr> pc_ruby_sd := sd \<rparr>))" for v
    by (simp_all add: keeps_def cgood_def upd_conn_def socket_free sd_free)
  then show ?thesis unfolding pg_wrap_socket_io_def by (intro keeping keeps_world assms)
qed

end

section \<open>The invariant of a connection\<close>

text \<open>
  The \<open>PGconn\<close> of the object is the only one that is not finished, so none is used after \<open>PQfinish\<close> and none is
  lost; the results are in order, those of \<open>E\<close> exist, and the \<open>PGresult\<close>s of \<open>P\<close> are in the hands of the method and not yet
  in an object; the coders and type maps are safe to call. With
  \<open>c = Some a\<close> the connection is open and stays the same.
\<close>

definition unowned :: "nat \<Rightarrow> rst \<Rightarrow> bool" where
  "unowned a s \<longleftrightarrow> (\<forall>i x. st_res s i = Some x \<longrightarrow> res_pgresult x \<noteq> Some a)"

text \<open>What libpq promises of a \<open>PGresult\<close>: every column has a name, and a SQLSTATE is not empty.\<close>

definition data_good :: "pg_data \<Rightarrow> bool" where
  "data_good d \<longleftrightarrow> data_ok d \<and> pq_errfields d 67 \<noteq> Some []"

definition conn_inv :: "env \<Rightarrow> nat set \<Rightarrow> nat set \<Rightarrow> nat option \<Rightarrow> 'w cst \<Rightarrow> bool" where
  "conn_inv env E P c s \<longleftrightarrow>
     cs_live s = set_option (pc_pgconn (cs_this s)) \<and> (\<forall>a\<in>cs_live s. a < cs_next s) \<and> (\<forall>a. c = Some a \<longrightarrow> pc_pgconn (cs_this s) = Some a) \<and>
     rinv env E {} Map.empty (cs_rst s) \<and>
     (\<forall>a\<in>P. unowned a (cs_rst s) \<and> (\<exists>d. st_heap (cs_rst s) a = Some d \<and> data_good d)) \<and>
     decoders_good (env_hs env) (pc_type_map_for_results (cs_this s)) \<and> encoders_good (pc_type_map_for_queries (cs_this s)) \<and>
     good_coder (pc_encoder_for_put_copy_data (cs_this s)) \<and> good_decoder (pc_decoder_for_get_copy_data (cs_this s))"

interpretation ci: store_invariant "conn_inv env E P c"
  by unfold_locales (simp_all add: conn_inv_def)

lemma keeps_pq_open [keeping]:
  "keeps (conn_inv env E P (Some a)) (pq a f)" "keeps (conn_inv env E P (Some a)) (pq_get a g)"
  by (intro ci.keeps_pq; simp add: conn_inv_def)+

lemma keeps_get_pgconn [keeping]:
  assumes "\<And>a. keeps (conn_inv env E P (Some a)) (f a)"
  shows "keeps (conn_inv env E P c) (cbind pg_get_pgconn f)"
proof (rule keepsI)
  fix s :: "'a cst" assume s: "conn_inv env E P c s"
  show "cgood (conn_inv env E P c) (cbind pg_get_pgconn f s)"
  proof (cases "pc_pgconn (cs_this s)")
    case None
    then show ?thesis using s
      by (simp add: cbind_def pg_get_pgconn_def pg_get_connection_def pg_raise_conn_error_def cerr_def cgood_def)
  next
    case (Some a)
    then have "cgood (conn_inv env E P (Some a)) (f a s)" using s by (intro keepsD [OF assms]) (simp add: conn_inv_def)
    moreover have "conn_inv env E P (Some a) t \<Longrightarrow> conn_inv env E P c t" for t using s Some by (simp add: conn_inv_def)
    ultimately have "cgood (conn_inv env E P c) (f a s)" by (auto simp: cgood_def split: option.splits)
    then show ?thesis using Some by (simp add: cbind_def pg_get_pgconn_def pg_get_connection_def cret_def)
  qed
qed

text \<open>The type maps and coders that the object has when the method starts are those of the invariant.\<close>

definition this_ok :: "env \<Rightarrow> t_pg_connection \<Rightarrow> bool" where
  "this_ok env this \<longleftrightarrow> decoders_good (env_hs env) (pc_type_map_for_results this) \<and> encoders_good (pc_type_map_for_queries this) \<and>
     good_coder (pc_encoder_for_put_copy_data this) \<and> good_decoder (pc_decoder_for_get_copy_data this)"

lemma keeps_get_this [keeping]:
  assumes "\<And>this. this_ok env this \<Longrightarrow> keeps (conn_inv env E P c) (f this)"
  shows "keeps (conn_inv env E P c) (cbind pg_get_connection f)"
  using assms by (auto simp: keeps_def cbind_def pg_get_connection_def this_ok_def conn_inv_def)

lemma keeps_get_safe [keeping]:
  assumes "\<And>this a. this_ok env this \<Longrightarrow> keeps (conn_inv env E P (Some a)) (f (this, a))"
  shows "keeps (conn_inv env E P c) (cbind pg_get_connection_safe f)"
proof (rule keepsI)
  fix s :: "'a cst" assume s: "conn_inv env E P c s"
  show "cgood (conn_inv env E P c) (cbind pg_get_connection_safe f s)"
  proof (cases "pc_pgconn (cs_this s) = None \<or> cs_frozen s")
    case True
    then show ?thesis using s
      by (auto simp: cbind_def pg_get_connection_safe_def pg_get_connection_def pg_raise_conn_error_def cerr_def cgood_def
          rb_check_frozen_def split: option.split)
  next
    case False
    then obtain a where a: "pc_pgconn (cs_this s) = Some a" by auto
    have "this_ok env (cs_this s)" using s by (simp add: conn_inv_def this_ok_def)
    then have "cgood (conn_inv env E P (Some a)) (f (cs_this s, a) s)" using s a by (intro keepsD [OF assms]) (simp_all add: conn_inv_def)
    moreover have "conn_inv env E P (Some a) t \<Longrightarrow> conn_inv env E P c t" for t using s a by (simp add: conn_inv_def)
    ultimately have "cgood (conn_inv env E P c) (f (cs_this s, a) s)" by (auto simp: cgood_def split: option.splits)
    then show ?thesis using a False
      by (simp add: cbind_def pg_get_connection_safe_def pg_get_connection_def rb_check_frozen_def cret_def)
  qed
qed

section \<open>What libpq and Ruby promise\<close>

text \<open>Ruby code that is called raises exceptions and nothing worse.\<close>

definition libpq_conn_ok :: "('w, 'z) libpq_conn_scheme \<Rightarrow> bool" where
  "libpq_conn_ok lq \<longleftrightarrow> (\<forall>v w. safe (fst (pq_io_close lq v w))) \<and> (\<forall>d w. safe (fst (pq_for_fd lq d w))) \<and>
     (\<forall>argv. safe (parse_connect_args lq argv))"

lemma libpq_conn_okD:
  assumes "libpq_conn_ok lq"
  shows "safe (fst (pq_io_close lq v w))" "safe (fst (pq_for_fd lq d w))" "safe (parse_connect_args lq argv)"
  using assms by (auto simp: libpq_conn_ok_def)

lemma StringValueCStr_safe: "rb_api_ok rb \<Longrightarrow> safe (StringValueCStr rb v)"
  by (auto simp: StringValueCStr_def rb_api_okD intro!: safe_rbind)

lemma keeps_cstr [keeping]: "rb_api_ok rb \<Longrightarrow> keeps J (cstr rb v)"
  unfolding cstr_def by (intro keeping StringValueCStr_safe)

section \<open>Opening and closing\<close>

lemma cgood_weaken: "cgood J out \<Longrightarrow> (\<And>s. J s \<Longrightarrow> K s) \<Longrightarrow> cgood K out"
  by (auto simp: cgood_def split: option.splits)

lemma cgood_then:
  assumes "cgood J (m s)" "\<And>s. J s \<Longrightarrow> K s" "\<And>x s'. J s' \<Longrightarrow> cgood K (f x s')"
  shows "cgood K (cbind m f s)"
proof (cases "m s")
  case (Some out)
  then show ?thesis using assms(1,2) assms(3) [of "snd out"]
    by (cases out; cases "fst out") (auto simp: cgood_def [of J] cbind_def, auto simp: cgood_def safe_iff)
qed (simp add: cbind_def cgood_def)

lemma conn_inv_closed: "conn_inv env E P c s \<Longrightarrow> conn_inv env E P None s"
  by (simp add: conn_inv_def)

text \<open>\<open>PQfinish\<close> and the assignment of NULL that follows.\<close>

lemma finish_ok:
  assumes "conn_inv env E P c s" "conn = pc_pgconn (cs_this s)"
    and "\<And>t. conn_inv env E P None t \<Longrightarrow> pc_pgconn (cs_this t) = None \<Longrightarrow> cgood K (f () t)"
  shows "cgood K (cbind (finish_pgconn lq conn) (\<lambda>_. cbind (upd_conn (\<lambda>c. c\<lparr> pc_pgconn := None \<rparr>)) f) s)"
proof (cases "pc_pgconn (cs_this s)")
  case None
  then show ?thesis using assms(1) unfolding assms(2)
    by (auto simp: finish_pgconn_def cbind_def upd_conn_def cret_def conn_inv_def intro!: assms(3))
next
  case (Some a)
  then show ?thesis using assms(1) unfolding assms(2)
    by (auto simp: finish_pgconn_def cbind_def pq_def upd_conn_def conn_inv_def intro!: assms(3))
qed

lemma start_ok:
  assumes "conn_inv env E P None s" "pc_pgconn (cs_this s) = None" "rb_api_ok rb"
  shows "cgood (conn_inv env E P None) (start_connection rb lq connect msg v s)"
proof (cases "StringValueCStr rb v")
  case (Inl e)
  then show ?thesis using StringValueCStr_safe [OF assms(3), of v] assms(1)
    by (simp add: start_connection_def cbind_def clift_def cgood_def safe_iff)
next
  case (Inr str)
  obtain made w where w: "connect (str_bytes str) (cs_world s) = (made, w)" by fastforce
  show ?thesis using Inr w assms(1,2)
    by (cases made) (auto simp: start_connection_def cbind_def clift_def cgood_def assign_pgconn_def Let_def pq_get_def pq_def
        pg_raise_conn_error_def cerr_def cret_def conn_inv_def)
qed

lemma keeps_finish [keeping]:
  assumes "libpq_conn_ok lq"
  shows "keeps (conn_inv env E P None) (pgconn_finish lq)"
proof (rule keepsI)
  fix s :: "'a cst" assume s: "conn_inv env E P None s"
  show "cgood (conn_inv env E P None) (pgconn_finish lq s)"
  proof (cases "pc_pgconn (cs_this s) = None \<or> cs_frozen s")
    case True
    then show ?thesis using s
      by (auto simp: pgconn_finish_def cbind_def pg_get_connection_safe_def pg_get_connection_def pg_raise_conn_error_def cerr_def
          cgood_def rb_check_frozen_def split: option.split)
  next
    case False
    then obtain a where a: "pc_pgconn (cs_this s) = Some a" by auto
    have "pgconn_finish lq s = cbind (pgconn_close_socket_io lq) (\<lambda>_. cbind (finish_pgconn lq (Some a)) (\<lambda>_.
        cbind (upd_conn (\<lambda>c. c\<lparr> pc_pgconn := None \<rparr>)) (\<lambda>_. cret Qnil))) s"
      using a False by (simp add: pgconn_finish_def cbind_def pg_get_connection_safe_def pg_get_connection_def rb_check_frozen_def cret_def)
    moreover have "cgood (conn_inv env E P None) \<dots>"
    proof (rule cgood_then [where J = "conn_inv env E P (Some a)"])
      show "cgood (conn_inv env E P (Some a)) (pgconn_close_socket_io lq s)"
        by (rule keepsD [OF ci.keeps_close_socket]) (use s a assms in \<open>auto simp: libpq_conn_ok_def conn_inv_def\<close>)
      show "cgood (conn_inv env E P None) (cbind (finish_pgconn lq (Some a)) (\<lambda>_. cbind (upd_conn (\<lambda>c. c\<lparr> pc_pgconn := None \<rparr>)) (\<lambda>_. cret Qnil)) t)"
        if "conn_inv env E P (Some a) t" for t
        using that by (intro finish_ok [OF that]) (auto simp: conn_inv_def cgood_def cret_def)
    qed (rule conn_inv_closed)
    ultimately show ?thesis by simp
  qed
qed

lemma keeps_reset_start2 [keeping]:
  assumes "libpq_conn_ok lq" "rb_api_ok rb"
  shows "keeps (conn_inv env E P None) (pgconn_reset_start2 rb lq v)"
proof -
  have "cgood (conn_inv env E P None) (cbind pg_get_connection (\<lambda>this. cbind (finish_pgconn lq (pc_pgconn this)) (\<lambda>_.
      cbind (upd_conn (\<lambda>c. c\<lparr> pc_pgconn := None \<rparr>)) (\<lambda>_. cbind (start_connection rb lq f msg str) (\<lambda>_. cret Qnil)))) s)"
    if "conn_inv env E P None s" for s :: "'a cst" and f msg str
  proof -
    have "cgood (conn_inv env E P None) (cbind (start_connection rb lq f msg str) (\<lambda>_. cret Qnil) t)"
      if "conn_inv env E P None t" "pc_pgconn (cs_this t) = None" for t
      by (rule cgood_cbind, rule start_ok [OF that assms(2)]) (simp add: cgood_def cret_def)
    then show ?thesis using finish_ok [OF that refl, of "conn_inv env E P None" "\<lambda>_. cbind (start_connection rb lq f msg str) (\<lambda>_. cret Qnil)" lq]
      by (subst cbind_def) (simp add: pg_get_connection_def)
  qed
  then have rest: "keeps (conn_inv env E P None) (cbind pg_get_connection (\<lambda>this. cbind (finish_pgconn lq (pc_pgconn this)) (\<lambda>_.
      cbind (upd_conn (\<lambda>c. c\<lparr> pc_pgconn := None \<rparr>)) (\<lambda>_. cbind (start_connection rb lq f msg str) (\<lambda>_. cret Qnil)))))" for f msg str
    by (blast intro: keepsI)
  show ?thesis unfolding pgconn_reset_start2_def
    by (rule keeps_cbind [OF keeps_basic(3) [OF StringValueCStr_safe [OF assms(2)]]],
        rule keeps_cbind [OF ci.keeps_close_socket [OF libpq_conn_okD(1) [OF assms(1)]]], rule rest)
qed

text \<open>A new object; the block may do anything that keeps the invariant, also finish the connection.\<close>

lemma connect_ok:
  assumes "libpq_conn_ok lq" "rb_api_ok rb" "conn_inv env E P None s" "pc_pgconn (cs_this s) = None"
    and "\<And>b. block = Some b \<Longrightarrow> keeps (conn_inv env E P None) b" "keeps (conn_inv env E P None) m"
  shows "cgood (conn_inv env E P None) (cbind pgconn_s_allocate (\<lambda>_. cbind (clift (parse_connect_args lq argv)) (\<lambda>conninfo.
      cbind (start_connection rb lq f msg conninfo) (\<lambda>_. cbind m (\<lambda>_. yield_conn lq block)))) s)"
proof -
  let ?s = "s\<lparr> cs_this := connection_allocated, cs_frozen := False \<rparr>"
  have s: "conn_inv env E P None ?s" "pc_pgconn (cs_this ?s) = None"
    using assms(3,4) by (auto simp: conn_inv_def connection_allocated_def)
  have k: "keeps (conn_inv env E P None) (cbind m (\<lambda>_. yield_conn lq block))"
    unfolding yield_conn_def using assms(5,6) by (auto intro!: keeping assms(1))
  have "cgood (conn_inv env E P None) (cbind (clift (parse_connect_args lq argv)) (\<lambda>conninfo.
      cbind (start_connection rb lq f msg conninfo) (\<lambda>_. cbind m (\<lambda>_. yield_conn lq block))) ?s)"
  proof (rule cgood_cbind)
    show "cgood (conn_inv env E P None) (clift (parse_connect_args lq argv) ?s)"
      using s(1) libpq_conn_okD(3) [OF assms(1)] by (simp add: cgood_def clift_def)
    show "cgood (conn_inv env E P None) (cbind (start_connection rb lq f msg v) (\<lambda>_. cbind m (\<lambda>_. yield_conn lq block)) t)"
      if "clift (parse_connect_args lq argv) ?s = Some (Inr v, t)" for v t
      by (rule cgood_cbind, rule start_ok [OF _ _ assms(2)]) (use that s in \<open>auto simp: clift_def intro: keepsD [OF k]\<close>)
  qed
  then show ?thesis by (subst cbind_def) (simp add: pgconn_s_allocate_def)
qed

lemma keeps_cret_unit: "keeps J (cret ())" by (rule keeping)

lemma connect_start_ok:
  assumes "libpq_conn_ok lq" "rb_api_ok rb" "conn_inv env E P None s" "pc_pgconn (cs_this s) = None"
    and "\<And>b. block = Some b \<Longrightarrow> keeps (conn_inv env E P None) b"
  shows "cgood (conn_inv env E P None) (pgconn_s_connect_start rb lq block argv s)"
proof -
  have "cbind (cret ()) (\<lambda>_. yield_conn lq block) = yield_conn lq block" by (simp add: cbind_def cret_def fun_eq_iff)
  then show ?thesis
    using connect_ok [OF assms(1-4) assms(5) keeps_cret_unit, where block = block and argv = argv and f = "PQconnectStart lq"
        and msg = "''PQconnectStart() unable to allocate PGconn structure''"]
    by (simp add: pgconn_s_connect_start_def)
qed

section \<open>Query parameters\<close>

lemma alloc_typemap:
  assumes "rb_api_ok rb" "answers_good tm" "encoders_good (qp_typemap qp)" "length (qp_memory_pool qp) = QUERYDATA_BUFFER_SIZE"
    and "alloc_query_params rb tm hash qp = Inr (n, qp')"
  shows "encoders_good (qp_typemap qp')"
proof -
  obtain ps where "qp_params qp = RArray ps" using assms(5) by (auto simp: alloc_query_params_def split: rvalue.splits)
  then show ?thesis using alloc_query_params_spec [OF assms(1-3) _ assms(4)] assms(5) by blast
qed

lemma alloc_safe:
  assumes "rb_api_ok rb" "tm_api_ok tm" "answers_good tm" "hashes_safe hash" "encoders_good (qp_typemap qp)"
    and "length (qp_memory_pool qp) = QUERYDATA_BUFFER_SIZE"
  shows "safe (alloc_query_params rb tm hash qp)"
    and "alloc_query_params rb tm hash qp = Inr (n, qp') \<Longrightarrow> safe (map_res (libpq_param qp') [0..<n])"
proof -
  let ?all = "rbind (alloc_query_params rb tm hash qp) (\<lambda>(n, qp'). map_res (libpq_param qp') [0..<n])"
  have "safe ?all"
  proof (cases "\<exists>ps. qp_params qp = RArray ps")
    case True
    then obtain ps where ps: "qp_params qp = RArray ps" by blast
    show ?thesis
      unfolding conjunct1 [OF alloc_query_params_spec [OF assms(1,3,5) ps assms(6)]]
    proof (rule safe_rbind [OF fit_to_query_safe [OF assms(2)]])
      show "safe (query_params_spec rb tm hash (qp_with_types qp) (qp_enc_idx qp) (qp_typemap qp) 0 ps)"
        if "fit_to_query tm (qp_typemap qp) (qp_params qp) = Inr x" for x
        using fit_to_query_columns that ps by (intro query_params_spec_safe [OF assms(1-4)]) (auto simp: assms(5))
    qed
  qed (cases "qp_params qp"; simp add: alloc_query_params_def)
  then show "safe (alloc_query_params rb tm hash qp)"
    and "alloc_query_params rb tm hash qp = Inr (n, qp') \<Longrightarrow> safe (map_res (libpq_param qp') [0..<n])"
    by (auto simp: safe_iff)
qed

text \<open>What the type maps of a query call: Ruby's own objects and Hashes, which raise at worst.\<close>

definition query_env_ok :: "env \<Rightarrow> rb_hashes \<Rightarrow> bool" where
  "query_env_ok env hash \<longleftrightarrow> env_ok env \<and> answers_good (env_tm env) \<and> hashes_safe hash"

definition typemap_arg_ok :: "typemap_arg option \<Rightarrow> bool" where
  "typemap_arg_ok typemap \<longleftrightarrow> (\<forall>t. typemap = Some (Typemap_arg t) \<longrightarrow> encoders_good t)"

lemma keeps_clift_then:
  assumes "safe r" "\<And>x. r = Inr x \<Longrightarrow> keeps J (f x)"
  shows "keeps J (cbind (clift r) f)"
  using assms by (cases r) (auto simp: keeps_def cbind_def clift_def cgood_def safe_iff)

lemma keeps_query_params [keeping]:
  assumes "query_env_ok env hash" "this_ok env this" "typemap_arg_ok typemap"
  shows "keeps (conn_inv env E P c) (query_params env hash this with_types params typemap fmt)"
proof -
  note ok = assms(1) [unfolded query_env_ok_def]
  note rb = env_okD(1) [OF conjunct1 [OF ok]] and tm = env_okD(2) [OF conjunct1 [OF ok]]
  have upd: "keeps (conn_inv env E P c) (upd_conn (\<lambda>c. c\<lparr> pc_type_map_for_queries := T \<rparr>))" if "encoders_good T" for T
    using that by (simp add: keeps_def cgood_def upd_conn_def conn_inv_def)
  let ?assign = "pgconn_query_assign_typemap (pc_type_map_for_queries this) (case typemap of None \<Rightarrow> Typemap_nil | Some t \<Rightarrow> t)
    (query_params_init (pc_enc_idx this) with_types params)"
  have assign: "encoders_good (qp_typemap qp)" "length (qp_memory_pool qp) = QUERYDATA_BUFFER_SIZE" if "?assign = Inr qp" for qp
    using that assms(2,3) by (auto simp: pgconn_query_assign_typemap_def this_ok_def typemap_arg_ok_def query_params_init_def
        split: typemap_arg.splits option.splits)
  show ?thesis
    unfolding query_params_def
  proof (rule keeps_clift_then)
    show "safe ?assign" by (simp add: pgconn_query_assign_typemap_def split: typemap_arg.split)
  next
    fix qp assume qp: "?assign = Inr qp"
    note alloc = alloc_safe [OF rb tm _ _ assign [OF qp], of hash] alloc_typemap [OF rb _ assign [OF qp]]
    show "keeps (conn_inv env E P c) (cbind (if fmt = Qnil then cret 0 else clift (num2 32 (rb_dbl2int (env_rb env)) fmt)) (\<lambda>resultFormat.
        cbind (clift (alloc_query_params (env_rb env) (env_tm env) hash qp)) (\<lambda>(nParams, paramsData).
        cbind (if typemap = None \<or> typemap = Some Typemap_nil
            then upd_conn (\<lambda>c. c\<lparr> pc_type_map_for_queries := qp_typemap paramsData \<rparr>) else cret ()) (\<lambda>_.
        cbind (clift (map_res (libpq_param paramsData) [0..<nParams])) (\<lambda>args. cret (args, resultFormat))))))"
      using ok by (intro keeps_clift_then keeping upd safe_num2 alloc) auto
  qed
qed

section \<open>Results of a connection\<close>

text \<open>The object for a \<open>PGresult\<close> that no other object has; a type map that does not fit raises and leaves the
  object without it.\<close>

definition made :: "env \<Rightarrow> nat set \<Rightarrow> pg_data option \<Rightarrow> nat res \<times> rst \<Rightarrow> bool" where
  "made env E d out \<longleftrightarrow> good (rinv env E {} Map.empty) out \<and> (\<forall>self s. out = (Inr self, s) \<longrightarrow>
     rinv env (insert self E) {} Map.empty s \<and> (\<exists>r. st_res s self = Some r \<and> \<not> res_frozen r \<and> res_connection r \<and>
       (case d of None \<Rightarrow> res_pgresult r = None | Some d \<Rightarrow> \<exists>a. res_pgresult r = Some a \<and> st_heap s a = Some d)))"

lemma rinv_insert:
  assumes "rinv env E H F s" "obj_ok env (st_heap s) r" "\<And>i x a. st_res s i = Some x \<Longrightarrow> res_pgresult r = Some a \<Longrightarrow> res_pgresult x \<noteq> Some a"
    and "u = st_gc_usage s + res_size r" "shape_ok env r"
    and "\<And>a d. res_pgresult r = Some a \<Longrightarrow> st_heap s a = Some d \<Longrightarrow> PQnfields d = int (res_capa r)"
    and "E' \<subseteq> insert (st_next s) E" "F' \<subseteq>\<^sub>m F" "F (st_next s) = None"
  shows "rinv env E' H F' (s\<lparr> st_next := st_next s + 1, st_res := (st_res s)(st_next s \<mapsto> r), st_gc_usage := u \<rparr>)"
proof -
  have "F' \<subseteq>\<^sub>m F(st_next s \<mapsto> res_capa r)" using assms(8,9) by (auto simp: map_le_def dom_def)
  moreover have "rinv env (insert (st_next s) E) H (F(st_next s \<mapsto> res_capa r))
      (s\<lparr> st_next := st_next s + 1, st_res := (st_res s)(st_next s \<mapsto> r), st_gc_usage := u \<rparr>)"
    by (rule rinv_new_object [OF assms(1,2) _ assms(4,5)]) (use assms(3,6) in auto)
  ultimately show ?thesis using rinv_weaken assms(7) by blast
qed

lemma new_result_object:
  assumes "rinv env E {} Map.empty s" "decoders_good (env_hs env) (conn_type_map_for_results p)"
    and "st_heap s a = Some d" "data_ok d" "unowned a s"
  shows "made env E (Some d) (pg_new_result (env_hs env) p locale (Some a) s)"
proof -
  let ?obj = "\<lambda>tm e fl sz. \<lparr> res_pgresult = Some a, res_connection = True, res_typemap = tm, res_enc_idx = e,
      res_autoclear = False, res_flags = fl, res_nfields = - 1, res_size = sz, res_field_map = None,
      res_capa = nat (PQnfields d), res_fnames = [], res_frozen = False \<rparr>"
  let ?new = "\<lambda>r u. s\<lparr> st_next := st_next s + 1, st_res := (st_res s)(st_next s \<mapsto> r), st_gc_usage := u \<rparr>"
  have ins: "rinv env E' {} Map.empty (?new (?obj tm e fl sz) (st_gc_usage s + sz))"
    if "result_ready (env_hs env) (nat (PQnfields d)) tm" "E' \<subseteq> insert (st_next s) E" for tm e fl sz E'
  proof (rule rinv_insert [OF assms(1)])
    show "obj_ok env (st_heap s) (?obj tm e fl sz)" using assms(3,4) that(1) by (intro obj_ok_new)
  qed (use that assms(5) in \<open>auto simp: unowned_def shape_ok_def PQnfields_def assms(3)\<close>)
  show ?thesis
  proof (cases "fit_to_result (env_hs env) (conn_type_map_for_results p) (pgresult.truncate d)")
    case (Inl e)
    then have "pg_new_result (env_hs env) p locale (Some a) s =
        (Inl e, ?new (?obj TypeMapAllStrings (conn_enc_idx p) 0 0) (st_gc_usage s + 0))"
      using assms(3) by (cases s) (simp add: pg_new_result_def pg_new_result2_def obind_def deref_or_null_def deref_def oret_def
          upd_this_def olift_def)
    moreover have "safe (Inl e :: unit res)" using fit_to_result_safe [of "env_hs env" "conn_type_map_for_results p" "pgresult.truncate d"] Inl
      by (simp add: safe_iff)
    ultimately show ?thesis using ins [of TypeMapAllStrings E 0 "conn_enc_idx p" 0] by (simp add: made_def good_def safe_iff subset_insertI)
  next
    case (Inr x)
    obtain tm same tm' where x: "x = (tm, same, tm')" by (cases x)
    let ?sz = "pgresult_approx_size (pgresult.truncate d)"
    have "pg_new_result (env_hs env) p locale (Some a) s =
        (Inr (st_next s), ?new (?obj tm (conn_enc_idx p) (conn_flags p) ?sz) (st_gc_usage s + ?sz))"
      using assms(3) Inr x by (simp add: pg_new_result_def pg_new_result2_def obind_def deref_or_null_def deref_def oret_def upd_this_def
          olift_def rb_gc_adjust_memory_usage_def Let_def)
    moreover have "result_ready (env_hs env) (nat (PQnfields d)) tm" using fit_to_result_ready [OF Inr [unfolded x] assms(2)] by simp
    ultimately show ?thesis using ins [of tm E] ins [of tm "insert (st_next s) E"] assms(3)
      by (simp add: made_def good_def subset_insertI)
  qed
qed

lemma receive_made:
  assumes "rinv env E {} Map.empty s" "decoders_good (env_hs env) (conn_type_map_for_results p)" "data_ok d"
  shows "made env E (Some d) (receive_result env p locale d s)"
proof -
  let ?s = "s\<lparr> st_next := st_next s + 1, st_heap := (st_heap s)(st_next s := Some d) \<rparr>"
  have "made env E (Some d) (pg_new_result (env_hs env) p locale (Some (st_next s)) ?s)"
    using rinv_new_pgresult(2) [OF assms(1)]
    by (intro new_result_object [OF rinv_new_pgresult(1) [OF assms(1)] assms(2) _ assms(3)]) (auto simp: unowned_def)
  then show ?thesis by (simp add: receive_result_def obind_def alloc_pgresult_def)
qed

text \<open>NULL, which libpq returns when it has no memory, counts with the size of a \<open>PGresult\<close>; clearing the object does
  not take it back.\<close>

lemma null_result_gc_usage:
  "\<exists>t. obind (pg_new_result hs p locale None) pgresult_clear s = (Inr (), t) \<and> st_gc_usage t = st_gc_usage s + 216"
  by (auto simp: pg_new_result_def pg_new_result2_def obind_def deref_or_null_def oret_def upd_this_def rb_gc_adjust_memory_usage_def
      Let_def pgresult_clear_def pgresult_get_this_def null_result_def pgresult_approx_size_def PQnfields_def)

text \<open>The object that was made passes through \<open>pg_result_check\<close>.\<close>

definition made_in :: "env \<Rightarrow> nat set \<Rightarrow> nat option \<Rightarrow> (nat res \<times> 'w cst) option \<Rightarrow> bool" where
  "made_in env E c out \<longleftrightarrow> cgood (conn_inv env E {} c) out \<and> (\<forall>r t. out = Some (Inr r, t) \<longrightarrow> conn_inv env (insert r E) {} c t)"

lemma conn_inv_results:
  "conn_inv env E P c s \<Longrightarrow> rinv env E' {} Map.empty t \<Longrightarrow> conn_inv env E' {} c (s\<lparr> cs_rst := t \<rparr>)"
  by (simp add: conn_inv_def)

lemma new_then_check:
  assumes "conn_inv env E P c s" "made env E (Some d) (m (cs_rst s))" "data_good d"
  shows "made_in env E c (cbind (on_results m) (\<lambda>r. cbind (on_results (pg_result_check errs r)) (\<lambda>_. cret r)) s)"
    and "made_in env E c (on_results m s)"
proof -
  obtain out t where m: "m (cs_rst s) = (out, t)" by fastforce
  have inv: "conn_inv env E {} c (s\<lparr> cs_rst := t \<rparr>)" "safe out"
    using assms(2) m conn_inv_results [OF assms(1)] by (auto simp: made_def good_def)
  show "made_in env E c (on_results m s)"
    using assms(2) inv conn_inv_results [OF assms(1)] by (auto simp: made_in_def made_def on_results_def m cgood_def)
  show "made_in env E c (cbind (on_results m) (\<lambda>r. cbind (on_results (pg_result_check errs r)) (\<lambda>_. cret r)) s)"
  proof (cases out)
    case (Inl e)
    then show ?thesis using inv m by (auto simp: made_in_def cbind_def on_results_def cgood_def safe_iff)
  next
    case (Inr r)
    obtain o' a where r: "rinv env (insert r E) {} Map.empty t" "st_res t r = Some o'" "res_pgresult o' = Some a" "st_heap t a = Some d"
      using assms(2) m Inr unfolding made_def by auto
    have "good (\<lambda>u. u = t) (obind (pg_result_check errs r) oret t)"
      using assms(3) by (intro good_result_check [OF r(2-4)]) (auto simp: data_good_def good_def oret_def)
    moreover have "obind (pg_result_check errs r) oret = pg_result_check errs r"
      by (simp add: obind_def oret_def fun_eq_iff split: prod.split sum.split)
    ultimately obtain y where y: "pg_result_check errs r t = (y, t)" "safe y" by (cases "pg_result_check errs r t") (auto simp: good_def)
    have "conn_inv env (insert r E) {} c (s\<lparr> cs_rst := t \<rparr>)" using conn_inv_results [OF assms(1) r(1)] .
    then show ?thesis using inv(1) m Inr y
      by (cases y) (auto simp: made_in_def cbind_def on_results_def cgood_def cret_def safe_iff)
  qed
qed

lemma checked_result_ok:
  assumes "conn_inv env E {} c s" "data_good d"
  shows "made_in env E c (checked_result env errs lq (Some d) s)" "made_in env E c (new_result env lq (Some d) s)"
proof -
  let ?m = "receive_result env (conn_of (cs_this s)) (rb_locale_encindex lq) d"
  have "made env E (Some d) (?m (cs_rst s))"
    using assms by (intro receive_made) (auto simp: conn_inv_def conn_of_def data_good_def)
  from new_then_check [where m = ?m, OF assms(1) this assms(2)]
  show "made_in env E c (checked_result env errs lq (Some d) s)" "made_in env E c (new_result env lq (Some d) s)"
    by (simp_all add: checked_result_def new_result_def cbind_def pg_get_connection_def)
qed

text \<open>
  A block may do what it likes with the result and the connection, as long as it keeps the invariant: it may also
  clear the result or finish the connection, so a method does not use the connection after it.
\<close>

definition block_ok :: "env \<Rightarrow> nat set \<Rightarrow> 'w result_block \<Rightarrow> bool" where
  "block_ok env E block \<longleftrightarrow> (\<forall>b r E'. block = Some b \<longrightarrow> r \<in> E' \<longrightarrow> E \<subseteq> E' \<longrightarrow> keeps (conn_inv env E' {} None) (b r))"

definition serves :: "env \<Rightarrow> nat set \<Rightarrow> nat \<Rightarrow> ('w, 'a) cop \<Rightarrow> bool" where
  "serves env E a m \<longleftrightarrow> (\<forall>s. conn_inv env E {} (Some a) s \<longrightarrow> cgood (conn_inv env E {} None) (m s))"

named_theorems serving

lemma conn_inv_less: "conn_inv env E' P c s \<Longrightarrow> E \<subseteq> E' \<Longrightarrow> conn_inv env E P c s"
  using rinv_weaken [of env E' "{}" Map.empty "cs_rst s" E Map.empty] by (auto simp: conn_inv_def)

lemma serves_cbind [serving]:
  "keeps (conn_inv env E {} (Some a)) m \<Longrightarrow> (\<And>x. serves env E a (f x)) \<Longrightarrow> serves env E a (cbind m f)"
  unfolding serves_def by (auto intro!: cgood_then [OF keepsD] conn_inv_closed)

lemma serves_case [serving]:
  "(\<And>i j. x = (i, j) \<Longrightarrow> serves env E a (g i j)) \<Longrightarrow> serves env E a (case x of (i, j) \<Rightarrow> g i j)"
  "(b \<Longrightarrow> serves env E a m) \<Longrightarrow> (\<not> b \<Longrightarrow> serves env E a n) \<Longrightarrow> serves env E a (if b then m else n)"
  "(y = None \<Longrightarrow> serves env E a m) \<Longrightarrow> (\<And>i. y = Some i \<Longrightarrow> serves env E a (h i)) \<Longrightarrow>
    serves env E a (case y of None \<Rightarrow> m | Some i \<Rightarrow> h i)"
  by (auto split: prod.split option.split)

lemma serves_end: "keeps (conn_inv env E {} None) m \<Longrightarrow> serves env E a m"
  unfolding serves_def by (blast intro: keepsD conn_inv_closed)

lemma serves_safe [serving]:
  assumes "\<And>this a. this_ok env this \<Longrightarrow> serves env E a (f (this, a))"
  shows "keeps (conn_inv env E {} None) (cbind pg_get_connection_safe f)"
proof (rule keepsI)
  fix s :: "'a cst" assume s: "conn_inv env E {} None s"
  show "cgood (conn_inv env E {} None) (cbind pg_get_connection_safe f s)"
  proof (cases "pc_pgconn (cs_this s) = None \<or> cs_frozen s")
    case True
    then show ?thesis using s
      by (auto simp: cbind_def pg_get_connection_safe_def pg_get_connection_def pg_raise_conn_error_def cerr_def cgood_def
          rb_check_frozen_def split: option.split)
  next
    case False
    then obtain a where a: "pc_pgconn (cs_this s) = Some a" by auto
    have "this_ok env (cs_this s)" "conn_inv env E {} (Some a) s" using s a by (simp_all add: conn_inv_def this_ok_def)
    then have "cgood (conn_inv env E {} None) (f (cs_this s, a) s)" using assms by (simp add: serves_def)
    then show ?thesis using a False
      by (simp add: cbind_def pg_get_connection_safe_def pg_get_connection_def rb_check_frozen_def cret_def)
  qed
qed

lemma serves_safe2:
  "(\<And>this a. this_ok env this \<Longrightarrow> serves env E a (f this a)) \<Longrightarrow>
    keeps (conn_inv env E {} None) (cbind pg_get_connection_safe (\<lambda>(this, conn). f this conn))"
  by (rule serves_safe) simp

lemma keeps_get_safe2:
  "(\<And>this a. this_ok env this \<Longrightarrow> keeps (conn_inv env E P (Some a)) (f this a)) \<Longrightarrow>
    keeps (conn_inv env E P c) (cbind pg_get_connection_safe (\<lambda>(this, conn). f this conn))"
  by (rule keeps_get_safe) simp

lemma serves_pgconn [serving]:
  assumes "\<And>a. serves env E a (f a)"
  shows "keeps (conn_inv env E {} None) (cbind pg_get_pgconn f)"
proof (rule keepsI)
  fix s :: "'a cst" assume s: "conn_inv env E {} None s"
  show "cgood (conn_inv env E {} None) (cbind pg_get_pgconn f s)"
  proof (cases "pc_pgconn (cs_this s)")
    case (Some a)
    have "conn_inv env E {} (Some a) s" using s Some by (simp add: conn_inv_def)
    then have "cgood (conn_inv env E {} None) (f a s)" using assms by (simp add: serves_def)
    then show ?thesis using Some by (simp add: cbind_def pg_get_pgconn_def pg_get_connection_def cret_def)
  qed (use s in \<open>simp add: cbind_def pg_get_pgconn_def pg_get_connection_def pg_raise_conn_error_def cerr_def cgood_def\<close>)
qed

lemma keeps_result_clear:
  assumes "r \<in> E"
  shows "keeps (conn_inv env E {} c) (on_results (pg_result_clear r))"
proof (rule keepsI)
  fix s :: "'a cst" assume s: "conn_inv env E {} c s"
  have rinv: "rinv env E {} Map.empty (cs_rst s)" using s by (simp add: conn_inv_def)
  then obtain x where "st_res (cs_rst s) r = Some x" using rinv_exists [OF _ assms] by blast
  then have "good (rinv env E {} Map.empty) (pg_result_clear r (cs_rst s))"
    using good_clear [OF rinv assms] rinv by (auto simp: pg_result_clear_def check_frozen_def exec)
  then show "cgood (conn_inv env E {} c) (on_results (pg_result_clear r) s)"
    using conn_inv_results [OF s] by (auto simp: on_results_def cgood_def good_def Let_def split: prod.split)
qed

lemma keeps_yield_result:
  assumes "block_ok env E block" "r \<in> E'" "E \<subseteq> E'"
  shows "keeps (conn_inv env E' {} None) (yield_result block r)"
  using assms unfolding yield_result_def block_ok_def by (auto intro!: keeping keeps_result_clear)

lemma made_then:
  assumes "\<And>s. conn_inv env E P (Some a) s \<Longrightarrow> made_in env E (Some a) (m s)" "conn_inv env E P (Some a) s"
    and "\<And>r. keeps (conn_inv env (insert r E) {} None) (f r)"
  shows "cgood (conn_inv env E {} None) (cbind m f s)"
proof (cases "m s")
  case (Some out)
  obtain r t where out: "out = (r, t)" by (cases out)
  note m = assms(1) [OF assms(2), unfolded made_in_def Some out]
  show ?thesis
  proof (cases r)
    case (Inl e)
    then show ?thesis using m Some out by (auto simp: cbind_def cgood_def safe_iff intro: conn_inv_closed)
  next
    case (Inr x)
    then have "cgood (conn_inv env (insert x E) {} None) (f x t)"
      using m by (auto intro!: keepsD [OF assms(3)] intro: conn_inv_closed)
    then have "cgood (conn_inv env E {} None) (f x t)" by (rule cgood_weaken) (auto intro: conn_inv_less)
    then show ?thesis using Inr Some out by (simp add: cbind_def)
  qed
qed (simp add: cbind_def cgood_def)

lemma serves_checked [serving]:
  assumes "data_good d" "block_ok env E block"
  shows "serves env E a (cbind (checked_result env errs lq (Some d)) (yield_result block))"
    and "serves env E a (cbind (new_result env lq (Some d)) (yield_result block))"
proof -
  have y: "keeps (conn_inv env (insert r E) {} None) (yield_result block r)" for r by (rule keeps_yield_result [OF assms(2)]) auto
  show "serves env E a (cbind (checked_result env errs lq (Some d)) (yield_result block))"
    "serves env E a (cbind (new_result env lq (Some d)) (yield_result block))"
    unfolding serves_def by (auto intro: made_then [OF checked_result_ok(1) [OF _ assms(1)] _ y]
        made_then [OF checked_result_ok(2) [OF _ assms(1)] _ y])
qed

lemma keeps_checked [keeping]:
  assumes "data_good d"
  shows "keeps (conn_inv env E {} c) (checked_result env errs lq (Some d))"
  by (rule keepsI, drule checked_result_ok(1) [OF _ assms, where errs = errs and lq = lq]) (simp add: made_in_def)

end
