(* ===== verification/PG_Conn_Safety.thy ===== *)
theory PG_Conn_Safety
  imports PG_Conn_Invariant
begin

text \<open>
  Memory safety of the methods of \<open>PG::Connection\<close>: queries, waiting for the socket, results that were sent, COPY, settings,
  encodings and large objects keep the invariant, and with that the properties of all methods.
\<close>

section \<open>Queries\<close>

text \<open>
  libpq returns NULL in place of a result only where it has no memory; \<open>PQgetResult\<close> returns NULL when there is no more.
\<close>

definition delivers :: "('w \<Rightarrow> pg_data option \<times> 'w) \<Rightarrow> bool" where
  "delivers f \<longleftrightarrow> (\<forall>w. \<exists>d. fst (f w) = Some d \<and> data_good d)"

definition libpq_query_ok :: "('w, 'z) libpq_query_scheme \<Rightarrow> bool" where
  "libpq_query_ok lq \<longleftrightarrow> libpq_conn_ok lq \<and> (\<forall>e t w. safe (fst (rb_io_wait lq e t w))) \<and> (\<forall>v. safe (num2usec lq v)) \<and>
     (\<forall>q. delivers (PQexec lq q)) \<and> (\<forall>q a f. delivers (PQexecParams lq q a f)) \<and> (\<forall>n q t. delivers (PQprepare lq n q t)) \<and>
     (\<forall>n a f. delivers (PQexecPrepared lq n a f)) \<and> (\<forall>n. delivers (PQdescribePrepared lq n)) \<and> (\<forall>n. delivers (PQdescribePortal lq n)) \<and>
     (\<forall>n. delivers (PQclosePrepared lq n)) \<and> (\<forall>n. delivers (PQclosePortal lq n)) \<and>
     (\<forall>st w. \<exists>d. PQmakeEmptyPGresult lq st w = Some d \<and> data_good d) \<and> (\<forall>w d. fst (PQgetResult lq w) = Some d \<longrightarrow> data_good d)"

lemma libpq_query_okD:
  assumes "libpq_query_ok lq"
  shows "libpq_conn_ok lq" "safe (fst (rb_io_wait lq e t w))" "safe (num2usec lq v)" "delivers (PQexec lq q)"
    "delivers (PQexecParams lq q ar f)" "delivers (PQprepare lq n q ty)" "delivers (PQexecPrepared lq n ar f)"
    "delivers (PQdescribePrepared lq pn)" "delivers (PQdescribePortal lq pn)" "delivers (PQclosePrepared lq pn)"
    "delivers (PQclosePortal lq pn)" "\<exists>d. PQmakeEmptyPGresult lq st w = Some d \<and> data_good d"
    "fst (PQgetResult lq w) = Some d \<Longrightarrow> data_good d"
  using assms unfolding libpq_query_ok_def by simp_all

lemma keeps_pq_then:
  assumes "\<And>w. keeps (conn_inv env E P (Some a)) (g (fst (f w)))"
  shows "keeps (conn_inv env E P (Some a)) (cbind (pq a f) g)"
proof (rule keepsI)
  fix s :: "'a cst" assume s: "conn_inv env E P (Some a) s"
  then have "cbind (pq a f) g s = g (fst (f (cs_world s))) (s\<lparr> cs_world := snd (f (cs_world s)) \<rparr>)"
    by (simp add: cbind_def pq_def conn_inv_def split_beta Let_def)
  then show "cgood (conn_inv env E P (Some a)) (cbind (pq a f) g s)"
    using keepsD [OF assms ci.world_free [OF s]] by simp
qed

lemma serves_pq_then:
  assumes "\<And>w. serves env E a (g (fst (f w)))"
  shows "serves env E a (cbind (pq a f) g)"
  unfolding serves_def
proof (intro allI impI)
  fix s :: "'a cst" assume s: "conn_inv env E {} (Some a) s"
  then have "cbind (pq a f) g s = g (fst (f (cs_world s))) (s\<lparr> cs_world := snd (f (cs_world s)) \<rparr>)"
    by (simp add: cbind_def pq_def conn_inv_def split_beta Let_def)
  then show "cgood (conn_inv env E {} None) (cbind (pq a f) g s)"
    using assms ci.world_free [OF s] by (simp add: serves_def)
qed

lemma delivered:
  assumes "delivers f"
  shows "\<And>w. (\<And>d. data_good d \<Longrightarrow> Q (Some d)) \<Longrightarrow> Q (fst (f w))"
  using assms unfolding delivers_def by metis

lemma pg_cstr_enc_safe: "rb_api_ok rb \<Longrightarrow> safe (pg_cstr_enc rb v e)"
  by (auto simp: pg_cstr_enc_def rb_api_okD StringValueCStr_safe intro!: safe_rbind)

lemma statement_name_safe: "rb_api_ok rb \<Longrightarrow> safe (statement_name rb this v)"
  by (auto simp: statement_name_def pg_cstr_enc_safe intro!: safe_rbind)

lemma num2uint_safe: "safe (num2uint f v)"
  by (auto simp: num2uint_def intro!: safe_rbind safe_num2 split: rvalue.split)

lemma map_res_safe: "(\<And>x. safe (f x)) \<Longrightarrow> safe (map_res f xs)"
  by (induction xs) (auto intro!: safe_rbind)

lemma keeps_param_types [keeping]:
  assumes "\<And>ts. keeps (conn_inv env E P c) (call ts)"
  shows "keeps (conn_inv env E P c) (param_types rb v call)"
  unfolding param_types_def
  by (cases v) (auto intro!: keeping assms ci.keeps_blocks map_res_safe num2uint_safe split: if_split)

lemma serves_exec:
  assumes "delivers f" "block_ok env E block"
  shows "serves env E a (cbind (pq a f) (\<lambda>result. cbind (checked_result env errs lq result) (yield_result block)))"
  by (rule serves_pq_then, rule delivered [OF assms(1)], rule serves_checked(1) [OF _ assms(2)])

lemma keeps_exec:
  assumes "delivers f"
  shows "keeps (conn_inv env E {} (Some a)) (cbind (pq a f) (\<lambda>result. cbind (checked_result env errs lq result) (\<lambda>r. cret (RObject r))))"
  by (rule keeps_pq_then, rule delivered [OF assms], intro keeping)

lemma keeps_exec_command:
  assumes "query_env_ok env hash" "libpq_query_ok lq" "block_ok env E block"
  shows "keeps (conn_inv env E {} None) (exec_command env errs lq block v)"
  unfolding exec_command_def
  using assms by (intro serves_safe2 serves_case serves_cbind [OF keeps_basic(3)] serves_exec pg_cstr_enc_safe libpq_query_okD(4))
    (auto simp: query_env_ok_def env_okD)

lemma keeps_exec_params:
  assumes "query_env_ok env hash" "libpq_query_ok lq" "block_ok env E block" "typemap_arg_ok typemap"
  shows "keeps (conn_inv env E {} None) (pgconn_sync_exec_params env errs hash lq block (argv, typemap))"
  unfolding pgconn_sync_exec_params_def prod.case
  using assms by (intro serves_safe2 serves_case serves_cbind [OF keeps_basic(3)] serves_cbind [OF keeps_basic(5)]
      serves_cbind [OF keeps_query_params] serves_exec serves_end [OF keeps_exec_command] pg_cstr_enc_safe libpq_query_okD(5))
    (auto simp: query_env_ok_def env_okD)

lemma keeps_sync_exec:
  assumes "query_env_ok env hash" "libpq_query_ok lq" "block_ok env E block" "typemap_arg_ok (snd a)"
  shows "keeps (conn_inv env E {} None) (pgconn_sync_exec env errs hash lq block a)"
proof -
  obtain argv typemap where a: "a = (argv, typemap)" by (cases a)
  show ?thesis unfolding pgconn_sync_exec_def a
    by (intro serves_safe serves_case serves_end keeps_exec_command keeps_exec_params) (use assms a in auto)
qed

lemma keeps_exec_prepared:
  assumes "query_env_ok env hash" "libpq_query_ok lq" "block_ok env E block" "typemap_arg_ok typemap"
  shows "keeps (conn_inv env E {} None) (pgconn_sync_exec_prepared env errs hash lq block (argv, typemap))"
  unfolding pgconn_sync_exec_prepared_def prod.case
  using assms by (intro serves_safe2 serves_case serves_cbind [OF keeps_basic(3)] serves_cbind [OF keeps_basic(5)]
      serves_cbind [OF keeps_query_params] serves_exec pg_cstr_enc_safe libpq_query_okD(7))
    (auto simp: query_env_ok_def env_okD)

lemma keeps_describe:
  assumes "query_env_ok env hash" "\<And>n. delivers (f n)"
  shows "keeps (conn_inv env E {} c) (pgconn_sync_describe_close_prepared_portal env errs lq f v)"
  unfolding pgconn_sync_describe_close_prepared_portal_def
  using assms by (intro keeps_get_safe2 keeps_case keeps_clift_then keeps_exec statement_name_safe) (auto simp: query_env_ok_def env_okD)

lemma keeps_prepare:
  assumes "query_env_ok env hash" "libpq_query_ok lq"
  shows "keeps (conn_inv env E {} c) (pgconn_sync_prepare env errs lq argv)"
proof -
  have rb: "rb_api_ok (env_rb env)" using assms(1) by (simp add: query_env_ok_def env_okD)
  have call: "keeps (conn_inv env E {} (Some a)) (cbind (param_types rb v (\<lambda>ts. pq a (PQprepare lq n q ts)))
      (\<lambda>result. cbind (checked_result env errs lq result) (\<lambda>r. cret (RObject r))))" for a rb v n q
  proof (rule keepsI)
    fix s :: "'a cst" assume s: "conn_inv env E {} (Some a) s"
    have "cgood (conn_inv env E {} (Some a)) (param_types rb v (\<lambda>ts. pq a (PQprepare lq n q ts)) s)"
      by (rule keepsD [OF keeps_param_types s]) (rule keeps_pq_open)
    moreover have "\<exists>d. x = Some d \<and> data_good d" if "param_types rb v (\<lambda>ts. pq a (PQprepare lq n q ts)) s = Some (Inr x, t)" for x t
      using that libpq_query_okD(6) [OF assms(2)] s
      by (auto simp: param_types_def cbind_def pq_def conn_inv_def Let_def cret_def cerr_def delivers_def malloc_def clift_def free_def
          split: rvalue.splits sum.splits prod.splits) (metis fst_conv)+
    ultimately show "cgood (conn_inv env E {} (Some a)) (cbind (param_types rb v (\<lambda>ts. pq a (PQprepare lq n q ts)))
        (\<lambda>result. cbind (checked_result env errs lq result) (\<lambda>r. cret (RObject r))) s)"
      by - (rule cgood_cbind, assumption, fastforce intro!: keepsD [OF keeps_cbind [OF keeps_checked keeps_basic(1)]])
  qed
  show ?thesis unfolding pgconn_sync_prepare_def
    by (intro keeps_get_safe2 keeps_case keeps_cbind [OF keeps_basic(5)] keeps_clift_then call pg_cstr_enc_safe [OF rb])
qed

lemma keeps_make_empty:
  assumes "libpq_query_ok lq"
  shows "keeps (conn_inv env E {} c) (pgconn_make_empty_pgresult env errs lq v)"
proof -
  have "keeps (conn_inv env E {} (Some a)) (cbind (pq_get a (PQmakeEmptyPGresult lq st)) (\<lambda>result.
      cbind (checked_result env errs lq result) (\<lambda>r. cret (RObject r))))" for a st
    unfolding pq_get_def using libpq_query_okD(12) [OF assms]
    by (intro keeps_exec) (simp add: delivers_def)
  then show ?thesis unfolding pgconn_make_empty_pgresult_def by (intro keeps_get_pgconn keeps_clift_then safe_num2)
qed

lemma keeps_get_result:
  assumes "libpq_query_ok lq" "block_ok env E block"
  shows "keeps (conn_inv env E {} None) (pgconn_sync_get_result env lq block)"
  unfolding pgconn_sync_get_result_def
  by (intro serves_pgconn serves_pq_then serves_case serves_end [OF keeps_basic(1)] serves_checked(2) assms(2)
      libpq_query_okD(13) [OF assms(1)])

section \<open>Waiting and sending\<close>

lemmas keeps_socket_steps = keeps_get_safe2 keeps_get_pgconn keeps_case keeps_basic keeps_pq_then

lemma keeps_close [keeping]: "libpq_conn_ok lq \<Longrightarrow> keeps (conn_inv env E P c) (pgconn_close_socket_io lq)"
  by (rule ci.keeps_close_socket) (rule libpq_conn_okD)

lemma keeps_socket_io [keeping]:
  assumes "libpq_conn_ok lq"
  shows "keeps (conn_inv env E P c) (pgconn_socket_io lq)"
  unfolding pgconn_socket_io_def
  by (intro keeps_get_safe2 keeps_case keeps_cbind [OF keeps_pq_open(2)] keeps_basic ci.keeps_wrap_socket libpq_conn_okD [OF assms])

lemma keeps_io_wait [keeping]:
  assumes "libpq_query_ok lq"
  shows "keeps (conn_inv env E P c) (io_wait lq ev t)" "keeps (conn_inv env E P c) (io_wait_events lq ev)"
proof -
  show w: "keeps (conn_inv env E P c) (io_wait lq ev t)" for t
    unfolding io_wait_def by (intro ci.keeps_world libpq_query_okD(2) assms)
  show "keeps (conn_inv env E P c) (io_wait_events lq ev)"
    unfolding io_wait_events_def by (intro keeps_cbind [OF w] keeps_case keeps_basic) simp
qed

lemma keeps_sync_flush [keeping]: "keeps (conn_inv env E P c) (pgconn_sync_flush lq)"
  unfolding pgconn_sync_flush_def by (intro keeps_socket_steps)

lemma keeps_consume_input [keeping]: "libpq_conn_ok lq \<Longrightarrow> keeps (conn_inv env E P c) (pgconn_consume_input lq)"
  unfolding pgconn_consume_input_def by (intro keeps_socket_steps keeps_cbind [OF keeps_close])

text \<open>A loop keeps the invariant if its body does, given that the rest of the loop does.\<close>

definition after :: "('w cst \<Rightarrow> bool) \<Rightarrow> 'w cst \<Rightarrow> 'a res \<times> 'w cst \<Rightarrow> bool" where
  "after J s y \<longleftrightarrow> (J s \<longrightarrow> safe (fst y) \<and> J (snd y))"

lemma keeps_iff_after: "keeps J m \<longleftrightarrow> (\<forall>s y. m s = Some y \<longrightarrow> after J s y)"
  by (force simp: keeps_def cgood_def after_def split: option.split)

lemma keeps_after: "keeps J m \<Longrightarrow> m s = Some y \<Longrightarrow> after J s y"
  unfolding keeps_iff_after by blast

lemma keepsI_after: "(\<And>s y. m s = Some y \<Longrightarrow> after J s y) \<Longrightarrow> keeps J m"
  unfolding keeps_iff_after by blast

lemma keeps_async_flush [keeping]:
  assumes "libpq_query_ok lq"
  shows "keeps (conn_inv env E P c) (pgconn_async_flush lq)"
proof (rule keepsI_after)
  fix s :: "'a cst" and y assume y: "pgconn_async_flush lq s = Some y"
  show "after (conn_inv env E P c) s y"
    by (rule pgconn_async_flush.raw_induct [where P = "\<lambda>lq s y. libpq_query_ok lq \<longrightarrow> after (conn_inv env E P c) s y", THEN mp, OF _ y assms],
        intro impI, erule keeps_after [rotated])
      (auto intro!: keeping intro: keepsI_after simp: libpq_query_okD)
qed

lemma keeps_wait_time: "keeps (conn_inv env E P c) (wait_time lq t)"
  unfolding wait_time_def by (intro keeping ci.keeps_world) (simp add: split_beta Let_def)

lemma keeps_readable_loop:
  assumes "libpq_query_ok lq" "keeps (conn_inv env E P (Some a)) (is_readable a)"
  shows "keeps (conn_inv env E P (Some a)) (wait_socket_readable_loop lq a t is_readable)"
proof (rule keepsI_after)
  fix s :: "'a cst" and y assume y: "wait_socket_readable_loop lq a t is_readable s = Some y"
  show "after (conn_inv env E P (Some a)) s y"
    by (rule wait_socket_readable_loop.raw_induct [where P = "\<lambda>lq a t is_readable s y. libpq_query_ok lq \<and>
          keeps (conn_inv env E P (Some a)) (is_readable a) \<longrightarrow> after (conn_inv env E P (Some a)) s y", THEN mp, OF _ y conjI [OF assms]],
        intro impI, erule keeps_after [rotated])
      (auto intro!: keeping keeps_wait_time intro: keepsI_after simp: libpq_query_okD)
qed

lemma keeps_wait_readable [keeping]:
  assumes "libpq_query_ok lq" "\<And>a. keeps (conn_inv env E P (Some a)) (is_readable a)"
  shows "keeps (conn_inv env E P c) (wait_socket_readable lq t is_readable)"
  unfolding wait_socket_readable_def
  by (intro keeping keeps_readable_loop assms ci.keeps_world) (simp add: split_beta Let_def)

lemma keeps_readable [keeping]:
  "keeps (conn_inv env E P (Some a)) (notify_readable lq a)" "keeps (conn_inv env E P (Some a)) (get_result_readable lq a)"
  unfolding notify_readable_def get_result_readable_def by (intro keeping)+

lemma keeps_wait_for_flush [keeping]: "libpq_query_ok lq \<Longrightarrow> keeps (conn_inv env E P c) (pgconn_wait_for_flush lq)"
  unfolding pgconn_wait_for_flush_def by (intro keeping)

lemma keeps_block_method: "libpq_query_ok lq \<Longrightarrow> keeps (conn_inv env E P c) (pgconn_block lq argv)"
  unfolding pgconn_block_def by (intro keeping libpq_query_okD(3))

lemma keeps_notifies: "keeps (conn_inv env E P c) (pgconn_notifies lq)"
  unfolding pgconn_notifies_def by (intro keeps_get_safe2 keeping ci.keeps_blocks)

lemma serves_wait_for_notify:
  assumes "libpq_query_ok lq" "\<And>b x y z. block = Some b \<Longrightarrow> keeps (conn_inv env E {} None) (b x y z)"
  shows "keeps (conn_inv env E {} None) (pgconn_wait_for_notify lq block argv)"
proof -
  have b: "keeps (conn_inv env E {} None) (cbind (case block of None \<Rightarrow> cret () | Some b \<Rightarrow> b x y z) (\<lambda>_. cret r))" for x y z r
    using assms(2) by (intro keeping)
  show ?thesis unfolding pgconn_wait_for_notify_def Let_def
    by (intro serves_safe2 serves_cbind [OF keeps_basic(5)]
        serves_cbind [OF keeps_wait_readable [OF assms(1) keeps_readable(1)]]
        serves_cbind [OF keeps_case(2)] serves_cbind [OF ci.keeps_blocks(1)] serves_cbind [OF ci.keeps_blocks(2)]
        serves_case serves_end [OF b] serves_end [OF keeps_basic(1)] keeping libpq_query_okD(3) assms(1))
qed

lemma send_query_params:
  assumes "query_env_ok env hash" "libpq_query_ok lq" "typemap_arg_ok typemap"
  shows "keeps (conn_inv env E P c) (pgconn_send_query_params env hash lq (argv, typemap))"
    and "keeps (conn_inv env E P c) (pgconn_send_query_prepared env hash lq (argv, typemap))"
  unfolding pgconn_send_query_params_def pgconn_send_query_prepared_def prod.case
  using assms by (intro keeps_get_safe2 keeping pg_cstr_enc_safe; simp add: query_env_ok_def env_okD)+

lemma send_command:
  assumes "query_env_ok env hash" "libpq_query_ok lq"
  shows "keeps (conn_inv env E P c) (send_command env lq v)"
    and "keeps (conn_inv env E P c) (pgconn_send_prepare env lq argv)"
    and "keeps (conn_inv env E P c) (pgconn_send_describe_close_prepared_portal env lq func name v)"
  unfolding send_command_def pgconn_send_prepare_def pgconn_send_describe_close_prepared_portal_def
  using assms by (intro keeps_get_safe2 keeping pg_cstr_enc_safe statement_name_safe; simp add: query_env_ok_def env_okD)+

lemma keeps_send_query:
  assumes "query_env_ok env hash" "libpq_query_ok lq" "typemap_arg_ok (snd a)"
  shows "keeps (conn_inv env E P c) (pgconn_send_query env hash lq a)"
  using assms unfolding pgconn_send_query_def
  by (cases a) (auto intro!: keeps_get_safe keeps_case send_command send_query_params)

section \<open>Results that were sent\<close>

lemma rinv_drop:
  assumes "rinv env E H F s" "unowned a s"
  shows "rinv env E H F (s\<lparr> st_heap := (st_heap s)(a := None) \<rparr>)" (is "rinv _ _ _ _ ?s")
proof -
  have wf: "wf_st env s" using assms(1) by (simp add: rinv_def)
  have old: "res_pgresult x \<noteq> Some a" if "st_res s i = Some x" for i x using assms(2) that by (auto simp: unowned_def)
  have obj: "obj_ok env (st_heap ?s) x" if "st_res s i = Some x" for i x
    using rinv_obj [OF assms(1) that] old [OF that] by (simp add: obj_ok_def)
  have "streaming env n (st_heap ?s) x" if "st_res s i = Some x" "streaming env n (st_heap s) x" for i n x
    using that old [OF that(1)] by (auto simp: streaming_def split: if_splits)
  moreover have "wf_st env ?s"
    unfolding wf_st_def
  proof (intro conjI allI impI)
    show "i < st_next ?s" "obj_ok env (st_heap ?s) x" if "st_res ?s i = Some x" for i x
      using that obj wf by (auto simp: wf_st_def)
    show "b < st_next ?s" if "st_heap ?s b = Some d'" for b d'
      using that wf by (auto simp: wf_st_def split: if_splits)
    show "i = j" if "st_res ?s i = Some x" "st_res ?s j = Some y" "res_pgresult x = Some b" "res_pgresult y = Some b" for i j x y b
      using that wf unfolding wf_st_def by auto
    show "i < st_next ?s" "tup_ok env (st_res ?s) x" if "st_tup ?s i = Some x" for i x
      using that wf by (auto simp: wf_st_def)
    show "st_gc_usage ?s = sum (\<lambda>i. gc_size (st_res ?s i)) {..<st_next ?s}"
      using wf by (simp add: wf_st_def)
  qed
  ultimately show ?thesis using assms(1) by (fastforce simp: rinv_def)
qed

text \<open>\<open>PQgetResult\<close> puts a \<open>PGresult\<close> into the hands of the method, \<open>PQclear\<close> takes it away.\<close>

lemma get_pgresult_ok:
  assumes "conn_inv env E P (Some a) s" "libpq_query_ok lq"
  shows "\<exists>r t. get_pgresult lq a s = Some (Inr r, t) \<and> (case r of None \<Rightarrow> conn_inv env E P (Some a) t
    | Some (p, st) \<Rightarrow> p \<notin> P \<and> conn_inv env E (insert p P) (Some a) t)"
proof -
  obtain x w where x: "PQgetResult lq (cs_world s) = (x, w)" by fastforce
  have live: "a \<in> cs_live s" using assms(1) by (simp add: conn_inv_def)
  show ?thesis
  proof (cases x)
    case None
    then show ?thesis using x live ci.world_free [OF assms(1)] by (simp add: get_pgresult_def cbind_def pq_def cret_def)
  next
    case (Some d)
    let ?r = "cs_rst s"
    let ?n = "st_next ?r"
    let ?r' = "?r\<lparr> st_next := ?n + 1, st_heap := (st_heap ?r)(?n \<mapsto> d) \<rparr>"
    have r: "rinv env E {} Map.empty ?r" using assms(1) by (simp add: conn_inv_def)
    have d: "data_good d" using libpq_query_okD(13) [OF assms(2), of "cs_world s"] x Some by simp
    have "get_pgresult lq a s = Some (Inr (Some (?n, pq_status d)), s\<lparr> cs_world := w, cs_rst := ?r' \<rparr>)"
      using x live Some by (simp add: get_pgresult_def cbind_def pq_def cret_def on_results_def alloc_pgresult_def)
    moreover have "?n \<notin> P" using assms(1) st_next_free [of env ?r] r by (auto simp: conn_inv_def rinv_def)
    moreover have "conn_inv env E (insert ?n P) (Some a) (s\<lparr> cs_world := w, cs_rst := ?r' \<rparr>)"
      using assms(1) rinv_new_pgresult(1) [OF r, of "Some d"] rinv_new_pgresult(2) [OF r] d calculation(2) by (auto simp: conn_inv_def unowned_def)
    ultimately show ?thesis by auto
  qed
qed

lemma clear_pgresult_ok:
  assumes "conn_inv env E P c s" "set_option p \<subseteq> P"
  shows "\<exists>t. clear_pgresult p s = Some (Inr (), t) \<and> conn_inv env E (P - set_option p) c t"
proof (cases p)
  case (Some b)
  then have b: "unowned b (cs_rst s)" "\<exists>d. st_heap (cs_rst s) b = Some d" using assms by (auto simp: conn_inv_def)
  have "conn_inv env E (P - {b}) c (s\<lparr> cs_rst := (cs_rst s)\<lparr> st_heap := (st_heap (cs_rst s))(b := None) \<rparr> \<rparr>)"
    using assms(1) rinv_drop [OF _ b(1)] by (auto simp: conn_inv_def unowned_def)
  then show ?thesis using Some b
    by (auto simp: clear_pgresult_def on_results_def PQclear_def obind_def deref_def)
qed (use assms(1) in \<open>simp add: clear_pgresult_def cret_def\<close>)

lemma conn_inv_fewer: "conn_inv env E P c s \<Longrightarrow> Q \<subseteq> P \<Longrightarrow> conn_inv env E Q c s"
  by (auto simp: conn_inv_def)

text \<open>After the loop one \<open>PGresult\<close> at most is in the hands of the method, the one it returns.\<close>

definition after_last :: "env \<Rightarrow> nat set \<Rightarrow> nat \<Rightarrow> nat option \<Rightarrow> 'w cst \<Rightarrow> nat option res \<times> 'w cst \<Rightarrow> bool" where
  "after_last env E a prev s y \<longleftrightarrow> (conn_inv env E (set_option prev) (Some a) s \<longrightarrow> safe (fst y) \<and> conn_inv env E {} (Some a) (snd y) \<and>
     (\<forall>p. fst y = Inr p \<longrightarrow> conn_inv env E (set_option p) (Some a) (snd y)))"

lemma last_loop_step:
  assumes "libpq_query_ok lq" "\<And>P. keeps (conn_inv env E P (Some a)) wait"
    and "\<And>p s y. rest p s = Some y \<Longrightarrow> after_last env E a p s y"
    and "cbind wait (\<lambda>_. cbind (get_pgresult lq a) (\<lambda>cur. case cur of None \<Rightarrow> cret prev
       | Some c \<Rightarrow> cbind (clear_pgresult prev) (\<lambda>_. if copy_status (snd c) then cret (Some (fst c)) else rest (Some (fst c))))) s = Some y"
  shows "after_last env E a prev s y"
  unfolding after_last_def
proof
  assume s: "conn_inv env E (set_option prev) (Some a) s"
  obtain r t where w: "wait s = Some (r, t)" "safe r" "conn_inv env E (set_option prev) (Some a) t"
    using keepsD [OF assms(2) s] assms(4) by (cases "wait s") (auto simp: cgood_def cbind_def)
  have closed: "conn_inv env E {} (Some a) t" if "conn_inv env E Q (Some a) t" for Q t using conn_inv_fewer [OF that] by blast
  show "safe (fst y) \<and> conn_inv env E {} (Some a) (snd y) \<and> (\<forall>p. fst y = Inr p \<longrightarrow> conn_inv env E (set_option p) (Some a) (snd y))"
  proof (cases r)
    case (Inl e)
    then show ?thesis using w assms(4) closed by (auto simp: cbind_def safe_iff)
  next
    case (Inr x)
    obtain cur u where g: "get_pgresult lq a t = Some (Inr cur, u)" "case cur of None \<Rightarrow> conn_inv env E (set_option prev) (Some a) u
        | Some (p, st) \<Rightarrow> p \<notin> set_option prev \<and> conn_inv env E (insert p (set_option prev)) (Some a) u"
      using get_pgresult_ok [OF w(3) assms(1)] by blast
    show ?thesis
    proof (cases cur)
      case None
      then show ?thesis using w(1) Inr g assms(4) closed by (auto simp: cbind_def cret_def)
    next
      case (Some c)
      obtain p st where c: "c = (p, st)" by (cases c)
      have u: "p \<notin> set_option prev" "conn_inv env E (insert p (set_option prev)) (Some a) u" using g(2) Some c by auto
      from clear_pgresult_ok [OF u(2), of prev] obtain v where
        v: "clear_pgresult prev u = Some (Inr (), v)" "conn_inv env E {p} (Some a) v"
        using u(1) by (auto simp: insert_Diff_if)
      have "(if copy_status st then cret (Some p) else rest (Some p)) v = Some y"
        using assms(4) w(1) Inr g(1) Some c v(1) by (simp add: cbind_def split: if_split_asm)
      then show ?thesis
        using v(2) closed [OF v(2)] assms(3) [of "Some p" v y] by (auto simp: cret_def after_last_def split: if_splits)
    qed
  qed
qed

lemma last_loop_ok:
  assumes "libpq_query_ok lq" "\<And>P. keeps (conn_inv env E P (Some a)) wait" "last_result_loop lq wait a prev s = Some y"
  shows "after_last env E a prev s y"
proof (rule last_result_loop.raw_induct [where P = "\<lambda>lq wait a prev s y. libpq_query_ok lq \<and> (\<forall>P. keeps (conn_inv env E P (Some a)) wait) \<longrightarrow>
    after_last env E a prev s y", THEN mp, OF _ assms(3)])
  fix f :: "('a, 'b) libpq_query_scheme \<Rightarrow> ('a, unit) cop \<Rightarrow> nat \<Rightarrow> nat option \<Rightarrow> ('a, nat option) cop" and lq wait a prev s y
  assume IH: "\<And>lq wait a prev s y. f lq wait a prev s = Some y \<Longrightarrow>
      libpq_query_ok lq \<and> (\<forall>P. keeps (conn_inv env E P (Some a)) wait) \<longrightarrow> after_last env E a prev s y"
    and y: "cbind wait (\<lambda>_. cbind (get_pgresult lq a) (\<lambda>cur. case cur of None \<Rightarrow> cret prev
       | Some c \<Rightarrow> cbind (clear_pgresult prev) (\<lambda>_. if copy_status (snd c) then cret (Some (fst c)) else f lq wait a (Some (fst c))))) s = Some y"
  show "libpq_query_ok lq \<and> (\<forall>P. keeps (conn_inv env E P (Some a)) wait) \<longrightarrow> after_last env E a prev s y"
    using IH by (intro impI last_loop_step [OF _ _ _ y]) blast+
qed (use assms in blast)

lemma keeps_last_result:
  assumes "libpq_query_ok lq" "\<And>P a. keeps (conn_inv env E P (Some a)) wait" "\<And>r. keeps (conn_inv env (insert r E) {} None) (f (RObject r))"
    and "keeps (conn_inv env E {} None) (f Qnil)"
  shows "keeps (conn_inv env E {} None) (cbind (cbind pg_get_pgconn (\<lambda>a. cbind (last_result_loop lq wait a None) (last_result env errs lq))) f)"
proof -
  have assoc: "cbind (cbind m g) h = cbind m (\<lambda>x. cbind (g x) h)" for m :: "('a, 'x) cop" and g h
    by (auto simp: cbind_def fun_eq_iff split: option.split sum.split)
  have "serves env E a (cbind (last_result_loop lq wait a None) (\<lambda>p. cbind (last_result env errs lq p) f))" for a
    unfolding serves_def
  proof (intro allI impI)
    fix s :: "'a cst" assume s: "conn_inv env E {} (Some a) s"
    show "cgood (conn_inv env E {} None) (cbind (last_result_loop lq wait a None) (\<lambda>p. cbind (last_result env errs lq p) f) s)"
    proof (cases "last_result_loop lq wait a None s")
      case (Some y)
      note ok = last_loop_ok [OF assms(1,2) Some, unfolded after_last_def, THEN mp]
      show ?thesis
      proof (cases "fst y")
        case (Inl e)
        then show ?thesis using ok s Some by (cases y) (auto simp: cbind_def cgood_def safe_iff intro: conn_inv_closed)
      next
        case (Inr p)
        have t: "conn_inv env E (set_option p) (Some a) (snd y)" using ok s Inr by simp
        have run: "cbind (last_result_loop lq wait a None) (\<lambda>p. cbind (last_result env errs lq p) f) s = cbind (last_result env errs lq p) f (snd y)"
          using Some Inr by (cases y) (simp add: cbind_def)
        show ?thesis
        proof (cases p)
          case None
          then show ?thesis using run keepsD [OF assms(4) conn_inv_closed] t by (simp add: last_result_def cbind_def cret_def)
        next
          case (Some b)
          let ?m = "\<lambda>t. cbind pg_get_connection (\<lambda>this. cbind (on_results (pg_new_result (env_hs env) (conn_of this) (rb_locale_encindex lq) (Some b)))
            (\<lambda>r. cbind (on_results (pg_result_check errs r)) (\<lambda>_. cret r))) t"
          have "made_in env E (Some a) (?m t)" if t: "conn_inv env E {b} (Some a) t" for t
          proof -
            let ?n = "pg_new_result (env_hs env) (conn_of (cs_this t)) (rb_locale_encindex lq) (Some b)"
            obtain d where d: "st_heap (cs_rst t) b = Some d" "data_good d" "unowned b (cs_rst t)" using t by (auto simp: conn_inv_def)
            have "made env E (Some d) (?n (cs_rst t))"
              using t d by (intro new_result_object) (auto simp: conn_inv_def conn_of_def data_good_def)
            from new_then_check(1) [where m = ?n, OF t this d(2)] show ?thesis by (simp add: cbind_def pg_get_connection_def)
          qed
          then have "cgood (conn_inv env E {} None) (cbind ?m (\<lambda>r. f (RObject r)) (snd y))"
            using t Some assms(3) by (intro made_then) auto
          moreover have "cbind (last_result env errs lq (Some b)) f = cbind ?m (\<lambda>r. f (RObject r))"
            by (simp add: last_result_def assoc) (simp add: cbind_def cret_def)
          ultimately show ?thesis using run Some by simp
        qed
      qed
    qed (simp add: cbind_def cgood_def)
  qed
  then show ?thesis unfolding assoc by (intro serves_pgconn)
qed

section \<open>Discarding results and asynchronous queries\<close>

lemma keeps_consume [keeping]: "keeps (conn_inv env E P (Some a)) (consume lq a)"
  unfolding consume_def by (intro keeping)

lemma keeps_discard_busy [keeping]:
  assumes "libpq_query_ok lq"
  shows "keeps (conn_inv env E P (Some a)) (discard_busy lq a)"
proof (rule keepsI_after)
  fix s :: "'a cst" and y assume y: "discard_busy lq a s = Some y"
  show "after (conn_inv env E P (Some a)) s y"
    by (rule discard_busy.raw_induct [where P = "\<lambda>lq a s y. libpq_query_ok lq \<longrightarrow> after (conn_inv env E P (Some a)) s y", THEN mp, OF _ y assms],
        intro impI, erule keeps_after [rotated])
      (auto intro!: keeping intro: keepsI_after simp: libpq_query_okD)
qed

lemma keeps_discard_copy_in [keeping]:
  assumes "libpq_query_ok lq"
  shows "keeps (conn_inv env E P (Some a)) (discard_copy_in lq a)"
proof (rule keepsI_after)
  fix s :: "'a cst" and y assume y: "discard_copy_in lq a s = Some y"
  show "after (conn_inv env E P (Some a)) s y"
    by (rule discard_copy_in.raw_induct [where P = "\<lambda>lq a s y. libpq_query_ok lq \<longrightarrow> after (conn_inv env E P (Some a)) s y", THEN mp, OF _ y assms],
        intro impI, erule keeps_after [rotated])
      (auto intro!: keeping intro: keepsI_after simp: libpq_query_okD)
qed

lemma keeps_discard_copy_out [keeping]:
  assumes "libpq_query_ok lq"
  shows "keeps (conn_inv env E P (Some a)) (discard_copy_out lq a)"
proof (rule keepsI_after)
  fix s :: "'a cst" and y assume y: "discard_copy_out lq a s = Some y"
  show "after (conn_inv env E P (Some a)) s y"
    by (rule discard_copy_out.raw_induct [where P = "\<lambda>lq a s y. libpq_query_ok lq \<longrightarrow> after (conn_inv env E P (Some a)) s y", THEN mp, OF _ y assms],
        intro impI, erule keeps_after [rotated])
      (auto intro!: keeping ci.keeps_blocks intro: keepsI_after simp: libpq_query_okD)
qed

lemma keeps_get_and_clear:
  assumes "libpq_query_ok lq" "keeps (conn_inv env E P (Some a)) m" "\<And>st. keeps (conn_inv env E P (Some a)) (f st)"
  shows "keeps (conn_inv env E P (Some a)) (cbind (get_pgresult lq a) (\<lambda>cur. case cur of None \<Rightarrow> m
    | Some c \<Rightarrow> cbind (clear_pgresult (Some (fst c))) (\<lambda>_. f (snd c))))"
proof (rule keepsI)
  fix s :: "'a cst" assume s: "conn_inv env E P (Some a) s"
  obtain cur t where g: "get_pgresult lq a s = Some (Inr cur, t)" "case cur of None \<Rightarrow> conn_inv env E P (Some a) t
      | Some (p, st) \<Rightarrow> p \<notin> P \<and> conn_inv env E (insert p P) (Some a) t"
    using get_pgresult_ok [OF s assms(1)] by blast
  show "cgood (conn_inv env E P (Some a)) (cbind (get_pgresult lq a) (\<lambda>cur. case cur of None \<Rightarrow> m
    | Some c \<Rightarrow> cbind (clear_pgresult (Some (fst c))) (\<lambda>_. f (snd c))) s)"
  proof (cases cur)
    case None
    then show ?thesis using g keepsD [OF assms(2)] by (simp add: cbind_def)
  next
    case (Some c)
    then have c: "fst c \<notin> P" "conn_inv env E (insert (fst c) P) (Some a) t" using g(2) by (auto simp: split_beta)
    from clear_pgresult_ok [OF c(2), of "Some (fst c)"] obtain u where
      "clear_pgresult (Some (fst c)) t = Some (Inr (), u)" "conn_inv env E P (Some a) u"
      using c(1) by (auto simp: insert_Diff_if)
    then show ?thesis using g(1) Some keepsD [OF assms(3)] by (simp add: cbind_def)
  qed
qed

lemma keeps_discard_loop [keeping]:
  assumes "libpq_query_ok lq"
  shows "keeps (conn_inv env E P (Some a)) (discard_loop lq a)"
proof (rule keepsI_after)
  fix s :: "'a cst" and y assume y: "discard_loop lq a s = Some y"
  show "after (conn_inv env E P (Some a)) s y"
    by (rule discard_loop.raw_induct [where P = "\<lambda>lq a s y. libpq_query_ok lq \<longrightarrow> after (conn_inv env E P (Some a)) s y", THEN mp, OF _ y assms],
        intro impI, erule keeps_after [rotated], rule keeps_cbind, erule keeps_discard_busy, rule keeps_case(2), rule keeps_basic(1),
        rule keeps_get_and_clear)
      (auto intro!: keeping intro: keepsI_after simp: libpq_query_okD)
qed

lemma keeps_discard_results [keeping]:
  assumes "libpq_query_ok lq"
  shows "keeps (conn_inv env E P c) (pgconn_discard_results lq)"
  unfolding pgconn_discard_results_def by (intro keeping assms libpq_query_okD(1))

lemma keeps_wait_result: "libpq_query_ok lq \<Longrightarrow> keeps (conn_inv env E P (Some a)) (wait_result lq)"
  unfolding wait_result_def by (intro keeping)

lemma keeps_yield_last:
  assumes "block_ok env E block" "\<And>v. keeps (conn_inv env E {} None) (nil_block v)"
  shows "keeps (conn_inv env (insert r E) {} None) (yield_last block nil_block (RObject r))"
    and "keeps (conn_inv env E {} None) (yield_last block nil_block Qnil)"
  using keeps_yield_result [OF assms(1), of r "insert r E"]
  by (auto simp: yield_last_def intro!: keeping assms(2) split: option.split)

lemma keeps_async_query:
  assumes "libpq_query_ok lq" "block_ok env E block" "\<And>v. keeps (conn_inv env E {} None) (nil_block v)"
    and "keeps (conn_inv env E {} None) send"
  shows "keeps (conn_inv env E {} None) (async_query env errs lq block nil_block send)"
  unfolding async_query_def pgconn_async_get_last_result_def
  by (intro keeps_cbind [OF keeps_discard_results [OF assms(1)]] keeps_cbind [OF assms(4)]
      keeps_last_result [OF assms(1) keeps_wait_result [OF assms(1)] keeps_yield_last [OF assms(2,3)]])

section \<open>COPY\<close>

lemma encode_copy_data_safe:
  assumes "rb_api_ok rb" "good_coder (Some co)"
  shows "safe (encode_copy_data rb co v e)"
  unfolding encode_copy_data_def
proof (rule safe_rbind)
  note tp = two_pass_enc_func [OF assms]
  show "safe (pg_coder_enc_func rb (Some co) v False Qnil e)" by (rule two_pass.first_safe [OF tp])
  fix r assume r: "pg_coder_enc_func rb (Some co) v False Qnil e = Inr r"
  obtain n bs im where n: "r = (n, bs, im)" by (cases r)
  show "safe (case r of (len, _, intermediate) \<Rightarrow> if len = - 1 then Inr intermediate
      else rbind (pg_coder_enc_func rb (Some co) v True intermediate e) (\<lambda>(len2, bs, _).
        if int (length bs) > len then Inl MemFault else if len2 > len then Inl Rb_bug
        else Inr (RString (take (nat len2) bs) rb_ascii8bit_encindex)))"
  proof (cases "n = - 1")
    case False
    note second = two_pass.second_call [OF tp r [unfolded n] False]
    have "safe (rbind (pg_coder_enc_func rb (Some co) v True im e) (\<lambda>(len2, bs, _).
        if int (length bs) > n then Inl MemFault else if len2 > n then Inl Rb_bug
        else Inr (RString (take (nat len2) bs) rb_ascii8bit_encindex)))"
      by (rule safe_rbind [OF second(1)]) (use second(2) in \<open>auto split: prod.split\<close>)
    then show ?thesis using n False by simp
  qed (simp add: n)
qed

lemma RSTRING_LENINT_safe: "safe (RSTRING_LENINT v)"
  by (simp add: RSTRING_LENINT_def)

lemma keeps_coder_arg:
  assumes "\<And>co. (coder = Elem_nil \<Longrightarrow> co = dflt) \<Longrightarrow> (\<And>c. coder = Elem_coder c \<Longrightarrow> co = Some c) \<Longrightarrow> coder \<noteq> Elem_other \<Longrightarrow> keeps J (f co)"
  shows "keeps J (cbind (coder_arg dflt coder) f)"
proof (cases coder)
  case Elem_nil
  then have eq: "cbind (coder_arg dflt coder) f = f dflt" by (simp add: coder_arg_def cbind_def cret_def)
  show ?thesis unfolding eq by (rule assms) (auto simp: Elem_nil)
next
  case (Elem_coder x)
  then have eq: "cbind (coder_arg dflt coder) f = f (Some x)" by (simp add: coder_arg_def cbind_def cret_def)
  show ?thesis unfolding eq by (rule assms) (auto simp: Elem_coder)
next
  case Elem_other
  then show ?thesis by (simp add: coder_arg_def keeps_def cbind_def cerr_def cgood_def)
qed

lemma keeps_put_copy_data:
  assumes "rb_api_ok rb" "\<And>c. encoder = Elem_coder c \<Longrightarrow> good_coder (Some c)"
  shows "keeps (conn_inv env E P c) (pgconn_sync_put_copy_data rb lq value encoder)"
  unfolding pgconn_sync_put_copy_data_def
proof (rule keeps_get_safe2, rule keeps_coder_arg)
  fix this co a
  assume ok: "this_ok env this" "encoder = Elem_nil \<Longrightarrow> co = pc_encoder_for_put_copy_data this" "\<And>c. encoder = Elem_coder c \<Longrightarrow> co = Some c"
    "encoder \<noteq> Elem_other"
  then have "good_coder co" using assms(2) by (cases encoder) (auto simp: this_ok_def)
  then have "safe (case co of None \<Rightarrow> Inr value | Some x \<Rightarrow> encode_copy_data rb x value (pc_enc_idx this))"
    using encode_copy_data_safe [OF assms(1)] by (cases co) auto
  then show "keeps (conn_inv env E P (Some a)) (cbind (clift (case co of None \<Rightarrow> Inr value | Some c \<Rightarrow> encode_copy_data rb c value (pc_enc_idx this))) (\<lambda>buffer.
     cbind (check_string buffer) (\<lambda>_.
     cbind (clift (RSTRING_LENINT buffer)) (\<lambda>_.
     cbind (pq a (PQputCopyData lq (str_bytes buffer))) (\<lambda>ret.
       if ret = - 1 then pg_raise_conn_error PGError ''%s'' else cret (if ret \<noteq> 0 then Qtrue else Qfalse))))))"
    by (intro keeps_clift_then keeps_case keeps_basic keeps_cbind [OF keeps_basic(8)] keeps_cbind [OF keeps_pq_open(1)] RSTRING_LENINT_safe)
qed

lemma keeps_put_copy_end:
  assumes "rb_api_ok rb"
  shows "keeps (conn_inv env E P c) (pgconn_sync_put_copy_end rb lq argv)"
  unfolding pgconn_sync_put_copy_end_def by (intro keeps_get_safe2 keeping pg_cstr_enc_safe assms)

lemma keeps_get_copy_data:
  assumes "rb_api_ok rb" "\<And>c. decoder = Elem_coder c \<Longrightarrow> good_decoder (Some c)"
  shows "keeps (conn_inv env E P c) (pgconn_sync_get_copy_data rb lq async decoder)"
  unfolding pgconn_sync_get_copy_data_def
proof (rule keeps_get_safe2, rule keeps_coder_arg)
  fix this co a
  assume ok: "this_ok env this" "decoder = Elem_nil \<Longrightarrow> co = pc_decoder_for_get_copy_data this" "\<And>c. decoder = Elem_coder c \<Longrightarrow> co = Some c"
    "decoder \<noteq> Elem_other"
  then have "good_decoder co" using assms(2) by (cases decoder) (auto simp: this_ok_def)
  then have "safe (case co of Some c \<Rightarrow> pg_coder_dec_func rb (Some c) (coder_format c \<noteq> 0) bs 0 0 e
      | None \<Rightarrow> Inr (RString bs rb_ascii8bit_encindex))" for bs e
    using dec_func_safe [OF assms(1)] by (cases co) auto
  then show "keeps (conn_inv env E P (Some a)) (cbind (pq a (PQgetCopyData lq (async \<noteq> Qnil \<and> async \<noteq> Qfalse))) (\<lambda>(ret, buffer).
       if ret = - 2 then pg_raise_conn_error PGError ''%s''
       else if ret = - 1 then cret Qnil
       else if ret = 0 then cret Qfalse
       else
         cbind malloc (\<lambda>_.
         cbind (clift (case co of
             Some c \<Rightarrow> pg_coder_dec_func rb (Some c) (coder_format c \<noteq> 0) (take (nat ret) buffer) 0 0 (pc_enc_idx this)
           | None \<Rightarrow> Inr (RString (take (nat ret) buffer) rb_ascii8bit_encindex))) (\<lambda>result.
         cbind free (\<lambda>_. cret result)))))"
    by (intro keeps_cbind [OF keeps_pq_open(1)] keeps_case keeps_basic keeps_cbind [OF ci.keeps_blocks(1)] keeps_cbind [OF ci.keeps_blocks(2)] keeps_clift_then)
qed

section \<open>Status, settings, encodings and large objects\<close>

lemma keeps_status:
  "keeps (conn_inv env E P c) (conn_string f)" "keeps (conn_inv env E P c) (conn_int g)" "keeps (conn_inv env E P c) (conn_bool h)"
  "keeps (conn_inv env E P c) (conn_version g msg)" "keeps (conn_inv env E P c) (pgconn_port lq)" "keeps (conn_inv env E P c) (pgconn_socket lq)"
  "keeps (conn_inv env E P c) (pgconn_conninfo lq)" "keeps (conn_inv env E P c) (pgconn_ssl_attribute_names lq)"
  unfolding conn_string_def conn_int_def conn_bool_def conn_version_def pgconn_port_def pgconn_socket_def pgconn_conninfo_def
    pgconn_ssl_attribute_names_def Let_def
  by (intro keeping ci.keeps_blocks)+

lemma keeps_named_status:
  assumes "rb_api_ok rb"
  shows "keeps (conn_inv env E P c) (pgconn_parameter_status rb lq v)" "keeps (conn_inv env E P c) (pgconn_ssl_attribute rb lq v)"
    "keeps (conn_inv env E P c) (pgconn_sync_encrypt_password rb lq p u al)"
  unfolding pgconn_parameter_status_def pgconn_ssl_attribute_def pgconn_sync_encrypt_password_def
  by (intro keeping ci.keeps_blocks assms)+

lemma keeps_upd:
  assumes "\<And>t. this_ok env t \<Longrightarrow> this_ok env (u t) \<and> pc_pgconn (u t) = pc_pgconn t"
  shows "keeps (conn_inv env E P c) (upd_conn u)"
proof (rule keepsI)
  fix s :: "'a cst" assume s: "conn_inv env E P c s"
  then have "this_ok env (cs_this s)" by (simp add: conn_inv_def this_ok_def)
  with assms s show "cgood (conn_inv env E P c) (upd_conn u s)"
    by (simp add: cgood_def upd_conn_def conn_inv_def this_ok_def)
qed

lemma keeps_settings:
  assumes "\<And>t. a = Typemap_arg t \<Longrightarrow> encoders_good t" "\<And>t. b = Typemap_arg t \<Longrightarrow> decoders_good (env_hs env) t"
    and "\<And>x. e = Elem_coder x \<Longrightarrow> good_coder (Some x)" "\<And>x. d = Elem_coder x \<Longrightarrow> good_decoder (Some x)"
  shows "keeps (conn_inv env E P c) (pgconn_type_map_for_queries_set a)" "keeps (conn_inv env E P c) (pgconn_type_map_for_results_set b)"
    "keeps (conn_inv env E P c) (pgconn_encoder_for_put_copy_data_set e)" "keeps (conn_inv env E P c) (pgconn_decoder_for_get_copy_data_set d)"
    "keeps (conn_inv env E P c) (pgconn_field_name_type_set v)" "keeps (conn_inv env E P c) (pgconn_flush_data_set v)"
  unfolding pgconn_type_map_for_queries_set_def pgconn_type_map_for_results_set_def pgconn_encoder_for_put_copy_data_set_def
    pgconn_decoder_for_get_copy_data_set_def pgconn_field_name_type_set_def pgconn_flush_data_set_def
  using assms by (auto intro!: keeping keeps_upd simp: this_ok_def split: typemap_arg.split elem_arg.split)

lemma keeps_open_close:
  assumes "libpq_conn_ok lq"
  shows "keeps (conn_inv env E P c) (pgconn_connect_poll lq)" "keeps (conn_inv env E P c) (pgconn_sync_reset lq)"
    "keeps (conn_inv env E P c) (pgconn_reset_start lq)" "keeps (conn_inv env E P c) (pgconn_reset_poll lq)"
  unfolding pgconn_connect_poll_def pgconn_sync_reset_def pgconn_reset_start_def pgconn_reset_poll_def
  by (intro keeping assms)+

lemma keeps_modes:
  assumes "libpq_query_ok lq"
  shows "keeps (conn_inv env E P c) (pgconn_set_single_row_mode lq)" "keeps (conn_inv env E P c) (pgconn_set_chunked_rows_mode rb lq v)"
    "keeps (conn_inv env E P c) (pgconn_is_busy lq)" "keeps (conn_inv env E P c) (pgconn_sync_setnonblocking lq v)"
    "keeps (conn_inv env E P c) (pgconn_sync_isnonblocking lq)" "keeps (conn_inv env E P c) (pipeline_call f)"
    "keeps (conn_inv env E P c) (pgconn_set_error_verbosity rb lq' v)" "keeps (conn_inv env E P c) (pgconn_set_error_context_visibility rb lq' v)"
  unfolding pgconn_set_single_row_mode_def pgconn_set_chunked_rows_mode_def pgconn_is_busy_def pgconn_sync_setnonblocking_def
    pgconn_sync_isnonblocking_def pipeline_call_def pgconn_set_error_verbosity_def pgconn_set_error_context_visibility_def
  by (intro keeping keeps_status safe_num2; simp)+

text \<open>The buffers that the methods allocate are as large as libpq asks for: \<open>PQescapeString\<close> at most doubles its input, and
  \<open>lo_read\<close> stores no more than it is asked for.\<close>

definition libpq_ok :: "('w, 'z) libpq_scheme \<Rightarrow> bool" where
  "libpq_ok lq \<longleftrightarrow> libpq_query_ok lq \<and> (\<forall>v. safe (rb_to_encoding lq v)) \<and>
     (\<forall>bs w. length (fst (PQescapeStringConn lq bs w)) \<le> 2 * length bs) \<and> (\<forall>bs. length (PQescapeString lq bs) \<le> 2 * length bs) \<and>
     (\<forall>fd n w. 0 \<le> n \<longrightarrow> int (length (snd (fst (lo_read lq fd n w)))) \<le> n)"

lemma libpq_okD:
  assumes "libpq_ok lq"
  shows "libpq_query_ok lq" "libpq_conn_ok lq" "safe (rb_to_encoding lq v)" "length (fst (PQescapeStringConn lq bs w)) \<le> 2 * length bs"
    "length (PQescapeString lq bs) \<le> 2 * length bs" "0 \<le> n \<Longrightarrow> int (length (snd (fst (lo_read lq fd n w)))) \<le> n"
  using assms by (auto simp: libpq_ok_def libpq_query_okD)

lemma string_in_enc_safe: "rb_api_ok rb \<Longrightarrow> safe (string_in_enc rb v e)"
  by (auto simp: string_in_enc_def StringValueCStr_safe rb_api_okD intro!: safe_rbind)

lemma keeps_fill: "length bs < n \<Longrightarrow> keeps J (fill_string bs n e)"
  by (simp add: fill_string_def keeps_basic)

lemma keeps_escape:
  assumes "rb_api_ok rb" "libpq_ok lq"
  shows "keeps (conn_inv env E P c) (pgconn_s_escape rb lq singleton v)"
proof -
  have pe: "keeps (conn_inv env E P c) (if \<not> singleton then
         cbind pg_get_pgconn (\<lambda>conn.
         cbind (pq_get conn (PQescapeStringConn lq (str_bytes s))) (\<lambda>(bs, error).
           if length bs \<ge> length (str_bytes s) * 2 + 1 then cerr MemFault
           else if error then pg_raise_conn_error PGError ''%s''
           else fill_string bs (length (str_bytes s) * 2 + 1) e))
       else fill_string (PQescapeString lq (str_bytes s)) (length (str_bytes s) * 2 + 1) e)" for s e
  proof (rule keeps_case, rule keeps_get_pgconn)
    have len: "length (fst (PQescapeStringConn lq (str_bytes s) w)) < length (str_bytes s) * 2 + 1" for w
      using libpq_okD(4) [OF assms(2), of "str_bytes s" w] by linarith
    show "keeps (conn_inv env E P (Some a)) (cbind (pq_get a (PQescapeStringConn lq (str_bytes s))) (\<lambda>(bs, error).
           if length bs \<ge> length (str_bytes s) * 2 + 1 then cerr MemFault
           else if error then pg_raise_conn_error PGError ''%s''
           else fill_string bs (length (str_bytes s) * 2 + 1) e))" for a
      unfolding pq_get_def
    proof (rule keeps_pq_then)
      fix w
      obtain bs er where be: "PQescapeStringConn lq (str_bytes s) w = (bs, er)" by fastforce
      then show "keeps (conn_inv env E P (Some a)) (case fst (PQescapeStringConn lq (str_bytes s) w, w) of (bs, error) \<Rightarrow>
           if length bs \<ge> length (str_bytes s) * 2 + 1 then cerr MemFault
           else if error then pg_raise_conn_error PGError ''%s''
           else fill_string bs (length (str_bytes s) * 2 + 1) e)"
        using len [of w] by (simp add: keeps_basic keeps_fill)
    qed
    show "keeps (conn_inv env E P c) (fill_string (PQescapeString lq (str_bytes s)) (length (str_bytes s) * 2 + 1) e)"
      using libpq_okD(5) [OF assms(2), of "str_bytes s"] by (intro keeps_fill) linarith
  qed
  show ?thesis unfolding pgconn_s_escape_def Let_def
    by (intro keeps_clift_then keeps_cbind [OF keeps_case(2)] keeps_get_this keeps_basic StringValueCStr_safe string_in_enc_safe pe assms(1))
qed

lemma keeps_escape_others:
  assumes "rb_api_ok rb" "libpq_ok lq"
  shows "keeps (conn_inv env E P c) (pgconn_s_escape_bytea lq singleton v)" "keeps (conn_inv env E P c) (pgconn_s_unescape_bytea rb v)"
    "keeps (conn_inv env E P c) (escape_with rb f v)"
  unfolding pgconn_s_escape_bytea_def pgconn_s_unescape_bytea_def escape_with_def
  by (intro keeps_get_safe2 keeping ci.keeps_blocks StringValueCStr_safe string_in_enc_safe assms; simp)+

lemma keeps_blocking: "keeps (conn_inv env E P (Some a)) m \<Longrightarrow> keeps (conn_inv env E P (Some a)) (blocking lq a m)"
  unfolding blocking_def by (intro keeping)

lemma keeps_then:
  assumes "keeps J m" "\<And>x s t. m s = Some (Inr x, t) \<Longrightarrow> keeps J (f x)"
  shows "keeps J (cbind m f)"
  by (intro keepsI cgood_cbind keepsD [OF assms(1)] keepsD [OF assms(2)])

lemma keeps_loread:
  assumes "libpq_ok lq"
  shows "keeps (conn_inv env E P c) (pgconn_loread rb lq v n)"
  unfolding pgconn_loread_def num2int_c_def
proof (intro keeps_get_pgconn keeps_clift_then keeps_case keeps_basic keeps_cbind [OF ci.keeps_blocks(1)] safe_num2)
  fix a fd and len :: int assume len: "\<not> len < 0"
  have read: "keeps (conn_inv env E P (Some a)) (blocking lq a (pq a (lo_read lq fd len)))" by (intro keeps_blocking keeping)
  have fits: "int (length buffer) \<le> len"
    if "blocking lq a (pq a (lo_read lq fd len)) s = Some (Inr (ret, buffer), t)" for s :: "'a cst" and t ret buffer
    using that libpq_okD(6) [OF assms, of len] len
    by (auto simp: blocking_def cbind_def pq_def pq_get_def cret_def Let_def split: if_splits prod.splits) (metis fst_conv snd_conv)
  show "keeps (conn_inv env E P (Some a)) (cbind (blocking lq a (pq a (lo_read lq fd len))) (\<lambda>(ret, buffer).
           if int (length buffer) > len then cerr MemFault
           else if ret < 0 then pg_raise_conn_error PGError ''lo_read failed''
           else if ret = 0 then cbind free (\<lambda>_. cret Qnil)
           else cbind free (\<lambda>_. cret (RString (take (nat ret) buffer) rb_ascii8bit_encindex))))"
    by (rule keeps_then [OF read], rule keeps_case(1), hypsubst, drule fits) (intro keeps_case keeping ci.keeps_blocks; simp)
qed simp

lemma keeps_large_objects:
  assumes "rb_api_ok rb"
  shows "keeps (conn_inv env E P c) (pgconn_locreat rb lq argv)" "keeps (conn_inv env E P c) (pgconn_locreate rb lq v)"
    "keeps (conn_inv env E P c) (pgconn_loimport rb lq v)" "keeps (conn_inv env E P c) (pgconn_loexport rb lq v f)"
    "keeps (conn_inv env E P c) (pgconn_loopen rb lq argv)" "keeps (conn_inv env E P c) (pgconn_lowrite rb lq v b)"
    "keeps (conn_inv env E P c) (pgconn_lolseek rb lq v o' wh)" "keeps (conn_inv env E P c) (pgconn_lotell rb lq v)"
    "keeps (conn_inv env E P c) (pgconn_lotruncate rb lq v n)" "keeps (conn_inv env E P c) (pgconn_loclose rb lq v)"
    "keeps (conn_inv env E P c) (pgconn_lounlink rb lq v)"
  unfolding pgconn_locreat_def pgconn_locreate_def pgconn_loimport_def pgconn_loexport_def pgconn_loopen_def pgconn_lowrite_def
    pgconn_lolseek_def pgconn_lotell_def pgconn_lotruncate_def pgconn_loclose_def pgconn_lounlink_def num2int_c_def
  by (intro keeping keeps_blocking safe_num2 num2uint_safe assms)+

lemma keeps_enc_get: "keeps (conn_inv env E P (Some a)) (pg_conn_enc_get lq a)"
  unfolding pg_conn_enc_get_def pg_get_pg_encoding_as_rb_encoding_def pg_get_pg_encname_as_rb_encoding_def
  by (intro keeping) simp

lemma keeps_set_enc_index: "keeps (conn_inv env E P c) (pgconn_set_internal_encoding_index lq)"
  unfolding pgconn_set_internal_encoding_index_def
  by (intro keeps_get_safe2 keeps_cbind [OF keeps_enc_get] keeping keeps_upd; simp add: this_ok_def)

lemma keeps_client_encoding:
  assumes "rb_api_ok rb"
  shows "keeps (conn_inv env E P c) (pgconn_get_client_encoding lq)" "keeps (conn_inv env E P c) (pgconn_sync_set_client_encoding rb lq v)"
    "keeps (conn_inv env E P c) (pgconn_internal_encoding rb lq)"
  unfolding pgconn_get_client_encoding_def pgconn_sync_set_client_encoding_def pgconn_internal_encoding_def
  by (intro keeping keeps_enc_get keeps_set_enc_index assms)+

lemma keeps_async_encoding:
  assumes "query_env_ok env hash" "libpq_ok lq"
  shows "keeps (conn_inv env E {} None) (pgconn_async_set_client_encoding env errs hash lq v)"
    and "keeps (conn_inv env E {} None) (pgconn_set_default_encoding env errs hash lq)"
proof -
  have exec: "keeps (conn_inv env E {} None) (pgconn_async_exec env errs hash lq None (\<lambda>_. cret Qnil) ([q], None))" for q
    unfolding pgconn_async_exec_def
    by (intro keeps_async_query keeps_send_query keeps_basic) (use assms libpq_okD(1) in \<open>auto simp: block_ok_def typemap_arg_ok_def\<close>)
  show set: "keeps (conn_inv env E {} None) (pgconn_async_set_client_encoding env errs hash lq v)" for v
    unfolding pgconn_async_set_client_encoding_def by (intro keeping keeps_set_enc_index exec)
  have "serves env E a (cbind (pg_conn_enc_get lq a) (\<lambda>conn_encoding.
      cbind (if conn_encoding \<noteq> Some rb_enc then pgconn_set_client_encoding_async env errs hash lq v else cret 0) (\<lambda>_.
      cbind (pgconn_set_internal_encoding_index lq) (\<lambda>_. cret x))))" for a rb_enc x and v :: rvalue
    unfolding pgconn_set_client_encoding_async_def
    by (intro serves_cbind [OF keeps_enc_get] serves_end keeping set keeps_set_enc_index)
  moreover have "serves env E a (cbind (pgconn_set_internal_encoding_index lq) (\<lambda>_. cret Qnil))" for a
    by (intro serves_end keeping keeps_set_enc_index)
  ultimately show "keeps (conn_inv env E {} None) (pgconn_set_default_encoding env errs hash lq)"
    unfolding pgconn_set_default_encoding_def by (intro serves_pgconn serves_cbind [OF keeps_basic(6)] serves_case)
qed

lemma keeps_notice_set:
  "keeps (conn_inv env E P c) (pgconn_set_notice_receiver lq b)" "keeps (conn_inv env E P c) (pgconn_set_notice_processor lq b)"
  unfolding pgconn_set_notice_receiver_def pgconn_set_notice_processor_def
  by (intro keeps_get_safe2 keeping keeps_upd; simp add: this_ok_def)+

lemma sync_connect_ok:
  assumes "query_env_ok env hash" "libpq_ok lq" "conn_inv env E {} None s" "pc_pgconn (cs_this s) = None"
    and "\<And>b. block = Some b \<Longrightarrow> keeps (conn_inv env E {} None) b"
  shows "cgood (conn_inv env E {} None) (pgconn_s_sync_connect env errs hash lq block argv s)"
  unfolding pgconn_s_sync_connect_def
  by (rule connect_ok) (use assms keeps_async_encoding(2) [OF assms(1,2)] libpq_okD in \<open>auto simp: query_env_ok_def env_okD\<close>)

section \<open>A sample connection\<close>

text \<open>A libpq for evaluating the model: its world is the number of events on the socket that are to come, and the
  status of the results that are to come. When there are no more events the socket is closed.\<close>

type_synonym sample_world = "nat \<times> exec_status list"

definition sample_lq :: "sample_world libpq" where
  "sample_lq = \<lparr>
     parse_connect_args = (\<lambda>_. Inr (RObject 9)), pq_io_close = (\<lambda>_ w. (Inr (), w)),
     pq_for_fd = (\<lambda>_ w. (Inr (RObject 9), w)), PQconnectdb = (\<lambda>_ w. (True, w)), PQconnectStart = (\<lambda>_ w. (True, w)),
     PQping = (\<lambda>_ w. (1, w)), PQfinish = (\<lambda>w. w), PQconnectPoll = (\<lambda>w. (1, w)), PQreset = (\<lambda>w. w),
     PQresetStart = (\<lambda>w. (1, w)), PQresetPoll = (\<lambda>w. (1, w)), PQconndefaults = (\<lambda>_. Some []),
     PQconninfoParse = (\<lambda>_. Inr (Some [])), PQconninfo = (\<lambda>_. Some []),
     PQencryptPasswordConn = (\<lambda>_ _ _ w. (Some [], w)), PQencryptPassword = (\<lambda>_ _. Some []), PQdb = (\<lambda>_. Some []),
     PQuser = (\<lambda>_. Some []), PQpass = (\<lambda>_. Some []), PQhost = (\<lambda>_. Some []), PQhostaddr = (\<lambda>_. Some []),
     PQport = (\<lambda>_. Some []), PQoptions = (\<lambda>_. Some []), PQstatus = (\<lambda>w. 0), PQtransactionStatus = (\<lambda>w. 1),
     PQparameterStatus = (\<lambda>_ _. Some []), PQprotocolVersion = (\<lambda>_. 1), PQserverVersion = (\<lambda>_. 1),
     PQerrorMessage = (\<lambda>_. Some []), PQsocket = (\<lambda>w. 3), PQbackendPID = (\<lambda>_. 1),
     PQconnectionNeedsPassword = (\<lambda>_. True), PQconnectionUsedPassword = (\<lambda>_. True), PQsslInUse = (\<lambda>_. True),
     PQsslAttribute = (\<lambda>_ _. Some []), PQsslAttributeNames = (\<lambda>_. []),
     rb_io_wait = (\<lambda>_ _ (n, ds). if n = 0 then (Inl (Raise PGError [] []), (n, ds)) else (Inr (Some 1), (n - 1, ds))),
     gettimeofday = (\<lambda>w. (1, w)), num2usec = (\<lambda>_. Inr 0), rb_locale_encindex = 0,
     PQexec = (\<lambda>_ w. (Some sample_row, w)), PQexecParams = (\<lambda>_ _ _ w. (Some sample_row, w)),
     PQprepare = (\<lambda>_ _ _ w. (Some sample_row, w)), PQexecPrepared = (\<lambda>_ _ _ w. (Some sample_row, w)),
     PQdescribePrepared = (\<lambda>_ w. (Some sample_row, w)), PQdescribePortal = (\<lambda>_ w. (Some sample_row, w)),
     PQclosePrepared = (\<lambda>_ w. (Some sample_row, w)), PQclosePortal = (\<lambda>_ w. (Some sample_row, w)),
     PQmakeEmptyPGresult = (\<lambda>st w. Some sample_row), PQsetSingleRowMode = (\<lambda>w. (1, w)),
     PQsetChunkedRowsMode = (\<lambda>_ w. (1, w)), PQsendQuery = (\<lambda>_ w. (1, w)), PQsendQueryParams = (\<lambda>_ _ _ w. (1, w)),
     PQsendPrepare = (\<lambda>_ _ _ w. (1, w)), PQsendQueryPrepared = (\<lambda>_ _ _ w. (1, w)),
     PQsendDescribePrepared = (\<lambda>_ w. (1, w)), PQsendDescribePortal = (\<lambda>_ w. (1, w)),
     PQsendClosePrepared = (\<lambda>_ w. (1, w)), PQsendClosePortal = (\<lambda>_ w. (1, w)),
     PQgetResult = (\<lambda>(n, ds). case ds of [] \<Rightarrow> (None, (n, [])) | st # ds \<Rightarrow> (Some (sample_data st [[97], [98]] [[Some [49], None]]), (n, ds))),
     PQconsumeInput = (\<lambda>w. (1, w)), PQisBusy = (\<lambda>w. (fst w > 0, w)), PQsetnonblocking = (\<lambda>_ w. (1, w)),
     PQisnonblocking = (\<lambda>w. 1), PQflush = (\<lambda>w. (0, w)), PQnotifies = (\<lambda>w. (None, w)),
     PQputCopyData = (\<lambda>_ w. (1, w)), PQputCopyEnd = (\<lambda>_ w. (1, w)), PQgetCopyData = (\<lambda>_ w. ((- 1, []), w)),
     rb_enc_find = (\<lambda>_. Some 1), rb_enc_name = (\<lambda>_. []), rb_to_encoding = (\<lambda>_. Inr 1),
     rb_default_internal_encoding = None, PQescapeStringConn = (\<lambda>bs w. (bs, False)), PQescapeString = (\<lambda>bs. bs),
     PQescapeByteaConn = (\<lambda>_ _. []), PQescapeBytea = (\<lambda>_. []), PQescapeLiteral = (\<lambda>_ _. Some []),
     PQescapeIdentifier = (\<lambda>_ _. Some []), PQsetErrorVerbosity = (\<lambda>_ w. (1, w)),
     PQsetErrorContextVisibility = (\<lambda>_ w. (1, w)), PQclientEncoding = (\<lambda>_. 1), pg_encoding_to_char = (\<lambda>_. []),
     PQsetClientEncoding = (\<lambda>_ w. (1, w)), gvl_notice_receiver_proxy = 1, gvl_notice_processor_proxy = 2,
     PQsetNoticeReceiver = (\<lambda>_ w. (0, w)), PQsetNoticeProcessor = (\<lambda>_ w. (0, w)), PQpipelineStatus = (\<lambda>_. 1),
     PQenterPipelineMode = (\<lambda>w. (1, w)), PQexitPipelineMode = (\<lambda>w. (1, w)), PQpipelineSync = (\<lambda>w. (1, w)),
     PQsendPipelineSync = (\<lambda>w. (1, w)), PQsendFlushRequest = (\<lambda>w. (1, w)), lo_creat = (\<lambda>_ w. (17, w)),
     lo_create = (\<lambda>_ w. (17, w)), lo_import = (\<lambda>_ w. (17, w)), lo_export = (\<lambda>_ _ w. (1, w)),
     lo_open = (\<lambda>_ _ w. (1, w)), lo_write = (\<lambda>_ _ w. (1, w)), lo_read = (\<lambda>_ _ w. ((- 1, []), w)),
     lo_lseek = (\<lambda>_ _ _ w. (1, w)), lo_tell = (\<lambda>_ w. (1, w)), lo_truncate = (\<lambda>_ _ w. (1, w)),
     lo_close = (\<lambda>_ w. (1, w)), lo_unlink = (\<lambda>_ w. (1, w)) \<rparr>"

definition sample_connection :: "nat \<Rightarrow> exec_status list \<Rightarrow> sample_world cst" where
  "sample_connection n sts = \<lparr> cs_this = connection_allocated\<lparr> pc_pgconn := Some 0 \<rparr>, cs_frozen = False, cs_live = {0}, cs_next = 1,
     cs_blocks = 0, cs_rst = start, cs_world = (n, sts) \<rparr>"

lemma conn_inv_sample: "conn_inv sample_env {} {} None (sample_connection n sts)"
  by (simp add: conn_inv_def sample_connection_def connection_allocated_def rinv_start)

lemma data_good_sample [simp]: "data_good (sample_data st names rows)"
  by (simp add: data_good_def)

lemma libpq_conn_ok_sample: "libpq_conn_ok sample_lq"
  by (simp add: libpq_conn_ok_def sample_lq_def)

lemma libpq_query_ok_sample: "libpq_query_ok sample_lq"
  unfolding libpq_query_ok_def using libpq_conn_ok_sample
  by (intro conjI) (auto simp: sample_lq_def delivers_def split: list.splits)

lemma libpq_ok_sample: "libpq_ok sample_lq"
  unfolding libpq_ok_def using libpq_query_ok_sample by (intro conjI) (auto simp: sample_lq_def)

lemma query_env_ok_sample: "query_env_ok sample_env sample_hash"
  using answers_good_sample by (simp add: query_env_ok_def hashes_safe_def sample_hash_def sample_env_def [THEN arg_cong, of env_tm])

text \<open>Claim C9. Opening, resetting and finishing a connection keep the invariant: the object has the only \<open>PGconn\<close> that is
  not finished, so no method uses a \<open>PGconn\<close> after \<open>PQfinish\<close>, none is finished twice, and none is lost, also when an
  exception is raised in between or a block finishes the connection itself.\<close>

theorem connection_lifecycle_safe:
  assumes "libpq_conn_ok lq" and "rb_api_ok rb" and "conn_inv env E {} None s"
    and "\<And>b. block = Some b \<Longrightarrow> keeps (conn_inv env E {} None) b"
  shows "cgood (conn_inv env E {} None) (pgconn_finish lq s) \<and>
    cgood (conn_inv env E {} None) (pgconn_reset_start2 rb lq v s) \<and>
    cgood (conn_inv env E {} None) (pgconn_connect_poll lq s) \<and>
    cgood (conn_inv env E {} None) (pgconn_sync_reset lq s) \<and>
    cgood (conn_inv env E {} None) (pgconn_reset_start lq s) \<and>
    cgood (conn_inv env E {} None) (pgconn_reset_poll lq s) \<and>
    cgood (conn_inv env E {} None) (pgconn_socket_io lq s) \<and>
    (pgconn_finish lq s = Some (Inr Qnil, t) \<longrightarrow> cs_live t = {}) \<and>
    (pc_pgconn (cs_this s) = None \<longrightarrow> cgood (conn_inv env E {} None) (pgconn_s_connect_start rb lq block argv s))"
proof (intro conjI impI)
  show "cgood (conn_inv env E {} None) (pgconn_s_connect_start rb lq block argv s)" if "pc_pgconn (cs_this s) = None"
    using connect_start_ok [OF assms(1-3) that assms(4)] .
  show "cs_live t = {}" if "pgconn_finish lq s = Some (Inr Qnil, t)"
  proof -
    have "pc_pgconn (cs_this t) = None"
      using that by (auto simp: pgconn_finish_def cbind_def upd_conn_def cret_def split: option.splits sum.splits prod.splits)
    moreover have "conn_inv env E {} None t" using keepsD [OF keeps_finish [OF assms(1)] assms(3)] that by (simp add: cgood_def)
    ultimately show ?thesis by (simp add: conn_inv_def)
  qed
qed (use assms in \<open>auto intro!: keepsD [where J = "conn_inv env E {} None" and s = s]
    intro: keeps_finish keeps_reset_start2 keeps_open_close keeps_socket_io\<close>)

theorem connection_lifecycle_safe_witness:
  "cgood (conn_inv sample_env {} {} None) (pgconn_finish sample_lq (sample_connection 0 [])) \<and>
   (\<exists>t. pgconn_finish sample_lq (sample_connection 0 []) = Some (Inr Qnil, t) \<and> cs_live t = {})"
proof -
  have "\<exists>t. pgconn_finish sample_lq (sample_connection 0 []) = Some (Inr Qnil, t)"
    by (simp add: pgconn_finish_def cbind_def pg_get_connection_safe_def pg_get_connection_def rb_check_frozen_def cret_def upd_conn_def
        sample_connection_def connection_allocated_def pgconn_close_socket_io_def pg_unwrap_socket_io_def finish_pgconn_def pq_def)
  then obtain t where t: "pgconn_finish sample_lq (sample_connection 0 []) = Some (Inr Qnil, t)" by blast
  show ?thesis
    using connection_lifecycle_safe [OF libpq_conn_ok_sample rb_api_ok_sample conn_inv_sample, of None 0 "[]" Qnil t] t by auto
qed



end
