(* ===== verification/PG_Conn_Behaviour.thy ===== *)
theory PG_Conn_Behaviour
  imports PG_Conn_Safety
begin

text \<open>
  What the methods of \<open>PG::Connection\<close> do beyond being safe: waiting for the server comes to an end, the last result is
  returned and the others are cleared, queries are sent with the parameters of the specification, COPY rows come back, the table of
  encodings works in both directions, large objects keep the mode of the connection, and a closed connection says so.
\<close>

section \<open>Waiting comes to an end\<close>

text \<open>
  \<open>finite_traffic lq \<mu>\<close>: the number \<open>\<mu>\<close> of things that can still happen on the socket and in libpq never grows, and each
  event on the socket, each result, each row of COPY data and each refused \<open>PQputCopyEnd\<close> is one of them. When nothing can
  happen any more, waiting for the socket raises an exception, since the server has gone.
\<close>

definition finite_traffic :: "('w, 'z) libpq_query_scheme \<Rightarrow> ('w \<Rightarrow> nat) \<Rightarrow> bool" where
  "finite_traffic lq \<mu> \<longleftrightarrow>
     (\<forall>v w. \<mu> (snd (pq_io_close lq v w)) \<le> \<mu> w) \<and> (\<forall>d w. \<mu> (snd (pq_for_fd lq d w)) \<le> \<mu> w) \<and>
     (\<forall>e t w. \<mu> (snd (rb_io_wait lq e t w)) \<le> \<mu> w \<and>
       (\<forall>ev. fst (rb_io_wait lq e t w) = Inr (Some ev) \<longrightarrow> \<mu> (snd (rb_io_wait lq e t w)) < \<mu> w) \<and>
       (t = None \<longrightarrow> fst (rb_io_wait lq e t w) \<noteq> Inr None)) \<and>
     (\<forall>w. \<mu> (snd (PQisBusy lq w)) \<le> \<mu> w \<and> \<mu> (snd (PQconsumeInput lq w)) \<le> \<mu> w \<and> \<mu> (snd (PQflush lq w)) \<le> \<mu> w) \<and>
     (\<forall>w. \<mu> (snd (PQgetResult lq w)) \<le> \<mu> w \<and> (fst (PQgetResult lq w) \<noteq> None \<longrightarrow> \<mu> (snd (PQgetResult lq w)) < \<mu> w)) \<and>
     (\<forall>a w. \<mu> (snd (PQgetCopyData lq a w)) \<le> \<mu> w \<and> (fst (fst (PQgetCopyData lq a w)) > 0 \<longrightarrow> \<mu> (snd (PQgetCopyData lq a w)) < \<mu> w)) \<and>
     (\<forall>m w. \<mu> (snd (PQputCopyEnd lq m w)) \<le> \<mu> w \<and> (fst (PQputCopyEnd lq m w) = 0 \<longrightarrow> \<mu> (snd (PQputCopyEnd lq m w)) < \<mu> w))"

lemma finite_trafficD:
  assumes "finite_traffic lq \<mu>"
  shows "\<mu> (snd (pq_io_close lq v w)) \<le> \<mu> w" "\<mu> (snd (pq_for_fd lq d w)) \<le> \<mu> w" "\<mu> (snd (rb_io_wait lq e t w)) \<le> \<mu> w"
    "fst (rb_io_wait lq e t w) = Inr (Some ev) \<Longrightarrow> \<mu> (snd (rb_io_wait lq e t w)) < \<mu> w" "fst (rb_io_wait lq e None w) \<noteq> Inr None"
    "\<mu> (snd (PQisBusy lq w)) \<le> \<mu> w" "\<mu> (snd (PQconsumeInput lq w)) \<le> \<mu> w" "\<mu> (snd (PQflush lq w)) \<le> \<mu> w"
    "\<mu> (snd (PQgetResult lq w)) \<le> \<mu> w" "fst (PQgetResult lq w) \<noteq> None \<Longrightarrow> \<mu> (snd (PQgetResult lq w)) < \<mu> w"
    "\<mu> (snd (PQgetCopyData lq a w)) \<le> \<mu> w" "fst (fst (PQgetCopyData lq a w)) > 0 \<Longrightarrow> \<mu> (snd (PQgetCopyData lq a w)) < \<mu> w"
    "\<mu> (snd (PQputCopyEnd lq m w)) \<le> \<mu> w" "fst (PQputCopyEnd lq m w) = 0 \<Longrightarrow> \<mu> (snd (PQputCopyEnd lq m w)) < \<mu> w"
  using assms unfolding finite_traffic_def by blast+

text \<open>\<open>ret \<mu> m n Q\<close>: with at most \<open>n\<close> things to come \<open>m\<close> returns, with at most \<open>n\<close> things to come then, and \<open>Q\<close> holds for its
  value, if it does not raise, and that number.\<close>

named_theorems ending

definition ret :: "('w \<Rightarrow> nat) \<Rightarrow> ('w, 'a) cop \<Rightarrow> nat \<Rightarrow> ('a \<Rightarrow> nat \<Rightarrow> bool) \<Rightarrow> bool" where
  "ret \<mu> m n Q \<longleftrightarrow> (\<forall>s. \<mu> (cs_world s) \<le> n \<longrightarrow>
     (\<exists>r t. m s = Some (r, t) \<and> \<mu> (cs_world t) \<le> n \<and> (\<forall>x. r = Inr x \<longrightarrow> Q x (\<mu> (cs_world t)))))"

abbreviation ends :: "('w \<Rightarrow> nat) \<Rightarrow> ('w, 'a) cop \<Rightarrow> nat \<Rightarrow> bool" where
  "ends \<mu> m n \<equiv> ret \<mu> m n (\<lambda>_ _. True)"

lemma ret_bind:
  assumes "ret \<mu> m n Q" "\<And>x k. k \<le> n \<Longrightarrow> Q x k \<Longrightarrow> ends \<mu> (f x) k"
  shows "ends \<mu> (cbind m f) n"
  unfolding ret_def
proof (intro allI impI)
  fix s :: "'a cst" assume "\<mu> (cs_world s) \<le> n"
  then obtain r t where r: "m s = Some (r, t)" "\<mu> (cs_world t) \<le> n" "\<And>x. r = Inr x \<Longrightarrow> Q x (\<mu> (cs_world t))"
    using assms(1) unfolding ret_def by blast
  show "\<exists>r t. cbind m f s = Some (r, t) \<and> \<mu> (cs_world t) \<le> n \<and> (\<forall>x. r = Inr x \<longrightarrow> True)"
  proof (cases r)
    case (Inr x)
    then obtain r' t' where "f x t = Some (r', t')" "\<mu> (cs_world t') \<le> \<mu> (cs_world t)"
      using assms(2) [OF r(2) r(3)] unfolding ret_def by blast
    then show ?thesis using r(1,2) Inr by (auto simp: cbind_def intro: order_trans)
  qed (use r in \<open>simp add: cbind_def\<close>)
qed

lemma ends_cases [ending]:
  "(\<And>a b. x = (a, b) \<Longrightarrow> ends \<mu> (g a b) n) \<Longrightarrow> ends \<mu> (case x of (a, b) \<Rightarrow> g a b) n"
  "(b \<Longrightarrow> ends \<mu> m n) \<Longrightarrow> (\<not> b \<Longrightarrow> ends \<mu> m' n) \<Longrightarrow> ends \<mu> (if b then m else m') n"
  "(y = None \<Longrightarrow> ends \<mu> m n) \<Longrightarrow> (\<And>a. y = Some a \<Longrightarrow> ends \<mu> (h a) n) \<Longrightarrow> ends \<mu> (case y of None \<Rightarrow> m | Some a \<Rightarrow> h a) n"
  by (auto split: prod.split option.split)

lemma ends_basic [ending]:
  "ends \<mu> (cret x) n" "ends \<mu> (cerr e) n" "ends \<mu> (clift r) n" "ends \<mu> pg_get_pgconn n" "ends \<mu> pg_get_connection n"
  "ends \<mu> pg_get_connection_safe n" "ends \<mu> (pg_raise_conn_error k msg) n" "ends \<mu> (upd_conn u) n" "ends \<mu> (on_results m) n"
  "ends \<mu> malloc n" "ends \<mu> free n" "ends \<mu> (rb_scan_args a b c) n"
  by (auto simp: ret_def cret_def cerr_def clift_def pg_get_pgconn_def pg_get_connection_safe_def pg_get_connection_def cbind_def
      pg_raise_conn_error_def upd_conn_def on_results_def Let_def malloc_def free_def rb_scan_args_def rb_check_frozen_def
      split: option.split prod.split sum.split)

lemma ends_bind [ending]: "ends \<mu> m n \<Longrightarrow> (\<And>x k. k \<le> n \<Longrightarrow> ends \<mu> (f x) k) \<Longrightarrow> ends \<mu> (cbind m f) n"
  by (rule ret_bind)

lemma ret_pq:
  assumes "\<And>w. \<mu> w \<le> n \<Longrightarrow> \<mu> (snd (f w)) \<le> n \<and> Q (fst (f w)) (\<mu> (snd (f w)))"
  shows "ret \<mu> (pq a f) n Q"
  using assms by (auto simp: ret_def pq_def Let_def split_beta)

lemma ret_world:
  assumes "\<And>w. \<mu> w \<le> n \<Longrightarrow> \<mu> (snd (f w)) \<le> n \<and> (\<forall>x. fst (f w) = Inr x \<longrightarrow> Q x (\<mu> (snd (f w))))"
  shows "ret \<mu> (world f) n Q"
  using assms by (auto simp: ret_def world_def Let_def split_beta)

lemma ends_pq [ending]: "(\<And>w. \<mu> (snd (f w)) \<le> \<mu> w) \<Longrightarrow> ends \<mu> (pq a f) n" "ends \<mu> (pq_get a g) n"
  unfolding pq_get_def by (auto intro!: ret_pq intro: order_trans)

lemma ends_world [ending]: "(\<And>w. \<mu> (snd (f w)) \<le> \<mu> w) \<Longrightarrow> ends \<mu> (world f) n"
  by (auto intro!: ret_world intro: order_trans)

lemma ret_bind_less:
  assumes "ret \<mu> m n Q" "\<And>x k. Q x k \<Longrightarrow> k < n" "\<And>x k. k < n \<Longrightarrow> ends \<mu> (f x) k"
  shows "ret \<mu> (cbind m f) n (\<lambda>x k. k < n)"
  unfolding ret_def
proof (intro allI impI)
  fix s :: "'a cst" assume "\<mu> (cs_world s) \<le> n"
  then obtain r t where r: "m s = Some (r, t)" "\<mu> (cs_world t) \<le> n" "\<And>x. r = Inr x \<Longrightarrow> \<mu> (cs_world t) < n"
    using assms(1,2) unfolding ret_def by blast
  show "\<exists>r t. cbind m f s = Some (r, t) \<and> \<mu> (cs_world t) \<le> n \<and> (\<forall>x. r = Inr x \<longrightarrow> \<mu> (cs_world t) < n)"
  proof (cases r)
    case (Inr x)
    then obtain r' t' where "f x t = Some (r', t')" "\<mu> (cs_world t') \<le> \<mu> (cs_world t)"
      using assms(3) [OF r(3)] unfolding ret_def by blast
    then show ?thesis using r(1,3) Inr by (auto simp: cbind_def)
  qed (use r in \<open>simp add: cbind_def\<close>)
qed

lemma ret_io_wait:
  assumes "finite_traffic lq \<mu>"
  shows "ret \<mu> (io_wait lq e t) n (\<lambda>x k. x \<noteq> None \<or> t = None \<longrightarrow> k < n)"
    and "ret \<mu> (io_wait_events lq e) n (\<lambda>x k. k < n)"
proof -
  show w: "ret \<mu> (io_wait lq e t) n (\<lambda>x k. x \<noteq> None \<or> t = None \<longrightarrow> k < n)" for t
    unfolding io_wait_def
  proof (rule ret_world)
    show "\<mu> (snd (rb_io_wait lq e t w)) \<le> n \<and> (\<forall>x. fst (rb_io_wait lq e t w) = Inr x \<longrightarrow>
        (x \<noteq> None \<or> t = None \<longrightarrow> \<mu> (snd (rb_io_wait lq e t w)) < n))" if "\<mu> w \<le> n" for w
      using that finite_trafficD(3-5) [OF assms] by (metis not_None_eq order_less_le_trans order_trans)
  qed
  show "ret \<mu> (io_wait_events lq e) n (\<lambda>x k. k < n)"
    unfolding io_wait_events_def by (rule ret_bind_less [OF w [of None]]) (auto intro: ending)
qed

lemmas after_wait = ret_bind [OF ret_io_wait(1)] and after_events = ret_bind [OF ret_io_wait(2)]

lemma ret_get_pgresult:
  assumes "finite_traffic lq \<mu>"
  shows "ret \<mu> (get_pgresult lq a) n (\<lambda>x k. x \<noteq> None \<longrightarrow> k < n)"
  unfolding ret_def
proof (intro allI impI)
  fix s :: "'a cst" assume n: "\<mu> (cs_world s) \<le> n"
  obtain x w where x: "PQgetResult lq (cs_world s) = (x, w)" by fastforce
  have "\<mu> w \<le> n" "x \<noteq> None \<Longrightarrow> \<mu> w < n"
    using finite_trafficD(9,10) [OF assms, of "cs_world s"] x n by auto
  then show "\<exists>r t. get_pgresult lq a s = Some (r, t) \<and> \<mu> (cs_world t) \<le> n \<and> (\<forall>x. r = Inr x \<longrightarrow> x \<noteq> None \<longrightarrow> \<mu> (cs_world t) < n)"
    using x n by (auto simp: get_pgresult_def cbind_def pq_def cret_def on_results_def alloc_pgresult_def split: option.split)
qed

lemma ends_clear [ending]: "ends \<mu> (clear_pgresult p) n"
  unfolding clear_pgresult_def by (intro ending)

lemma ends_sockets [ending]:
  assumes "finite_traffic lq \<mu>"
  shows "ends \<mu> (pgconn_close_socket_io lq) n" "ends \<mu> (pgconn_socket_io lq) n" "ends \<mu> (pgconn_consume_input lq) n" "ends \<mu> (consume lq a) n"
proof -
  show c: "ends \<mu> (pgconn_close_socket_io lq) n" for n
    unfolding pgconn_close_socket_io_def pg_unwrap_socket_io_def by (intro ending finite_trafficD assms)
  show "ends \<mu> (pgconn_socket_io lq) n"
    unfolding pgconn_socket_io_def pg_wrap_socket_io_def by (intro ending finite_trafficD assms)
  show "ends \<mu> (pgconn_consume_input lq) n" "ends \<mu> (consume lq a) n"
    unfolding pgconn_consume_input_def consume_def by (intro ending c finite_trafficD assms)+
qed

section \<open>The loops\<close>

lemma ends_unfold: "(\<And>s. m s = b s) \<Longrightarrow> ends \<mu> b n \<Longrightarrow> ends \<mu> m n"
  by (simp add: ret_def)

lemma ends_async_flush [ending]:
  assumes "finite_traffic lq \<mu>"
  shows "ends \<mu> (pgconn_async_flush lq) n"
proof (induction n rule: less_induct)
  case (less n)
  show ?case
  proof (rule ends_unfold [OF pgconn_async_flush.simps])
    have again: "ends \<mu> (pgconn_async_flush lq) k" if "k < j" "j \<le> i" "i \<le> n" for i j k using less that by simp
    show "ends \<mu> (cbind (pgconn_sync_flush lq) (\<lambda>r. if r = Qfalse then
         cbind (pgconn_socket_io lq) (\<lambda>socket_io.
         cbind (io_wait_events lq (PG_RUBY_IO_READABLE OR PG_RUBY_IO_WRITABLE)) (\<lambda>events.
         cbind (if events AND PG_RUBY_IO_READABLE \<noteq> 0 then pgconn_consume_input lq else cret Qnil) (\<lambda>_. pgconn_async_flush lq)))
       else cret Qtrue)) n"
      unfolding pgconn_sync_flush_def
      by (intro after_events ending finite_trafficD assms) (auto intro: again)
  qed
qed

lemma ends_discard_busy [ending]:
  assumes "finite_traffic lq \<mu>"
  shows "ends \<mu> (discard_busy lq a) n"
proof (induction n rule: less_induct)
  case (less n)
  show ?case
    by (rule ends_unfold [OF discard_busy.simps])
      (intro after_wait after_events ending finite_trafficD assms; force intro: less)
qed

lemma ret_put_copy_end:
  assumes "finite_traffic lq \<mu>"
  shows "ret \<mu> (pq a (PQputCopyEnd lq m)) n (\<lambda>r k. r = 0 \<longrightarrow> k < n)"
  using finite_trafficD(13,14) [OF assms] by (intro ret_pq) (meson order_less_le_trans order_trans)

lemma ends_discard_copy_in [ending]:
  assumes "finite_traffic lq \<mu>"
  shows "ends \<mu> (discard_copy_in lq a) n"
proof (induction n rule: less_induct)
  case (less n)
  show ?case
    by (rule ends_unfold [OF discard_copy_in.simps], rule ret_bind [OF ret_put_copy_end [OF assms]])
      (intro ending assms; force intro: less)
qed

lemma ret_get_copy_data:
  assumes "finite_traffic lq \<mu>"
  shows "ret \<mu> (pq a (PQgetCopyData lq b)) n (\<lambda>r k. fst r > 0 \<longrightarrow> k < n)"
  using finite_trafficD(11,12) [OF assms] by (intro ret_pq) (meson order_less_le_trans order_trans)

lemma ends_discard_copy_out [ending]:
  assumes "finite_traffic lq \<mu>"
  shows "ends \<mu> (discard_copy_out lq a) n"
proof (induction n rule: less_induct)
  case (less n)
  show ?case
    by (rule ends_unfold [OF discard_copy_out.simps], rule ret_bind [OF ret_get_copy_data [OF assms]])
      (intro after_wait ending assms; force intro: less)
qed

lemma ends_discard_loop [ending]:
  assumes "finite_traffic lq \<mu>"
  shows "ends \<mu> (discard_loop lq a) n"
proof (induction n rule: less_induct)
  case (less n)
  show ?case
    by (rule ends_unfold [OF discard_loop.simps], rule ends_bind [OF ends_discard_busy [OF assms]], rule ends_cases(2), rule ends_basic(1),
        rule ret_bind [OF ret_get_pgresult [OF assms]])
      (intro ending assms; force intro: less)
qed

lemma ends_discard_results:
  assumes "finite_traffic lq \<mu>"
  shows "ends \<mu> (pgconn_discard_results lq) n"
  unfolding pgconn_discard_results_def by (intro ending assms)

lemma ends_readable_loop:
  assumes "finite_traffic lq \<mu>" "\<And>w. \<mu> (snd (gettimeofday lq w)) \<le> \<mu> w" "\<And>n. ends \<mu> (is_readable a) n"
  shows "ends \<mu> (wait_socket_readable_loop lq a t is_readable) n"
proof (induction n rule: less_induct)
  case (less n)
  have time: "ends \<mu> (wait_time lq t) k" for k
    unfolding wait_time_def by (intro ending) (simp add: Let_def split_beta assms(2))
  show ?case
    by (rule ends_unfold [OF wait_socket_readable_loop.simps])
      (intro after_wait ending finite_trafficD assms time; force intro: less)
qed

lemma ends_wait_readable:
  assumes "finite_traffic lq \<mu>" "\<And>w. \<mu> (snd (gettimeofday lq w)) \<le> \<mu> w" "\<And>a n. ends \<mu> (is_readable a) n"
  shows "ends \<mu> (wait_socket_readable lq t is_readable) n"
  unfolding wait_socket_readable_def
  by (intro ending ends_readable_loop assms) (simp add: Let_def split_beta assms(2))

lemma ends_last_loop:
  assumes "finite_traffic lq \<mu>" "\<And>n. ends \<mu> wait n"
  shows "ends \<mu> (last_result_loop lq wait a prev) n"
proof (induction n arbitrary: prev rule: less_induct)
  case (less n)
  show ?case
    by (rule ends_unfold [OF last_result_loop.simps], rule ends_bind [OF assms(2)], rule ret_bind [OF ret_get_pgresult [OF assms(1)]])
      (intro ending assms; force intro: less)
qed



section \<open>The last result\<close>

text \<open>\<open>gives lq w ds w'\<close>: in the world \<open>w\<close> libpq delivers the results \<open>ds\<close>, up to NULL or the first result that starts a COPY.\<close>

inductive gives :: "('w, 'z) libpq_query_scheme \<Rightarrow> 'w \<Rightarrow> pg_data list \<Rightarrow> 'w \<Rightarrow> bool" for lq where
  gives_none: "PQgetResult lq w = (None, w') \<Longrightarrow> gives lq w [] w'"
| gives_copy: "PQgetResult lq w = (Some d, w') \<Longrightarrow> copy_status (pq_status d) \<Longrightarrow> gives lq w [d] w'"
| gives_more: "PQgetResult lq w = (Some d, w') \<Longrightarrow> \<not> copy_status (pq_status d) \<Longrightarrow> gives lq w' ds w'' \<Longrightarrow> gives lq w (d # ds) w''"

text \<open>The loop returns the last of them, in the hands of the method, and has cleared all the others.\<close>

definition dropped :: "nat option \<Rightarrow> (nat \<Rightarrow> pg_data option) \<Rightarrow> nat \<Rightarrow> pg_data option" where
  "dropped prev h = (case prev of None \<Rightarrow> h | Some p \<Rightarrow> h(p := None))"

definition only_last :: "nat option \<Rightarrow> pg_data list \<Rightarrow> rst \<Rightarrow> rst" where
  "only_last prev ds R = (if ds = [] then R
     else R\<lparr> st_next := st_next R + length ds, st_heap := (dropped prev (st_heap R))(st_next R + length ds - 1 \<mapsto> last ds) \<rparr>)"

lemma last_loop_turn:
  assumes "a \<in> cs_live s" "PQgetResult lq (cs_world s) = (Some d, w')" "st_heap (cs_rst s) (st_next (cs_rst s)) = None"
    and "\<And>p. prev = Some p \<Longrightarrow> st_heap (cs_rst s) p \<noteq> None"
  shows "last_result_loop lq (cret ()) a prev s =
    (if copy_status (pq_status d) then cret (Some (st_next (cs_rst s))) else last_result_loop lq (cret ()) a (Some (st_next (cs_rst s))))
      (s\<lparr> cs_world := w', cs_rst := only_last prev [d] (cs_rst s) \<rparr>)"
proof -
  have "prev \<noteq> Some (st_next (cs_rst s))" using assms(3,4) by auto
  then show ?thesis
    using assms by (subst last_result_loop.simps) (auto simp: cbind_def cret_def get_pgresult_def pq_def on_results_def alloc_pgresult_def
        clear_pgresult_def PQclear_def obind_def deref_def only_last_def dropped_def fun_upd_twist split: option.split)
qed

lemma last_loop_gives:
  assumes "gives lq w ds w'"
  shows "a \<in> cs_live s \<Longrightarrow> cs_world s = w \<Longrightarrow> (\<And>x. st_next (cs_rst s) \<le> x \<Longrightarrow> st_heap (cs_rst s) x = None) \<Longrightarrow>
    (\<And>p. prev = Some p \<Longrightarrow> st_heap (cs_rst s) p \<noteq> None) \<Longrightarrow>
    last_result_loop lq (cret ()) a prev s =
      Some (Inr (if ds = [] then prev else Some (st_next (cs_rst s) + length ds - 1)), s\<lparr> cs_world := w', cs_rst := only_last prev ds (cs_rst s) \<rparr>)"
  using assms
proof (induction arbitrary: s prev)
  case (gives_none w w')
  then show ?case
    by (subst last_result_loop.simps) (auto simp: cbind_def cret_def get_pgresult_def pq_def only_last_def)
next
  case (gives_copy w d w')
  then show ?case using last_loop_turn [of a s lq d w' prev] by (simp add: cret_def)
next
  case (gives_more w d w' ds w'')
  let ?n = "st_next (cs_rst s)"
  let ?s = "s\<lparr> cs_world := w', cs_rst := only_last prev [d] (cs_rst s) \<rparr>"
  have "last_result_loop lq (cret ()) a (Some ?n) ?s =
      Some (Inr (if ds = [] then Some ?n else Some (st_next (cs_rst ?s) + length ds - 1)),
        ?s\<lparr> cs_world := w'', cs_rst := only_last (Some ?n) ds (cs_rst ?s) \<rparr>)"
    by (rule gives_more.IH) (use gives_more.prems in \<open>auto simp: only_last_def dropped_def split: option.split\<close>)
  moreover have "dropped prev (st_heap (cs_rst s)) ?n = None"
    using gives_more.prems(3) [of ?n] by (auto simp: dropped_def split: option.split)
  then have "only_last (Some ?n) ds (cs_rst ?s) = only_last prev (d # ds) (cs_rst s)"
    by (auto simp: only_last_def dropped_def [of "Some ?n"] fun_eq_iff)
  ultimately show ?case
    using last_loop_turn [of a s lq d w' prev] gives_more.hyps gives_more.prems by (auto simp: only_last_def)
qed

text \<open>Claim C7. \<open>get_last_result\<close> behaves as if the last result was the only one: when libpq delivers the results \<open>ds\<close> it returns,
  or raises, what it would for the last of them alone, and all the other \<open>PGresult\<close>s are cleared, with no trace in the store but their
  addresses. Without any result it returns nil.\<close>

theorem get_last_result_only_last:
  assumes "pc_pgconn (cs_this s) = Some a" and "conn_inv env E {} None s" and "gives lq (cs_world s) ds w'"
  shows "pgconn_sync_get_last_result env errs lq s =
    (if ds = [] then Some (Inr Qnil, s\<lparr> cs_world := w' \<rparr>)
     else cbind (checked_result env errs lq (Some (last ds))) (\<lambda>r. cret (RObject r))
       (s\<lparr> cs_world := w', cs_rst := (cs_rst s)\<lparr> st_next := st_next (cs_rst s) + length ds - 1 \<rparr> \<rparr>))"
proof -
  have live: "a \<in> cs_live s" using assms(1,2) by (simp add: conn_inv_def)
  have fresh: "st_heap (cs_rst s) x = None" if "st_next (cs_rst s) \<le> x" for x
    using that assms(2) by (cases "st_heap (cs_rst s) x") (auto simp: conn_inv_def rinv_def wf_st_def dest: leD)
  have "pgconn_sync_get_last_result env errs lq s = last_result env errs lq (if ds = [] then None else Some (st_next (cs_rst s) + length ds - 1))
      (s\<lparr> cs_world := w', cs_rst := only_last None ds (cs_rst s) \<rparr>)"
    using last_loop_gives [OF assms(3) live refl fresh, of None] assms(1)
    by (simp add: pgconn_sync_get_last_result_def cbind_def pg_get_pgconn_def pg_get_connection_def cret_def)
  also have "\<dots> = (if ds = [] then Some (Inr Qnil, s\<lparr> cs_world := w' \<rparr>)
     else cbind (checked_result env errs lq (Some (last ds))) (\<lambda>r. cret (RObject r))
       (s\<lparr> cs_world := w', cs_rst := (cs_rst s)\<lparr> st_next := st_next (cs_rst s) + length ds - 1 \<rparr> \<rparr>))"
  proof (cases "ds = []")
    case False
    then have "Suc (st_next (cs_rst s) + length ds - 1) = st_next (cs_rst s) + length ds" by (cases ds) auto
    then show ?thesis using False
      by (simp add: last_result_def checked_result_def new_result_def receive_result_def alloc_pgresult_def on_results_def cbind_def obind_def
          pg_get_connection_def only_last_def dropped_def cret_def split_beta Let_def split: option.split sum.split)
  qed (simp add: last_result_def only_last_def cret_def)
  finally show ?thesis .
qed

theorem get_last_result_only_last_witness:
  "\<exists>t. pgconn_sync_get_last_result sample_env \<lparr> err_classes = [], rb_hErrors = [] \<rparr> sample_lq
       (sample_connection 0 [PGRES_TUPLES_OK, PGRES_COMMAND_OK]) = Some (Inr (RObject 2), t) \<and>
     cs_world t = (0, []) \<and> st_heap (cs_rst t) 0 = None \<and> st_heap (cs_rst t) 1 \<noteq> None"
proof -
  let ?d = "\<lambda>st. sample_data st [[97], [98]] [[Some [49], None]]"
  have g: "gives sample_lq (0, [PGRES_TUPLES_OK, PGRES_COMMAND_OK]) [?d PGRES_TUPLES_OK, ?d PGRES_COMMAND_OK] (0, [])"
    by (rule gives_more [where w' = "(0, [PGRES_COMMAND_OK])"], simp_all add: sample_lq_def copy_status_def)
      (rule gives_more [where w' = "(0, [])"], simp_all add: sample_lq_def copy_status_def gives_none)
  have "pc_pgconn (cs_this (sample_connection 0 [PGRES_TUPLES_OK, PGRES_COMMAND_OK])) = Some 0"
    "cs_world (sample_connection 0 [PGRES_TUPLES_OK, PGRES_COMMAND_OK]) = (0, [PGRES_TUPLES_OK, PGRES_COMMAND_OK])"
    by (simp_all add: sample_connection_def)
  note eq = get_last_result_only_last [OF this(1) conn_inv_sample, of sample_lq, unfolded this(2), OF g]
  show ?thesis unfolding eq
    by (simp add: checked_result_def new_result_def receive_result_def alloc_pgresult_def on_results_def cbind_def obind_def
        pg_get_connection_def cret_def sample_connection_def start_def pg_new_result_def pg_new_result2_def deref_or_null_def deref_def
        oret_def upd_this_def olift_def rb_gc_adjust_memory_usage_def Let_def conn_of_def connection_allocated_def pg_result_check_def
        pgresult_get_this_def)
qed

section \<open>What a query method sends\<close>

abbreviation with_queries_map :: "'w cst \<Rightarrow> typemap \<Rightarrow> 'w cst" where
  "with_queries_map s T \<equiv> s\<lparr> cs_this := (cs_this s)\<lparr> pc_type_map_for_queries := T \<rparr> \<rparr>"

lemma cbind_run:
  "m s = Some (Inr x, t) \<Longrightarrow> cbind m f s = f x t" "m s = Some (Inl e, t) \<Longrightarrow> cbind m f s = Some (Inl e, t)"
  by (simp_all add: cbind_def)

lemma query_params_sends:
  assumes "query_env_ok env hash" "encoders_good (pc_type_map_for_queries this)" "this = cs_this s"
  shows "\<exists>T. query_params env hash this with_types (RArray ps) None Qnil s =
    Some (rbind (fit_to_query (env_tm env) (pc_type_map_for_queries this) (RArray ps)) (\<lambda>_.
      rbind (query_params_spec (env_rb env) (env_tm env) hash with_types (pc_enc_idx this) (pc_type_map_for_queries this) 0 ps)
        (\<lambda>args. Inr (args, 0))), with_queries_map s T)"
proof -
  let ?qp = "(query_params_init (pc_enc_idx this) with_types (RArray ps))\<lparr> qp_typemap := pc_type_map_for_queries this \<rparr>"
  let ?alloc = "alloc_query_params (env_rb env) (env_tm env) hash ?qp"
  have rb: "rb_api_ok (env_rb env)" "answers_good (env_tm env)" using assms(1) by (simp_all add: query_env_ok_def env_okD)
  have eq: "rbind ?alloc (\<lambda>(n, qp'). map_res (libpq_param qp') [0..<n]) =
      rbind (fit_to_query (env_tm env) (pc_type_map_for_queries this) (RArray ps)) (\<lambda>_.
        query_params_spec (env_rb env) (env_tm env) hash with_types (pc_enc_idx this) (pc_type_map_for_queries this) 0 ps)"
    using alloc_query_params_spec [OF rb, of ?qp ps hash] assms(2) by (simp add: query_params_init_def)
  have run: "query_params env hash this with_types (RArray ps) None Qnil s = (case ?alloc of
      Inl e \<Rightarrow> Some (Inl e, s)
    | Inr (n, qp') \<Rightarrow> Some (rbind (map_res (libpq_param qp') [0..<n]) (\<lambda>args. Inr (args, 0)), with_queries_map s (qp_typemap qp')))"
    by (auto simp: query_params_def cbind_def clift_def cret_def upd_conn_def pgconn_query_assign_typemap_def split: sum.split)
  have same: "s = with_queries_map s (pc_type_map_for_queries this)" using assms(3) by simp
  have flip: "rbind (rbind r f) (\<lambda>args. Inr (args, 0 :: int)) = rbind r (\<lambda>u. rbind (f u) (\<lambda>args. Inr (args, 0)))" for r and f :: "'x \<Rightarrow> 'y res"
    by (cases r) simp_all
  show ?thesis
  proof (cases ?alloc)
    case (Inl e)
    then have e: "rbind (fit_to_query (env_tm env) (pc_type_map_for_queries this) (RArray ps)) (\<lambda>_.
        query_params_spec (env_rb env) (env_tm env) hash with_types (pc_enc_idx this) (pc_type_map_for_queries this) 0 ps) = Inl e"
      using eq by simp
    show ?thesis unfolding flip [symmetric] e using run Inl same by auto
  next
    case (Inr x)
    obtain n qp' where x: "x = (n, qp')" by (cases x)
    then show ?thesis unfolding flip [symmetric] using run Inr eq by auto
  qed
qed

text \<open>Claim C5. \<open>exec_params\<close> sends libpq the query in the encoding of the connection with exactly the parameters of the
  specification: the format, OID and value of each of them as the type map of the connection, a Hash or the default determines, with the bytes that
  libpq reads from the memory of the method. If a parameter can not be encoded its exception is raised and nothing is sent. The
  asynchronous \<open>send_query_params\<close> sends the same.\<close>

theorem exec_params_sends:
  assumes "query_env_ok env hash" and "conn_inv env E {} None s" and "pc_pgconn (cs_this s) = Some a" and "\<not> cs_frozen s"
    and "pg_cstr_enc (env_rb env) query (pc_enc_idx (cs_this s)) = Inr q"
    and "args = rbind (fit_to_query (env_tm env) (pc_type_map_for_queries (cs_this s)) (RArray ps)) (\<lambda>_.
      query_params_spec (env_rb env) (env_tm env) hash True (pc_enc_idx (cs_this s)) (pc_type_map_for_queries (cs_this s)) 0 ps)"
  shows "\<exists>T. (pgconn_sync_exec_params env errs hash lq block ([query, RArray ps], None) s = (case args of
        Inl e \<Rightarrow> Some (Inl e, with_queries_map s T)
      | Inr as \<Rightarrow> cbind (checked_result env errs lq (fst (PQexecParams lq q as 0 (cs_world s)))) (yield_result block)
          ((with_queries_map s T)\<lparr> cs_world := snd (PQexecParams lq q as 0 (cs_world s)) \<rparr>))) \<and>
    (pgconn_send_query_params env hash lq ([query, RArray ps], None) s = (case args of
        Inl e \<Rightarrow> Some (Inl e, with_queries_map s T)
      | Inr as \<Rightarrow> (if fst (PQsendQueryParams lq q as 0 (cs_world s)) = 0 then pg_raise_conn_error (PGClass ''UnableToSend'') ''PQsendQueryParams %s''
            else cbind (pgconn_wait_for_flush lq) (\<lambda>_. cret Qnil))
          ((with_queries_map s T)\<lparr> cs_world := snd (PQsendQueryParams lq q as 0 (cs_world s)) \<rparr>)))"
proof -
  have good: "encoders_good (pc_type_map_for_queries (cs_this s))" and live: "a \<in> cs_live s"
    using assms(2,3) by (simp_all add: conn_inv_def)
  obtain T where qp: "query_params env hash (cs_this s) True (RArray ps) None Qnil s = Some (rbind args (\<lambda>as. Inr (as, 0)), with_queries_map s T)"
  proof -
    have "rbind args (\<lambda>as. Inr (as, 0 :: int)) = rbind (fit_to_query (env_tm env) (pc_type_map_for_queries (cs_this s)) (RArray ps)) (\<lambda>_.
      rbind (query_params_spec (env_rb env) (env_tm env) hash True (pc_enc_idx (cs_this s)) (pc_type_map_for_queries (cs_this s)) 0 ps)
        (\<lambda>args. Inr (args, 0)))"
      unfolding assms(6) by (cases "fit_to_query (env_tm env) (pc_type_map_for_queries (cs_this s)) (RArray ps)") simp_all
    then show ?thesis using query_params_sends [OF assms(1) good refl, of True ps] that by auto
  qed
  have args: "arg [query, RArray ps] 0 = query" "arg [query, RArray ps] (Suc 0) = RArray ps" "arg [query, RArray ps] 2 = Qnil"
    by (simp_all add: arg_def)
  have start: "cbind pg_get_connection_safe f s = f (cs_this s, a) s" for f :: "_ \<Rightarrow> ('a, 'x) cop"
    using assms(3,4) by (simp add: cbind_def pg_get_connection_safe_def pg_get_connection_def rb_check_frozen_def cret_def)
  have scan: "cbind (rb_scan_args l 4 (argc_of ([query, RArray ps], None))) f = f ()" if "l \<le> 2" for l and f :: "_ \<Rightarrow> ('a, 'x) cop"
    using that by (simp add: rb_scan_args_def argc_of_def cbind_def cret_def)
  have e: "pgconn_sync_exec_params env errs hash lq block ([query, RArray ps], None) s = (case args of
        Inl e \<Rightarrow> Some (Inl e, with_queries_map s T)
      | Inr as \<Rightarrow> cbind (checked_result env errs lq (fst (PQexecParams lq q as 0 (cs_world s)))) (yield_result block)
          ((with_queries_map s T)\<lparr> cs_world := snd (PQexecParams lq q as 0 (cs_world s)) \<rparr>))"
  proof (cases args)
    case (Inl x)
    then show ?thesis using cbind_run(2) qp by (simp add: pgconn_sync_exec_params_def start scan args)
  next
    case (Inr as)
    then show ?thesis using cbind_run(1) [where m = "query_params env hash (cs_this s) True (RArray ps) None Qnil"] qp live
      by (simp add: pgconn_sync_exec_params_def start scan args) (simp add: cbind_def clift_def assms(5) pq_def Let_def split_beta)
  qed
  have f: "pgconn_send_query_params env hash lq ([query, RArray ps], None) s = (case args of
        Inl e \<Rightarrow> Some (Inl e, with_queries_map s T)
      | Inr as \<Rightarrow> (if fst (PQsendQueryParams lq q as 0 (cs_world s)) = 0 then pg_raise_conn_error (PGClass ''UnableToSend'') ''PQsendQueryParams %s''
            else cbind (pgconn_wait_for_flush lq) (\<lambda>_. cret Qnil))
          ((with_queries_map s T)\<lparr> cs_world := snd (PQsendQueryParams lq q as 0 (cs_world s)) \<rparr>))"
  proof (cases args)
    case (Inl x)
    then show ?thesis using cbind_run(2) qp by (simp add: pgconn_send_query_params_def start scan args)
  next
    case (Inr as)
    then show ?thesis using cbind_run(1) [where m = "query_params env hash (cs_this s) True (RArray ps) None Qnil"] qp live
      by (simp add: pgconn_send_query_params_def start scan args) (simp add: cbind_def clift_def assms(5) pq_def Let_def split_beta)
  qed
  from e f show ?thesis by blast
qed

theorem exec_params_sends_witness:
  "\<exists>T. pgconn_sync_exec_params sample_env \<lparr> err_classes = [], rb_hErrors = [] \<rparr> sample_hash sample_lq None
      ([RString (lit ''SELECT $1, $2'') 0, RArray [RString (lit ''ab'') 0, Qnil]], None) (sample_connection 0 []) =
    cbind (checked_result sample_env \<lparr> err_classes = [], rb_hErrors = [] \<rparr> sample_lq
        (fst (PQexecParams sample_lq (lit ''SELECT $1, $2'') [(0, 0, Some (lit ''ab'')), (0, 0, None)] 0 (0, [])))) (yield_result None)
      ((with_queries_map (sample_connection 0 []) T)\<lparr> cs_world := (0, []) \<rparr>)"
proof -
  have st: "cs_this (sample_connection 0 []) = connection_allocated\<lparr> pc_pgconn := Some 0 \<rparr>" "\<not> cs_frozen (sample_connection 0 [])"
    "cs_world (sample_connection 0 []) = (0, [])"
    by (simp_all add: sample_connection_def)
  have spec: "rbind (fit_to_query (env_tm sample_env) TypeMapAllStrings (RArray [RString (lit ''ab'') 0, Qnil])) (\<lambda>_.
      query_params_spec (env_rb sample_env) (env_tm sample_env) sample_hash True 0 TypeMapAllStrings 0 [RString (lit ''ab'') 0, Qnil]) =
      Inr [(0, 0, Some (lit ''ab'')), (0, 0, None)]"
    by (simp add: sample_env_def param_choice_def param_text_def pg_coder_enc_func_def pg_coder_enc_to_s_def sample_hash_def
        rb_sample_def StringValueCStr_def RSTRING_LENINT_def)
  have cmd: "pg_cstr_enc (env_rb sample_env) (RString (lit ''SELECT $1, $2'') 0) 0 = Inr (lit ''SELECT $1, $2'')"
    by (simp add: pg_cstr_enc_def StringValueCStr_def sample_env_def rb_sample_def)
  have w: "snd (PQexecParams sample_lq q as f w) = w" for q as f w by (simp add: sample_lq_def)
  show ?thesis
    using exec_params_sends [where a = 0 and s = "sample_connection 0 []" and query = "RString (lit ''SELECT $1, $2'') 0" and
        ps = "[RString (lit ''ab'') 0, Qnil]" and block = None and errs = "\<lparr> err_classes = [], rb_hErrors = [] \<rparr>" and lq = sample_lq,
        OF query_env_ok_sample conn_inv_sample] st spec cmd by (auto simp: connection_allocated_def w)
qed

section \<open>Names of encodings\<close>

lemma of_char_inj: "(of_char c :: 8 word) = of_char d \<longleftrightarrow> c = d"
proof -
  have "(of_char c :: 8 word) = word_of_nat (of_char c)" for c by (metis of_nat_of_char)
  moreover have "(word_of_nat m :: 8 word) = word_of_nat n \<longleftrightarrow> m = n" if "m < 256" "n < 256" for m n :: nat
    using that by (simp add: word_of_nat_eq_iff take_bit_nat_eq_self)
  ultimately show ?thesis by (simp add: of_char_eq_iff)
qed

lemma lit_eq: "lit a = lit b \<longleftrightarrow> a = b"
  by (auto simp: lit_def inj_map_eq_map inj_def of_char_inj)

lemma map_of_lit: "map_of (map (\<lambda>(p, r). (lit p, lit r)) t) (lit n) = map_option lit (map_of t n)"
  by (induction t) (auto simp: lit_eq)

lemma last_pg_name_lit:
  "last_pg_name (map (\<lambda>(p, r). (lit p, lit r)) t) (lit n) (map_option lit acc) = map_option lit (last_pg_name t n acc)"
proof (induction t arbitrary: acc)
  case (Cons x t)
  show ?case using Cons [of "if n = snd x then Some (fst x) else acc"] by (cases x) (auto simp: lit_eq split_beta)
qed simp

lemma encoding_table:
  "list_all (\<lambda>(p, r). map_of enc_names p = Some r \<and> (\<exists>p'. last_pg_name enc_names r None = Some p' \<and> map_of enc_names p' = Some r \<and>
     (p' = p \<longleftrightarrow> p \<notin> {''EUC_JP'', ''KOI8'', ''SJIS''}))) enc_names"
proof -
  have "list_all (\<lambda>(p, r). map_of enc_names p = Some r \<and> (case last_pg_name enc_names r None of None \<Rightarrow> False
      | Some p' \<Rightarrow> map_of enc_names p' = Some r \<and> (p' = p \<longleftrightarrow> p \<notin> {''EUC_JP'', ''KOI8'', ''SJIS''}))) enc_names"
    by code_simp
  then show ?thesis by (auto simp: list_all_iff split: option.splits)
qed

text \<open>Claim C32. Every name of the table of encodings is found in both directions: the name of PostgreSQL leads to the encoding
  of Ruby, and the name that is sent for an encoding of Ruby leads back to it. It is the name of the same entry but for \<open>EUC_JP\<close>,
  \<open>KOI8\<close> and \<open>SJIS\<close>, whose Ruby encodings also have a later entry: for these, a connection with the default of Ruby's \<open>EUC-JP\<close> asks the
  server for \<open>EUC_JIS_2004\<close>.\<close>

theorem encoding_names:
  assumes "(p, r) \<in> set pg_enc_pg2ruby_mapping"
  shows "pg_get_pg_encname_as_rb_encoding enc_find (Some (pg_get_rb_encoding_as_pg_encoding r)) = Inr (enc_find r) \<and>
    pg_get_pg_encname_as_rb_encoding enc_find (Some p) = Inr (enc_find r) \<and>
    (pg_get_rb_encoding_as_pg_encoding r = p \<longleftrightarrow> p \<notin> {lit ''EUC_JP'', lit ''KOI8'', lit ''SJIS''})"
proof -
  obtain p0 r0 where n: "(p0, r0) \<in> set enc_names" "p = lit p0" "r = lit r0"
    using assms by (auto simp: pg_enc_pg2ruby_mapping_def)
  then obtain p' where p': "map_of enc_names p0 = Some r0" "last_pg_name enc_names r0 None = Some p'" "map_of enc_names p' = Some r0"
    "p' = p0 \<longleftrightarrow> p0 \<notin> {''EUC_JP'', ''KOI8'', ''SJIS''}"
    using encoding_table by (auto simp: list_all_iff)
  have "pg_get_rb_encoding_as_pg_encoding r = lit p'"
    using last_pg_name_lit [of enc_names r0 None] p'(2) n(3) by (simp add: pg_get_rb_encoding_as_pg_encoding_def pg_enc_pg2ruby_mapping_def)
  then show ?thesis using p' n(2,3)
    by (simp add: pg_get_pg_encname_as_rb_encoding_def pg_enc_pg2ruby_mapping_def map_of_lit lit_eq del: lit_simps)
qed

theorem encoding_names_witness:
  "pg_get_pg_encname_as_rb_encoding (\<lambda>n. if n = lit ''EUC-JP'' then Some 5 else None) (Some (pg_get_rb_encoding_as_pg_encoding (lit ''EUC-JP''))) = Inr (Some 5) \<and>
   pg_get_rb_encoding_as_pg_encoding (lit ''EUC-JP'') \<noteq> lit ''EUC_JP''"
proof -
  have "(lit ''EUC_JP'', lit ''EUC-JP'') \<in> set pg_enc_pg2ruby_mapping" by (simp add: pg_enc_pg2ruby_mapping_def enc_names_def)
  from encoding_names [OF this, of "\<lambda>n. if n = lit ''EUC-JP'' then Some 5 else None"] show ?thesis by simp
qed

section \<open>Large objects\<close>

text \<open>\<open>PQsetnonblocking\<close> sets the mode that \<open>PQisnonblocking\<close> asks for.\<close>

definition mode_switch :: "('w, 'z) libpq_query_scheme \<Rightarrow> bool" where
  "mode_switch lq \<longleftrightarrow> (\<forall>w. PQisnonblocking lq w \<in> {0, 1}) \<and>
     (\<forall>m w. PQisnonblocking lq (snd (PQsetnonblocking lq m w)) = (if m = 0 then 0 else 1))"

definition keeps_mode :: "('w, 'z) libpq_query_scheme \<Rightarrow> ('w, 'a) cop \<Rightarrow> bool" where
  "keeps_mode lq m \<longleftrightarrow> (\<forall>s r t. m s = Some (r, t) \<longrightarrow> PQisnonblocking lq (cs_world t) = PQisnonblocking lq (cs_world s))"

lemma keeps_mode_bind: "keeps_mode lq m \<Longrightarrow> (\<And>x. keeps_mode lq (f x)) \<Longrightarrow> keeps_mode lq (cbind m f)"
  unfolding keeps_mode_def cbind_def by (auto split: option.splits sum.splits)

lemma keeps_mode_intros:
  "keeps_mode lq (cret x)" "keeps_mode lq (cerr e)" "keeps_mode lq (clift r)" "keeps_mode lq pg_get_pgconn"
  "keeps_mode lq (pg_raise_conn_error klass msg)" "keeps_mode lq (check_string v)" "keeps_mode lq (rb_scan_args l u k)"
  "keeps_mode lq malloc" "keeps_mode lq free"
  "(b \<Longrightarrow> keeps_mode lq m) \<Longrightarrow> (\<not> b \<Longrightarrow> keeps_mode lq m') \<Longrightarrow> keeps_mode lq (if b then m else m')"
  "(\<And>i j. y = (i, j) \<Longrightarrow> keeps_mode lq (g i j)) \<Longrightarrow> keeps_mode lq (case y of (i, j) \<Rightarrow> g i j)"
  by (auto simp: keeps_mode_def cret_def cerr_def clift_def pg_get_pgconn_def pg_get_connection_def pg_raise_conn_error_def cbind_def
      check_string_def rb_scan_args_def malloc_def free_def split: option.splits prod.split)

text \<open>A body that always returns, as a call of libpq does.\<close>

lemma keeps_mode_blocking:
  assumes "mode_switch lq"
  shows "keeps_mode lq (blocking lq a (pq a f))"
  using assms by (fastforce simp: keeps_mode_def mode_switch_def blocking_def cbind_def pq_def pq_get_def cret_def Let_def split_beta split: if_splits)


definition mode_lq :: "sample_world libpq" where
  "mode_lq = sample_lq\<lparr> PQsetnonblocking := (\<lambda>m w. (0, (if m = 0 then 0 else 1, snd w))), PQisnonblocking := (\<lambda>w. if fst w = 0 then 0 else 1) \<rparr>"

lemma mode_switch_sample: "mode_switch mode_lq"
  by (simp add: mode_switch_def mode_lq_def)


text \<open>\<open>lo_lseek\<close> converts its arguments between switching to blocking mode and switching back: an offset that is no
  Integer raises and leaves a non-blocking connection in blocking mode.\<close>

theorem lolseek_leaves_blocking:
  assumes "pc_pgconn (cs_this s) = Some a" and "a \<in> cs_live s" and "mode_switch lq" and "num2 32 (rb_dbl2int rb) fd = Inr n"
    and "num2 32 (rb_dbl2int rb) offset = Inl e"
  shows "\<exists>t. pgconn_lolseek rb lq fd offset whence s = Some (Inl e, t) \<and> PQisnonblocking lq (cs_world t) = 0"
  using assms by (auto simp: pgconn_lolseek_def cbind_def pg_get_pgconn_def pg_get_connection_def cret_def num2int_c_def clift_def blocking_def
      pq_get_def pq_def Let_def split_beta mode_switch_def)


theorem lolseek_leaves_blocking_witness:
  "PQisnonblocking mode_lq (cs_world (sample_connection 1 [])) = 1 \<and>
   (\<exists>e t. pgconn_lolseek rb_sample mode_lq (RInteger 3) Qnil (RInteger 0) (sample_connection 1 []) = Some (Inl e, t) \<and>
     PQisnonblocking mode_lq (cs_world t) = 0)"
proof -
  let ?s = "sample_connection 1 []"
  have "\<exists>e. num2 32 (rb_dbl2int rb_sample) Qnil = Inl e" by simp
  then obtain e where e: "num2 32 (rb_dbl2int rb_sample) Qnil = Inl e" by blast
  have s: "pc_pgconn (cs_this ?s) = Some 0" "0 \<in> cs_live ?s" "PQisnonblocking mode_lq (cs_world ?s) = 1"
    "num2 32 (rb_dbl2int rb_sample) (RInteger 3) = Inr 3"
    by (simp_all add: sample_connection_def mode_lq_def int_in_def)
  show ?thesis using lolseek_leaves_blocking [OF s(1,2) mode_switch_sample s(4) e] s(3) by blast
qed

section \<open>COPY through the connection\<close>

text \<open>Claim C10. A row of strings and nil that is given to \<open>put_copy_data\<close> with a \<open>TextEncoder::CopyRow\<close> comes back from
  \<open>get_copy_data\<close> with a \<open>TextDecoder::CopyRow\<close> when libpq hands over the bytes that it was given: \<open>put_copy_data\<close> gives libpq the line of
  the row and returns true, \<open>get_copy_data\<close> returns the row for this line, and the buffer of libpq is freed.\<close>

theorem copy_through_connection:
  assumes "rb_api_ok rb" and "answers_good tm"
    and "copy_typemap enc = TypeMapAllStrings" and "copy_typemap dec = TypeMapAllStrings"
    and "copy_delimiter enc = copy_delimiter dec" and "copy_delim_ok (copy_delimiter dec)"
    and "str_bytes (copy_null_string enc) = copy_null" and "str_bytes (copy_null_string dec) = copy_null"
    and "vs \<noteq> []" and "string_row (pc_enc_idx (cs_this s)) vs"
    and "enc_func encoder = Some (\<lambda>_. pg_text_enc_copy_row rb tm enc)" and "dec_func decoder = Some (\<lambda>_. pg_text_dec_copy_row rb tm isd dec)"
    and "pc_pgconn (cs_this s) = Some a" and "a \<in> cs_live s" and "\<not> cs_frozen s"
    and "bs = seps (copy_delimiter dec) 0 (map (copy_raw (copy_delimiter dec) copy_null) (map row_text vs)) @ [c_nl]"
    and "length bs < 2 ^ 31" and "PQputCopyData lq bs (cs_world s) = (1, wa)" and "PQgetCopyData lq False wb = ((int (length bs), bs), wc)"
  shows "pgconn_sync_put_copy_data rb lq (RArray vs) (Elem_coder encoder) s = Some (Inr Qtrue, s\<lparr> cs_world := wa \<rparr>) \<and>
    pgconn_sync_get_copy_data rb lq Qfalse (Elem_coder decoder) (s\<lparr> cs_world := wb \<rparr>) = Some (Inr (RArray vs), s\<lparr> cs_world := wc \<rparr>)"
proof -
  let ?e = "pc_enc_idx (cs_this s)"
  obtain t where t: "pg_text_enc_copy_row rb tm enc (RArray vs) False Qnil ?e = Inr (- 1, [], RString t ?e)"
    "pg_text_dec_copy_row rb tm isd dec t 0 0 ?e = Inr (RArray vs)"
    using copy_text_row [OF assms(1-10)] by blast
  have bs: "bs = t"
    using t(1) enc_copy_row_text [OF assms(1,2), of enc vs False Qnil ?e] assms(3,5,7,16) row_fields_strings [OF assms(1,10)] by simp
  have enc: "encode_copy_data rb encoder (RArray vs) ?e = Inr (RString bs ?e)"
    using t(1) assms(11) bs by (simp add: encode_copy_data_def pg_coder_enc_func_def)
  have start: "cbind pg_get_connection_safe f s = f (cs_this s, a) s" for f :: "_ \<Rightarrow> ('a, 'x) cop"
    using assms(13,15) by (simp add: cbind_def pg_get_connection_safe_def pg_get_connection_def rb_check_frozen_def cret_def)
  have "pgconn_sync_put_copy_data rb lq (RArray vs) (Elem_coder encoder) s = Some (Inr Qtrue, s\<lparr> cs_world := wa \<rparr>)"
    using assms(14,17,18) enc unfolding pgconn_sync_put_copy_data_def start
    by (simp add: coder_arg_def cbind_def cret_def clift_def check_string_def RSTRING_LENINT_def pq_def Let_def split_beta)
  moreover have "bs \<noteq> []" using assms(16) by simp
  then have "pgconn_sync_get_copy_data rb lq Qfalse (Elem_coder decoder) (s\<lparr> cs_world := wb \<rparr>) = Some (Inr (RArray vs), s\<lparr> cs_world := wc \<rparr>)"
    using assms(12-15,19) t(2) unfolding bs [symmetric]
    by (cases s) (simp add: pgconn_sync_get_copy_data_def coder_arg_def cbind_def cret_def clift_def pq_def Let_def malloc_def free_def
        pg_get_connection_safe_def pg_get_connection_def rb_check_frozen_def pg_coder_dec_func_def)
  ultimately show ?thesis by blast
qed

text \<open>The row of a String with a tab, and nil.\<close>

definition copy_lq :: "sample_world libpq" where
  "copy_lq = sample_lq\<lparr> PQgetCopyData := (\<lambda>_ w. ((7, lit ''a'' @ [c_backslash, c_tab, c_tab, c_backslash] @ lit ''N'' @ [c_nl]), w)) \<rparr>"

definition copy_sample_encoder :: t_pg_coder where
  "copy_sample_encoder = pg_simple_encoder_allocate Qnil (Some (\<lambda>_. pg_text_enc_copy_row rb_sample tm_sample sample_copy_enc))"

definition copy_sample_decoder :: t_pg_coder where
  "copy_sample_decoder = pg_simple_decoder_allocate Qnil (Some (\<lambda>_. pg_text_dec_copy_row rb_sample tm_sample (\<lambda>_. False) sample_copy_dec))"

theorem copy_through_connection_witness:
  "pgconn_sync_put_copy_data rb_sample copy_lq (RArray [RString (lit ''a'' @ [c_tab]) 0, Qnil]) (Elem_coder copy_sample_encoder) (sample_connection 0 []) =
     Some (Inr Qtrue, sample_connection 0 []) \<and>
   pgconn_sync_get_copy_data rb_sample copy_lq Qfalse (Elem_coder copy_sample_decoder) (sample_connection 0 []) =
     Some (Inr (RArray [RString (lit ''a'' @ [c_tab]) 0, Qnil]), sample_connection 0 [])"
proof -
  let ?s = "sample_connection 0 []"
  have s: "?s\<lparr> cs_world := (0, []) \<rparr> = ?s" "pc_enc_idx (cs_this ?s) = 0" "cs_world ?s = (0, [])" "pc_pgconn (cs_this ?s) = Some 0"
    "cs_live ?s = {0}" "\<not> cs_frozen ?s" "PQputCopyData copy_lq x (0, []) = (1, (0, []))" for x
    by (simp_all add: sample_connection_def connection_allocated_def copy_lq_def) (simp add: sample_lq_def)
  have d: "PQgetCopyData copy_lq False (0, []) = ((7, [97, c_backslash, c_tab, c_tab, c_backslash, 78, c_nl]), (0, []))"
    "dec_func copy_sample_decoder = Some (\<lambda>_. pg_text_dec_copy_row rb_sample tm_sample (\<lambda>_. False) sample_copy_dec)"
    by (simp_all add: copy_lq_def copy_sample_decoder_def pg_simple_decoder_allocate_def pg_coder_init_decoder_def t_pg_coder.defs)
  have raw: "copy_raw c_tab copy_null (row_text (RString (lit ''a'' @ [c_tab]) 0)) = lit ''a'' @ [c_backslash, c_tab]"
    "copy_raw c_tab copy_null (row_text Qnil) = [c_backslash] @ lit ''N''"
    by (simp_all add: copy_raw_def copy_esc_def escape1_def row_text_def)
  show ?thesis
    using copy_through_connection [where s = ?s and lq = copy_lq and a = 0 and vs = "[RString (lit ''a'' @ [c_tab]) 0, Qnil]" and
        enc = sample_copy_enc and dec = sample_copy_dec and encoder = copy_sample_encoder and decoder = copy_sample_decoder and
        isd = "\<lambda>_. False" and rb = rb_sample and tm = tm_sample and wa = "(0, [])" and wb = "(0, [])" and wc = "(0, [])", OF _ _ _ _ _ _ _ _ _ _ _ _ _ _ _ refl]
    by (simp add: s d raw [simplified] copy_delim_ok_def ISOCTAL_def copy_sample_encoder_def)
qed

section \<open>Closed and half open connections\<close>

lemma closed_start:
  assumes "pc_pgconn (cs_this s) = None" "\<not> cs_frozen s"
  shows "cbind pg_get_pgconn f s = Some (Inl closed_error, s)" "cbind pg_get_connection_safe g s = Some (Inl closed_error, s)"
  using assms by (simp_all add: cbind_def pg_get_pgconn_def pg_get_connection_safe_def pg_get_connection_def rb_check_frozen_def
      pg_raise_conn_error_def cerr_def)

text \<open>Claim C30. After \<open>finish\<close> the methods that need the server raise \<open>PG::ConnectionBad\<close> with ``connection is closed'' and
  change nothing, whatever their arguments are; \<open>finished?\<close> is true, and the settings of the object can still be read and changed.\<close>

theorem closed_connection_raises:
  assumes "pc_pgconn (cs_this s) = None" and "\<not> cs_frozen s"
  shows "(\<forall>m \<in> {pgconn_finish lq, pgconn_status lq, pgconn_db lq, pgconn_port lq, pgconn_server_version lq, pgconn_socket lq,
        pgconn_socket_io lq, pgconn_error_message lq, pgconn_sync_exec env errs hash lq block a, pgconn_sync_exec_params env errs hash lq block a,
        pgconn_sync_exec_prepared env errs hash lq block a, pgconn_sync_prepare env errs lq argv, pgconn_sync_describe_prepared env errs lq v,
        pgconn_sync_get_result env lq block, pgconn_send_query env hash lq a, pgconn_send_query_params env hash lq a,
        pgconn_send_prepare env lq argv, pgconn_discard_results lq, pgconn_async_exec env errs hash lq block nil_block a,
        pgconn_async_exec_params env errs hash lq block nil_block a, pgconn_is_busy lq, pgconn_consume_input lq, pgconn_sync_flush lq,
        pgconn_sync_get_last_result env errs lq, pgconn_sync_put_copy_data rb lq v encoder, pgconn_sync_put_copy_end rb lq argv,
        pgconn_sync_get_copy_data rb lq v encoder, pgconn_escape_literal rb lq v, pgconn_sync_set_client_encoding rb lq v,
        pgconn_external_encoding rb lq, pgconn_set_notice_receiver lq proc, pgconn_enter_pipeline_mode lq, pgconn_locreate rb lq v,
        pgconn_loopen rb lq argv, pgconn_loread rb lq v n}. m s = Some (Inl closed_error, s)) \<and>
    pgconn_finished_p s = Some (Inr Qtrue, s) \<and>
    pgconn_type_map_for_results_set (Typemap_arg T) s =
      Some (Inr (), s\<lparr> cs_this := (cs_this s)\<lparr> pc_type_map_for_results := T \<rparr> \<rparr>)"
proof -
  note c = closed_start [OF assms]
  have "pgconn_discard_results lq s = Some (Inl closed_error, s)" by (simp add: pgconn_discard_results_def c)
  then have async: "async_query env errs lq block nil_block send s = Some (Inl closed_error, s)" for send
    by (simp add: async_query_def cbind_def [of "pgconn_discard_results lq"])
  show ?thesis
    using assms async
    by (simp add: c split_beta pgconn_finish_def pgconn_status_def pgconn_db_def conn_string_def conn_int_def pgconn_port_def pgconn_server_version_def
        conn_version_def pgconn_socket_def pgconn_socket_io_def pgconn_error_message_def pgconn_sync_exec_def pgconn_sync_exec_params_def
        pgconn_sync_exec_prepared_def pgconn_sync_prepare_def pgconn_sync_describe_prepared_def pgconn_sync_describe_close_prepared_portal_def
        pgconn_sync_get_result_def pgconn_send_query_def pgconn_send_query_params_def pgconn_send_prepare_def pgconn_discard_results_def
        pgconn_async_exec_def pgconn_async_exec_params_def pgconn_is_busy_def pgconn_consume_input_def pgconn_sync_flush_def
        pgconn_sync_get_last_result_def pgconn_sync_put_copy_data_def pgconn_sync_put_copy_end_def pgconn_sync_get_copy_data_def
        pgconn_escape_literal_def escape_with_def pgconn_sync_set_client_encoding_def pgconn_external_encoding_def pgconn_set_notice_receiver_def
        pgconn_enter_pipeline_mode_def pipeline_call_def pgconn_locreate_def pgconn_loopen_def pgconn_loread_def)
      (simp add: pgconn_finished_p_def pgconn_type_map_for_results_set_def cbind_def pg_get_connection_def cret_def rb_check_frozen_def upd_conn_def)
qed

theorem closed_connection_raises_witness:
  "\<exists>t. pgconn_finish sample_lq (sample_connection 0 []) = Some (Inr Qnil, t) \<and> pgconn_finish sample_lq t = Some (Inl closed_error, t) \<and>
     pgconn_sync_exec sample_env \<lparr> err_classes = [], rb_hErrors = [] \<rparr> sample_hash sample_lq None ([Qnil], None) t = Some (Inl closed_error, t)"
proof -
  have "\<exists>t. pgconn_finish sample_lq (sample_connection 0 []) = Some (Inr Qnil, t) \<and> pc_pgconn (cs_this t) = None \<and> \<not> cs_frozen t"
    by (simp add: pgconn_finish_def cbind_def pg_get_connection_safe_def pg_get_connection_def rb_check_frozen_def cret_def upd_conn_def
        sample_connection_def connection_allocated_def pgconn_close_socket_io_def pg_unwrap_socket_io_def finish_pgconn_def pq_def)
  then obtain t where t: "pgconn_finish sample_lq (sample_connection 0 []) = Some (Inr Qnil, t)" "pc_pgconn (cs_this t) = None" "\<not> cs_frozen t"
    by blast
  show ?thesis
    using closed_connection_raises [OF t(2,3), of sample_lq sample_env "\<lparr> err_classes = [], rb_hErrors = [] \<rparr>" sample_hash None "([Qnil], None)"] t(1) by blast
qed

text \<open>\<open>external_encoding\<close> compares the name of the server's encoding with the table without a test for NULL, which libpq returns
  as long as the server has not reported it: on a connection that is not yet established, or has been reset and is connecting again,
  it reads through a NULL pointer.\<close>

theorem external_encoding_null:
  assumes "conn_inv env E {} None s" and "pc_pgconn (cs_this s) = Some a" and "\<not> cs_frozen s"
    and "PQparameterStatus lq (lit ''server_encoding'') (cs_world s) = None"
  shows "pgconn_external_encoding rb lq s = Some (Inl MemFault, s)"
proof -
  have "a \<in> cs_live s" using assms(1,2) by (simp add: conn_inv_def)
  then show ?thesis using assms(2-4)
    by (simp add: pgconn_external_encoding_def cbind_def pg_get_connection_safe_def pg_get_connection_def rb_check_frozen_def cret_def
        pq_get_def pq_def clift_def pg_get_pg_encname_as_rb_encoding_def del: lit_simps)
qed

definition connecting_lq :: "sample_world libpq" where
  "connecting_lq = sample_lq\<lparr> PQparameterStatus := (\<lambda>_ _. None) \<rparr>"

theorem external_encoding_null_witness:
  "pgconn_external_encoding rb_sample connecting_lq (sample_connection 0 []) = Some (Inl MemFault, sample_connection 0 [])"
  by (rule external_encoding_null [OF conn_inv_sample, of 0]) (simp_all add: sample_connection_def connecting_lq_def)

end
