(* ===== verification/PG_Conn_Trace.thy ===== *)
theory PG_Conn_Trace
  imports PG_Conn_Safety
begin

text \<open>
  The methods of \<open>ext/pg_connection.c\<close> that are left: tracing, and those that depend on the version of libpq
  (\<open>full_protocol_version\<close>, and \<open>backend_key\<close> and \<open>cancel\<close> of older versions); and the functions of the module \<open>PG\<close> in
  \<open>ext/pg.c\<close> that set up or ask libpq.
\<close>

section \<open>The rest of libpq and the system\<close>

text \<open>\<open>rb_fileno\<close> is the method \<open>fileno\<close> of a stream, \<open>None\<close> when there is none, \<open>c_dup\<close> and \<open>c_fdopen\<close> are of the system, and
  \<open>rb_io_new\<close> and \<open>rb_close\<close> are the Ruby methods. \<open>PQcancel\<close> returns its flag and the text it stores into the error buffer.\<close>

record pg_cancel =
  pcn_be_pid :: int
  pcn_be_key :: int

record 'w libpq_more = "'w libpq" +
  rb_fileno :: "rvalue \<Rightarrow> ('w \<Rightarrow> rvalue res \<times> 'w) option"
  c_dup :: "int \<Rightarrow> 'w \<Rightarrow> int \<times> 'w"
  c_fdopen :: "int \<Rightarrow> 'w \<Rightarrow> bool \<times> 'w"
  rb_io_new :: "int \<Rightarrow> 'w \<Rightarrow> rvalue res \<times> 'w"
  rb_close :: "rvalue \<Rightarrow> 'w \<Rightarrow> unit res \<times> 'w"
  PQtrace :: "'w \<Rightarrow> 'w"
  PQuntrace :: "'w \<Rightarrow> 'w"
  PQgetCancel :: "'w \<Rightarrow> pg_cancel option"
  PQcancel :: "pg_cancel \<Rightarrow> 'w \<Rightarrow> (int \<times> bytes) \<times> 'w"
  PQfullProtocolVersion :: "'w \<Rightarrow> int"
  PQlibVersion :: int
  PQisthreadsafe :: bool
  PQinitOpenSSL :: "int \<Rightarrow> int \<Rightarrow> 'w \<Rightarrow> 'w"
  PQinitSSL :: "int \<Rightarrow> 'w \<Rightarrow> 'w"

section \<open>Tracing\<close>

text \<open>The stream that \<open>fdopen\<close> makes is C memory; nothing closes it.\<close>

definition pgconn_trace :: "rb_api \<Rightarrow> ('w, 'z) libpq_more_scheme \<Rightarrow> rvalue \<Rightarrow> ('w, rvalue) cop" where
  "pgconn_trace rb lq stream =
     cbind pg_get_connection_safe (\<lambda>(this, conn).
     cbind rb_check_frozen (\<lambda>_. case rb_fileno lq stream of
         None \<Rightarrow> cerr (Raise ArgError ''stream does not respond to method: fileno'' [])
       | Some fileno_method \<Rightarrow>
           cbind (world fileno_method) (\<lambda>fileno.
             if fileno = Qnil then cerr (Raise ArgError ''can't get file descriptor from stream'' [])
             else
               cbind (clift (num2 32 (rb_dbl2int rb) fileno)) (\<lambda>old_fd.
               cbind (world (\<lambda>w. let (fd, w) = c_dup lq old_fd w in (Inr fd, w))) (\<lambda>new_fd.
               cbind (world (\<lambda>w. let (ok, w) = c_fdopen lq new_fd w in (Inr ok, w))) (\<lambda>new_fp.
                 if \<not> new_fp then cerr (Raise ArgError ''stream is not writable'' [])
                 else
                   cbind malloc (\<lambda>_.
                   cbind (world (rb_io_new lq new_fd)) (\<lambda>new_file.
                   cbind (upd_conn (\<lambda>c. c\<lparr> pc_trace_stream := new_file \<rparr>)) (\<lambda>_.
                   cbind (pq conn (\<lambda>w. ((), PQtrace lq w))) (\<lambda>_. cret Qnil))))))))))"

definition pgconn_untrace :: "('w, 'z) libpq_more_scheme \<Rightarrow> ('w, rvalue) cop" where
  "pgconn_untrace lq =
     cbind pg_get_connection_safe (\<lambda>(this, conn).
     cbind (pq conn (\<lambda>w. ((), PQuntrace lq w))) (\<lambda>_.
     cbind (world (rb_close lq (pc_trace_stream this))) (\<lambda>_.
     cbind (upd_conn (\<lambda>c. c\<lparr> pc_trace_stream := Qnil \<rparr>)) (\<lambda>_. cret Qnil))))"

section \<open>Versions of libpq\<close>

definition pgconn_full_protocol_version where
  "pgconn_full_protocol_version lq =
     conn_version (PQfullProtocolVersion lq) ''PQfullProtocolVersion() can't get protocol version''"

definition pgconn_backend_key :: "('w, 'z) libpq_more_scheme \<Rightarrow> ('w, rvalue) cop" where
  "pgconn_backend_key lq =
     cbind pg_get_pgconn (\<lambda>conn.
     cbind (pq_get conn (PQgetCancel lq)) (\<lambda>cancel. case cancel of
         None \<Rightarrow> pg_raise_conn_error PGError ''Invalid connection!''
       | Some c \<Rightarrow>
           cbind malloc (\<lambda>_.
           cbind (pq_get conn (PQbackendPID lq)) (\<lambda>pid.
             if pcn_be_pid c \<noteq> pid
             then cerr (Raise PGError ''Unexpected binary struct layout - please file a bug report at ruby-pg!'' [])
             else cbind free (\<lambda>_. cret (RInteger (pcn_be_key c)))))))"

text \<open>The buffer for the error message has 256 bytes.\<close>

definition pgconn_sync_cancel :: "('w, 'z) libpq_more_scheme \<Rightarrow> ('w, rvalue) cop" where
  "pgconn_sync_cancel lq =
     cbind pg_get_pgconn (\<lambda>conn.
     cbind (pq_get conn (PQgetCancel lq)) (\<lambda>cancel. case cancel of
         None \<Rightarrow> pg_raise_conn_error PGError ''Invalid connection!''
       | Some c \<Rightarrow>
           cbind malloc (\<lambda>_.
           cbind (world (\<lambda>w. let (r, w) = PQcancel lq c w in (Inr r, w))) (\<lambda>(ret, errbuf).
             if 256 \<le> length errbuf then cerr MemFault
             else
               let retval = if ret = 1 then Qnil else RString errbuf rb_ascii8bit_encindex in
               cbind free (\<lambda>_. cret retval)))))"

section \<open>Functions of the module\<close>

definition pg_s_library_version :: "('w, 'z) libpq_more_scheme \<Rightarrow> rvalue" where
  "pg_s_library_version lq = RInteger (PQlibVersion lq)"

definition pg_s_threadsafe_p :: "('w, 'z) libpq_more_scheme \<Rightarrow> rvalue" where
  "pg_s_threadsafe_p lq = (if PQisthreadsafe lq then Qtrue else Qfalse)"

definition pg_to_bool_int :: "rb_api \<Rightarrow> rvalue \<Rightarrow> int res" where
  "pg_to_bool_int rb value = (case TYPE_of value of
      T_FALSE \<Rightarrow> Inr 0
    | T_TRUE \<Rightarrow> Inr 1
    | _ \<Rightarrow> num2 32 (rb_dbl2int rb) value)"

definition pg_s_init_openssl :: "rb_api \<Rightarrow> ('w, 'z) libpq_more_scheme \<Rightarrow> rvalue \<Rightarrow> rvalue \<Rightarrow> ('w, rvalue) cop" where
  "pg_s_init_openssl rb lq do_ssl do_crypto =
     cbind (clift (pg_to_bool_int rb do_ssl)) (\<lambda>ssl.
     cbind (clift (pg_to_bool_int rb do_crypto)) (\<lambda>crypto.
     cbind (world (\<lambda>w. (Inr (), PQinitOpenSSL lq ssl crypto w))) (\<lambda>_. cret Qnil)))"

definition pg_s_init_ssl :: "rb_api \<Rightarrow> ('w, 'z) libpq_more_scheme \<Rightarrow> rvalue \<Rightarrow> ('w, rvalue) cop" where
  "pg_s_init_ssl rb lq do_ssl =
     cbind (clift (pg_to_bool_int rb do_ssl)) (\<lambda>ssl.
     cbind (world (\<lambda>w. (Inr (), PQinitSSL lq ssl w))) (\<lambda>_. cret Qnil))"

section \<open>They keep the invariant\<close>

definition libpq_more_ok :: "('w, 'z) libpq_more_scheme \<Rightarrow> bool" where
  "libpq_more_ok lq \<longleftrightarrow> (\<forall>v f w. rb_fileno lq v = Some f \<longrightarrow> safe (fst (f w))) \<and> (\<forall>d w. safe (fst (rb_io_new lq d w))) \<and>
     (\<forall>v w. safe (fst (rb_close lq v w))) \<and> (\<forall>c w r e w'. PQcancel lq c w = ((r, e), w') \<longrightarrow> length e < 256)"

lemma keeps_trace_stream [keeping]: "keeps (conn_inv env E P c) (upd_conn (\<lambda>this. this\<lparr> pc_trace_stream := v \<rparr>))"
  by (simp add: keeps_def cgood_def upd_conn_def conn_inv_def)

lemma keeps_pure_world: "keeps (conn_inv env E P c) (world (\<lambda>w. let (x, w') = f w in (Inr x, w')))"
  by (rule ci.keeps_world) (simp add: split_beta Let_def)

lemma safe_pg_to_bool_int: "safe (pg_to_bool_int rb v)"
  by (auto simp: pg_to_bool_int_def safe_num2 split: rb_type.split)

theorem diagnostics_safe:
  assumes "libpq_more_ok lq" and "conn_inv env E P c s"
  shows "cgood (conn_inv env E P c) (pgconn_trace rb lq v s)" and "cgood (conn_inv env E P c) (pgconn_untrace lq s)"
    and "cgood (conn_inv env E P c) (pgconn_full_protocol_version lq s)" and "cgood (conn_inv env E P c) (pgconn_backend_key lq s)"
    and "cgood (conn_inv env E P c) (pgconn_sync_cancel lq s)"
    and "cgood (conn_inv env E P c) (pg_s_init_openssl rb lq v v' s)" and "cgood (conn_inv env E P c) (pg_s_init_ssl rb lq v s)"
proof -
  have ok: "rb_fileno lq v = Some f \<Longrightarrow> safe (fst (f w))" "safe (fst (rb_io_new lq d w))" "safe (fst (rb_close lq v w))"
    "PQcancel lq c' w = ((r, e), w') \<Longrightarrow> length e < 256" for v f w d c' r e w'
    using assms(1) unfolding libpq_more_ok_def by blast+
  have cancel: "keeps (conn_inv env E P c) (cbind (world (\<lambda>w. let (r, w) = PQcancel lq c' w in (Inr r, w))) (\<lambda>(ret, errbuf).
      if 256 \<le> length errbuf then cerr MemFault
      else let retval = if ret = 1 then Qnil else RString errbuf rb_ascii8bit_encindex in cbind free (\<lambda>_. cret retval)))"
    for c c'
    using ok(4) [of c']
    by (fastforce simp: keeps_def cgood_def cbind_def world_def free_def cret_def Let_def conn_inv_def split: prod.split)
  note rules = ci.keeps_world ci.keeps_blocks keeps_pure_world safe_num2 safe_pg_to_bool_int cancel
  show "cgood (conn_inv env E P c) (pgconn_trace rb lq v s)"
    unfolding pgconn_trace_def by (intro keepsD [where J = "conn_inv env E P c" and s = s] assms(2) keeps_get_safe2 keeping rules; simp add: ok split_beta)
  show "cgood (conn_inv env E P c) (pgconn_untrace lq s)"
    unfolding pgconn_untrace_def by (intro keepsD [where J = "conn_inv env E P c" and s = s] assms(2) keeps_get_safe2 keeping rules; simp add: ok)
  show "cgood (conn_inv env E P c) (pgconn_full_protocol_version lq s)"
    unfolding pgconn_full_protocol_version_def conn_version_def by (intro keepsD [where J = "conn_inv env E P c" and s = s] assms(2) keeping)
  show "cgood (conn_inv env E P c) (pgconn_backend_key lq s)"
    unfolding pgconn_backend_key_def by (intro keepsD [where J = "conn_inv env E P c" and s = s] assms(2) keeping rules; simp)
  show "cgood (conn_inv env E P c) (pgconn_sync_cancel lq s)"
    unfolding pgconn_sync_cancel_def by (intro keepsD [where J = "conn_inv env E P c" and s = s] assms(2) keeping rules)
  show "cgood (conn_inv env E P c) (pg_s_init_openssl rb lq v v' s)" "cgood (conn_inv env E P c) (pg_s_init_ssl rb lq v s)"
    unfolding pg_s_init_openssl_def pg_s_init_ssl_def by (intro keepsD [where J = "conn_inv env E P c" and s = s] assms(2) keeping rules; simp)+
qed

section \<open>What they leave behind\<close>

text \<open>Every successful \<open>trace\<close> leaves a C stream that \<open>untrace\<close> does not close.\<close>

lemma trace_leaks_stream:
  assumes "pgconn_trace rb lq v s = Some (Inr x, t)" and "pgconn_untrace lq t = Some (Inr y, u)"
  shows "cs_blocks u = cs_blocks s + 1"
proof -
  have "cs_blocks t = cs_blocks s + 1"
    using assms(1)
    by (auto simp: pgconn_trace_def cbind_def pg_get_connection_safe_def pg_get_connection_def rb_check_frozen_def cret_def cerr_def clift_def
        world_def malloc_def upd_conn_def pq_def pg_raise_conn_error_def Let_def split: option.splits sum.splits prod.splits if_splits)
  moreover have "cs_blocks u = cs_blocks t"
    using assms(2)
    by (auto simp: pgconn_untrace_def cbind_def pg_get_connection_safe_def pg_get_connection_def rb_check_frozen_def cret_def cerr_def
        world_def upd_conn_def pq_def pg_raise_conn_error_def Let_def split: option.splits sum.splits prod.splits if_splits)
  ultimately show ?thesis by simp
qed

text \<open>\<open>backend_key\<close> keeps the \<open>PGcancel\<close> when it raises because of an unexpected layout; \<open>cancel\<close> always frees it.\<close>

lemma backend_key_leaks:
  assumes "conn_inv env E P None s" and "pc_pgconn (cs_this s) = Some a" and "PQgetCancel lq (cs_world s) = Some c"
  shows "\<exists>r. pgconn_backend_key lq s =
    Some (r, s\<lparr> cs_blocks := cs_blocks s + (if pcn_be_pid c = PQbackendPID lq (cs_world s) then 0 else 1) \<rparr>)"
proof -
  have "a \<in> cs_live s" using assms(1,2) by (simp add: conn_inv_def)
  then show ?thesis using assms(2,3)
    by (simp add: pgconn_backend_key_def cbind_def pg_get_pgconn_def pg_get_connection_def cret_def cerr_def pq_get_def pq_def malloc_def free_def)
qed

lemma cancel_frees:
  assumes "pgconn_sync_cancel lq s = Some (Inr r, t)"
  shows "cs_blocks t = cs_blocks s"
  using assms
  by (auto simp: pgconn_sync_cancel_def cbind_def pg_get_pgconn_def pg_get_connection_def cret_def cerr_def pg_raise_conn_error_def
      pq_get_def pq_def malloc_def free_def world_def Let_def split: option.splits sum.splits prod.splits if_splits)

end
