(* ===== verification/PG_Cancel.thy ===== *)
theory PG_Cancel
  imports PG_Connection
begin

text \<open>
  \<open>ext/pg_cancel_connection.c\<close>: \<open>PG::CancelConnection\<close>, a connection over which the query of another connection is cancelled.
  Its methods never wait in a loop, so they are total; libpq is a world as for the connections.
\<close>

section \<open>State\<close>

record t_pg_cancon =
  cc_pg_cancon :: "nat option"
  cc_socket_io :: rvalue
  cc_ruby_sd :: int

text \<open>The object, the \<open>PGcancelConn\<close>s that are not finished, and the world.\<close>

record 'w xst =
  xs_this :: t_pg_cancon
  xs_live :: "nat set"
  xs_next :: nat
  xs_world :: 'w

type_synonym ('w, 'a) xop = "'w xst \<Rightarrow> 'a res \<times> 'w xst"

definition xret :: "'a \<Rightarrow> ('w, 'a) xop" where
  "xret x = (\<lambda>s. (Inr x, s))"

definition xerr :: "rb_exc \<Rightarrow> ('w, 'a) xop" where
  "xerr e = (\<lambda>s. (Inl e, s))"

definition xbind :: "('w, 'a) xop \<Rightarrow> ('a \<Rightarrow> ('w, 'b) xop) \<Rightarrow> ('w, 'b) xop" where
  "xbind m f = (\<lambda>s. case m s of (Inl e, s') \<Rightarrow> (Inl e, s') | (Inr x, s') \<Rightarrow> f x s')"

record 'w libpq_cancel =
  x_io_close :: "rvalue \<Rightarrow> 'w \<Rightarrow> unit res \<times> 'w"
  x_for_fd :: "int \<Rightarrow> 'w \<Rightarrow> rvalue res \<times> 'w"
  PQcancelCreate :: "nat \<Rightarrow> 'w \<Rightarrow> bool \<times> 'w"
  PQcancelBlocking :: "'w \<Rightarrow> int \<times> 'w"
  PQcancelStart :: "'w \<Rightarrow> int \<times> 'w"
  PQcancelPoll :: "'w \<Rightarrow> int \<times> 'w"
  PQcancelStatus :: "'w \<Rightarrow> int"
  PQcancelSocket :: "'w \<Rightarrow> int"
  PQcancelErrorMessage :: "'w \<Rightarrow> bytes option"
  PQcancelReset :: "'w \<Rightarrow> 'w"
  PQcancelFinish :: "'w \<Rightarrow> 'w"

text \<open>A call of libpq with a \<open>PGcancelConn\<close>, which must not be finished.\<close>

definition cpq :: "nat \<Rightarrow> ('w \<Rightarrow> 'a \<times> 'w) \<Rightarrow> ('w, 'a) xop" where
  "cpq conn f = (\<lambda>s. if conn \<in> xs_live s then let (x, w) = f (xs_world s) in (Inr x, s\<lparr> xs_world := w \<rparr>) else (Inl MemFault, s))"

definition xworld :: "('w \<Rightarrow> 'a res \<times> 'w) \<Rightarrow> ('w, 'a) xop" where
  "xworld f = (\<lambda>s. let (x, w) = f (xs_world s) in (x, s\<lparr> xs_world := w \<rparr>))"

section \<open>Operations\<close>

definition pg_cancon_s_allocate :: "('w, unit) xop" where
  "pg_cancon_s_allocate = (\<lambda>s. (Inr (), s\<lparr> xs_this := \<lparr> cc_pg_cancon = None, cc_socket_io = Qfalse, cc_ruby_sd = 0 \<rparr> \<rparr>))"

definition pg_cancon_get_this :: "('w, t_pg_cancon) xop" where
  "pg_cancon_get_this = (\<lambda>s. (Inr (xs_this s), s))"

definition upd_cancon :: "(t_pg_cancon \<Rightarrow> t_pg_cancon) \<Rightarrow> ('w, unit) xop" where
  "upd_cancon f = (\<lambda>s. (Inr (), s\<lparr> xs_this := f (xs_this s) \<rparr>))"

definition pg_cancon_get_conn :: "('w, nat) xop" where
  "pg_cancon_get_conn = xbind pg_cancon_get_this (\<lambda>this. case cc_pg_cancon this of
      None \<Rightarrow> xerr (conn_error ''ConnectionBad'' ''PG::CancelConnection is closed'') | Some conn \<Rightarrow> xret conn)"

text \<open>\<open>pg_unwrap_socket_io\<close> on the IO of this object.\<close>

definition pg_cancon_close_socket_io :: "('w, 'z) libpq_cancel_scheme \<Rightarrow> ('w, unit) xop" where
  "pg_cancon_close_socket_io lq =
     xbind pg_cancon_get_this (\<lambda>this.
     xbind (if cc_socket_io this \<noteq> Qnil \<and> cc_socket_io this \<noteq> Qfalse then xworld (x_io_close lq (cc_socket_io this)) else xret ()) (\<lambda>_.
       upd_cancon (\<lambda>c. c\<lparr> cc_socket_io := Qnil \<rparr>)))"

text \<open>The argument is the \<open>PGconn\<close> of the connection, \<open>None\<close> when it is closed. A \<open>PGcancelConn\<close> that the object had before is not
  looked at.\<close>

definition pg_cancon_initialize :: "('w, 'z) libpq_cancel_scheme \<Rightarrow> nat option \<Rightarrow> ('w, unit) xop" where
  "pg_cancon_initialize lq rb_conn = (case rb_conn of
      None \<Rightarrow> xerr closed_error
    | Some conn \<Rightarrow> (\<lambda>s. let (made, w) = PQcancelCreate lq conn (xs_world s) in
        if made then (Inr (), s\<lparr> xs_this := (xs_this s)\<lparr> cc_pg_cancon := Some (xs_next s) \<rparr>, xs_live := insert (xs_next s) (xs_live s),
          xs_next := xs_next s + 1, xs_world := w \<rparr>)
        else (Inl (conn_error ''ConnectionBad'' ''PQcancelCreate failed''), s\<lparr> xs_this := (xs_this s)\<lparr> cc_pg_cancon := None \<rparr>, xs_world := w \<rparr>)))"

definition pg_cancon_sync_cancel :: "('w, 'z) libpq_cancel_scheme \<Rightarrow> ('w, rvalue) xop" where
  "pg_cancon_sync_cancel lq =
     xbind pg_cancon_get_conn (\<lambda>conn.
     xbind (pg_cancon_close_socket_io lq) (\<lambda>_.
     xbind (cpq conn (PQcancelBlocking lq)) (\<lambda>r.
       if r = 0 then xerr (conn_error ''ConnectionBad'' ''PQcancelBlocking %s'') else xret Qnil)))"

definition pg_cancon_start :: "('w, 'z) libpq_cancel_scheme \<Rightarrow> ('w, rvalue) xop" where
  "pg_cancon_start lq =
     xbind pg_cancon_get_conn (\<lambda>conn.
     xbind (pg_cancon_close_socket_io lq) (\<lambda>_.
     xbind (cpq conn (PQcancelStart lq)) (\<lambda>r.
       if r = 0 then xerr (conn_error ''ConnectionBad'' ''PQcancelStart %s'') else xret Qnil)))"

definition pg_cancon_error_message :: "('w, 'z) libpq_cancel_scheme \<Rightarrow> ('w, rvalue) xop" where
  "pg_cancon_error_message lq =
     xbind pg_cancon_get_conn (\<lambda>conn.
     xbind (cpq conn (\<lambda>w. (PQcancelErrorMessage lq w, w))) (\<lambda>p_err. xret (rb_str_new2 p_err)))"

definition pg_cancon_poll :: "('w, 'z) libpq_cancel_scheme \<Rightarrow> ('w, rvalue) xop" where
  "pg_cancon_poll lq =
     xbind pg_cancon_get_conn (\<lambda>conn.
     xbind (pg_cancon_close_socket_io lq) (\<lambda>_.
     xbind (cpq conn (PQcancelPoll lq)) (\<lambda>status. xret (RInteger status))))"

definition pg_cancon_status :: "('w, 'z) libpq_cancel_scheme \<Rightarrow> ('w, rvalue) xop" where
  "pg_cancon_status lq =
     xbind pg_cancon_get_conn (\<lambda>conn. xbind (cpq conn (\<lambda>w. (PQcancelStatus lq w, w))) (\<lambda>status. xret (RInteger status)))"

text \<open>\<open>PQcancelSocket\<close> is called without a test for NULL, for which libpq answers -1.\<close>

definition pg_cancon_socket_io :: "('w, 'z) libpq_cancel_scheme \<Rightarrow> ('w, rvalue) xop" where
  "pg_cancon_socket_io lq =
     xbind pg_cancon_get_this (\<lambda>this.
       if cc_socket_io this = Qnil \<or> cc_socket_io this = Qfalse then
         xbind (case cc_pg_cancon this of None \<Rightarrow> xret (- 1) | Some conn \<Rightarrow> cpq conn (\<lambda>w. (PQcancelSocket lq w, w))) (\<lambda>sd.
           if sd < 0 then xerr (conn_error ''ConnectionBad'' ''PQcancelSocket() can't get socket descriptor'')
           else
             xbind (upd_cancon (\<lambda>c. c\<lparr> cc_ruby_sd := sd \<rparr>)) (\<lambda>_.
             xbind (xworld (x_for_fd lq sd)) (\<lambda>io.
             xbind (upd_cancon (\<lambda>c. c\<lparr> cc_socket_io := io \<rparr>)) (\<lambda>_. xret io))))
       else xret (cc_socket_io this))"

definition pg_cancon_reset :: "('w, 'z) libpq_cancel_scheme \<Rightarrow> ('w, rvalue) xop" where
  "pg_cancon_reset lq =
     xbind pg_cancon_get_conn (\<lambda>conn.
     xbind (pg_cancon_close_socket_io lq) (\<lambda>_.
     xbind (cpq conn (\<lambda>w. ((), PQcancelReset lq w))) (\<lambda>_. xret Qnil)))"

text \<open>\<open>PQcancelFinish\<close> where the pointer is not NULL.\<close>

definition finish_cancon :: "('w, 'z) libpq_cancel_scheme \<Rightarrow> nat option \<Rightarrow> ('w, unit) xop" where
  "finish_cancon lq conn = (case conn of
      None \<Rightarrow> xret ()
    | Some a \<Rightarrow> xbind (cpq a (\<lambda>w. ((), PQcancelFinish lq w))) (\<lambda>_ s. (Inr (), s\<lparr> xs_live := xs_live s - {a} \<rparr>)))"

definition pg_cancon_finish :: "('w, 'z) libpq_cancel_scheme \<Rightarrow> ('w, rvalue) xop" where
  "pg_cancon_finish lq =
     xbind (pg_cancon_close_socket_io lq) (\<lambda>_.
     xbind pg_cancon_get_this (\<lambda>this.
     xbind (finish_cancon lq (cc_pg_cancon this)) (\<lambda>_.
     xbind (upd_cancon (\<lambda>c. c\<lparr> cc_pg_cancon := None \<rparr>)) (\<lambda>_. xret Qnil))))"

definition pg_cancon_gc_free :: "('w, 'z) libpq_cancel_scheme \<Rightarrow> ('w, unit) xop" where
  "pg_cancon_gc_free lq = xbind pg_cancon_get_this (\<lambda>this. finish_cancon lq (cc_pg_cancon this))"

section \<open>Sequences of calls\<close>

datatype cancon_call = C_init "nat option" | C_cancel | C_start | C_poll | C_status | C_error_message | C_socket_io | C_reset | C_finish

fun cancon_method :: "('w, 'z) libpq_cancel_scheme \<Rightarrow> cancon_call \<Rightarrow> ('w, unit) xop" where
  "cancon_method lq (C_init c) = pg_cancon_initialize lq c"
| "cancon_method lq C_cancel = xbind (pg_cancon_sync_cancel lq) (\<lambda>_. xret ())"
| "cancon_method lq C_start = xbind (pg_cancon_start lq) (\<lambda>_. xret ())"
| "cancon_method lq C_poll = xbind (pg_cancon_poll lq) (\<lambda>_. xret ())"
| "cancon_method lq C_status = xbind (pg_cancon_status lq) (\<lambda>_. xret ())"
| "cancon_method lq C_error_message = xbind (pg_cancon_error_message lq) (\<lambda>_. xret ())"
| "cancon_method lq C_socket_io = xbind (pg_cancon_socket_io lq) (\<lambda>_. xret ())"
| "cancon_method lq C_reset = xbind (pg_cancon_reset lq) (\<lambda>_. xret ())"
| "cancon_method lq C_finish = xbind (pg_cancon_finish lq) (\<lambda>_. xret ())"

text \<open>Ruby code that calls methods of the object, and goes on after an exception.\<close>

inductive cancon_reach :: "('w, 'z) libpq_cancel_scheme \<Rightarrow> 'w xst \<Rightarrow> bool" for lq where
  reach_new: "xs_this s = \<lparr> cc_pg_cancon = None, cc_socket_io = Qfalse, cc_ruby_sd = 0 \<rparr> \<Longrightarrow> xs_live s = {} \<Longrightarrow> cancon_reach lq s"
| reach_call: "cancon_reach lq s \<Longrightarrow> cancon_method lq call s = (r, t) \<Longrightarrow> cancon_reach lq t"

definition cancon_inv :: "'w xst \<Rightarrow> bool" where
  "cancon_inv s \<longleftrightarrow> set_option (cc_pg_cancon (xs_this s)) \<subseteq> xs_live s \<and> (\<forall>a\<in>xs_live s. a < xs_next s)"

definition libpq_cancel_ok :: "('w, 'z) libpq_cancel_scheme \<Rightarrow> bool" where
  "libpq_cancel_ok lq \<longleftrightarrow> (\<forall>v w. safe (fst (x_io_close lq v w))) \<and> (\<forall>d w. safe (fst (x_for_fd lq d w)))"

lemma io_safe:
  "libpq_cancel_ok lq \<Longrightarrow> x_io_close lq v w = (r, w') \<Longrightarrow> safe r" "libpq_cancel_ok lq \<Longrightarrow> x_for_fd lq d w = (r', w') \<Longrightarrow> safe r'"
  by (metis fst_conv libpq_cancel_ok_def)+

lemma close_socket_inv:
  assumes "libpq_cancel_ok lq" "cancon_inv s" "pg_cancon_close_socket_io lq s = (r, t)"
  shows "safe r \<and> cancon_inv t \<and> xs_live t = xs_live s \<and> cc_pg_cancon (xs_this t) = cc_pg_cancon (xs_this s)"
  using assms io_safe(1) [OF assms(1)]
  by (auto simp: pg_cancon_close_socket_io_def xbind_def pg_cancon_get_this_def upd_cancon_def xret_def xworld_def cancon_inv_def Let_def safe_iff
      split: if_splits prod.splits sum.splits)

text \<open>The methods that close the socket and then call libpq with the \<open>PGcancelConn\<close>.\<close>

lemma closing_call_inv:
  assumes "libpq_cancel_ok lq" "cancon_inv s"
    and "xbind pg_cancon_get_conn (\<lambda>conn. xbind (pg_cancon_close_socket_io lq) (\<lambda>_. xbind (cpq conn f) (\<lambda>r s. (g r, s)))) s = (r, t)"
    and "\<And>x. safe (g x :: unit res)"
  shows "safe r \<and> cancon_inv t"
proof (cases "cc_pg_cancon (xs_this s)")
  case None
  then show ?thesis using assms(2,3) by (auto simp: xbind_def pg_cancon_get_conn_def pg_cancon_get_this_def xerr_def)
next
  case (Some a)
  obtain r' s' where c: "pg_cancon_close_socket_io lq s = (r', s')" by fastforce
  note inv = close_socket_inv [OF assms(1,2) c]
  have "a \<in> xs_live s'" using Some inv assms(2) by (auto simp: cancon_inv_def)
  then show ?thesis using assms(3,4) Some c inv
    by (cases r') (auto simp: xbind_def pg_cancon_get_conn_def pg_cancon_get_this_def xret_def cpq_def Let_def cancon_inv_def safe_iff split: prod.splits)
qed

lemma cancon_method_inv:
  assumes "libpq_cancel_ok lq" "cancon_inv s" "cancon_method lq call s = (r, t)"
  shows "safe r \<and> cancon_inv t"
proof (cases call)
  case (C_init c)
  then show ?thesis using assms(2,3)
    by (cases c) (auto simp: pg_cancon_initialize_def xerr_def Let_def cancon_inv_def less_Suc_eq split: prod.splits if_splits)
next
  case C_socket_io
  then show ?thesis using assms(2,3) io_safe(2) [OF assms(1)]
    by (auto simp: pg_cancon_socket_io_def xbind_def pg_cancon_get_this_def upd_cancon_def xret_def xworld_def cancon_inv_def Let_def safe_iff
        xerr_def cpq_def split: if_splits prod.splits sum.splits option.splits)
next
  case C_finish
  obtain r' s' where c: "pg_cancon_close_socket_io lq s = (r', s')" by fastforce
  note inv = close_socket_inv [OF assms(1,2) c]
  show ?thesis using assms(3) C_finish c inv
    by (cases r'; cases "cc_pg_cancon (xs_this s)")
      (auto simp: pg_cancon_finish_def xbind_def pg_cancon_get_this_def upd_cancon_def xret_def finish_cancon_def cpq_def Let_def cancon_inv_def safe_iff)
next
  case C_status
  then show ?thesis using assms(2,3)
    by (cases "cc_pg_cancon (xs_this s)") (auto simp: pg_cancon_status_def xbind_def pg_cancon_get_conn_def pg_cancon_get_this_def xerr_def xret_def cpq_def cancon_inv_def)
next
  case C_error_message
  then show ?thesis using assms(2,3)
    by (cases "cc_pg_cancon (xs_this s)")
      (auto simp: pg_cancon_error_message_def xbind_def pg_cancon_get_conn_def pg_cancon_get_this_def xerr_def xret_def cpq_def cancon_inv_def)
next
  case C_cancel
  have "cancon_method lq C_cancel = xbind pg_cancon_get_conn (\<lambda>conn. xbind (pg_cancon_close_socket_io lq) (\<lambda>_. xbind (cpq conn (PQcancelBlocking lq)) (\<lambda>r s.
      (if r = 0 then Inl (conn_error ''ConnectionBad'' ''PQcancelBlocking %s'') else Inr (), s))))"
    by (auto simp: pg_cancon_sync_cancel_def xbind_def xerr_def xret_def fun_eq_iff split: prod.split sum.split)
  then show ?thesis using assms(3) C_cancel by (intro closing_call_inv [OF assms(1,2)]) (auto split: if_splits)
next
  case C_start
  have "cancon_method lq C_start = xbind pg_cancon_get_conn (\<lambda>conn. xbind (pg_cancon_close_socket_io lq) (\<lambda>_. xbind (cpq conn (PQcancelStart lq)) (\<lambda>r s.
      (if r = 0 then Inl (conn_error ''ConnectionBad'' ''PQcancelStart %s'') else Inr (), s))))"
    by (auto simp: pg_cancon_start_def xbind_def xerr_def xret_def fun_eq_iff split: prod.split sum.split)
  then show ?thesis using assms(3) C_start by (intro closing_call_inv [OF assms(1,2)]) (auto split: if_splits)
next
  case C_poll
  have "cancon_method lq C_poll = xbind pg_cancon_get_conn (\<lambda>conn. xbind (pg_cancon_close_socket_io lq) (\<lambda>_. xbind (cpq conn (PQcancelPoll lq)) (\<lambda>r s. (Inr (), s))))"
    by (auto simp: pg_cancon_poll_def xbind_def xret_def fun_eq_iff split: prod.split sum.split)
  then show ?thesis using assms(3) C_poll by (intro closing_call_inv [OF assms(1,2)]) auto
next
  case C_reset
  have "cancon_method lq C_reset = xbind pg_cancon_get_conn (\<lambda>conn. xbind (pg_cancon_close_socket_io lq) (\<lambda>_.
      xbind (cpq conn (\<lambda>w. ((), PQcancelReset lq w))) (\<lambda>r s. (Inr (), s))))"
    by (auto simp: pg_cancon_reset_def xbind_def xret_def fun_eq_iff split: prod.split sum.split)
  then show ?thesis using assms(3) C_reset by (intro closing_call_inv [OF assms(1,2)]) auto
qed

lemma cancon_reach_inv:
  assumes "libpq_cancel_ok lq" "cancon_reach lq s"
  shows "cancon_inv s"
  using assms(2)
proof (induction rule: cancon_reach.induct)
  case (reach_call s call r t)
  then show ?case using cancon_method_inv [OF assms(1)] by blast
qed (auto simp: cancon_inv_def)

text \<open>Claim C29. In every state that calls of its methods lead to, in any order and with exceptions rescued in between, a method of a
  \<open>PG::CancelConnection\<close> uses a \<open>PGcancelConn\<close> only as long as it is not finished; after \<open>finish\<close> the methods raise \<open>PG::ConnectionBad\<close>
  until the object is initialized again.\<close>

theorem cancel_connection_safe:
  assumes "libpq_cancel_ok lq" and "cancon_reach lq s"
  shows "safe (fst (cancon_method lq call s)) \<and>
    (pg_cancon_finish lq s = (Inr Qnil, t) \<and> call \<in> {C_cancel, C_start, C_poll, C_status, C_error_message, C_reset} \<longrightarrow>
      cancon_method lq call t = (Inl (conn_error ''ConnectionBad'' ''PG::CancelConnection is closed''), t))"
proof (intro conjI impI)
  show "safe (fst (cancon_method lq call s))"
    using cancon_method_inv [OF assms(1) cancon_reach_inv [OF assms], of call] by (cases "cancon_method lq call s") auto
  assume f: "pg_cancon_finish lq s = (Inr Qnil, t) \<and> call \<in> {C_cancel, C_start, C_poll, C_status, C_error_message, C_reset}"
  then have "cc_pg_cancon (xs_this t) = None"
    by (auto simp: pg_cancon_finish_def xbind_def upd_cancon_def xret_def split: prod.splits sum.splits)
  then have "pg_cancon_get_conn t = (Inl (conn_error ''ConnectionBad'' ''PG::CancelConnection is closed''), t)"
    by (simp add: xbind_def pg_cancon_get_conn_def pg_cancon_get_this_def xerr_def)
  then show "cancon_method lq call t = (Inl (conn_error ''ConnectionBad'' ''PG::CancelConnection is closed''), t)"
    using f by (auto simp: pg_cancon_sync_cancel_def pg_cancon_start_def pg_cancon_poll_def pg_cancon_status_def pg_cancon_error_message_def
        pg_cancon_reset_def xbind_def)
qed

definition sample_cancel_lq :: "unit libpq_cancel" where
  "sample_cancel_lq = \<lparr> x_io_close = (\<lambda>_ w. (Inr (), w)), x_for_fd = (\<lambda>_ w. (Inr (RObject 9), w)), PQcancelCreate = (\<lambda>_ w. (True, w)),
     PQcancelBlocking = (\<lambda>w. (1, w)), PQcancelStart = (\<lambda>w. (1, w)), PQcancelPoll = (\<lambda>w. (3, w)), PQcancelStatus = (\<lambda>_. 0),
     PQcancelSocket = (\<lambda>_. 5), PQcancelErrorMessage = (\<lambda>_. None), PQcancelReset = (\<lambda>w. w), PQcancelFinish = (\<lambda>w. w) \<rparr>"

definition sample_cancel :: "unit xst" where
  "sample_cancel = \<lparr> xs_this = \<lparr> cc_pg_cancon = None, cc_socket_io = Qfalse, cc_ruby_sd = 0 \<rparr>, xs_live = {}, xs_next = 0, xs_world = () \<rparr>"

theorem cancel_connection_safe_witness:
  "safe (fst (cancon_method sample_cancel_lq C_cancel (snd (pg_cancon_initialize sample_cancel_lq (Some 0) sample_cancel))))"
proof -
  have "libpq_cancel_ok sample_cancel_lq" by (simp add: libpq_cancel_ok_def sample_cancel_lq_def)
  moreover have "cancon_reach sample_cancel_lq sample_cancel" by (rule reach_new) (simp_all add: sample_cancel_def)
  then have "cancon_reach sample_cancel_lq (snd (pg_cancon_initialize sample_cancel_lq (Some 0) sample_cancel))"
    using reach_call [of sample_cancel_lq sample_cancel "C_init (Some 0)"] by (metis cancon_method.simps(1) prod.collapse)
  ultimately show ?thesis using cancel_connection_safe by blast
qed

text \<open>\<open>initialize\<close> on an object that is initialized already drops its \<open>PGcancelConn\<close> without finishing it: no later call can.\<close>

lemma cancon_initialize_twice:
  "xs_live (snd (pg_cancon_finish sample_cancel_lq (snd (pg_cancon_initialize sample_cancel_lq (Some 0)
     (snd (pg_cancon_initialize sample_cancel_lq (Some 0) sample_cancel)))))) = {0}"
  by (auto simp: pg_cancon_initialize_def pg_cancon_finish_def pg_cancon_close_socket_io_def pg_cancon_get_this_def upd_cancon_def xbind_def xret_def
      finish_cancon_def cpq_def sample_cancel_def sample_cancel_lq_def)

end
