(* ===== verification/Spec2Isabelle.thy ===== *)
theory Spec2Isabelle
  imports PG_Conn_Behaviour PG_Conn_Trace PG_Cancel
begin

text \<open>
  A verification development for the C extension of ruby-pg, the Ruby interface to PostgreSQL. It models the files under
  \<open>src/ext/\<close> and proves what makes them correct.

  \<^bold>\<open>The program.\<close> The extension wraps libpq in Ruby classes. \<open>PG::Connection\<close> (\<open>pg_connection.c\<close>) owns a \<open>PGconn\<close> and sends
  queries, in a blocking form and in an asynchronous form that waits for the socket with Ruby's scheduler.
  \<open>PG::CancelConnection\<close> (\<open>pg_cancel_connection.c\<close>) owns a \<open>PGcancelConn\<close>. \<open>PG::Result\<close> (\<open>pg_result.c\<close>) owns a \<open>PGresult\<close>, and
  \<open>PG::Tuple\<close> (\<open>pg_tuple.c\<close>) is a row of it that converts its values on demand. Coders (\<open>pg_coder.c\<close>) convert between Ruby values
  and the text and binary formats of PostgreSQL: \<open>pg_text_encoder.c\<close>, \<open>pg_text_decoder.c\<close>, \<open>pg_binary_encoder.c\<close>,
  \<open>pg_binary_decoder.c\<close>, the rows of COPY in \<open>pg_copy_coder.c\<close> and composite types in \<open>pg_record_coder.c\<close>. Type maps
  (\<open>pg_type_map.c\<close> and its relatives) choose the coder of a query parameter or of a result column. \<open>pg_errors.c\<close> maps an
  SQLSTATE to an exception class, \<open>pg_util.c\<close> has base64 and network byte order, \<open>pg.c\<close> growing strings and the table of encodings.

  \<^bold>\<open>The form of the model.\<close> A C function is a HOL function of the same name. An exception, \<open>rb_bug\<close> and an access
  outside of an object are the values \<open>Raise\<close>, \<open>Rb_bug\<close> and \<open>MemFault\<close> of \<open>rb_exc\<close> in the sum type \<open>'a res\<close>; \<open>safe\<close> says that
  a result is neither of the last two. Bytes are \<open>8 word\<close>s, OIDs and the accumulators of the C code are words of their width, a Ruby
  Integer is an \<open>int\<close> and the conversions \<open>NUM2INT\<close> and the like check the range. Loops are structural recursions or have a termination
  proof; the loops that wait for the server may run forever and are \<open>partial_function (option)\<close>, whose value \<open>None\<close> is that
  the method does not return. There is no fuel.

  \<^item> \<open>PG_Prelude\<close>: bytes, Ruby values, errors and the Ruby C API as the record \<open>rb_api\<close>. \<open>PG_Util\<close>: \<open>pg_util.c\<close> and \<open>pg_util.h\<close>; base64
    encoding and decoding are equal to a textbook definition, also in place.
  \<^item> \<open>PG_Buffer\<close>: \<open>pg_rb_str_ensure_capa\<close> and its macros on a string with explicit capacity. \<open>PG_Escape\<close>: escaping
    in place from right to left, as the array, literal, COPY and record encoders do it, refines a list function.
  \<^item> \<open>PG_Coder\<close>: the structs of \<open>pg.h\<close>, the dispatch to C and Ruby coders and \<open>PG::Coder#encode\<close> with its two passes. The locale
    \<open>two_pass\<close> is the contract of an encoder function: the second pass stores at most what the first pass announced. The locale
    \<open>ruby\<close> holds the promises of the Ruby API; every encoder is a sublocale instance of \<open>two_pass\<close>.
  \<^item> \<open>PG_Text_Encoder\<close>, \<open>PG_Text_Decoder\<close>, \<open>PG_Binary_Encoder\<close>, \<open>PG_Binary_Decoder\<close>: all coder functions. No encoder overflows its
    string, the array encoder refines a specification of array texts, the decoders stay in their input, and arrays,
    integers, dates, timestamps and identifiers survive a round trip.
  \<^item> \<open>PG_Type_Map\<close>: the six type maps and their caches. The locale \<open>direct_cache\<close> is a direct mapped cache of a function; its two
    interpretations show that the caches of \<open>TypeMapByOid\<close> and \<open>TypeMapByClass\<close> are invisible in all reachable states.
  \<^item> \<open>PG_Copy_Coder\<close>, \<open>PG_Record_Coder\<close>: round trips and memory safety of rows and records. \<open>PG_Errors\<close>: the error classes.
  \<^item> \<open>PG_Result\<close>: results and tuples in an explicit store with the heap of \<open>PGresult\<close>s and the memory that is
    published to the garbage collector. \<open>PG_Result_Safety\<close>, \<open>PG_Result_Stream\<close> and \<open>PG_Result_Methods\<close> define the invariant \<open>rinv\<close> of
    all objects (no dangling or shared \<open>PGresult\<close>, names and type maps that fit, exact accounting) and show that every method and the streaming
    methods keep it. \<open>PG_Tuple\<close>: the same for tuples, and that they have the values of their row.
  \<^item> \<open>PG_Query_Params\<close>: \<open>alloc_query_params\<close> with its stack pool, heap pool and chunks. What libpq reads through the arrays
    of pointers afterwards is the specification \<open>query_params_spec\<close>, which knows nothing of memory.
  \<^item> \<open>PG_Connection\<close>, \<open>PG_Conn_Query\<close>, \<open>PG_Conn_Misc\<close>: the methods of \<open>PG::Connection\<close>. A method is a function \<open>('w, 'a) cop\<close> on
    the store \<open>'w cst\<close> of one connection object: its struct \<open>t_pg_connection\<close>, the \<open>PGconn\<close>s that are not finished, the blocks of C memory, the
    results, and the world \<open>'w\<close>, which is libpq's state with the server and the sockets.
  \<^item> \<open>PG_Conn_Invariant\<close>, \<open>PG_Conn_Safety\<close>: the invariant \<open>conn_inv\<close> of a connection with its results (the object has the only
    unfinished \<open>PGconn\<close>; the coders and type maps are safe to call). The locale \<open>store_invariant\<close> says which parts of the store an invariant leaves
    open; its lemmas and those of the collection \<open>keeping\<close> carry the proofs that the methods keep it.
  \<^item> \<open>PG_Conn_Behaviour\<close>: waiting ends when only finitely much can happen (\<open>finite_traffic\<close>), \<open>get_last_result\<close> is that of the last result
    alone, \<open>exec_params\<close> sends its specification, rows go through COPY, encodings, the mode of large objects, closed connections.
  \<^item> \<open>PG_Conn_Trace\<close>: tracing, methods for some versions of libpq, functions of the module \<open>PG\<close>. \<open>PG_Cancel\<close>: the reachable states of
    \<open>PG::CancelConnection\<close> are safe.

  \<^bold>\<open>Parameters.\<close> Code outside of the extension is an argument: the Ruby C API (\<open>rb_api\<close>, with the promises \<open>rb_api_ok\<close>), Ruby
  methods of type maps (\<open>tm_api\<close>), both in \<open>env\<close>; Hashes among the parameters (\<open>rb_hashes\<close>); the entries of the generated
  file \<open>errorcodes.def\<close>; and libpq, the clock and \<open>rb_io_wait\<close> (\<open>libpq_conn\<close>, \<open>libpq_query\<close>, \<open>libpq\<close>, \<open>libpq_more\<close> and \<open>libpq_cancel\<close>, each function a map of
  the world to its answer and the next world). The promises of libpq are \<open>libpq_conn_ok\<close>, \<open>libpq_query_ok\<close>, \<open>libpq_ok\<close>, \<open>libpq_more_ok\<close> and \<open>libpq_cancel_ok\<close>:
  columns have names, a SQLSTATE is not empty, a buffer is filled with at most the length that was
  passed, called Ruby code raises exceptions and nothing worse. Each has a concrete instance that the witnesses evaluate (\<open>rb_sample\<close>, \<open>tm_sample\<close>, \<open>sample_env\<close>,
  \<open>sample_lq\<close>, \<open>sample_cancel_lq\<close>).

  \<^bold>\<open>Assumptions.\<close> The system has 64 bit pointers and longs. Strings and Arrays have less than \<open>2 ^ 31\<close> elements where the C
  code keeps their length in an \<open>int\<close>; client encodings are compatible with ASCII; the names of columns can be made Symbols. While a method
  is in a call of libpq or of a Ruby conversion, no other thread, notice or conversion uses the same connection or result; blocks that a method
  yields to may use both, where the theorems quantify over the block. The results that the streaming methods get are those of
  libpq's single row or chunked mode.

  \<^bold>\<open>What the model shows of the code's defects.\<close> Some theorems state that a function leaves its memory: the text array decoder on
  unterminated nested arrays, \<open>FromBase64\<close> around a text encoder, \<open>each\<close> with a block that clears the result, \<open>fields\<close> after a failed streaming, \<open>external_encoding\<close>
  on a connection that is not established. Others show leaks and states left behind: \<open>lo_lseek\<close>, \<open>trace\<close>, \<open>backend_key\<close>, \<open>initialize\<close> of a cancel connection,
  results from NULL.

  \<^bold>\<open>Not modelled.\<close> The waits for the socket on Windows and on old versions of Ruby (\<open>pg_rb_io_wait\<close>), since they are the system's \<open>select\<close>; \<open>gvl_wrappers.c\<close>,
  macro generated stubs that release the lock of the Ruby VM around one call; the registration of classes, methods and constants (\<open>init_pg_*\<close>, \<open>Init_pg_ext\<close>); the callbacks
  with which the garbage collector marks, moves and measures objects; the Ruby files under \<open>lib/\<close>; of the type maps, \<open>fit_to_result\<close> of \<open>TypeMapInRuby\<close>, where Ruby
  code decides the result, and the lists of coders for inspection; digits of doubles, which are a parameter; build files and tests.
\<close>

end
